(* ===== verification/Prelude.thy ===== *)
theory Prelude
  imports Main "HOL-Library.Word"
begin

section \<open>Shared prelude\<close>

text \<open>
  What every component theory uses: the type names of the model, Rust's \<open>Result\<close> as a sum
  with the error on the left, the iterator adapters of the standard library, the generic list
  lemmas the components share, and the contract of a state machine that keeps an invariant and
  only grows. Unsigned machine integers are natural numbers; where the source checks or
  truncates a width, the bound is written out.
\<close>

named_theorems wire "equations that run the byte codecs on symbolic input"
named_theorems inv_intros "introduction rules of the components' invariants"

type_synonym byte = "8 word"
type_synonym bytes = "byte list"
type_synonym node_id = nat
type_synonym request_id = nat
type_synonym hash = bytes

subsection \<open>Machine-integer bounds\<close>

abbreviation u32_bound :: nat where "u32_bound \<equiv> 2 ^ 32"
abbreviation u64_bound :: nat where "u64_bound \<equiv> 2 ^ 64"
abbreviation u128_bound :: nat where "u128_bound \<equiv> 2 ^ 128"

text \<open>\<open>checked_add\<close> on \<open>u64\<close> and \<open>usize\<close> (64 bits).\<close>

definition checked_add :: "nat \<Rightarrow> nat \<Rightarrow> nat option" where
  "checked_add a b = (if a + b < u64_bound then Some (a + b) else None)"

text \<open>\<open>saturating_add\<close>, and the wrapping \<open>fetch_add\<close> and \<open>fetch_sub\<close> of an \<open>AtomicU64\<close>.\<close>

definition saturating_add :: "nat \<Rightarrow> nat \<Rightarrow> nat" where
  "saturating_add a b = min (a + b) (u64_bound - 1)"

definition fetch_add :: "nat \<Rightarrow> nat \<Rightarrow> nat" where
  "fetch_add a b = (a + b) mod u64_bound"

definition fetch_sub :: "nat \<Rightarrow> nat \<Rightarrow> nat" where
  "fetch_sub a b = (a + (u64_bound - b)) mod u64_bound"

lemma fetch_add_exact: "a + b < u64_bound \<Longrightarrow> fetch_add a b = a + b"
  by (simp add: fetch_add_def)

lemma fetch_sub_exact: "b \<le> a \<Longrightarrow> a < u64_bound \<Longrightarrow> fetch_sub a b = a - b"
proof -
  assume "b \<le> a" "a < u64_bound"
  then have "a + (u64_bound - b) = (a - b) + u64_bound" "a - b < u64_bound" by auto
  then show ?thesis by (simp only: fetch_sub_def mod_add_self2 mod_less)
qed

text \<open>\<open>checked_sub\<close>: no value below zero.\<close>

definition checked_sub :: "nat \<Rightarrow> nat \<Rightarrow> nat option" where
  "checked_sub a b = (if b \<le> a then Some (a - b) else None)"

lemma checked_add_Some [simp]: "checked_add a b = Some c \<longleftrightarrow> c = a + b \<and> a + b < u64_bound"
  by (auto simp: checked_add_def)

lemma checked_sub_Some [simp]: "checked_sub a b = Some c \<longleftrightarrow> b \<le> a \<and> c = a - b"
  by (auto simp: checked_sub_def)

subsection \<open>Results\<close>

text \<open>The \<open>?\<close> operator: continue on success, return the error otherwise.\<close>

fun and_then :: "'e + 'a \<Rightarrow> ('a \<Rightarrow> 'e + 'b) \<Rightarrow> 'e + 'b" where
  "and_then (Inl e) f = Inl e"
| "and_then (Inr a) f = f a"

fun map_err :: "('e \<Rightarrow> 'f) \<Rightarrow> 'e + 'a \<Rightarrow> 'f + 'a" where
  "map_err f (Inl e) = Inl (f e)"
| "map_err f (Inr a) = Inr a"

fun ok_or :: "'e \<Rightarrow> 'a option \<Rightarrow> 'e + 'a" where
  "ok_or e None = Inl e"
| "ok_or e (Some a) = Inr a"

fun ok :: "'e + 'a \<Rightarrow> 'a option" where
  "ok (Inl e) = None"
| "ok (Inr a) = Some a"

lemma and_then_Inr [simp]: "and_then m f = Inr b \<longleftrightarrow> (\<exists>a. m = Inr a \<and> f a = Inr b)"
  by (cases m) auto

lemma and_then_Inl: "and_then m f = Inl e \<longleftrightarrow> m = Inl e \<or> (\<exists>a. m = Inr a \<and> f a = Inl e)"
  by (cases m) auto

lemma map_err_Inr [simp]: "map_err f m = Inr a \<longleftrightarrow> m = Inr a"
  by (cases m) auto

lemma ok_or_Inr [simp]: "ok_or e m = Inr a \<longleftrightarrow> m = Some a"
  by (cases m) auto

lemma ok_or_Inl [simp]: "ok_or e m = Inl e' \<longleftrightarrow> m = None \<and> e' = e"
  by (cases m) auto

lemma ok_Some [simp]: "ok m = Some a \<longleftrightarrow> m = Inr a"
  by (cases m) auto

lemma ok_None: "ok m = None \<longleftrightarrow> (\<exists>e. m = Inl e)"
  by (cases m) auto

text \<open>\<open>collect::<Result<Vec<_>, _>>()\<close>: the first error wins.\<close>

fun sequence :: "('e + 'a) list \<Rightarrow> 'e + 'a list" where
  "sequence [] = Inr []"
| "sequence (r # rs) = and_then r (\<lambda>a. and_then (sequence rs) (\<lambda>as. Inr (a # as)))"

lemma sequence_Inr: "sequence rs = Inr as \<longleftrightarrow> rs = map Inr as"
  by (induction rs arbitrary: as) (auto simp: Cons_eq_map_conv)

lemma sequence_map_Inr [simp]: "sequence (map (\<lambda>x. Inr (f x)) xs) = Inr (map f xs)"
  by (induction xs) auto

text \<open>\<open>Iterator::try_fold\<close>, a loop that returns on the first error.\<close>

fun try_fold :: "('a \<Rightarrow> 's \<Rightarrow> 'e + 's) \<Rightarrow> 'a list \<Rightarrow> 's \<Rightarrow> 'e + 's" where
  "try_fold f [] s = Inr s"
| "try_fold f (x # xs) s = and_then (f x s) (try_fold f xs)"

lemma try_fold_append [simp]: "try_fold f (xs @ ys) s = and_then (try_fold f xs s) (try_fold f ys)"
proof (induction xs arbitrary: s)
  case (Cons x xs)
  then show ?case by (cases "f x s") auto
qed simp

lemma try_fold_inv:
  assumes "\<And>x s t. x \<in> set xs \<Longrightarrow> P s \<Longrightarrow> f x s = Inr t \<Longrightarrow> P t"
  shows "P s \<Longrightarrow> try_fold f xs s = Inr t \<Longrightarrow> P t"
  using assms by (induction xs arbitrary: s) auto

text \<open>\<open>Iterator::filter_map\<close>.\<close>

fun filter_map :: "('a \<Rightarrow> 'b option) \<Rightarrow> 'a list \<Rightarrow> 'b list" where
  "filter_map f [] = []"
| "filter_map f (x # xs) = (case f x of None \<Rightarrow> filter_map f xs | Some y \<Rightarrow> y # filter_map f xs)"

lemma filter_map_append [simp]: "filter_map f (xs @ ys) = filter_map f xs @ filter_map f ys"
  by (induction xs) (auto split: option.splits)

lemma set_filter_map: "set (filter_map f xs) = {y. \<exists>x \<in> set xs. f x = Some y}"
  by (induction xs) (auto split: option.splits)

lemma filter_map_conv: "filter_map f xs = map (the \<circ> f) (filter (\<lambda>x. f x \<noteq> None) xs)"
  by (induction xs) (auto split: option.splits)

lemma length_filter_map: "length (filter_map f xs) = length (filter (\<lambda>x. f x \<noteq> None) xs)"
  by (simp add: filter_map_conv)

lemma filter_map_map: "filter_map f (map g xs) = filter_map (\<lambda>x. f (g x)) xs"
  by (induction xs) (auto split: option.splits)

lemma filter_map_cong: "(\<And>x. x \<in> set xs \<Longrightarrow> f x = g x) \<Longrightarrow> filter_map f xs = filter_map g xs"
  by (induction xs) (auto split: option.splits)

lemma filter_map_Nil: "\<forall>x \<in> set xs. f x = None \<Longrightarrow> filter_map f xs = []"
  by (induction xs) auto

lemma filter_map_le: "length (filter_map f xs) \<le> length xs"
  by (simp add: length_filter_map)

lemma map_snd_enumerate: "map (\<lambda>sn. f (snd sn)) (enumerate n xs) = map f xs"
  by (induction xs arbitrary: n) auto

lemma snd_enumerate: "sn \<in> set (enumerate n xs) \<Longrightarrow> snd sn \<in> set xs"
  by (induction xs arbitrary: n) auto

lemma length_filter_enumerate: "length (filter (\<lambda>sv. P (snd sv)) (enumerate n xs)) = length (filter P xs)"
  by (induction xs arbitrary: n) auto

lemma find_SomeD: "find P xs = Some x \<Longrightarrow> x \<in> set xs \<and> P x"
  by (auto simp: find_Some_iff)

lemma find_Some_ex: "x \<in> set xs \<Longrightarrow> P x \<Longrightarrow> \<exists>y. find P xs = Some y \<and> y \<in> set xs \<and> P y"
  using find_SomeD [of P xs] by (cases "find P xs") (auto simp: find_None_iff)

text \<open>\<open>Iterator::position\<close>.\<close>

fun position :: "('a \<Rightarrow> bool) \<Rightarrow> 'a list \<Rightarrow> nat option" where
  "position P [] = None"
| "position P (x # xs) = (if P x then Some 0 else map_option Suc (position P xs))"

lemma position_Some:
  "position P xs = Some i \<Longrightarrow> i < length xs \<and> P (xs ! i) \<and> (\<forall>j < i. \<not> P (xs ! j))"
proof (induction xs arbitrary: i)
  case (Cons x xs)
  then show ?case by (cases i) (auto simp: nth_Cons split: if_splits nat.splits)
qed simp

lemma position_None: "position P xs = None \<longleftrightarrow> (\<forall>x \<in> set xs. \<not> P x)"
  by (induction xs) auto

lemma position_distinct:
  "distinct xs \<Longrightarrow> i < length xs \<Longrightarrow> position (\<lambda>y. y = xs ! i) xs = Some i"
proof (induction xs arbitrary: i)
  case (Cons x xs)
  then show ?case by (cases i) auto
qed simp

lemma position_eq_Some:
  "distinct xs \<Longrightarrow> position (\<lambda>y. y = x) xs = Some i \<longleftrightarrow> i < length xs \<and> xs ! i = x"
  using position_Some [of "\<lambda>y. y = x" xs i] position_distinct [of xs i] by auto

lemma position_mem: "x \<in> set xs \<Longrightarrow> \<exists>i < length xs. position (\<lambda>y. y = x) xs = Some i \<and> xs ! i = x"
  using position_Some [of "\<lambda>y. y = x" xs] position_None [of "\<lambda>y. y = x" xs]
  by (cases "position (\<lambda>y. y = x) xs") auto

lemma position_inj:
  "position (\<lambda>v. v = a) xs = Some i \<Longrightarrow> position (\<lambda>v. v = b) xs = Some i \<Longrightarrow> a = b"
  by (drule position_Some)+ simp

subsection \<open>File replacement\<close>

text \<open>
  What a durable file replacement or removal can do: succeed, leave the old state, or change the
  directory and then fail to sync it.
\<close>

datatype write_outcome = Written | Unwritten | WrittenUnsynced

subsection \<open>Step systems\<close>

text \<open>
  A component whose operations keep an invariant and only extend its state: the contract under
  which a fact about one acknowledged operation holds in every later state.
\<close>

locale step_system =
  fixes start :: "'s \<Rightarrow> bool"
    and step :: "'s \<Rightarrow> 's \<Rightarrow> bool"
    and inv :: "'s \<Rightarrow> bool"
    and ext :: "'s \<Rightarrow> 's \<Rightarrow> bool"
  assumes start_inv: "start s \<Longrightarrow> inv s"
    and step_inv: "inv s \<Longrightarrow> step s t \<Longrightarrow> inv t"
    and step_ext: "inv s \<Longrightarrow> step s t \<Longrightarrow> ext s t"
    and ext_refl: "ext s s"
    and ext_trans: "ext s t \<Longrightarrow> ext t u \<Longrightarrow> ext s u"
begin

lemma run_inv: "step\<^sup>*\<^sup>* s t \<Longrightarrow> inv s \<Longrightarrow> inv t"
  by (induction rule: rtranclp_induct) (auto intro: step_inv)

lemma reach_inv: "start s \<Longrightarrow> step\<^sup>*\<^sup>* s t \<Longrightarrow> inv t"
  using start_inv run_inv by blast

lemma run_ext: "step\<^sup>*\<^sup>* s t \<Longrightarrow> inv s \<Longrightarrow> ext s t"
proof (induction rule: rtranclp_induct)
  case (step y z)
  then show ?case using run_inv [OF step.hyps(1) step.prems] step_ext ext_trans by blast
qed (rule ext_refl)

end

end
