(* ===== verification/BTree.thy ===== *)
theory BTree
  imports Prelude
begin

section \<open>Ordered maps and sets\<close>

text \<open>
  Rust's \<open>BTreeMap\<close> is an association list in ascending key order, so that iteration is the
  list itself; \<open>get\<close> is the library's \<open>map_of\<close>. \<open>BTreeSet\<close> is a list in ascending
  order. The lookup laws hold for every list; \<open>sorted_keys\<close> is the ordering invariant, which
  every operation keeps. The locale \<open>ordered_map\<close> states the map contract the components
  use, with the client lemmas on removing and inserting several keys proved once.
\<close>

type_synonym ('k, 'v) btree = "('k \<times> 'v) list"

fun bt_insert :: "'k::linorder \<Rightarrow> 'v \<Rightarrow> ('k, 'v) btree \<Rightarrow> ('k, 'v) btree" where
  "bt_insert k v [] = [(k, v)]"
| "bt_insert k v ((k', v') # m) =
     (if k < k' then (k, v) # (k', v') # m
      else if k = k' then (k, v) # m
      else (k', v') # bt_insert k v m)"

definition bt_remove :: "'k \<Rightarrow> ('k, 'v) btree \<Rightarrow> ('k, 'v) btree" where
  "bt_remove k m = filter (\<lambda>(k', _). k' \<noteq> k) m"

definition bt_keys :: "('k, 'v) btree \<Rightarrow> 'k list" where
  "bt_keys m = map fst m"

definition bt_vals :: "('k, 'v) btree \<Rightarrow> 'v list" where
  "bt_vals m = map snd m"

text \<open>\<open>collect()\<close> into a map: insert in iteration order.\<close>

definition bt_of_list :: "('k::linorder \<times> 'v) list \<Rightarrow> ('k, 'v) btree" where
  "bt_of_list kvs = fold (\<lambda>(k, v) m. bt_insert k v m) kvs []"

text \<open>What stays in the map after \<open>split_off(&k)\<close>, what it returns, and \<open>range(..=k)\<close>.\<close>

definition bt_below :: "'k::linorder \<Rightarrow> ('k, 'v) btree \<Rightarrow> ('k, 'v) btree" where
  "bt_below k m = filter (\<lambda>(k', _). k' < k) m"

definition bt_split_off :: "'k::linorder \<Rightarrow> ('k, 'v) btree \<Rightarrow> ('k, 'v) btree" where
  "bt_split_off k m = filter (\<lambda>(k', _). k \<le> k') m"

definition bt_upto :: "'k::linorder \<Rightarrow> ('k, 'v) btree \<Rightarrow> ('k, 'v) btree" where
  "bt_upto k m = filter (\<lambda>(k', _). k' \<le> k) m"

definition sorted_keys :: "('k::linorder, 'v) btree \<Rightarrow> bool" where
  "sorted_keys m = sorted_wrt (<) (map fst m)"

subsection \<open>Lookup laws\<close>

lemma map_of_filter_fst: "map_of (filter (\<lambda>(k, _). P k) m) k = (if P k then map_of m k else None)"
  by (induction m) auto

lemma map_of_bt_insert [simp]: "map_of (bt_insert k v m) = (map_of m)(k \<mapsto> v)"
  by (induction k v m rule: bt_insert.induct) auto

lemma map_of_bt_remove [simp]: "map_of (bt_remove k m) = (map_of m)(k := None)"
  unfolding bt_remove_def by (rule ext) (simp add: map_of_filter_fst)

lemma map_of_bt_below: "map_of (bt_below k m) k' = (if k' < k then map_of m k' else None)"
  unfolding bt_below_def by (rule map_of_filter_fst)

lemma map_of_bt_split_off: "map_of (bt_split_off k m) k' = (if k \<le> k' then map_of m k' else None)"
  unfolding bt_split_off_def by (rule map_of_filter_fst)

lemma map_of_bt_upto: "map_of (bt_upto k m) k' = (if k' \<le> k then map_of m k' else None)"
  unfolding bt_upto_def by (rule map_of_filter_fst)

lemma map_of_fold_bt_insert: "map_of (fold (\<lambda>(k, v) m. bt_insert k v m) kvs m) = map_of m ++ map_of (rev kvs)"
  by (induction kvs arbitrary: m) (auto simp: map_add_def fun_eq_iff split: option.splits)

lemma map_of_bt_of_list: "map_of (bt_of_list kvs) = map_of (rev kvs)"
  by (simp add: bt_of_list_def map_of_fold_bt_insert)

lemma map_of_rev_distinct: "distinct (map fst kvs) \<Longrightarrow> map_of (rev kvs) = map_of kvs"
  by (intro map_of_eqI) (auto simp: map_of_eq_None_iff rev_map [symmetric] dest: map_of_SomeD)

lemma set_bt_insert: "set (map fst (bt_insert k v m)) = insert k (set (map fst m))"
  by (induction k v m rule: bt_insert.induct) auto

lemma set_bt_insert_subset: "set (bt_insert k v m) \<subseteq> insert (k, v) (set m)"
  by (induction k v m rule: bt_insert.induct) auto

lemma set_bt_remove [simp]: "set (bt_remove k m) = {e \<in> set m. fst e \<noteq> k}"
  by (auto simp: bt_remove_def)

subsection \<open>The ordering invariant\<close>

lemma sorted_keys_Nil [simp]: "sorted_keys []"
  by (simp add: sorted_keys_def)

lemma sorted_keys_filter: "sorted_keys m \<Longrightarrow> sorted_keys (filter P m)"
  unfolding sorted_keys_def by (induction m) auto

lemma sorted_keys_insert [simp]: "sorted_keys m \<Longrightarrow> sorted_keys (bt_insert k v m)"
proof (induction k v m rule: bt_insert.induct)
  case (2 k v k' v' m)
  then show ?case using set_bt_insert [of k v m] by (auto simp: sorted_keys_def)
qed (simp add: sorted_keys_def)

lemma sorted_keys_remove [simp]: "sorted_keys m \<Longrightarrow> sorted_keys (bt_remove k m)"
  by (simp add: bt_remove_def sorted_keys_filter)

lemma sorted_keys_below [simp]: "sorted_keys m \<Longrightarrow> sorted_keys (bt_below k m)"
  by (simp add: bt_below_def sorted_keys_filter)

lemma sorted_keys_split_off [simp]: "sorted_keys m \<Longrightarrow> sorted_keys (bt_split_off k m)"
  by (simp add: bt_split_off_def sorted_keys_filter)

lemma sorted_keys_fold: "sorted_keys m \<Longrightarrow> sorted_keys (fold (\<lambda>(k, v) m. bt_insert k v m) kvs m)"
  by (induction kvs arbitrary: m) auto

lemma sorted_keys_of_list [simp]: "sorted_keys (bt_of_list kvs)"
  by (simp add: bt_of_list_def sorted_keys_fold)

lemma sorted_keys_distinct: "sorted_keys m \<Longrightarrow> distinct (map fst m)"
  unfolding sorted_keys_def by (simp add: strict_sorted_iff)

lemma sorted_keys_mem: "sorted_keys m \<Longrightarrow> (k, v) \<in> set m \<longleftrightarrow> map_of m k = Some v"
  by (simp add: sorted_keys_distinct)

lemma sorted_keys_eqI:
  assumes "sorted_keys m" "sorted_keys m'" "map_of m = map_of m'"
  shows "m = m'"
proof -
  have "dom (map_of m) = dom (map_of m')" using assms(3) by simp
  then have keys: "map fst m = map fst m'"
    using assms(1,2) unfolding sorted_keys_def dom_map_of_conv_image_fst
    by (intro strict_sorted_equal) auto
  then have len: "length m = length m'" by (rule map_eq_imp_length_eq)
  show ?thesis
  proof (rule nth_equalityI [OF len])
    fix i assume i: "i < length m"
    have "map_of m (fst (m ! i)) = Some (snd (m ! i))"
      using i assms(1) by (simp add: sorted_keys_distinct)
    moreover have "map_of m' (fst (m' ! i)) = Some (snd (m' ! i))"
      using i len assms(2) by (simp add: sorted_keys_distinct)
    moreover have "fst (m ! i) = fst (m' ! i)"
      using arg_cong [OF keys, of "\<lambda>xs. xs ! i"] i len by simp
    ultimately show "m ! i = m' ! i" using assms(3) by (simp add: prod_eq_iff)
  qed
qed

text \<open>A key above all others goes to the end, so appending is inserting.\<close>

lemma set_bt_of_list: "distinct (map fst kvs) \<Longrightarrow> set (bt_of_list kvs) = set kvs"
proof (rule set_eqI)
  fix x assume d: "distinct (map fst kvs)"
  show "x \<in> set (bt_of_list kvs) \<longleftrightarrow> x \<in> set kvs"
    by (cases x) (simp only: sorted_keys_mem [OF sorted_keys_of_list] map_of_bt_of_list
        map_of_rev_distinct [OF d] map_of_eq_Some_iff [OF d])
qed

lemma bt_keys_mem: "k \<in> set (bt_keys m) \<longleftrightarrow> map_of m k \<noteq> None"
  by (auto simp: bt_keys_def map_of_eq_None_iff)

lemma bt_keys_overwrite: "sorted_keys m \<Longrightarrow> k \<in> set (bt_keys m) \<Longrightarrow> bt_keys (bt_insert k v m) = bt_keys m"
  using set_bt_insert [of k v m] sorted_keys_insert [of m k v]
  by (intro strict_sorted_equal) (auto simp: sorted_keys_def bt_keys_def)

lemma bt_vals_keys: "sorted_keys m \<Longrightarrow> bt_vals m = map (\<lambda>k. the (map_of m k)) (bt_keys m)"
  using sorted_keys_distinct [of m] by (auto simp: bt_vals_def bt_keys_def)

lemma bt_insert_last: "\<forall>k' \<in> set (map fst m). k' < k \<Longrightarrow> bt_insert k v m = m @ [(k, v)]"
  by (induction k v m rule: bt_insert.induct) auto

subsection \<open>The map contract\<close>

locale ordered_map =
  fixes get :: "'m \<Rightarrow> 'k \<Rightarrow> 'v option"
    and put :: "'k \<Rightarrow> 'v \<Rightarrow> 'm \<Rightarrow> 'm"
    and del :: "'k \<Rightarrow> 'm \<Rightarrow> 'm"
    and invar :: "'m \<Rightarrow> bool"
  assumes get_put: "get (put k v m) = (get m)(k \<mapsto> v)"
    and get_del: "get (del k m) = (get m)(k := None)"
    and invar_put: "invar m \<Longrightarrow> invar (put k v m)"
    and invar_del: "invar m \<Longrightarrow> invar (del k m)"
begin

text \<open>A loop that removes each key of a list, and one that inserts each pair.\<close>

lemma get_del_all: "get (fold del ks m) k = (if k \<in> set ks then None else get m k)"
  by (induction ks arbitrary: m) (auto simp: get_del)

lemma invar_del_all: "invar m \<Longrightarrow> invar (fold del ks m)"
  by (induction ks arbitrary: m) (auto simp: invar_del)

lemma get_put_all: "get (fold (\<lambda>x. put (f x) (g x)) xs m) = get m ++ map_of (rev (map (\<lambda>x. (f x, g x)) xs))"
  by (induction xs arbitrary: m) (auto simp: get_put map_add_def fun_eq_iff split: option.splits)

lemma invar_put_all: "invar m \<Longrightarrow> invar (fold (\<lambda>x. put (f x) (g x)) xs m)"
  by (induction xs arbitrary: m) (auto simp: invar_put)

end

interpretation bt: ordered_map map_of bt_insert bt_remove sorted_keys
  by unfold_locales auto

subsection \<open>Sets\<close>

fun bs_insert :: "'a::linorder \<Rightarrow> 'a list \<Rightarrow> 'a list" where
  "bs_insert x [] = [x]"
| "bs_insert x (y # ys) = (if x < y then x # y # ys else if x = y then y # ys else y # bs_insert x ys)"

definition bs_of_list :: "'a::linorder list \<Rightarrow> 'a list" where
  "bs_of_list xs = fold bs_insert xs []"

lemma set_bs_insert [simp]: "set (bs_insert x ys) = insert x (set ys)"
  by (induction x ys rule: bs_insert.induct) auto

lemma sorted_bs_insert [simp]: "sorted_wrt (<) ys \<Longrightarrow> sorted_wrt (<) (bs_insert x ys)"
  by (induction x ys rule: bs_insert.induct) auto

lemma set_fold_bs_insert: "set (fold bs_insert xs ys) = set xs \<union> set ys"
  by (induction xs arbitrary: ys) auto

lemma sorted_fold_bs_insert: "sorted_wrt (<) ys \<Longrightarrow> sorted_wrt (<) (fold bs_insert xs ys)"
  by (induction xs arbitrary: ys) auto

lemma set_bs_of_list [simp]: "set (bs_of_list xs) = set xs"
  by (simp add: bs_of_list_def set_fold_bs_insert)

lemma sorted_bs_of_list [simp]: "sorted_wrt (<) (bs_of_list xs)"
  by (simp add: bs_of_list_def sorted_fold_bs_insert)

lemma distinct_bs_of_list [simp]: "distinct (bs_of_list xs)"
  using sorted_bs_of_list [of xs] by (simp only: strict_sorted_iff)

lemma length_bs_of_list: "length (bs_of_list xs) = card (set xs)"
  using distinct_card [OF distinct_bs_of_list [of xs]] by simp

text \<open>\<open>sort_unstable(); dedup()\<close>: ascending order without repetitions, which is the same list.\<close>

definition sort_dedup :: "'a::linorder list \<Rightarrow> 'a list" where
  "sort_dedup xs = remdups_adj (sort xs)"

lemma sorted_distinct_remdups_adj: "sorted xs \<Longrightarrow> distinct (remdups_adj xs)"
  by (induction xs rule: remdups_adj.induct) auto

lemma sort_dedup_props [simp]:
  "set (sort_dedup xs) = set xs" "distinct (sort_dedup xs)"
  by (simp_all add: sort_dedup_def sorted_distinct_remdups_adj)

lemma strict_sorted_sort_dedup [simp]: "sorted_wrt (<) (sort_dedup xs)"
  by (simp add: strict_sorted_iff sort_dedup_def sorted_distinct_remdups_adj)

lemma length_sort_dedup: "length (sort_dedup xs) = card (set xs)"
  using distinct_card [OF sort_dedup_props(2) [of xs]] by simp

lemma sort_dedup_id: "sorted_wrt (<) xs \<Longrightarrow> sort_dedup xs = xs"
  using strict_sorted_equal [of "sort_dedup xs" xs] by simp

end
