(* ===== verification/Bytes.thy ===== *)
theory Bytes
  imports Prelude
begin

section \<open>Bytes, strings and codecs\<close>

text \<open>
  The parts of the standard library the wire formats use: fixed-width big- and little-endian
  integers, UTF-8 validation (\<open>std::str::from_utf8\<close>), \<open>split\<close> on a character,
  lower-case hexadecimal formatting and \<open>u64::from_str_radix(_, 16)\<close>. A Rust \<open>String\<close>
  is a \<open>string\<close> whose characters are its UTF-8 bytes. The locales \<open>codec\<close> (whole
  frames) and \<open>field_codec\<close> (a field at the front of a frame) state what the components
  promise of their encoders and decoders.
\<close>

subsection \<open>Integers\<close>

primrec be_bytes :: "nat \<Rightarrow> nat \<Rightarrow> bytes" where
  "be_bytes 0 n = []"
| "be_bytes (Suc w) n = be_bytes w (n div 256) @ [word_of_nat n]"

definition of_be :: "bytes \<Rightarrow> nat" where
  "of_be bs = foldl (\<lambda>a b. a * 256 + unat b) 0 bs"

definition le_bytes :: "nat \<Rightarrow> nat \<Rightarrow> bytes" where
  "le_bytes w n = rev (be_bytes w n)"

definition of_le :: "bytes \<Rightarrow> nat" where
  "of_le bs = of_be (rev bs)"

lemma length_be_bytes [simp]: "length (be_bytes w n) = w"
  by (induction w arbitrary: n) auto

lemma length_le_bytes [simp]: "length (le_bytes w n) = w"
  by (simp add: le_bytes_def)

lemma of_be_snoc [simp]: "of_be (bs @ [b]) = of_be bs * 256 + unat b"
  by (simp add: of_be_def)

lemma of_be_Nil [simp]: "of_be [] = 0"
  by (simp add: of_be_def)

lemma of_be_be_bytes: "of_be (be_bytes w n) = n mod 256 ^ w"
proof (induction w arbitrary: n)
  case (Suc w)
  have "of_be (be_bytes (Suc w) n) = (n div 256 mod 256 ^ w) * 256 + n mod 256"
    by (simp add: Suc.IH unat_of_nat)
  also have "\<dots> = n mod (256 * 256 ^ w)"
    by (simp add: mod_mult2_eq mult.commute)
  finally show ?case by simp
qed simp

lemma of_be_be_bytes_id [simp, wire]: "n < 256 ^ w \<Longrightarrow> of_be (be_bytes w n) = n"
  by (simp add: of_be_be_bytes)

lemma of_le_le_bytes_id [simp, wire]: "n < 256 ^ w \<Longrightarrow> of_le (le_bytes w n) = n"
  by (simp add: of_le_def le_bytes_def)

lemma unat_byte: "unat (b :: byte) < 256"
  using unsigned_less [of b] by simp

lemma of_be_bound: "of_be bs < 256 ^ length bs"
proof (induction bs rule: rev_induct)
  case (snoc b bs)
  have "unat b < 256" by (rule unat_byte)
  then have "of_be (bs @ [b]) < (of_be bs + 1) * 256" by simp
  also have "\<dots> \<le> 256 ^ length bs * 256" using snoc by (intro mult_right_mono) auto
  finally show ?case by (simp add: mult.commute)
qed simp

lemma be_bytes_of_be: "be_bytes (length bs) (of_be bs) = bs"
proof (induction bs rule: rev_induct)
  case (snoc b bs)
  have "unat b < 256" by (rule unat_byte)
  then have "(of_be bs * 256 + unat b) div 256 = of_be bs"
    by simp
  moreover have "(word_of_nat (of_be bs * 256 + unat b) :: byte) = b"
  proof -
    have "(word_of_nat 256 :: byte) = 0" by simp
    then have "(word_of_nat (of_be bs * 256) :: byte) = 0" by (simp only: of_nat_mult mult_zero_right)
    then show ?thesis by (simp only: of_nat_add) simp
  qed
  ultimately show ?case using snoc by simp
qed simp

lemma u64_bytes: "n < u64_bound \<Longrightarrow> n < 256 ^ 8" by simp
lemma u32_bytes: "n < u32_bound \<Longrightarrow> n < 256 ^ 4" by simp
lemma u128_bytes: "n < u128_bound \<Longrightarrow> n < 256 ^ 16" by simp

lemmas int_bytes [wire] = u64_bytes u32_bytes u128_bytes

subsection \<open>Slices\<close>

text \<open>\<open>&bytes[a..b]\<close>, where the source has checked the bounds.\<close>

definition slice :: "nat \<Rightarrow> nat \<Rightarrow> bytes \<Rightarrow> bytes" where
  "slice a b bs = take (b - a) (drop a bs)"

lemma slice_shift: "slice (n + a) (n + b) bs = slice a b (drop n bs)"
  by (simp add: slice_def add.commute)

lemma slice_here: "length xs = n \<Longrightarrow> slice 0 n (xs @ ys) = xs"
  by (simp add: slice_def)

lemma slice_skip: "length xs = n \<Longrightarrow> n \<le> a \<Longrightarrow> slice a b (xs @ ys) = slice (a - n) (b - n) ys"
  by (simp add: slice_def)

subsection \<open>Strings as bytes\<close>

definition as_bytes :: "string \<Rightarrow> bytes" where
  "as_bytes s = map (\<lambda>c. word_of_nat (of_char c)) s"

definition of_bytes :: "bytes \<Rightarrow> string" where
  "of_bytes bs = map (\<lambda>b. char_of (unat b)) bs"

lemma of_char_less: "(of_char c :: nat) < 256"
  by (cases c) (simp add: of_char_def)

lemma unat_of_char: "unat (word_of_nat (of_char c) :: byte) = of_char c"
  using of_char_less [of c] by (simp add: unat_of_nat)

lemma of_bytes_as_bytes [simp, wire]: "of_bytes (as_bytes s) = s"
  by (simp add: of_bytes_def as_bytes_def unat_of_char comp_def)

lemma length_as_bytes [simp]: "length (as_bytes s) = length s"
  by (simp add: as_bytes_def)

lemma as_bytes_inj [simp]: "as_bytes s = as_bytes t \<longleftrightarrow> s = t"
  by (metis of_bytes_as_bytes)

lemma as_bytes_of_bytes [simp]: "as_bytes (of_bytes bs) = bs"
proof -
  have "(word_of_nat (of_char (char_of (unat b) :: char)) :: byte) = b" for b :: byte
    using unat_byte [of b] by (simp add: of_char_of)
  then show ?thesis by (simp add: as_bytes_def of_bytes_def comp_def)
qed

definition cont :: "byte \<Rightarrow> bool" where
  "cont b = (0x80 \<le> b \<and> b \<le> 0xBF)"

text \<open>Well-formed UTF-8: no overlong forms, no surrogates, nothing above U+10FFFF.\<close>

fun utf8_valid :: "bytes \<Rightarrow> bool" where
  "utf8_valid [] = True"
| "utf8_valid (b # r) =
     (if b < 0x80 then utf8_valid r
      else if 0xC2 \<le> b \<and> b \<le> 0xDF then
        (case r of b1 # r' \<Rightarrow> cont b1 \<and> utf8_valid r' | _ \<Rightarrow> False)
      else if 0xE0 \<le> b \<and> b \<le> 0xEF then
        (case r of
           b1 # b2 # r' \<Rightarrow>
             cont b1 \<and> (b = 0xE0 \<longrightarrow> 0xA0 \<le> b1) \<and> (b = 0xED \<longrightarrow> b1 \<le> 0x9F) \<and> cont b2 \<and> utf8_valid r'
         | _ \<Rightarrow> False)
      else if 0xF0 \<le> b \<and> b \<le> 0xF4 then
        (case r of
           b1 # b2 # b3 # r' \<Rightarrow>
             cont b1 \<and> (b = 0xF0 \<longrightarrow> 0x90 \<le> b1) \<and> (b = 0xF4 \<longrightarrow> b1 \<le> 0x8F) \<and> cont b2 \<and> cont b3
             \<and> utf8_valid r'
         | _ \<Rightarrow> False)
      else False)"

definition from_utf8 :: "bytes \<Rightarrow> string option" where
  "from_utf8 bs = (if utf8_valid bs then Some (of_bytes bs) else None)"

definition is_str :: "string \<Rightarrow> bool" where
  "is_str s = utf8_valid (as_bytes s)"

lemma from_utf8_as_bytes [simp, wire]: "is_str s \<Longrightarrow> from_utf8 (as_bytes s) = Some s"
  by (simp add: from_utf8_def is_str_def)

lemma ascii_is_str: "\<forall>b \<in> set bs. b < 0x80 \<Longrightarrow> utf8_valid bs"
  by (induction bs) auto

subsection \<open>Splitting and hexadecimal\<close>

text \<open>\<open>str::split\<close> on one character: the pieces between its occurrences, never none.\<close>

fun split_on :: "char \<Rightarrow> string \<Rightarrow> string list" where
  "split_on c [] = [[]]"
| "split_on c (x # xs) =
     (if x = c then [] # split_on c xs
      else (case split_on c xs of [] \<Rightarrow> [[x]] | p # ps \<Rightarrow> (x # p) # ps))"

lemma split_on_nonempty [simp]: "split_on c s \<noteq> []"
  by (induction c s rule: split_on.induct) (auto split: list.splits)

lemma split_on_clean: "c \<notin> set p \<Longrightarrow> split_on c (p @ c # rest) = p # split_on c rest"
  by (induction p) auto

lemma split_on_last: "c \<notin> set p \<Longrightarrow> split_on c p = [p]"
  by (induction p) auto

lemma split_on_append: "split_on c (pre @ c # p) = split_on c pre @ split_on c p"
proof (induction pre)
  case (Cons x pre)
  then show ?case by (cases "split_on c pre") auto
qed simp

lemma last_split_on: "c \<notin> set p \<Longrightarrow> last (split_on c (pre @ c # p)) = p"
  by (simp add: split_on_append split_on_last)

definition hex_digit :: "nat \<Rightarrow> char" where
  "hex_digit n = ''0123456789abcdef'' ! n"

primrec hex_fixed :: "nat \<Rightarrow> nat \<Rightarrow> string" where
  "hex_fixed 0 n = []"
| "hex_fixed (Suc w) n = hex_fixed w (n div 16) @ [hex_digit (n mod 16)]"

definition hex_bytes :: "bytes \<Rightarrow> string" where
  "hex_bytes bs = concat (map (\<lambda>b. hex_fixed 2 (unat b)) bs)"

definition digit_of :: "char \<Rightarrow> nat option" where
  "digit_of c =
     (let n = of_char c in
      if 48 \<le> n \<and> n \<le> 57 then Some (n - 48)
      else if 97 \<le> n \<and> n \<le> 102 then Some (n - 87)
      else if 65 \<le> n \<and> n \<le> 70 then Some (n - 55)
      else None)"

fun parse_digits :: "nat \<Rightarrow> string \<Rightarrow> nat option" where
  "parse_digits a [] = Some a"
| "parse_digits a (c # cs) =
     (case digit_of c of
        None \<Rightarrow> None
      | Some d \<Rightarrow> if a * 16 + d < u64_bound then parse_digits (a * 16 + d) cs else None)"

text \<open>\<open>u64::from_str_radix(s, 16)\<close>: an optional plus sign, then at least one digit.\<close>

definition from_str_radix16 :: "string \<Rightarrow> nat option" where
  "from_str_radix16 s =
     (case s of
        [] \<Rightarrow> None
      | c # cs \<Rightarrow> if c = CHR ''+'' then (if cs = [] then None else parse_digits 0 cs)
                  else parse_digits 0 s)"

text \<open>\<open>to_string\<close> on an unsigned integer.\<close>

function dec_string :: "nat \<Rightarrow> string" where
  "dec_string n = (if n < 10 then [hex_digit n] else dec_string (n div 10) @ [hex_digit (n mod 10)])"
  by pat_completeness auto
termination
  by (relation "measure (\<lambda>n. n)") auto

declare dec_string.simps [simp del]

definition dec_digit_of :: "char \<Rightarrow> nat option" where
  "dec_digit_of c = (let n = of_char c in if 48 \<le> n \<and> n \<le> 57 then Some (n - 48) else None)"

fun parse_decimal :: "nat \<Rightarrow> string \<Rightarrow> nat option" where
  "parse_decimal a [] = Some a"
| "parse_decimal a (c # cs) =
     (case dec_digit_of c of
        None \<Rightarrow> None
      | Some d \<Rightarrow> if a * 10 + d < u64_bound then parse_decimal (a * 10 + d) cs else None)"

text \<open>\<open>str::parse::<usize>()\<close>: an optional plus sign, then at least one digit.\<close>

definition from_str_usize :: "string \<Rightarrow> nat option" where
  "from_str_usize s =
     (case s of
        [] \<Rightarrow> None
      | c # cs \<Rightarrow> if c = CHR ''+'' then (if cs = [] then None else parse_decimal 0 cs)
                  else parse_decimal 0 s)"

lemma length_hex_fixed [simp]: "length (hex_fixed w n) = w"
  by (induction w arbitrary: n) auto

lemma length_hex_bytes [simp]: "length (hex_bytes bs) = 2 * length bs"
  by (induction bs) (auto simp: hex_bytes_def)

lemma less_16_cases:
  "(n::nat) < 16 \<Longrightarrow> n \<in> {0,1,2,3,4,5,6,7,8,9,10,11,12,13,14,15}"
  unfolding insert_iff empty_iff by presburger

lemma digit_of_hex_digit [simp]: "n < 16 \<Longrightarrow> digit_of (hex_digit n) = Some n"
  by (drule less_16_cases) (auto simp: hex_digit_def digit_of_def)

lemma hex_digit_plain: "n < 16 \<Longrightarrow> hex_digit n \<notin> {CHR ''-'', CHR ''/'', CHR ''+''}"
  by (drule less_16_cases) (auto simp: hex_digit_def)

lemma hex_fixed_plain: "c \<in> set (hex_fixed w n) \<Longrightarrow> c \<notin> {CHR ''-'', CHR ''/'', CHR ''+''}"
proof (induction w arbitrary: n)
  case (Suc w)
  then show ?case using hex_digit_plain [of "n mod 16"] by (cases "c \<in> set (hex_fixed w (n div 16))") auto
qed simp

lemma hex_bytes_plain: "c \<in> set (hex_bytes bs) \<Longrightarrow> c \<notin> {CHR ''-'', CHR ''/'', CHR ''+''}"
  unfolding hex_bytes_def using hex_fixed_plain by fastforce

lemma parse_digits_append:
  "parse_digits a (xs @ ys) = (case parse_digits a xs of None \<Rightarrow> None | Some b \<Rightarrow> parse_digits b ys)"
  by (induction a xs rule: parse_digits.induct) (auto split: option.splits)

lemma parse_digits_hex_fixed:
  "a * 16 ^ w + n < u64_bound \<Longrightarrow> n < 16 ^ w \<Longrightarrow> parse_digits a (hex_fixed w n) = Some (a * 16 ^ w + n)"
proof (induction w arbitrary: n)
  case (Suc w)
  have lt: "n div 16 < 16 ^ w" using Suc.prems(2) by (simp add: less_mult_imp_div_less mult.commute)
  have "a * 16 ^ w + n div 16 \<le> a * 16 ^ Suc w + n" by simp
  then have "parse_digits a (hex_fixed w (n div 16)) = Some (a * 16 ^ w + n div 16)"
    using Suc.prems(1) lt by (intro Suc.IH) auto
  moreover have "(a * 16 ^ w + n div 16) * 16 + n mod 16 = a * 16 ^ Suc w + n"
    by (simp add: algebra_simps)
  ultimately show ?case using Suc.prems(1) by (simp add: parse_digits_append)
qed simp

lemma from_str_radix16_hex: "n < u64_bound \<Longrightarrow> from_str_radix16 (hex_fixed 16 n) = Some n"
proof -
  assume n: "n < u64_bound"
  obtain c cs where h: "hex_fixed 16 n = c # cs"
    using length_hex_fixed [of 16 n] by (cases "hex_fixed 16 n") auto
  then have "c \<noteq> CHR ''+''" using hex_fixed_plain [of c 16 n] by simp
  moreover have "parse_digits 0 (hex_fixed 16 n) = Some n"
    using parse_digits_hex_fixed [of 0 16 n] n by simp
  ultimately show ?thesis by (simp add: from_str_radix16_def h)
qed

lemma hex_digit_inj: "a < 16 \<Longrightarrow> b < 16 \<Longrightarrow> hex_digit a = hex_digit b \<longleftrightarrow> a = b"
  using digit_of_hex_digit by (metis option.inject)

lemma hex_fixed_inj: "a < 16 ^ w \<Longrightarrow> b < 16 ^ w \<Longrightarrow> hex_fixed w a = hex_fixed w b \<longleftrightarrow> a = b"
proof (induction w arbitrary: a b)
  case (Suc w)
  have "a div 16 < 16 ^ w" "b div 16 < 16 ^ w"
    using Suc.prems by (simp_all add: less_mult_imp_div_less mult.commute)
  then show ?case using Suc.IH [of "a div 16" "b div 16"] by (simp add: hex_digit_inj) (metis div_mult_mod_eq)
qed simp

lemma hex_bytes_Nil [simp]: "hex_bytes bs = [] \<longleftrightarrow> bs = []"
  by (metis length_0_conv length_hex_bytes mult_eq_0_iff zero_neq_numeral)

lemma hex_bytes_inj [simp]: "hex_bytes a = hex_bytes b \<longleftrightarrow> a = b"
proof (induction a arbitrary: b)
  case Nil
  then show ?case by (metis hex_bytes_Nil)
next
  case (Cons x a)
  show ?case
  proof (cases b)
    case Nil
    then show ?thesis by (metis hex_bytes_Nil)
  next
    case b: (Cons y b')
    have "hex_bytes (x # a) = hex_fixed 2 (unat x) @ hex_bytes a"
        "hex_bytes (y # b') = hex_fixed 2 (unat y) @ hex_bytes b'" by (simp_all add: hex_bytes_def)
    moreover have "hex_fixed 2 (unat x) = hex_fixed 2 (unat y) \<longleftrightarrow> x = y"
      using hex_fixed_inj [of "unat x" 2 "unat y"] unat_byte [of x] unat_byte [of y] by (simp add: word_unat_eq_iff)
    ultimately show ?thesis using b Cons.IH [of b'] by simp
  qed
qed

lemma dec_digit_of_hex_digit [simp]: "n < 10 \<Longrightarrow> dec_digit_of (hex_digit n) = Some n"
  using less_16_cases [of n] by (auto simp: hex_digit_def dec_digit_of_def)

lemma parse_decimal_append:
  "parse_decimal a (xs @ ys) = (case parse_decimal a xs of None \<Rightarrow> None | Some b \<Rightarrow> parse_decimal b ys)"
  by (induction a xs rule: parse_decimal.induct) (auto split: option.splits)

lemma parse_decimal_dec_string: "n < u64_bound \<Longrightarrow> parse_decimal 0 (dec_string n) = Some n"
proof (induction n rule: dec_string.induct)
  case (1 n)
  show ?case
  proof (cases "n < 10")
    case False
    then have "parse_decimal 0 (dec_string (n div 10)) = Some (n div 10)" using 1 by simp
    then show ?thesis
      using False 1 by (subst dec_string.simps) (simp add: parse_decimal_append)
  qed (use 1 in \<open>subst dec_string.simps; simp\<close>)
qed

lemma parse_decimal_zeros: "parse_decimal 0 (replicate j (CHR ''0'') @ s) = parse_decimal 0 s"
  by (induction j) (simp_all add: dec_digit_of_def)

lemma dec_string_inj: "a < u64_bound \<Longrightarrow> b < u64_bound \<Longrightarrow> dec_string a = dec_string b \<longleftrightarrow> a = b"
  using parse_decimal_dec_string by (metis option.inject)

lemma dec_string_nonempty [simp]: "dec_string n \<noteq> []"
  by (subst dec_string.simps) simp

lemma dec_string_plain: "c \<in> set (dec_string n) \<Longrightarrow> c \<notin> {CHR ''-'', CHR ''/'', CHR ''+''}"
proof (induction n rule: dec_string.induct)
  case (1 n)
  have "hex_digit (n mod 10) \<notin> {CHR ''-'', CHR ''/'', CHR ''+''}" by (rule hex_digit_plain) (simp add: less_trans [OF mod_less_divisor])
  moreover have "n < 10 \<Longrightarrow> hex_digit n \<notin> {CHR ''-'', CHR ''/'', CHR ''+''}" by (rule hex_digit_plain) simp
  ultimately show ?case using 1 dec_string.simps [of n] by (auto split: if_splits)
qed

subsection \<open>The codec contract\<close>

locale codec =
  fixes enc :: "'a \<Rightarrow> bytes"
    and dec :: "bytes \<Rightarrow> 'e + 'a"
    and wf :: "'a \<Rightarrow> bool"
  assumes dec_enc: "wf x \<Longrightarrow> dec (enc x) = Inr x"
begin

lemma enc_inj: "wf x \<Longrightarrow> wf y \<Longrightarrow> enc x = enc y \<Longrightarrow> x = y"
  using dec_enc by (metis sum.inject(2))

lemma dec_enc_iff: "wf x \<Longrightarrow> dec (enc x) = Inr y \<longleftrightarrow> y = x"
  by (auto simp: dec_enc)

lemma dec_map_enc: "list_all wf xs \<Longrightarrow> sequence (map dec (map enc xs)) = Inr xs"
  by (induction xs) (auto simp: dec_enc)

end

locale field_codec =
  fixes put :: "'a \<Rightarrow> bytes"
    and get :: "bytes \<Rightarrow> 'e + ('a \<times> bytes)"
    and wf :: "'a \<Rightarrow> bool"
  assumes get_put: "wf x \<Longrightarrow> get (put x @ rest) = Inr (x, rest)"
begin

lemma get_put_end: "wf x \<Longrightarrow> get (put x) = Inr (x, [])"
  using get_put [of x "[]"] by simp

lemma put_prefix_free:
  assumes "wf x" "wf y" "put x @ r = put y @ r'"
  shows "x = y \<and> r = r'"
proof -
  have "get (put x @ r) = Inr (x, r)" using assms(1) by (rule get_put)
  moreover have "get (put x @ r) = Inr (y, r')" unfolding assms(3) using assms(2) by (rule get_put)
  ultimately show ?thesis by simp
qed

end

text \<open>A field decoder followed by the end-of-frame check is a codec.\<close>

definition whole :: "'e \<Rightarrow> (bytes \<Rightarrow> 'e + ('a \<times> bytes)) \<Rightarrow> bytes \<Rightarrow> 'e + 'a" where
  "whole e get bs = and_then (get bs) (\<lambda>(x, rest). if rest = [] then Inr x else Inl e)"

sublocale field_codec \<subseteq> frame: codec put "whole e get" wf for e
  by unfold_locales (simp add: whole_def get_put_end)

text \<open>
  A reader that inverts its encoder exactly: it returns a value and a rest if and only if the
  input is that value's encoding followed by the rest. Such a field is canonical.
\<close>

locale exact_codec =
  fixes put :: "'a \<Rightarrow> bytes"
    and get :: "bytes \<Rightarrow> 'e + ('a \<times> bytes)"
    and valid :: "'a \<Rightarrow> bool"
  assumes exact: "get input = Inr (x, rest) \<longleftrightarrow> valid x \<and> input = put x @ rest"

sublocale exact_codec \<subseteq> field_codec put get valid
  by unfold_locales (simp add: exact)

context exact_codec
begin

lemma whole_exact: "whole e get bs = Inr x \<longleftrightarrow> valid x \<and> bs = put x"
  by (auto simp: whole_def exact split: if_splits)

end

end
