(* ===== verification/Coding.thy ===== *)
theory Coding
  imports BTree Bytes
begin

unbundle bit_operations_syntax

section \<open>Quorums and erasure coding\<close>

text \<open>
  The helpers of \<open>crates/verglas-consensus/src/lib.rs\<close> that every other part of the consensus
  crate uses: \<open>majority\<close>, \<open>distinct_members\<close>, \<open>encode\<close> and \<open>decode\<close>, and the
  enumerations of that file. The crates the code links against (SHA-256, CRC32C, the
  Reed-Solomon codec, the hex codec) are fields of the record \<open>deps\<close>; what the code relies
  on is stated as named hypotheses over them (\<open>digest_ok\<close>, \<open>rs_ok\<close>, \<open>hex_ok\<close>).
  The lemmas show that a decoder given any \<open>k\<close> correct shards returns the body
  (\<open>decode_encode\<close>), and that the two commit rules intersect every later majority in enough
  holders (the locale \<open>intersecting\<close> and its interpretations).
\<close>

subsection \<open>Linked crates\<close>

datatype shard = Original nat bytes | Recovery nat bytes

record deps =
  sha256 :: "bytes \<Rightarrow> hash"
  crc32c :: "bytes \<Rightarrow> nat"
  rs_encode :: "nat \<Rightarrow> nat \<Rightarrow> bytes list \<Rightarrow> bytes list option"
  rs_decode :: "nat \<Rightarrow> nat \<Rightarrow> nat \<Rightarrow> shard list \<Rightarrow> (nat \<times> bytes) list option"
  hex_encode :: "bytes \<Rightarrow> string"
  hex_decode :: "string \<Rightarrow> bytes option"

definition to_shard :: "nat \<Rightarrow> nat \<times> bytes \<Rightarrow> shard" where
  "to_shard k p = (if fst p < k then Original (fst p) (snd p) else Recovery (fst p - k) (snd p))"

definition digest_ok :: "deps \<Rightarrow> bool" where
  "digest_ok D \<longleftrightarrow> (\<forall>b. length (sha256 D b) = 32) \<and> (\<forall>b. crc32c D b < u32_bound)"

definition hex_ok :: "deps \<Rightarrow> bool" where
  "hex_ok D \<longleftrightarrow> (\<forall>b. hex_encode D b = hex_bytes b) \<and> (\<forall>b. hex_decode D (hex_bytes b) = Some b)"

text \<open>Shards taken from one codeword: distinct slots, each with that slot's bytes.\<close>

definition shards_of :: "bytes list \<Rightarrow> (nat \<times> bytes) list \<Rightarrow> bool" where
  "shards_of word parts \<longleftrightarrow>
     distinct (map fst parts) \<and> (\<forall>p \<in> set parts. fst p < length word \<and> snd p = word ! fst p)"

text \<open>
  The documented behaviour of the Reed-Solomon crate for \<open>k\<close> original and \<open>m\<close> recovery
  shards of an even, positive size: encoding succeeds with \<open>m\<close> shards of that size, and any
  \<open>k\<close> distinct shards of the codeword restore every original shard that is missing.
\<close>

definition rs_ok :: "deps \<Rightarrow> nat \<Rightarrow> nat \<Rightarrow> bool" where
  "rs_ok D k m \<longleftrightarrow>
     (\<forall>c os. 2 \<le> c \<and> even c \<and> length os = k \<and> (\<forall>x \<in> set os. length x = c) \<longrightarrow>
       (\<exists>rec. rs_encode D k m os = Some rec \<and> length rec = m \<and> (\<forall>x \<in> set rec. length x = c) \<and>
         (\<forall>parts. shards_of (os @ rec) parts \<and> k \<le> length parts \<longrightarrow>
           (\<exists>restored. rs_decode D k m c (map (to_shard k) parts) = Some restored \<and>
             (\<forall>i < k. i \<notin> fst ` set parts \<longrightarrow> map_of (rev restored) i = Some (os ! i))))))"

subsection \<open>Enumerations\<close>

datatype command_kind =
    TimelineOpen | WalArchiveBinding | Catalog | TenantRoot | Wal | WriterLease
  | ArchiveCheckpoint | CatalogCheckpoint | ReleaseWriter | Object

datatype replication_mode = Coded | Complete

datatype consensus_error =
    InvalidConfiguration
  | ElectionQuorumUnavailable
  | NotLeader node_id
  | CodedQuorumUnavailable nat nat
  | WriteQuorumUnavailable
  | ConflictingRetry request_id
  | StaleWriterEpoch nat nat
  | ReadQuorumUnavailable nat nat
  | JointQuorumUnavailable
  | ReconstructionUnavailable
  | DurabilityUnavailable

subsection \<open>Quorum arithmetic\<close>

definition majority :: "nat \<Rightarrow> nat" where
  "majority count = count div 2 + 1"

definition distinct_members :: "node_id list \<Rightarrow> node_id list \<Rightarrow> nat" where
  "distinct_members voters reachable =
     length (filter (\<lambda>node. node \<in> set voters) (bs_of_list reachable))"

lemma distinct_members_card: "distinct_members voters reachable = card (set reachable \<inter> set voters)"
proof -
  have "distinct (filter (\<lambda>node. node \<in> set voters) (bs_of_list reachable))" by simp
  then show ?thesis
    unfolding distinct_members_def by (simp add: distinct_card [symmetric] Int_def)
qed

lemma distinct_members_le: "distinct voters \<Longrightarrow> distinct_members voters reachable \<le> length voters"
  unfolding distinct_members_card distinct_card [symmetric] by (rule card_mono) auto

lemma majority_le: "0 < n \<Longrightarrow> majority n \<le> n"
  by (simp add: majority_def)

lemma two_majorities: "n < majority n + majority n"
  by (simp add: majority_def)

text \<open>Two subsets of a finite set overlap in at least the excess of their sizes.\<close>

lemma card_Int_ge:
  assumes "finite V" "A \<subseteq> V" "B \<subseteq> V"
  shows "card A + card B \<le> card V + card (A \<inter> B)"
proof -
  have "card A + card B = card (A \<union> B) + card (A \<inter> B)"
    using assms by (intro card_Un_Int) (auto intro: finite_subset)
  moreover have "card (A \<union> B) \<le> card V" using assms by (intro card_mono) auto
  ultimately show ?thesis by simp
qed

text \<open>
  The contract a commit rule gives its readers: whoever satisfies \<open>writes\<close> shares at least
  \<open>need\<close> members with whoever satisfies \<open>reads\<close>.
\<close>

locale intersecting =
  fixes writes :: "node_id set \<Rightarrow> bool"
    and reads :: "node_id set \<Rightarrow> bool"
    and need :: nat
  assumes overlap: "writes W \<Longrightarrow> reads R \<Longrightarrow> need \<le> card (W \<inter> R)"
begin

lemma overlap_member: "writes W \<Longrightarrow> reads R \<Longrightarrow> 0 < need \<Longrightarrow> \<exists>x. x \<in> W \<and> x \<in> R"
  using overlap [of W R] by (metis IntE card.empty equals0I not_less)

lemma overlap_list: "writes W \<Longrightarrow> reads (set rs) \<Longrightarrow> need \<le> card (set (filter (\<lambda>x. x \<in> W) rs))"
  using overlap [of W "set rs"] by (simp add: Int_def conj_commute)

end

definition holds_coded :: "node_id list \<Rightarrow> nat \<Rightarrow> node_id set \<Rightarrow> bool" where
  "holds_coded voters k W \<longleftrightarrow>
     W \<subseteq> set voters \<and> length voters - majority (length voters) + k \<le> card W"

definition holds_majority :: "node_id list \<Rightarrow> node_id set \<Rightarrow> bool" where
  "holds_majority voters W \<longleftrightarrow> W \<subseteq> set voters \<and> majority (length voters) \<le> card W"

definition reaches_majority :: "node_id list \<Rightarrow> node_id set \<Rightarrow> bool" where
  "reaches_majority voters R \<longleftrightarrow> majority (length voters) \<le> card (R \<inter> set voters)"

lemma overlap_voters:
  assumes "W \<subseteq> set voters"
  shows "card W + card (R \<inter> set voters) \<le> length voters + card (W \<inter> R)"
proof -
  have "card W + card (R \<inter> set voters) \<le> card (set voters) + card (W \<inter> (R \<inter> set voters))"
    using assms by (intro card_Int_ge) auto
  moreover have "W \<inter> (R \<inter> set voters) = W \<inter> R" using assms by auto
  ultimately show ?thesis using card_length [of voters] by simp
qed

text \<open>The coded commit rule leaves \<open>k\<close> shards in every majority.\<close>

interpretation coded_rule: intersecting "holds_coded voters k" "reaches_majority voters" k
  for voters k
proof unfold_locales
  fix W R assume "holds_coded voters k W" and "reaches_majority voters R"
  then show "k \<le> card (W \<inter> R)"
    using overlap_voters [of W voters R] unfolding holds_coded_def reaches_majority_def by linarith
qed

text \<open>The complete commit rule leaves one copy in every majority.\<close>

interpretation complete_rule: intersecting "holds_majority voters" "reaches_majority voters" 1
  for voters
proof unfold_locales
  fix W R assume "holds_majority voters W" and "reaches_majority voters R"
  then show "1 \<le> card (W \<inter> R)"
    using overlap_voters [of W voters R] two_majorities [of "length voters"]
    unfolding holds_majority_def reaches_majority_def by simp
qed

subsection \<open>Encoding and decoding one stripe\<close>

definition coded_chunk :: "nat \<Rightarrow> nat \<Rightarrow> nat" where
  "coded_chunk k len = (let c = max 2 ((len + k - 1) div k) in c + c mod 2)"

definition chunks_exact :: "nat \<Rightarrow> bytes \<Rightarrow> bytes list" where
  "chunks_exact c xs = map (\<lambda>i. take c (drop (i * c) xs)) [0..<length xs div c]"

definition encode :: "deps \<Rightarrow> nat \<Rightarrow> nat \<Rightarrow> bytes \<Rightarrow> consensus_error + bytes list" where
  "encode D k m body =
     (let chunk = coded_chunk k (length body);
          padded = take (k * chunk) (body @ replicate (k * chunk) 0);
          originals = chunks_exact chunk padded
      in case rs_encode D k m originals of
           None \<Rightarrow> Inl ReconstructionUnavailable
         | Some coded \<Rightarrow> Inr (originals @ coded))"

definition slot_data :: "(nat \<times> bytes) list \<Rightarrow> (nat, bytes) btree \<Rightarrow> nat \<Rightarrow> consensus_error + bytes" where
  "slot_data parts restored slot =
     (case find (\<lambda>p. fst p = slot) parts of
        Some (_, data) \<Rightarrow> Inr data
      | None \<Rightarrow> ok_or ReconstructionUnavailable (map_of restored slot))"

definition decode :: "deps \<Rightarrow> nat \<Rightarrow> nat \<Rightarrow> nat \<Rightarrow> (nat \<times> bytes) list \<Rightarrow> consensus_error + bytes" where
  "decode D k m len parts =
     (case parts of
        [] \<Rightarrow> Inl ReconstructionUnavailable
      | (_, first) # _ \<Rightarrow>
          (case rs_decode D k m (length first) (map (to_shard k) parts) of
             None \<Rightarrow> Inl ReconstructionUnavailable
           | Some decoded \<Rightarrow>
               (let restored = bt_of_list decoded in
                and_then (sequence (map (slot_data parts restored) [0..<k]))
                  (\<lambda>chunks. Inr (take len (concat chunks))))))"

lemma coded_chunk_bounds: "2 \<le> coded_chunk k len" "even (coded_chunk k len)"
  by (auto simp: coded_chunk_def Let_def)

lemma coded_chunk_covers: "0 < k \<Longrightarrow> len \<le> k * coded_chunk k len"
proof -
  assume k: "0 < k"
  define q where "q = (len + k - 1) div k"
  have "len + k - 1 < k * (q + 1)"
    using k unfolding q_def by (metis add.commute dividend_less_times_div plus_1_eq_Suc mult_Suc_right)
  then have "len \<le> k * q" using k by (simp add: algebra_simps)
  also have "\<dots> \<le> k * coded_chunk k len"
    unfolding coded_chunk_def Let_def q_def by (intro mult_le_mono2) auto
  finally show ?thesis .
qed

lemma length_chunks_exact: "length (chunks_exact c xs) = length xs div c"
  by (simp add: chunks_exact_def)

lemma chunks_exact_lengths: "x \<in> set (chunks_exact c xs) \<Longrightarrow> 0 < c \<Longrightarrow> length x = c"
proof -
  assume x: "x \<in> set (chunks_exact c xs)" and c: "0 < c"
  then obtain i where i: "i < length xs div c" "x = take c (drop (i * c) xs)"
    by (auto simp: chunks_exact_def)
  have "(i + 1) * c \<le> length xs div c * c" using i(1) by (intro mult_le_mono1) simp
  also have "\<dots> \<le> length xs" by simp
  finally show ?thesis using i(2) by simp
qed

lemma concat_chunks: "length xs = n * c \<Longrightarrow> concat (map (\<lambda>i. take c (drop (i * c) xs)) [0..<n]) = xs"
proof (induction n arbitrary: xs)
  case (Suc n)
  have "concat (map (\<lambda>i. take c (drop (i * c) (drop c xs))) [0..<n]) = drop c xs"
    using Suc.prems by (intro Suc.IH) simp
  then have "concat (map (\<lambda>i. take c (drop (Suc i * c) xs)) [0..<n]) = drop c xs"
    by (simp add: add.commute)
  then show ?case
    by (simp add: upt_conv_Cons map_Suc_upt [symmetric] comp_def del: upt_Suc)
qed simp

lemma concat_chunks_exact: "0 < c \<Longrightarrow> c dvd length xs \<Longrightarrow> concat (chunks_exact c xs) = xs"
  unfolding chunks_exact_def by (intro concat_chunks) simp

text \<open>The original shards of a body, and that they spell it out.\<close>

definition originals_of :: "nat \<Rightarrow> bytes \<Rightarrow> bytes list" where
  "originals_of k body =
     chunks_exact (coded_chunk k (length body))
       (take (k * coded_chunk k (length body)) (body @ replicate (k * coded_chunk k (length body)) 0))"

lemma originals_of_props:
  assumes "0 < k"
  shows "length (originals_of k body) = k"
    and "\<forall>x \<in> set (originals_of k body). length x = coded_chunk k (length body)"
    and "take (length body) (concat (originals_of k body)) = body"
proof -
  let ?c = "coded_chunk k (length body)"
  let ?p = "take (k * ?c) (body @ replicate (k * ?c) 0)"
  have c: "0 < ?c" using coded_chunk_bounds(1) [of k "length body"] by simp
  have len: "length ?p = k * ?c" by simp
  show "length (originals_of k body) = k"
    unfolding originals_of_def length_chunks_exact len using c by simp
  show "\<forall>x \<in> set (originals_of k body). length x = ?c"
    unfolding originals_of_def using c chunks_exact_lengths by blast
  have "concat (originals_of k body) = ?p"
    unfolding originals_of_def using c len by (intro concat_chunks_exact) (simp_all only: len dvd_triv_right)
  then show "take (length body) (concat (originals_of k body)) = body"
    using coded_chunk_covers [OF assms, of "length body"] by simp
qed

lemma encode_eq:
  "encode D k m body =
     (case rs_encode D k m (originals_of k body) of
        None \<Rightarrow> Inl ReconstructionUnavailable
      | Some coded \<Rightarrow> Inr (originals_of k body @ coded))"
  unfolding encode_def originals_of_def Let_def by (rule refl)

text \<open>The codec's contract at one body, in the form of an elimination rule.\<close>

lemma rs_ok_body:
  assumes "rs_ok D k m" "0 < k"
  obtains coded where "encode D k m body = Inr (originals_of k body @ coded)" "length coded = m"
    and "\<forall>x \<in> set coded. length x = coded_chunk k (length body)"
    and "\<forall>parts. shards_of (originals_of k body @ coded) parts \<and> k \<le> length parts \<longrightarrow> (
       \<exists>restored. rs_decode D k m (coded_chunk k (length body)) (map (to_shard k) parts) = Some restored \<and>
         (\<forall>i < k. i \<notin> fst ` set parts \<longrightarrow> map_of (rev restored) i = Some (originals_of k body ! i)))"
proof -
  have "2 \<le> coded_chunk k (length body) \<and> even (coded_chunk k (length body)) \<and>
      length (originals_of k body) = k \<and>
      (\<forall>x \<in> set (originals_of k body). length x = coded_chunk k (length body))"
    using coded_chunk_bounds originals_of_props [OF assms(2)] by blast
  with assms(1) [unfolded rs_ok_def, rule_format, of "coded_chunk k (length body)" "originals_of k body"]
  show ?thesis using that by (auto simp: encode_eq)
qed

text \<open>Under the codec's contract encoding never fails and yields one shard per voter.\<close>

lemma encode_total:
  assumes "rs_ok D k m" "0 < k"
  shows "\<exists>shards. encode D k m body = Inr shards \<and> length shards = k + m"
proof -
  obtain coded where "encode D k m body = Inr (originals_of k body @ coded)" "length coded = m"
    using rs_ok_body [OF assms] by metis
  then show ?thesis using originals_of_props(1) [OF assms(2)] by simp
qed

lemma find_shards_of:
  assumes "shards_of word parts"
  shows "find (\<lambda>p. fst p = i) parts = (if i \<in> fst ` set parts then Some (i, word ! i) else None)"
proof (cases "find (\<lambda>p. fst p = i) parts")
  case None
  then show ?thesis by (auto simp: find_None_iff)
next
  case (Some p)
  then have "p \<in> set parts" "fst p = i"
    by (auto simp: find_Some_iff)
  then show ?thesis using Some assms by (auto simp: shards_of_def prod_eq_iff)
qed

text \<open>Any \<open>k\<close> shards of the codeword decode to the body.\<close>

lemma decode_encode:
  assumes ok: "rs_ok D k m" and k: "0 < k" and enc: "encode D k m body = Inr shards"
    and parts: "shards_of shards parts" "k \<le> length parts"
  shows "decode D k m (length body) parts = Inr body"
proof -
  let ?os = "originals_of k body" and ?c = "coded_chunk k (length body)"
  obtain coded where coded: "encode D k m body = Inr (?os @ coded)" "length coded = m" "\<forall>x \<in> set coded. length x = ?c"
    and dec: "\<forall>parts. shards_of (?os @ coded) parts \<and> k \<le> length parts \<longrightarrow> (
       \<exists>restored. rs_decode D k m ?c (map (to_shard k) parts) = Some restored \<and>
         (\<forall>i < k. i \<notin> fst ` set parts \<longrightarrow> map_of (rev restored) i = Some (?os ! i)))"
    by (rule rs_ok_body [OF ok k, of body])
  have os: "length ?os = k" "\<forall>x \<in> set ?os. length x = ?c"
    using originals_of_props [OF k] by blast+
  have shards: "shards = ?os @ coded" using enc coded(1) by simp
  obtain s d ps where p0: "parts = (s, d) # ps"
    using parts(2) k by (cases parts) auto
  have "d \<in> set shards" using parts(1) unfolding p0 shards_of_def by auto
  then have len: "length d = ?c" using os coded(3) shards by auto
  obtain restored where res: "rs_decode D k m ?c (map (to_shard k) parts) = Some restored"
    "\<And>i. i < k \<Longrightarrow> i \<notin> fst ` set parts \<Longrightarrow> map_of (rev restored) i = Some (?os ! i)"
    using dec [rule_format, of parts] parts shards by blast
  have slot: "slot_data parts (bt_of_list restored) i = Inr (?os ! i)" if "i < k" for i
    using that res(2) [OF that] os shards
    by (simp add: slot_data_def find_shards_of [OF parts(1)] map_of_bt_of_list nth_append)
  have "map (slot_data parts (bt_of_list restored)) [0..<k] = map (\<lambda>i. Inr (?os ! i)) [0..<k]"
    using slot by (intro map_cong) auto
  moreover have "map (\<lambda>i. ?os ! i) [0..<k] = ?os"
    using map_nth [of ?os] os by simp
  ultimately have "sequence (map (slot_data parts (bt_of_list restored)) [0..<k]) = Inr ?os"
    by (simp only: sequence_map_Inr)
  then show ?thesis
    unfolding decode_def using res(1) len p0 originals_of_props(3) [OF k]
    by (simp add: Let_def)
qed

subsection \<open>A concrete instance of the linked crates\<close>

text \<open>
  Two data shards and one parity shard, the parity being their bytewise exclusive or: an
  instance of the codec's contract for the three-voter groups the tests of the crate use. The
  digest pads or truncates to 32 bytes and the checksum is the length; only the contract of
  each is used.
\<close>

definition xor_bytes :: "bytes \<Rightarrow> bytes \<Rightarrow> bytes" where
  "xor_bytes a b = map2 (\<lambda>x y. x XOR y) a b"

fun xor_encode :: "nat \<Rightarrow> nat \<Rightarrow> bytes list \<Rightarrow> bytes list option" where
  "xor_encode k m [a, b] = (if k = 2 \<and> m = 1 then Some [xor_bytes a b] else None)"
| "xor_encode k m os = None"

fun shard_slot :: "shard \<Rightarrow> nat" where
  "shard_slot (Original i _) = i"
| "shard_slot (Recovery i _) = i + 2"

fun shard_bytes :: "shard \<Rightarrow> bytes" where
  "shard_bytes (Original _ b) = b"
| "shard_bytes (Recovery _ b) = b"

definition xor_decode :: "nat \<Rightarrow> nat \<Rightarrow> nat \<Rightarrow> shard list \<Rightarrow> (nat \<times> bytes) list option" where
  "xor_decode k m c shards =
     (let get = map_of (map (\<lambda>s. (shard_slot s, shard_bytes s)) shards) in
      case (get 0, get 1, get 2) of
        (Some a, Some b, _) \<Rightarrow> Some []
      | (None, Some b, Some p) \<Rightarrow> Some [(0, xor_bytes b p)]
      | (Some a, None, Some p) \<Rightarrow> Some [(1, xor_bytes a p)]
      | _ \<Rightarrow> None)"

fun unhex :: "string \<Rightarrow> bytes option" where
  "unhex [] = Some []"
| "unhex [c] = None"
| "unhex (c # d # cs) =
     (case (digit_of c, digit_of d, unhex cs) of
        (Some x, Some y, Some bs) \<Rightarrow> Some (word_of_nat (16 * x + y) # bs)
      | _ \<Rightarrow> None)"

definition xor_deps :: deps where
  "xor_deps = \<lparr> sha256 = (\<lambda>b. take 32 (b @ replicate 32 0)), crc32c = (\<lambda>b. length b mod 2 ^ 32),
     rs_encode = xor_encode, rs_decode = xor_decode, hex_encode = hex_bytes,
     hex_decode = unhex \<rparr>"

lemma xor_deps_rs [simp]: "rs_encode xor_deps = xor_encode" "rs_decode xor_deps = xor_decode"
  by (simp_all add: xor_deps_def)

lemma xor_deps_hex [simp]: "hex_encode xor_deps = hex_bytes" "hex_decode xor_deps = unhex"
  by (simp_all add: xor_deps_def)

lemma xor_deps_sha: "sha256 xor_deps b = take 32 (b @ replicate 32 0)"
  by (simp add: xor_deps_def)

lemma xor_deps_crc: "crc32c xor_deps b = length b mod 2 ^ 32"
  by (simp add: xor_deps_def)

lemma xor_byte_cancel: "x XOR (x XOR y) = (y :: byte)" "y XOR (x XOR y) = (x :: byte)"
  by (simp add: xor.assoc [symmetric]) (simp add: xor.commute [of x y] xor.assoc [symmetric])

lemma xor_bytes_cancel:
  assumes "length a = length b"
  shows "xor_bytes b (xor_bytes a b) = a" "xor_bytes a (xor_bytes a b) = b"
  using assms by (auto simp: xor_bytes_def xor_byte_cancel intro!: nth_equalityI)

lemma to_shard_slot: "map (\<lambda>s. (shard_slot s, shard_bytes s)) (map (to_shard 2) parts) = parts"
  by (induction parts) (auto simp: to_shard_def)

lemma map_of_shards_of:
  "shards_of word parts \<Longrightarrow> map_of parts i = (if i \<in> fst ` set parts then Some (word ! i) else None)"
  by (auto simp: shards_of_def map_of_eq_None_iff)

lemma two_of_three:
  assumes "distinct xs" "set xs \<subseteq> {0, 1, 2 :: nat}" "2 \<le> length xs"
  shows "(0 \<in> set xs \<and> 1 \<in> set xs) \<or> (0 \<in> set xs \<and> 2 \<in> set xs) \<or> (1 \<in> set xs \<and> 2 \<in> set xs)"
proof (rule ccontr)
  assume "\<not> ?thesis"
  then have "set xs \<subseteq> {0} \<or> set xs \<subseteq> {1} \<or> set xs \<subseteq> {2}"
    using assms(2) by (cases "0 \<in> set xs"; cases "1 \<in> set xs") auto
  then obtain x where "set xs \<subseteq> {x}" by auto
  then have "card (set xs) \<le> card {x}" by (intro card_mono) simp_all
  then show False using assms(1,3) by (simp add: distinct_card)
qed

lemma xor_rs_ok: "rs_ok xor_deps 2 1"
  unfolding rs_ok_def
proof (intro allI impI, elim conjE)
  fix c :: nat and os :: "bytes list"
  assume c: "2 \<le> c" "even c" "length os = 2" "\<forall>x \<in> set os. length x = c"
  then obtain a b where os: "os = [a, b]" "length a = c" "length b = c"
    by (auto simp: numeral_2_eq_2 length_Suc_conv)
  have dec: "\<exists>restored. xor_decode 2 1 c (map (to_shard 2) parts) = Some restored \<and>
      (\<forall>i < 2. i \<notin> fst ` set parts \<longrightarrow> map_of (rev restored) i = Some (os ! i))"
    if parts: "shards_of (os @ [xor_bytes a b]) parts" "2 \<le> length parts" for parts
  proof -
    have "fst ` set parts \<subseteq> {0, 1, 2}"
      using parts(1) os(1) by (auto simp: shards_of_def less_Suc_eq)
    then have two: "(0 \<in> fst ` set parts \<and> 1 \<in> fst ` set parts) \<or> (0 \<in> fst ` set parts \<and> 2 \<in> fst ` set parts)
        \<or> (1 \<in> fst ` set parts \<and> 2 \<in> fst ` set parts)"
      using two_of_three [of "map fst parts"] parts by (auto simp: shards_of_def)
    then show ?thesis
      unfolding xor_decode_def to_shard_slot Let_def
      using xor_bytes_cancel [of a b] os
      by (cases "0 \<in> fst ` set parts"; cases "1 \<in> fst ` set parts")
        (simp_all add: map_of_shards_of [OF parts(1)] less_2_cases_iff)
  qed
  show "\<exists>rec. rs_encode xor_deps 2 1 os = Some rec \<and> length rec = 1 \<and> (\<forall>x \<in> set rec. length x = c) \<and>
      (\<forall>parts. shards_of (os @ rec) parts \<and> 2 \<le> length parts \<longrightarrow>
        (\<exists>restored. rs_decode xor_deps 2 1 c (map (to_shard 2) parts) = Some restored \<and>
          (\<forall>i < 2. i \<notin> fst ` set parts \<longrightarrow> map_of (rev restored) i = Some (os ! i))))"
    using os dec by (intro exI [of _ "[xor_bytes a b]"]) (simp add: xor_deps_def xor_bytes_def)
qed

lemma xor_digest_ok: "digest_ok xor_deps"
  by (auto simp: digest_ok_def xor_deps_def min_def)

lemma unhex_hex_bytes: "unhex (hex_bytes bs) = Some bs"
proof (induction bs)
  case (Cons b bs)
  have b: "unat b < 256" by (rule unat_byte)
  then have "hex_fixed 2 (unat b) = [hex_digit (unat b div 16), hex_digit (unat b mod 16)]"
    by (simp add: numeral_2_eq_2)
  moreover have "unat b div 16 < 16" using b by simp
  ultimately show ?case
    using Cons by (simp add: hex_bytes_def)
qed (simp add: hex_bytes_def)

lemma xor_hex_ok: "hex_ok xor_deps"
  by (simp add: hex_ok_def xor_deps_def unhex_hex_bytes)

lemma ex_originals: "originals_of 2 [1, 2, 3] = [[1, 2], [3, 0]]"
proof -
  have "coded_chunk 2 (Suc (Suc (Suc 0))) = 2" "[0..<2] = [0, 1 :: nat]" "replicate 4 (0 :: byte) = [0, 0, 0, 0]"
    by code_simp (simp_all add: upt_rec numeral_eq_Suc)
  then show ?thesis by (simp add: originals_of_def chunks_exact_def)
qed

lemma ex_encode: "encode xor_deps 2 1 [1, 2, 3] = Inr [[1, 2], [3, 0], [2, 2]]"
  by (simp add: encode_eq ex_originals xor_bytes_def)

end
