(* ===== verification/Simulated.thy ===== *)
theory Simulated
  imports Coding
begin

section \<open>The executable group of the consensus crate\<close>

text \<open>
  \<open>GroupConfig\<close>, \<open>Proposal\<close>, \<open>CommittedEntry\<close> and \<open>SimulatedGroup\<close> of
  \<open>crates/verglas-consensus/src/lib.rs\<close>. Every method that takes \<open>&mut self\<close> returns the
  next state with its result; each of them checks before it mutates, so an error carries no
  state. The counters \<open>term\<close>, \<open>commit\<close> and \<open>writer_epoch\<close> only ever step by one and are
  unbounded here. The invariant is \<open>sim_wf\<close>; \<open>sim_step\<close> collects the public methods, and
  the interpretation of \<open>step_system\<close> gives the facts that survive any later operations.
\<close>

subsection \<open>Data\<close>

record group_config =
  gc_id :: string
  gc_voters :: "node_id list"
  gc_k :: nat

record proposal =
  pr_request :: request_id
  pr_kind :: command_kind
  pr_payload :: bytes
  pr_writer_epoch :: "nat option"

record committed_entry =
  ce_index :: nat
  ce_mode :: replication_mode
  ce_kind :: command_kind
  ce_payload :: bytes
  ce_hash :: hash
  ce_fragments :: "(node_id, bytes) btree"

record simulated_group =
  sg_config :: group_config
  sg_term :: nat
  sg_leader :: "node_id option"
  sg_commit :: nat
  sg_entries :: "committed_entry list"
  sg_retries :: "(request_id, hash \<times> nat option \<times> nat) btree"
  sg_writer_epoch :: nat
  sg_joint :: "node_id list option"
  sg_former_leaders :: "node_id list"

definition group_config_new :: "string \<Rightarrow> node_id list \<Rightarrow> nat \<Rightarrow> consensus_error + group_config" where
  "group_config_new name voters k =
     (let voters = sort_dedup voters in
      if voters = [] \<or> k = 0 \<or> k > majority (length voters) then Inl InvalidConfiguration
      else Inr \<lparr> gc_id = name, gc_voters = voters, gc_k = k \<rparr>)"

definition proposal_new :: "request_id \<Rightarrow> command_kind \<Rightarrow> bytes \<Rightarrow> proposal" where
  "proposal_new request kind payload =
     \<lparr> pr_request = request, pr_kind = kind, pr_payload = payload, pr_writer_epoch = None \<rparr>"

definition with_writer_epoch :: "nat \<Rightarrow> proposal \<Rightarrow> proposal" where
  "with_writer_epoch epoch p = p\<lparr>pr_writer_epoch := Some epoch\<rparr>"

definition simulated_new :: "group_config \<Rightarrow> simulated_group" where
  "simulated_new config =
     \<lparr> sg_config = config, sg_term = 0, sg_leader = None, sg_commit = 0, sg_entries = [],
       sg_retries = [], sg_writer_epoch = 0, sg_joint = None, sg_former_leaders = [] \<rparr>"

abbreviation sg_voters :: "simulated_group \<Rightarrow> node_id list" where
  "sg_voters s \<equiv> gc_voters (sg_config s)"

abbreviation sg_k :: "simulated_group \<Rightarrow> nat" where
  "sg_k s \<equiv> gc_k (sg_config s)"

subsection \<open>Operations\<close>

definition quorum :: "node_id list \<Rightarrow> node_id list \<Rightarrow> bool" where
  "quorum voters reachable \<longleftrightarrow> majority (length voters) \<le> distinct_members voters reachable"

definition require_leader :: "simulated_group \<Rightarrow> node_id \<Rightarrow> consensus_error + unit" where
  "require_leader s ingress =
     (case sg_leader s of
        None \<Rightarrow> Inl ElectionQuorumUnavailable
      | Some leader \<Rightarrow>
          if ingress \<in> set (sg_former_leaders s) \<and> ingress \<noteq> leader then Inl (NotLeader leader)
          else Inr ())"

definition elect :: "simulated_group \<Rightarrow> node_id \<Rightarrow> node_id list
    \<Rightarrow> consensus_error + (nat \<times> simulated_group)" where
  "elect s leader reachable =
     (if \<not> quorum (sg_voters s) reachable \<or> leader \<notin> set (sg_voters s)
      then Inl ElectionQuorumUnavailable
      else
        (let former = (case sg_leader s of
                         None \<Rightarrow> sg_former_leaders s
                       | Some previous \<Rightarrow> bs_insert previous (sg_former_leaders s))
         in Inr (sg_term s + 1,
                 s\<lparr>sg_former_leaders := former, sg_term := sg_term s + 1, sg_leader := Some leader\<rparr>)))"

definition coded_needed :: "simulated_group \<Rightarrow> nat" where
  "coded_needed s = length (sg_voters s) - majority (length (sg_voters s)) + sg_k s"

definition wal_fence :: "simulated_group \<Rightarrow> proposal \<Rightarrow> consensus_error + unit" where
  "wal_fence s p =
     (case pr_writer_epoch p of
        Some actual \<Rightarrow>
          if pr_kind p = Wal \<and> actual \<noteq> sg_writer_epoch s
          then Inl (StaleWriterEpoch (sg_writer_epoch s) actual) else Inr ()
      | None \<Rightarrow> Inr ())"

text \<open>The fragments of a new entry: the whole body per holder, or one shard per voter.\<close>

definition fragments_of ::
    "deps \<Rightarrow> simulated_group \<Rightarrow> bytes \<Rightarrow> node_id list \<Rightarrow> replication_mode
      \<Rightarrow> consensus_error + (node_id, bytes) btree" where
  "fragments_of D s payload durable mode =
     (let voters = sg_voters s in
      if mode = Complete
      then Inr (bt_of_list (map (\<lambda>node. (node, payload)) (filter (\<lambda>node. node \<in> set durable) voters)))
      else and_then (encode D (sg_k s) (length voters - sg_k s) payload) (\<lambda>shards.
        Inr (bt_of_list (filter_map (\<lambda>(slot, data).
               if slot < length voters \<and> voters ! slot \<in> set durable
               then Some (voters ! slot, data) else None)
             (enumerate 0 shards)))))"

definition append_group ::
    "deps \<Rightarrow> simulated_group \<Rightarrow> node_id \<Rightarrow> proposal \<Rightarrow> node_id list \<Rightarrow> replication_mode
      \<Rightarrow> consensus_error + (committed_entry \<times> simulated_group)" where
  "append_group D s ingress p durable mode =
     and_then (require_leader s ingress) (\<lambda>_.
     let hash = sha256 D (pr_payload p) in
     case map_of (sg_retries s) (pr_request p) of
       Some (old_hash, old_epoch, index) \<Rightarrow>
         if old_hash \<noteq> hash \<or> old_epoch \<noteq> pr_writer_epoch p
         then Inl (ConflictingRetry (pr_request p))
         else and_then (ok_or (ConflictingRetry (pr_request p))
                (find (\<lambda>e. ce_index e = index) (sg_entries s))) (\<lambda>entry. Inr (entry, s))
     | None \<Rightarrow>
         and_then (wal_fence s p) (\<lambda>_.
         if \<not> quorum (sg_voters s) durable then Inl WriteQuorumUnavailable
         else
           (let certified = distinct_members (sg_voters s) durable in
            if mode = Coded \<and> certified < coded_needed s
            then Inl (CodedQuorumUnavailable (coded_needed s) certified)
            else and_then (fragments_of D s (pr_payload p) durable mode) (\<lambda>fragments.
              let entry = \<lparr> ce_index = sg_commit s + 1, ce_mode = mode, ce_kind = pr_kind p,
                            ce_payload = pr_payload p, ce_hash = hash, ce_fragments = fragments \<rparr>
              in Inr (entry,
                   s\<lparr>sg_commit := sg_commit s + 1,
                     sg_retries := bt_insert (pr_request p) (hash, pr_writer_epoch p, sg_commit s + 1)
                                     (sg_retries s),
                     sg_entries := sg_entries s @ [entry]\<rparr>)))))"

definition propose where
  "propose D s ingress p durable = append_group D s ingress p durable Coded"

definition propose_complete where
  "propose_complete D s ingress p durable = append_group D s ingress p durable Complete"

definition acquire_writer ::
    "deps \<Rightarrow> simulated_group \<Rightarrow> node_id \<Rightarrow> request_id \<Rightarrow> string \<Rightarrow> node_id list
      \<Rightarrow> consensus_error + (nat \<times> simulated_group)" where
  "acquire_writer D s ingress request writer durable =
     and_then (require_leader s ingress) (\<lambda>_.
     let payload = as_bytes writer; hash = sha256 D payload in
     case map_of (sg_retries s) request of
       Some (old_hash, epoch, _) \<Rightarrow>
         if old_hash \<noteq> hash then Inl (ConflictingRetry request)
         else and_then (ok_or (ConflictingRetry request) epoch) (\<lambda>e. Inr (e, s))
     | None \<Rightarrow>
         (let next_epoch = sg_writer_epoch s + 1;
              p = with_writer_epoch next_epoch (proposal_new request WriterLease payload)
          in and_then (append_group D s ingress p durable Complete) (\<lambda>(_, s').
               Inr (next_epoch, s'\<lparr>sg_writer_epoch := next_epoch\<rparr>))))"

definition read_index :: "simulated_group \<Rightarrow> node_id \<Rightarrow> node_id list \<Rightarrow> consensus_error + nat" where
  "read_index s ingress reachable =
     (let required = majority (length (sg_voters s));
          reached = distinct_members (sg_voters s) reachable
      in if sg_leader s = None \<or> reached < required then Inl (ReadQuorumUnavailable required reached)
         else Inr (sg_commit s))"

definition begin_membership_change ::
    "simulated_group \<Rightarrow> node_id list \<Rightarrow> node_id list \<Rightarrow> consensus_error + simulated_group" where
  "begin_membership_change s new_voters durable =
     (let new_voters = sort_dedup new_voters in
      if new_voters = [] \<or> \<not> quorum (sg_voters s) durable \<or> \<not> quorum new_voters durable
      then Inl JointQuorumUnavailable
      else Inr (s\<lparr>sg_joint := Some new_voters\<rparr>))"

definition finish_membership_change ::
    "simulated_group \<Rightarrow> node_id list \<Rightarrow> consensus_error + simulated_group" where
  "finish_membership_change s durable =
     and_then (ok_or JointQuorumUnavailable (sg_joint s)) (\<lambda>new_voters.
     let introduced = list_ex (\<lambda>node. node \<notin> set (sg_voters s) \<and> node \<in> set durable) new_voters in
     if \<not> quorum (sg_voters s) durable \<or> \<not> quorum new_voters durable \<or> \<not> introduced
     then Inl JointQuorumUnavailable
     else Inr (s\<lparr>sg_config := (sg_config s)\<lparr>gc_voters := new_voters\<rparr>, sg_joint := None\<rparr>))"

definition coded_parts :: "node_id list \<Rightarrow> node_id list \<Rightarrow> (node_id, bytes) btree \<Rightarrow> (nat \<times> bytes) list" where
  "coded_parts voters available fragments =
     sort_key fst (filter_map (\<lambda>(node, data).
       if node \<in> set available then map_option (\<lambda>slot. (slot, data)) (position (\<lambda>v. v = node) voters)
       else None) fragments)"

definition read_entry :: "deps \<Rightarrow> group_config \<Rightarrow> committed_entry \<Rightarrow> node_id list \<Rightarrow> consensus_error + bytes" where
  "read_entry D config entry available =
     (if ce_mode entry = Complete
      then (case find (\<lambda>(node, _). node \<in> set available) (ce_fragments entry) of
              Some (_, body) \<Rightarrow> Inr body
            | None \<Rightarrow> Inl ReconstructionUnavailable)
      else
        (let parts = coded_parts (gc_voters config) available (ce_fragments entry) in
         if length parts < gc_k config then Inl ReconstructionUnavailable
         else and_then (decode D (gc_k config) (length (gc_voters config) - gc_k config)
                         (length (ce_payload entry)) parts)
           (\<lambda>body. if sha256 D body = ce_hash entry then Inr body else Inl ReconstructionUnavailable)))"

definition reconstruct :: "deps \<Rightarrow> simulated_group \<Rightarrow> nat \<Rightarrow> node_id list \<Rightarrow> consensus_error + bytes" where
  "reconstruct D s index available =
     and_then (ok_or ReconstructionUnavailable (find (\<lambda>e. ce_index e = index) (sg_entries s)))
       (\<lambda>entry. read_entry D (sg_config s) entry available)"

subsection \<open>Shards gathered from a quorum\<close>

lemma in_coded_parts:
  "(slot, data) \<in> set (coded_parts voters available fragments) \<longleftrightarrow>
     (\<exists>node. (node, data) \<in> set fragments \<and> node \<in> set available \<and> position (\<lambda>v. v = node) voters = Some slot)"
  by (auto simp: coded_parts_def set_filter_map split: if_splits) force

lemma distinct_filter_map_slots:
  assumes "distinct (map fst fragments)"
  shows "distinct (map fst (filter_map (\<lambda>(node, data).
     if node \<in> A then map_option (\<lambda>slot. (slot, data)) (position (\<lambda>v. v = node) voters) else None) fragments))"
  using assms
proof (induction fragments)
  case (Cons f fs)
  obtain node data where f: "f = (node, data)" by (cases f)
  show ?case
  proof (cases "if node \<in> A then position (\<lambda>v. v = node) voters else None")
    case (Some slot)
    have "slot \<notin> fst ` set (filter_map (\<lambda>(node, data).
        if node \<in> A then map_option (\<lambda>slot. (slot, data)) (position (\<lambda>v. v = node) voters) else None) fs)"
    proof
      assume "slot \<in> fst ` set (filter_map (\<lambda>(node, data).
        if node \<in> A then map_option (\<lambda>slot. (slot, data)) (position (\<lambda>v. v = node) voters) else None) fs)"
      then obtain node' data' where other: "(node', data') \<in> set fs" "position (\<lambda>v. v = node') voters = Some slot"
        by (auto simp: set_filter_map split: if_splits)
      moreover have "position (\<lambda>v. v = node) voters = Some slot" using Some by (simp split: if_splits)
      ultimately have "node' = node" by (metis position_inj)
      then show False using other(1) Cons.prems f by force
    qed
    then show ?thesis using Some Cons f by (simp split: if_splits)
  qed (use Cons f in \<open>simp split: if_splits\<close>)
qed simp

lemma distinct_coded_parts:
  "distinct (map fst fragments) \<Longrightarrow> distinct (map fst (coded_parts voters available fragments))"
  using distinct_filter_map_slots [of fragments "set available" voters]
  unfolding coded_parts_def distinct_map by simp

text \<open>
  What the fragments of a coded entry look like to a reader: each is the shard of its holder's
  position in the voter list. Then the gathered parts are shards of that codeword, one per
  reachable holder.
\<close>

definition placed :: "node_id list \<Rightarrow> bytes list \<Rightarrow> (node_id, bytes) btree \<Rightarrow> bool" where
  "placed voters shards fragments \<longleftrightarrow>
     distinct (map fst fragments) \<and>
     (\<forall>(node, data) \<in> set fragments.
        \<exists>slot < length voters. voters ! slot = node \<and> slot < length shards \<and> data = shards ! slot)"

lemma placed_position:
  assumes "placed voters shards fragments" "distinct voters" "(node, data) \<in> set fragments"
  obtains slot where "position (\<lambda>v. v = node) voters = Some slot" "slot < length shards" "data = shards ! slot"
  using assms position_distinct unfolding placed_def by fastforce

lemma coded_parts_shards_of:
  assumes "placed voters shards fragments" "distinct voters"
  shows "shards_of shards (coded_parts voters available fragments)"
  unfolding shards_of_def
proof (intro conjI ballI)
  show "distinct (map fst (coded_parts voters available fragments))"
    using assms(1) by (simp add: placed_def distinct_coded_parts)
next
  fix p assume "p \<in> set (coded_parts voters available fragments)"
  then obtain node where "(node, snd p) \<in> set fragments" "position (\<lambda>v. v = node) voters = Some (fst p)"
    using in_coded_parts [of "fst p" "snd p"] by auto
  then show "fst p < length shards" "snd p = shards ! fst p"
    using placed_position [OF assms] by (metis option.inject)+
qed

lemma length_coded_parts:
  assumes "placed voters shards fragments" "distinct voters"
  shows "length (coded_parts voters available fragments) = card (fst ` set fragments \<inter> set available)"
proof -
  have pos: "position (\<lambda>v. v = fst f) voters \<noteq> None" if "f \<in> set fragments" for f
    using placed_position [OF assms, of "fst f" "snd f"] that by (metis option.distinct(1) prod.collapse)
  have "length (coded_parts voters available fragments) =
      length (filter (\<lambda>f. fst f \<in> set available) fragments)"
    unfolding coded_parts_def length_sort length_filter_map
    using pos by (intro arg_cong [where f = length] filter_cong) (auto simp: case_prod_beta)
  also have "\<dots> = card (set (map fst (filter (\<lambda>f. fst f \<in> set available) fragments)))"
    using assms(1) unfolding placed_def by (subst distinct_card) (auto simp: distinct_map_filter)
  also have "set (map fst (filter (\<lambda>f. fst f \<in> set available) fragments)) = fst ` set fragments \<inter> set available"
    by auto
  finally show ?thesis .
qed

lemma decode_coded_parts:
  assumes "rs_ok D k (length voters - k)" "0 < k" "distinct voters"
    and "encode D k (length voters - k) body = Inr shards"
    and "placed voters shards fragments"
    and "k \<le> card (fst ` set fragments \<inter> set available)"
  shows "k \<le> length (coded_parts voters available fragments)"
    and "decode D k (length voters - k) (length body) (coded_parts voters available fragments) = Inr body"
  using assms decode_encode [OF assms(1,2,4) coded_parts_shards_of [OF assms(5,3)], of available]
  by (simp_all add: length_coded_parts [OF assms(5,3)])

subsection \<open>The fragments of a committed entry\<close>

text \<open>The certificate an entry carries for one voter set and coding width.\<close>

definition stored :: "deps \<Rightarrow> group_config \<Rightarrow> committed_entry \<Rightarrow> bool" where
  "stored D config e \<longleftrightarrow>
     ce_hash e = sha256 D (ce_payload e) \<and>
     (case ce_mode e of
        Complete \<Rightarrow> holds_majority (gc_voters config) (fst ` set (ce_fragments e)) \<and>
                    (\<forall>f \<in> set (ce_fragments e). snd f = ce_payload e)
      | Coded \<Rightarrow> holds_coded (gc_voters config) (gc_k config) (fst ` set (ce_fragments e)) \<and>
                  (\<exists>shards. encode D (gc_k config) (length (gc_voters config) - gc_k config) (ce_payload e)
                              = Inr shards \<and> placed (gc_voters config) shards (ce_fragments e)))"

text \<open>A stored entry is read back by every set of nodes that contains a majority.\<close>

lemma read_stored:
  assumes "stored D config e" "distinct (gc_voters config)" "0 < gc_k config"
    and "rs_ok D (gc_k config) (length (gc_voters config) - gc_k config)"
    and "reaches_majority (gc_voters config) (set available)"
  shows "read_entry D config e available = Inr (ce_payload e)"
proof (cases "ce_mode e")
  case Complete
  then have holders: "holds_majority (gc_voters config) (fst ` set (ce_fragments e))"
    and bodies: "\<forall>f \<in> set (ce_fragments e). snd f = ce_payload e"
    using assms(1) by (simp_all add: stored_def)
  obtain x where "x \<in> fst ` set (ce_fragments e)" "x \<in> set available"
    using complete_rule.overlap_member [OF holders assms(5)] by auto
  then obtain f where "find (\<lambda>(node, _). node \<in> set available) (ce_fragments e) = Some f"
      "f \<in> set (ce_fragments e)"
    using find_Some_ex [of _ "ce_fragments e" "\<lambda>(node, _). node \<in> set available"] by fastforce
  then show ?thesis using bodies Complete by (simp add: read_entry_def case_prod_beta)
next
  case Coded
  then obtain shards where holders: "holds_coded (gc_voters config) (gc_k config) (fst ` set (ce_fragments e))"
    and enc: "encode D (gc_k config) (length (gc_voters config) - gc_k config) (ce_payload e) = Inr shards"
    and placed: "placed (gc_voters config) shards (ce_fragments e)"
    using assms(1) by (auto simp: stored_def)
  note coded_rule.overlap [OF holders assms(5)]
  then show ?thesis
    using decode_coded_parts [OF assms(4,3,2) enc placed, of available] Coded assms(1)
    by (simp add: read_entry_def Let_def stored_def not_less [symmetric])
qed

lemma quorum_reaches: "quorum voters reachable \<longleftrightarrow> reaches_majority voters (set reachable)"
  by (simp add: quorum_def reaches_majority_def distinct_members_card)

text \<open>The fragments \<open>append\<close> builds are stored in this sense.\<close>

lemma complete_fragments:
  assumes "distinct voters"
  shows "set (bt_of_list (map (\<lambda>node. (node, payload)) (filter (\<lambda>node. node \<in> set durable) voters)))
     = (\<lambda>node. (node, payload)) ` (set durable \<inter> set voters)"
  using assms by (subst set_bt_of_list) (auto simp: comp_def)

lemma filter_map_enumerate:
  "filter_map (\<lambda>(slot, data). if P slot then Some (f slot, data) else None) (enumerate 0 shards)
     = map (\<lambda>slot. (f slot, shards ! slot)) (filter P [0..<length shards])"
proof (induction shards rule: rev_induct)
  case (snoc x xs)
  have "map (\<lambda>slot. (f slot, (xs @ [x]) ! slot)) (filter P [0..<length xs])
      = map (\<lambda>slot. (f slot, xs ! slot)) (filter P [0..<length xs])"
    by (intro map_cong) (auto simp: nth_append)
  then show ?case using snoc by (simp add: enumerate_append_eq)
qed simp

lemma coded_fragments:
  assumes "distinct voters"
  shows "set (bt_of_list (filter_map (\<lambda>(slot, data).
      if slot < length voters \<and> voters ! slot \<in> set durable then Some (voters ! slot, data) else None)
        (enumerate 0 shards)))
     = {(voters ! slot, shards ! slot) | slot.
          slot < length voters \<and> slot < length shards \<and> voters ! slot \<in> set durable}"
  unfolding filter_map_enumerate using assms
  by (subst set_bt_of_list) (auto simp: distinct_map inj_on_def nth_eq_iff_index_eq)

lemma fragments_of_stored:
  assumes frs: "fragments_of D s payload durable mode = Inr frs"
    and voters: "distinct (sg_voters s)"
    and quorum: "quorum (sg_voters s) durable"
    and coded: "mode = Coded \<longrightarrow> coded_needed s \<le> distinct_members (sg_voters s) durable"
    and codec: "mode = Coded \<longrightarrow> rs_ok D (sg_k s) (length (sg_voters s) - sg_k s)" and k: "0 < sg_k s"
    and e: "ce_mode e = mode" "ce_payload e = payload" "ce_hash e = sha256 D payload" "ce_fragments e = frs"
  shows "stored D (sg_config s) e"
proof (cases mode)
  case Complete
  then have "set frs = (\<lambda>node. (node, payload)) ` (set durable \<inter> set (sg_voters s))"
    using frs complete_fragments [OF voters, of payload durable] by (simp add: fragments_of_def Let_def)
  then show ?thesis
    using Complete e quorum
    by (simp add: stored_def holds_majority_def image_image quorum_def distinct_members_card)
next
  case Coded
  then obtain shards where enc: "encode D (sg_k s) (length (sg_voters s) - sg_k s) payload = Inr shards"
    and frs': "frs = bt_of_list (filter_map (\<lambda>(slot, data).
      if slot < length (sg_voters s) \<and> sg_voters s ! slot \<in> set durable
      then Some (sg_voters s ! slot, data) else None) (enumerate 0 shards))"
    using frs by (auto simp: fragments_of_def Let_def)
  have "length shards = sg_k s + (length (sg_voters s) - sg_k s)"
    using encode_total [of D "sg_k s" "length (sg_voters s) - sg_k s" payload] Coded codec k enc by auto
  then have len: "length (sg_voters s) \<le> length shards" by simp
  have set_frs: "set frs = {(sg_voters s ! slot, shards ! slot) | slot.
      slot < length (sg_voters s) \<and> slot < length shards \<and> sg_voters s ! slot \<in> set durable}"
    unfolding frs' by (rule coded_fragments [OF voters])
  have "fst ` set frs = {sg_voters s ! slot | slot. slot < length (sg_voters s) \<and> sg_voters s ! slot \<in> set durable}"
    unfolding set_frs setcompr_eq_image image_image using len by (intro image_cong) auto
  also have "\<dots> = set durable \<inter> set (sg_voters s)"
    unfolding set_conv_nth [of "sg_voters s"] by auto
  finally have "fst ` set frs = set durable \<inter> set (sg_voters s)" .
  moreover have "placed (sg_voters s) shards frs"
    unfolding placed_def using set_frs sorted_keys_distinct [OF sorted_keys_of_list] frs' by auto
  ultimately show ?thesis
    using Coded e coded enc
    by (auto simp: stored_def holds_coded_def coded_needed_def distinct_members_card)
qed

subsection \<open>Invariant and steps\<close>

definition sim_wf :: "deps \<Rightarrow> simulated_group \<Rightarrow> bool" where
  "sim_wf D s \<longleftrightarrow>
     sorted_wrt (<) (sg_voters s) \<and> sg_voters s \<noteq> [] \<and> 0 < sg_k s \<and>
     (case sg_joint s of None \<Rightarrow> True | Some v \<Rightarrow> sorted_wrt (<) v \<and> v \<noteq> []) \<and>
     map ce_index (sg_entries s) = [1..<Suc (sg_commit s)] \<and>
     (\<forall>e \<in> set (sg_entries s). ce_hash e = sha256 D (ce_payload e)) \<and>
     (\<forall>r h w i. map_of (sg_retries s) r = Some (h, w, i) \<longrightarrow>
        (\<exists>e \<in> set (sg_entries s). ce_index e = i \<and> ce_hash e = h))"

text \<open>What no operation takes back.\<close>

definition sim_ext :: "simulated_group \<Rightarrow> simulated_group \<Rightarrow> bool" where
  "sim_ext s t \<longleftrightarrow>
     (\<exists>new. sg_entries t = sg_entries s @ new) \<and> map_of (sg_retries s) \<subseteq>\<^sub>m map_of (sg_retries t) \<and>
     sg_term s \<le> sg_term t \<and> sg_commit s \<le> sg_commit t \<and> sg_writer_epoch s \<le> sg_writer_epoch t \<and>
     sg_k s = sg_k t"

inductive sim_step :: "deps \<Rightarrow> simulated_group \<Rightarrow> simulated_group \<Rightarrow> bool" for D where
  step_elect: "elect s leader reachable = Inr (t, s') \<Longrightarrow> sim_step D s s'"
| step_propose: "propose D s ingress p durable = Inr (e, s') \<Longrightarrow> sim_step D s s'"
| step_complete: "propose_complete D s ingress p durable = Inr (e, s') \<Longrightarrow> sim_step D s s'"
| step_acquire: "acquire_writer D s ingress request writer durable = Inr (w, s') \<Longrightarrow> sim_step D s s'"
| step_begin: "begin_membership_change s new_voters durable = Inr s' \<Longrightarrow> sim_step D s s'"
| step_finish: "finish_membership_change s durable = Inr s' \<Longrightarrow> sim_step D s s'"

text \<open>The two ways \<open>append\<close> succeeds: an exact retry, or a new entry at the next index.\<close>

definition new_entry :: "deps \<Rightarrow> simulated_group \<Rightarrow> proposal \<Rightarrow> replication_mode \<Rightarrow> (node_id, bytes) btree
    \<Rightarrow> committed_entry" where
  "new_entry D s p mode frs =
     \<lparr> ce_index = sg_commit s + 1, ce_mode = mode, ce_kind = pr_kind p, ce_payload = pr_payload p,
       ce_hash = sha256 D (pr_payload p), ce_fragments = frs \<rparr>"

definition push_entry :: "deps \<Rightarrow> simulated_group \<Rightarrow> proposal \<Rightarrow> committed_entry \<Rightarrow> simulated_group" where
  "push_entry D s p e =
     s\<lparr>sg_commit := sg_commit s + 1,
       sg_retries := bt_insert (pr_request p) (sha256 D (pr_payload p), pr_writer_epoch p, sg_commit s + 1)
                       (sg_retries s),
       sg_entries := sg_entries s @ [e]\<rparr>"

lemma append_group_cases:
  assumes "append_group D s ingress p durable mode = Inr (e, s')"
  obtains (retry) "map_of (sg_retries s) (pr_request p) = Some (sha256 D (pr_payload p), pr_writer_epoch p, ce_index e)"
      "find (\<lambda>x. ce_index x = ce_index e) (sg_entries s) = Some e" "s' = s"
  | (fresh) frs where "map_of (sg_retries s) (pr_request p) = None" "wal_fence s p = Inr ()"
      "quorum (sg_voters s) durable"
      "mode = Coded \<longrightarrow> coded_needed s \<le> distinct_members (sg_voters s) durable"
      "fragments_of D s (pr_payload p) durable mode = Inr frs"
      "e = new_entry D s p mode frs" "s' = push_entry D s p e"
proof (cases "map_of (sg_retries s) (pr_request p)")
  case None
  then show thesis
    using assms by (auto simp: append_group_def Let_def new_entry_def push_entry_def not_less
        split: if_splits intro!: fresh)
next
  case (Some r)
  obtain h w i where r: "r = (h, w, i)" by (cases r)
  have "find (\<lambda>x. ce_index x = i) (sg_entries s) = Some e" "h = sha256 D (pr_payload p)"
      "w = pr_writer_epoch p" "s' = s"
    using assms Some r by (auto simp: append_group_def Let_def split: if_splits)
  then show thesis using Some r find_SomeD [of "\<lambda>x. ce_index x = i" "sg_entries s" e] by (intro retry) auto
qed

lemma push_entry_wf:
  assumes "sim_wf D s" shows "sim_wf D (push_entry D s p (new_entry D s p mode frs))"
  using assms
  by (auto simp: sim_wf_def push_entry_def new_entry_def nth_append less_Suc_eq split: option.splits if_splits)

lemma push_entry_ext:
  assumes "map_of (sg_retries s) (pr_request p) = None"
  shows "sim_ext s (push_entry D s p e)"
  using assms by (auto simp: sim_ext_def push_entry_def map_le_def)

lemma append_group_wf: "append_group D s ingress p durable mode = Inr (e, s') \<Longrightarrow> sim_wf D s \<Longrightarrow> sim_wf D s'"
  by (erule append_group_cases) (auto intro: push_entry_wf)

lemma sim_ext_refl: "sim_ext s s"
  by (simp add: sim_ext_def)

lemma append_group_ext: "append_group D s ingress p durable mode = Inr (e, s') \<Longrightarrow> sim_ext s s'"
  by (erule append_group_cases) (auto intro: push_entry_ext sim_ext_refl)

lemma append_group_epoch: "append_group D s ingress p durable mode = Inr (e, s') \<Longrightarrow> sg_writer_epoch s' = sg_writer_epoch s"
  by (erule append_group_cases) (auto simp: push_entry_def)

lemma acquire_writer_cases:
  assumes "acquire_writer D s ingress request writer durable = Inr (w, s')"
  obtains (retry) i where "map_of (sg_retries s) request = Some (sha256 D (as_bytes writer), Some w, i)" "s' = s"
  | (fresh) p e s1 where "map_of (sg_retries s) request = None" "w = sg_writer_epoch s + 1"
      "p = with_writer_epoch w (proposal_new request WriterLease (as_bytes writer))"
      "append_group D s ingress p durable Complete = Inr (e, s1)" "s' = s1\<lparr>sg_writer_epoch := w\<rparr>"
proof (cases "map_of (sg_retries s) request")
  case None
  then show thesis using assms by (auto simp: acquire_writer_def Let_def intro: fresh)
next
  case (Some r)
  then show thesis
    using assms by (cases r) (auto simp: acquire_writer_def Let_def split: if_splits intro: retry)
qed

lemma sim_wf_epoch [simp]: "sim_wf D (s\<lparr>sg_writer_epoch := w\<rparr>) = sim_wf D s"
  by (simp add: sim_wf_def)

lemma sim_step_wf: "sim_step D s s' \<Longrightarrow> sim_wf D s \<Longrightarrow> sim_wf D s'"
proof (induction rule: sim_step.induct)
  case (step_acquire s ingress request writer durable w s')
  then show ?case by (auto elim!: acquire_writer_cases dest: append_group_wf)
next
  case (step_finish s durable s')
  then show ?case
    by (auto simp: finish_membership_change_def sim_wf_def Let_def split: if_splits)
qed (auto simp: elect_def begin_membership_change_def propose_def propose_complete_def sim_wf_def Let_def
    split: if_splits dest: append_group_wf [unfolded sim_wf_def] simp flip: set_empty)

lemma sim_step_ext: "sim_step D s s' \<Longrightarrow> sim_ext s s'"
proof (induction rule: sim_step.induct)
  case (step_acquire s ingress request writer durable w s')
  then show ?case
  proof (cases rule: acquire_writer_cases [OF step_acquire])
    case (2 p e s1)
    then have "sim_ext s s1" "sg_writer_epoch s1 = sg_writer_epoch s"
      using append_group_ext append_group_epoch by blast+
    then show ?thesis using 2 by (simp add: sim_ext_def)
  qed (simp add: sim_ext_refl)
next
  case (step_finish s durable s')
  then show ?case by (auto simp: finish_membership_change_def sim_ext_def Let_def split: if_splits)
qed (auto simp: elect_def begin_membership_change_def propose_def propose_complete_def Let_def
    split: if_splits intro: append_group_ext, auto simp: sim_ext_def)

lemma simulated_new_wf: "group_config_new name voters k = Inr config \<Longrightarrow> sim_wf D (simulated_new config)"
  by (auto simp: group_config_new_def simulated_new_def sim_wf_def Let_def split: if_splits simp flip: set_empty)

text \<open>A group as its constructor makes it.\<close>

definition sim_start :: "simulated_group \<Rightarrow> bool" where
  "sim_start s \<longleftrightarrow> (\<exists>name voters k config. group_config_new name voters k = Inr config \<and> s = simulated_new config)"

interpretation sim: step_system sim_start "sim_step D" "sim_wf D" sim_ext for D
proof unfold_locales
  show "sim_start s \<Longrightarrow> sim_wf D s" for s by (auto simp: sim_start_def intro: simulated_new_wf)
  show "sim_wf D s \<Longrightarrow> sim_step D s t \<Longrightarrow> sim_wf D t" for s t by (rule sim_step_wf)
  show "sim_wf D s \<Longrightarrow> sim_step D s t \<Longrightarrow> sim_ext s t" for s t by (rule sim_step_ext)
  show "sim_ext s s" for s by (rule sim_ext_refl)
  show "sim_ext s t \<Longrightarrow> sim_ext t u \<Longrightarrow> sim_ext s u" for s t u
    unfolding sim_ext_def by (auto intro: map_le_trans)
qed

text \<open>Looking an index up finds the entry pushed under it, now and after any extension.\<close>

lemma find_entry:
  assumes "sim_wf D s" "e \<in> set (sg_entries s)"
  shows "find (\<lambda>x. ce_index x = ce_index e) (sg_entries s) = Some e"
proof -
  obtain x where x: "find (\<lambda>x. ce_index x = ce_index e) (sg_entries s) = Some x"
      "x \<in> set (sg_entries s)" "ce_index x = ce_index e"
    using find_Some_ex [of e "sg_entries s" "\<lambda>x. ce_index x = ce_index e"] assms(2) by auto
  have "distinct (map ce_index (sg_entries s))" using assms(1) by (simp add: sim_wf_def)
  then have "x = e" using x assms(2) by (simp add: distinct_map inj_on_def)
  then show ?thesis using x by simp
qed

lemma entry_survives:
  assumes "sim_wf D s" "append_group D s ingress p durable mode = Inr (e, s')" "(sim_step D)\<^sup>*\<^sup>* s' t"
  shows "sim_wf D t" "sim_ext s' t" "find (\<lambda>x. ce_index x = ce_index e) (sg_entries t) = Some e"
    "map_of (sg_retries t) (pr_request p) = Some (sha256 D (pr_payload p), pr_writer_epoch p, ce_index e)"
proof -
  have s': "sim_wf D s'" by (rule append_group_wf [OF assms(2,1)])
  show t: "sim_wf D t" and ext: "sim_ext s' t"
    using sim.run_inv [OF assms(3) s'] sim.run_ext [OF assms(3) s'] by blast+
  have e: "e \<in> set (sg_entries s') \<and>
      map_of (sg_retries s') (pr_request p) = Some (sha256 D (pr_payload p), pr_writer_epoch p, ce_index e)"
    by (rule append_group_cases [OF assms(2)])
      (auto simp: push_entry_def new_entry_def dest: find_SomeD)
  then show "map_of (sg_retries t) (pr_request p) = Some (sha256 D (pr_payload p), pr_writer_epoch p, ce_index e)"
    using ext unfolding sim_ext_def map_le_def by (metis domI)
  show "find (\<lambda>x. ce_index x = ce_index e) (sg_entries t) = Some e"
    using t e ext by (intro find_entry [of D]) (auto simp: sim_ext_def)
qed

subsection \<open>Properties\<close>

text \<open>C2: Durability of an acknowledged command. In every state reached from a fresh group, once
  \<open>append\<close> acknowledges a new proposal, whether coded or complete, and after any further
  operations that end with the same voters, \<open>reconstruct\<close> of its index from any set of nodes
  that contains a majority returns exactly the proposed bytes.\<close>

theorem committed_reconstructs:
  assumes "sim_start s0" "(sim_step D)\<^sup>*\<^sup>* s0 s"
    and "append_group D s ingress p durable mode = Inr (e, s')"
    and "map_of (sg_retries s) (pr_request p) = None"
    and "(sim_step D)\<^sup>*\<^sup>* s' t" "sg_voters t = sg_voters s"
    and "rs_ok D (sg_k s) (length (sg_voters s) - sg_k s)"
    and "quorum (sg_voters t) available"
  shows "reconstruct D t (ce_index e) available = Inr (pr_payload p)"
proof -
  have wf: "sim_wf D s" by (rule sim.reach_inv [OF assms(1,2)])
  note t = entry_survives [OF wf assms(3,5)]
  obtain frs where fresh: "quorum (sg_voters s) durable"
      "mode = Coded \<longrightarrow> coded_needed s \<le> distinct_members (sg_voters s) durable"
      "fragments_of D s (pr_payload p) durable mode = Inr frs"
      "e = new_entry D s p mode frs" "s' = push_entry D s p e"
    using append_group_cases [OF assms(3)] assms(4) by (metis option.distinct(1))
  have voters: "distinct (sg_voters s)" "0 < sg_k s"
    using wf by (simp_all add: sim_wf_def strict_sorted_iff)
  have k: "sg_k t = sg_k s" using t(2) fresh(5) by (simp add: sim_ext_def push_entry_def)
  have "stored D (sg_config s) e"
    using fragments_of_stored [OF fresh(3) voters(1) fresh(1,2) _ voters(2)] assms(7) fresh(4)
    by (simp add: new_entry_def)
  then have "stored D (sg_config t) e" unfolding stored_def by (simp only: assms(6) k)
  then have "read_entry D (sg_config t) e available = Inr (ce_payload e)"
    using assms(6,7,8) voters k by (intro read_stored) (simp_all add: quorum_reaches)
  then show ?thesis using t(3) fresh(4) by (simp add: reconstruct_def new_entry_def)
qed

lemmas sim_run =
  append_group_def require_leader_def simulated_new_def proposal_new_def with_writer_epoch_def wal_fence_def
  quorum_def majority_def distinct_members_def bs_of_list_def coded_needed_def fragments_of_def Let_def
  bt_of_list_def
  new_entry_def push_entry_def

definition ex_config :: group_config where
  "ex_config = \<lparr> gc_id = ''tenant'', gc_voters = [1, 2, 3], gc_k = 2 \<rparr>"

definition ex_elected :: simulated_group where
  "ex_elected = (simulated_new ex_config)\<lparr>sg_term := 1, sg_leader := Some 1\<rparr>"

definition ex_proposal :: proposal where
  "ex_proposal = proposal_new 7 Catalog [1, 2, 3]"

definition ex_entry :: committed_entry where
  "ex_entry = new_entry xor_deps ex_elected ex_proposal Coded [(1, [1, 2]), (2, [3, 0]), (3, [2, 2])]"

lemma ex_start: "sim_start (simulated_new ex_config)"
  unfolding sim_start_def
  by (intro exI [of _ "''tenant''"] exI [of _ "[3, 1, 2]"] exI [of _ 2] exI [of _ ex_config]) code_simp

lemma ex_elect: "elect (simulated_new ex_config) 1 [1, 2] = Inr (1, ex_elected)"
  by code_simp

lemma ex_append:
  "append_group xor_deps ex_elected 1 ex_proposal [1, 2, 3] Coded
     = Inr (ex_entry, push_entry xor_deps ex_elected ex_proposal ex_entry)"
  using ex_encode by (simp add: sim_run ex_elected_def ex_config_def ex_proposal_def ex_entry_def)

lemma ex_reach: "(sim_step D)\<^sup>*\<^sup>* (simulated_new ex_config) ex_elected"
  using step_elect [OF ex_elect] by (rule r_into_rtranclp)

theorem committed_reconstructs_witness:
  "reconstruct xor_deps (push_entry xor_deps ex_elected ex_proposal ex_entry) (ce_index ex_entry) [3, 2]
     = Inr (pr_payload ex_proposal)"
proof (rule committed_reconstructs [OF ex_start ex_reach ex_append])
  show "map_of (sg_retries ex_elected) (pr_request ex_proposal) = None" by code_simp
  show "(sim_step xor_deps)\<^sup>*\<^sup>* (push_entry xor_deps ex_elected ex_proposal ex_entry)
      (push_entry xor_deps ex_elected ex_proposal ex_entry)" by simp
  show "sg_voters (push_entry xor_deps ex_elected ex_proposal ex_entry) = sg_voters ex_elected"
    by (simp add: push_entry_def)
  have "sg_k ex_elected = 2" "length (sg_voters ex_elected) - sg_k ex_elected = 1" by code_simp+
  then show "rs_ok xor_deps (sg_k ex_elected) (length (sg_voters ex_elected) - sg_k ex_elected)"
    using xor_rs_ok by simp
  show "quorum (sg_voters (push_entry xor_deps ex_elected ex_proposal ex_entry)) [3, 2]"
    by (simp add: sim_run ex_elected_def ex_config_def)
qed



text \<open>C17: Writer fencing. Two successful acquisitions under new request identities, with any
  operations between them, hand out strictly increasing epochs, and from the second one on every WAL
  proposal that still carries the first epoch is refused with \<open>StaleWriterEpoch\<close>.\<close>

theorem writer_fencing:
  assumes "sim_start s0" "(sim_step D)\<^sup>*\<^sup>* s0 s"
    and "acquire_writer D s i1 r1 w1 d1 = Inr (epoch1, s')" "map_of (sg_retries s) r1 = None"
    and "(sim_step D)\<^sup>*\<^sup>* s' t"
    and "acquire_writer D t i2 r2 w2 d2 = Inr (epoch2, t')" "map_of (sg_retries t) r2 = None"
    and "(sim_step D)\<^sup>*\<^sup>* t' u"
    and "require_leader u i3 = Inr ()" "map_of (sg_retries u) (pr_request p) = None"
    and "pr_kind p = Wal" "pr_writer_epoch p = Some epoch1"
  shows "epoch1 < epoch2 \<and>
     append_group D u i3 p d3 mode = Inl (StaleWriterEpoch (sg_writer_epoch u) epoch1)"
proof -
  have wf: "sim_wf D s" "sim_wf D s'" "sim_wf D t'"
    using sim.reach_inv [OF assms(1)] assms(2,3,5,6) step_acquire
    by (metis rtranclp.rtrancl_into_rtrancl rtranclp_trans)+
  have "sg_writer_epoch s' = epoch1"
    using acquire_writer_cases [OF assms(3)] assms(4) by fastforce
  moreover have "sg_writer_epoch s' \<le> sg_writer_epoch t"
    using sim.run_ext [OF assms(5) wf(2)] by (simp add: sim_ext_def)
  moreover have "epoch2 = sg_writer_epoch t + 1" "sg_writer_epoch t' = epoch2"
    using acquire_writer_cases [OF assms(6)] assms(7) by fastforce+
  moreover have "sg_writer_epoch t' \<le> sg_writer_epoch u"
    using sim.run_ext [OF assms(8) wf(3)] by (simp add: sim_ext_def)
  ultimately show ?thesis
    using assms(9-12) by (simp add: append_group_def wal_fence_def)
qed

definition ex_writer_a :: simulated_group where
  "ex_writer_a = snd (projr (acquire_writer xor_deps ex_elected 1 11 ''a'' [1, 2]))"

definition ex_writer_b :: simulated_group where
  "ex_writer_b = snd (projr (acquire_writer xor_deps ex_writer_a 1 12 ''b'' [2, 3]))"

lemmas ex_writer_run = acquire_writer_def sim_run ex_elected_def ex_config_def

lemma ex_writer_a: "acquire_writer xor_deps ex_elected 1 11 ''a'' [1, 2] = Inr (1, ex_writer_a)"
  unfolding ex_writer_a_def by (simp add: ex_writer_run)

lemma ex_writer_b: "acquire_writer xor_deps ex_writer_a 1 12 ''b'' [2, 3] = Inr (2, ex_writer_b)"
  unfolding ex_writer_b_def by (simp add: ex_writer_a_def ex_writer_run)

theorem writer_fencing_witness:
  "(1 :: nat) < 2 \<and> append_group xor_deps ex_writer_b 1 (with_writer_epoch 1 (proposal_new 13 Wal [9])) [1, 2, 3] Coded
     = Inl (StaleWriterEpoch (sg_writer_epoch ex_writer_b) 1)"
proof (rule writer_fencing [OF ex_start ex_reach ex_writer_a _ rtranclp.rtrancl_refl ex_writer_b _ rtranclp.rtrancl_refl])
  show "map_of (sg_retries ex_elected) 11 = None" by (simp add: ex_writer_run)
  show "map_of (sg_retries ex_writer_a) 12 = None" by (simp add: ex_writer_a_def ex_writer_run)
  show "require_leader ex_writer_b 1 = Inr ()"
    by (simp add: ex_writer_b_def ex_writer_a_def ex_writer_run)
  show "map_of (sg_retries ex_writer_b) (pr_request (with_writer_epoch 1 (proposal_new 13 Wal [9]))) = None"
    by (simp add: ex_writer_b_def ex_writer_a_def ex_writer_run)
qed (simp_all add: with_writer_epoch_def proposal_new_def)

text \<open>A ReadIndex fence covers every acknowledged command: whatever index \<open>read_index\<close> returns
  after \<open>append\<close> acknowledged an entry is at least that entry's index, and every index from one up
  to the fence names an entry.\<close>

lemma read_index_covers:
  assumes "sim_start s0" "(sim_step D)\<^sup>*\<^sup>* s0 s"
    and "append_group D s ingress p durable mode = Inr (e, s')" "(sim_step D)\<^sup>*\<^sup>* s' t"
    and "read_index t ingress' reachable = Inr fence"
  shows "ce_index e \<le> fence \<and> map ce_index (sg_entries t) = [1..<Suc fence]"
proof -
  note t = entry_survives [OF sim.reach_inv [OF assms(1,2)] assms(3,4)]
  have fence: "fence = sg_commit t" using assms(5) by (auto simp: read_index_def Let_def split: if_splits)
  have idx: "map ce_index (sg_entries t) = [1..<Suc fence]" using t(1) fence by (simp add: sim_wf_def)
  have "ce_index e \<in> set (map ce_index (sg_entries t))" using t(3) find_SomeD by fastforce
  then show ?thesis unfolding idx using idx by auto
qed

lemma read_index_covers_witness:
  "ce_index ex_entry \<le> 1 \<and>
     map ce_index (sg_entries (push_entry xor_deps ex_elected ex_proposal ex_entry)) = [1..<Suc 1]"
proof (rule read_index_covers [OF ex_start ex_reach ex_append rtranclp.rtrancl_refl])
  show "read_index (push_entry xor_deps ex_elected ex_proposal ex_entry) 9 [1, 2] = Inr 1"
    by (simp add: read_index_def sim_run ex_elected_def ex_config_def)
qed

subsection \<open>Membership changes\<close>

text \<open>
  \<open>finish_membership_change\<close> replaces the voter list but neither re-encodes the entries nor
  re-checks the coding width, while \<open>reconstruct\<close> derives the slot of a fragment from the
  current list. After replacing voter 1 by voter 4, every node reachable, the coded entry that was
  readable before is not.
\<close>

definition ex_changed :: simulated_group where
  "ex_changed = (push_entry xor_deps ex_elected ex_proposal ex_entry)
     \<lparr>sg_config := ex_config\<lparr>gc_voters := [2, 3, 4]\<rparr>, sg_joint := None\<rparr>"

lemma membership_change_reached:
  "(sim_step xor_deps)\<^sup>*\<^sup>* (push_entry xor_deps ex_elected ex_proposal ex_entry) ex_changed"
proof -
  let ?s = "push_entry xor_deps ex_elected ex_proposal ex_entry"
  have "begin_membership_change ?s [4, 2, 3] [2, 3, 4] = Inr (?s\<lparr>sg_joint := Some [2, 3, 4]\<rparr>)"
    by (simp add: begin_membership_change_def sim_run sort_dedup_def ex_elected_def ex_config_def)
  moreover have "finish_membership_change (?s\<lparr>sg_joint := Some [2, 3, 4]\<rparr>) [2, 3, 4] = Inr ex_changed"
    by (simp add: finish_membership_change_def ex_changed_def sim_run ex_elected_def ex_config_def)
  ultimately show ?thesis
    by (meson r_into_rtranclp rtranclp.rtrancl_into_rtrancl step_begin step_finish)
qed

lemma membership_change_loses_entry:
  "reconstruct xor_deps ex_changed (ce_index ex_entry) [1, 2, 3, 4] = Inl ReconstructionUnavailable"
proof -
  have parts: "coded_parts [2, 3, 4] [1, 2, 3, 4] [(1, [1, 2]), (2, [3, 0]), (3, [2, 2])] = [(0, [3, 0]), (1, [2, 2])]"
    by (simp add: coded_parts_def)
  have "xor_decode 2 1 2 [Original 0 [3, 0], Original 1 [2, 2]] = Some []"
    by (simp add: xor_decode_def)
  then have dec: "decode xor_deps 2 1 (Suc (Suc (Suc 0))) [(0, [3, 0]), (1, [2, 2])] = Inr [3, 0, 2]"
    by (simp add: decode_def to_shard_def slot_data_def bt_of_list_def upt_rec numeral_eq_Suc)
  have "sha256 xor_deps [3, 0, 2] \<noteq> sha256 xor_deps [1, 2, 3]"
    by (simp add: xor_deps_sha)
  then show ?thesis
    using parts dec
    by (simp add: reconstruct_def read_entry_def ex_changed_def push_entry_def ex_entry_def new_entry_def
        ex_proposal_def proposal_new_def ex_elected_def simulated_new_def ex_config_def)
qed

end
