(* ===== verification/Catalog_Batch.thy ===== *)
theory Catalog_Batch
  imports BTree "HOL-Library.Char_ord" "HOL-Library.List_Lexorder"
begin

section \<open>Catalog transactions\<close>

text \<open>
  \<open>crates/verglas-consensus/src/catalog.rs\<close>: the typed catalog batch that the replicated state
  machine applies in log order, the namespace and table registry it guards, and the hosted-domain
  record collections. JSON validation of a document (\<open>serde_json::from_str\<close>) is the argument
  \<open>json\<close> of \<open>catalog_batch_new\<close>. The lemmas show that every table's namespace exists after
  any batch (\<open>catalog_wf\<close>), that the two-level record store behaves as one map (the second
  interpretation of \<open>ordered_map\<close>), and that a stale optimistic requirement is refused.
\<close>

subsection \<open>Data\<close>

datatype catalog_entity =
    Server | Project | Warehouse | Namespace | Table | View | GenericTable | Role
  | RoleAssignment | Tag | Idempotency | Task | SecretReference

text \<open>The derived order of the enumeration, which is the key order of its \<open>BTreeMap\<close>.\<close>

primrec entity_index :: "catalog_entity \<Rightarrow> nat" where
  "entity_index Server = 0"
| "entity_index Project = 1"
| "entity_index Warehouse = 2"
| "entity_index Namespace = 3"
| "entity_index Table = 4"
| "entity_index View = 5"
| "entity_index GenericTable = 6"
| "entity_index Role = 7"
| "entity_index RoleAssignment = 8"
| "entity_index Tag = 9"
| "entity_index Idempotency = 10"
| "entity_index Task = 11"
| "entity_index SecretReference = 12"

lemma entity_index_inj: "entity_index a = entity_index b \<Longrightarrow> a = b"
  by (cases a; cases b) simp_all

instantiation catalog_entity :: linorder
begin

definition less_eq_catalog_entity :: "catalog_entity \<Rightarrow> catalog_entity \<Rightarrow> bool" where
  "less_eq_catalog_entity a b = (entity_index a \<le> entity_index b)"

definition less_catalog_entity :: "catalog_entity \<Rightarrow> catalog_entity \<Rightarrow> bool" where
  "less_catalog_entity a b = (entity_index a < entity_index b)"

instance
  by standard (auto simp: less_eq_catalog_entity_def less_catalog_entity_def entity_index_inj)

end

type_synonym catalog_records = "(catalog_entity, (string, string) btree) btree"

datatype catalog_requirement =
    NamespaceAbsent string
  | NamespacePresent string
  | TableAbsent string
  | TableMetadata string string
  | RecordAbsent catalog_entity string
  | RecordDocument catalog_entity string string

datatype catalog_action =
    CreateNamespace string
  | DropNamespace string
  | PutTable string string
  | DropTable string
  | PutRecord catalog_entity string string
  | DeleteRecord catalog_entity string

record catalog_batch =
  cb_requirements :: "catalog_requirement list"
  cb_actions :: "catalog_action list"

datatype catalog_batch_error = CatalogBatchError

subsection \<open>Hosted-domain records\<close>

definition records_get :: "catalog_records \<Rightarrow> catalog_entity \<Rightarrow> string \<Rightarrow> string option" where
  "records_get records entity ident = Option.bind (map_of records entity) (\<lambda>m. map_of m ident)"

definition collection :: "catalog_records \<Rightarrow> catalog_entity \<Rightarrow> (string, string) btree" where
  "collection records entity = (case map_of records entity of None \<Rightarrow> [] | Some m \<Rightarrow> m)"

definition records_list :: "catalog_records \<Rightarrow> catalog_entity \<Rightarrow> (string \<times> string) list" where
  "records_list records entity = collection records entity"

definition records_put :: "catalog_entity \<Rightarrow> string \<Rightarrow> string \<Rightarrow> catalog_records \<Rightarrow> catalog_records" where
  "records_put entity ident document records =
     bt_insert entity (bt_insert ident document (collection records entity)) records"

definition records_remove :: "catalog_entity \<Rightarrow> string \<Rightarrow> catalog_records \<Rightarrow> string option \<times> catalog_records" where
  "records_remove entity ident records =
     (case map_of records entity of
        None \<Rightarrow> (None, records)
      | Some m \<Rightarrow>
          (let m' = bt_remove ident m in
           (map_of m ident, if m' = [] then bt_remove entity records else bt_insert entity m' records)))"

text \<open>Collections are never kept empty, and both levels are in key order.\<close>

definition records_wf :: "catalog_records \<Rightarrow> bool" where
  "records_wf records \<longleftrightarrow>
     sorted_keys records \<and> (\<forall>e m. map_of records e = Some m \<longrightarrow> sorted_keys m \<and> m \<noteq> [])"

lemma bt_insert_nonempty [simp]: "bt_insert k v m \<noteq> []"
  by (cases m) (auto split: if_splits)

lemma records_put_wf: "records_wf records \<Longrightarrow> records_wf (records_put e i d records)"
  by (auto simp: records_wf_def records_put_def collection_def split: option.splits)

lemma records_remove_wf: "records_wf records \<Longrightarrow> records_wf (snd (records_remove e i records))"
  by (auto simp: records_wf_def records_remove_def Let_def split: option.splits)

text \<open>The two-level store is one ordered map keyed by collection and identity.\<close>

lemma bt_remove_empty: "bt_remove k m = [] \<Longrightarrow> map_of m k' = (if k' = k then map_of m k else None)"
  by (induction m) (auto simp: bt_remove_def split: if_splits)

lemma records_get_put:
  "(\<lambda>(e, i). records_get (records_put a b v m) e i) = (\<lambda>(e, i). records_get m e i)((a, b) \<mapsto> v)"
  by (auto simp: fun_eq_iff records_get_def records_put_def collection_def split: option.splits)

lemma records_get_remove:
  "(\<lambda>(e, i). records_get (snd (records_remove a b m)) e i) = (\<lambda>(e, i). records_get m e i)((a, b) := None)"
  by (auto simp: fun_eq_iff records_get_def records_remove_def Let_def bt_remove_empty split: option.splits)

lemma records_remove_result: "fst (records_remove e i m) = records_get m e i"
  by (auto simp: records_get_def records_remove_def Let_def split: option.splits)

interpretation recs: ordered_map "\<lambda>records (e, i). records_get records e i"
    "\<lambda>(e, i). records_put e i" "\<lambda>(e, i). snd \<circ> records_remove e i" records_wf
  by unfold_locales (auto simp: records_put_wf records_remove_wf records_get_put records_get_remove)

subsection \<open>Validation\<close>

fun requirement_name_empty :: "catalog_requirement \<Rightarrow> bool" where
  "requirement_name_empty (NamespaceAbsent namespace) = (namespace = [])"
| "requirement_name_empty (NamespacePresent namespace) = (namespace = [])"
| "requirement_name_empty (TableAbsent table) = (table = [])"
| "requirement_name_empty (TableMetadata table _) = (table = [])"
| "requirement_name_empty (RecordAbsent _ ident) = (ident = [])"
| "requirement_name_empty (RecordDocument _ ident _) = (ident = [])"

fun action_name_empty :: "catalog_action \<Rightarrow> bool" where
  "action_name_empty (CreateNamespace namespace) = (namespace = [])"
| "action_name_empty (DropNamespace namespace) = (namespace = [])"
| "action_name_empty (PutTable table _) = (table = [])"
| "action_name_empty (DropTable table) = (table = [])"
| "action_name_empty (PutRecord _ ident _) = (ident = [])"
| "action_name_empty (DeleteRecord _ ident) = (ident = [])"

fun action_document_invalid :: "(string \<Rightarrow> bool) \<Rightarrow> catalog_action \<Rightarrow> bool" where
  "action_document_invalid json (PutRecord _ _ document) = (\<not> json document)"
| "action_document_invalid json _ = False"

definition catalog_batch_new :: "(string \<Rightarrow> bool) \<Rightarrow> catalog_requirement list \<Rightarrow> catalog_action list
    \<Rightarrow> catalog_batch_error + catalog_batch" where
  "catalog_batch_new json requirements actions =
     (if actions = [] \<or> list_ex requirement_name_empty requirements \<or> list_ex action_name_empty actions
         \<or> list_ex (action_document_invalid json) actions
      then Inl CatalogBatchError
      else Inr \<lparr> cb_requirements = requirements, cb_actions = actions \<rparr>)"

subsection \<open>Namespaces and tables\<close>

type_synonym registry = "string list \<times> (string, string) btree"

text \<open>\<open>str::rsplit_once\<close>: what precedes and what follows the last occurrence.\<close>

definition rsplit_once :: "char \<Rightarrow> string \<Rightarrow> (string \<times> string) option" where
  "rsplit_once c s =
     (case position (\<lambda>x. x = c) (rev s) of
        None \<Rightarrow> None
      | Some i \<Rightarrow> Some (take (length s - i - 1) s, drop (length s - i) s))"

definition starts_with :: "string \<Rightarrow> string \<Rightarrow> bool" where
  "starts_with s p = (take (length p) s = p)"

fun requirement_satisfied :: "registry \<Rightarrow> catalog_requirement \<Rightarrow> bool" where
  "requirement_satisfied (namespaces, tables) (NamespaceAbsent namespace) = (namespace \<notin> set namespaces)"
| "requirement_satisfied (namespaces, tables) (NamespacePresent namespace) = (namespace \<in> set namespaces)"
| "requirement_satisfied (namespaces, tables) (TableAbsent table) = (map_of tables table = None)"
| "requirement_satisfied (namespaces, tables) (TableMetadata table expected) = (map_of tables table = Some expected)"
| "requirement_satisfied _ (RecordAbsent _ _) = True"
| "requirement_satisfied _ (RecordDocument _ _ _) = True"

fun apply_action :: "catalog_action \<Rightarrow> registry \<Rightarrow> catalog_batch_error + registry" where
  "apply_action (CreateNamespace namespace) (namespaces, tables) =
     (if namespace \<in> set namespaces then Inl CatalogBatchError
      else Inr (bs_insert namespace namespaces, tables))"
| "apply_action (DropNamespace namespace) (namespaces, tables) =
     (if list_ex (\<lambda>table. starts_with table (namespace @ ''.'')) (bt_keys tables) \<or> namespace \<notin> set namespaces
      then Inl CatalogBatchError
      else Inr (filter (\<lambda>n. n \<noteq> namespace) namespaces, tables))"
| "apply_action (PutTable table metadata_location) (namespaces, tables) =
     (case rsplit_once (CHR ''.'') table of
        None \<Rightarrow> Inl CatalogBatchError
      | Some (namespace, _) \<Rightarrow>
          if namespace \<notin> set namespaces \<or> metadata_location = [] then Inl CatalogBatchError
          else Inr (namespaces, bt_insert table metadata_location tables))"
| "apply_action (DropTable table) (namespaces, tables) =
     (if map_of tables table = None then Inl CatalogBatchError
      else Inr (namespaces, bt_remove table tables))"
| "apply_action (PutRecord _ _ _) r = Inr r"
| "apply_action (DeleteRecord _ _) r = Inr r"

definition apply_batch :: "catalog_batch \<Rightarrow> registry \<Rightarrow> catalog_batch_error + registry" where
  "apply_batch batch r =
     (if \<not> list_all (requirement_satisfied r) (cb_requirements batch) then Inl CatalogBatchError
      else try_fold apply_action (cb_actions batch) r)"

fun record_requirement_valid :: "catalog_records \<Rightarrow> catalog_requirement \<Rightarrow> bool" where
  "record_requirement_valid records (RecordAbsent entity ident) = (records_get records entity ident = None)"
| "record_requirement_valid records (RecordDocument entity ident expected) =
     (records_get records entity ident = Some expected)"
| "record_requirement_valid records _ = True"

fun apply_record_action :: "catalog_action \<Rightarrow> catalog_records \<Rightarrow> catalog_batch_error + catalog_records" where
  "apply_record_action (PutRecord entity ident document) records = Inr (records_put entity ident document records)"
| "apply_record_action (DeleteRecord entity ident) records =
     (case records_remove entity ident records of
        (None, _) \<Rightarrow> Inl CatalogBatchError
      | (Some _, records') \<Rightarrow> Inr records')"
| "apply_record_action _ records = Inr records"

definition apply_records :: "catalog_batch \<Rightarrow> catalog_records \<Rightarrow> catalog_batch_error + catalog_records" where
  "apply_records batch records =
     (if \<not> list_all (record_requirement_valid records) (cb_requirements batch) then Inl CatalogBatchError
      else try_fold apply_record_action (cb_actions batch) records)"

subsection \<open>Lemmas\<close>

lemma position_append_first: "x \<notin> set ys \<Longrightarrow> position (\<lambda>y. y = x) (ys @ x # zs) = Some (length ys)"
  by (induction ys) auto

lemma rsplit_once_split: "c \<notin> set b \<Longrightarrow> rsplit_once c (a @ c # b) = Some (a, b)"
  using position_append_first [of c "rev b" "rev a"] by (simp add: rsplit_once_def)

lemma rsplit_once_Some: "rsplit_once c s = Some (a, b) \<longleftrightarrow> s = a @ c # b \<and> c \<notin> set b"
proof
  assume r: "rsplit_once c s = Some (a, b)"
  then have "c \<in> set s" using position_None [of "\<lambda>x. x = c" "rev s"] by (auto simp: rsplit_once_def split: option.splits)
  then obtain a' b' where "s = a' @ c # b'" "c \<notin> set b'" using split_list_last by metis
  then show "s = a @ c # b \<and> c \<notin> set b" using r rsplit_once_split by auto
qed (auto intro: rsplit_once_split)

text \<open>The registry invariant: every table has a location and lives in an existing namespace.\<close>

definition catalog_wf :: "registry \<Rightarrow> bool" where
  "catalog_wf r \<longleftrightarrow>
     sorted_wrt (<) (fst r) \<and> sorted_keys (snd r) \<and>
     (\<forall>table location. map_of (snd r) table = Some location \<longrightarrow>
        location \<noteq> [] \<and> (\<exists>namespace name. rsplit_once (CHR ''.'') table = Some (namespace, name) \<and>
                             namespace \<in> set (fst r)))"

lemma starts_with_append [simp]: "starts_with (p @ s) p"
  by (simp add: starts_with_def)

lemma apply_action_wf: "catalog_wf r \<Longrightarrow> apply_action a r = Inr r' \<Longrightarrow> catalog_wf r'"
proof (induction a r rule: apply_action.induct)
  case (2 namespace namespaces tables)
  have kept: "n \<noteq> namespace" if "map_of tables table = Some location"
      "rsplit_once (CHR ''.'') table = Some (n, name)" for table location n name
  proof
    assume "n = namespace"
    then have "table = (namespace @ ''.'') @ name" using that(2) by (simp add: rsplit_once_Some)
    then have "starts_with table (namespace @ ''.'')" by (metis starts_with_append)
    moreover have "table \<in> set (bt_keys tables)"
      using that(1) unfolding bt_keys_def by (metis domI dom_map_of_conv_image_fst set_map)
    ultimately show False using 2(2) by (auto simp: list_ex_iff split: if_splits)
  qed
  then show ?case
    using 2 by (fastforce simp: catalog_wf_def sorted_wrt_filter split: if_splits)
next
  case (3 table location namespaces tables)
  then show ?case by (auto simp: catalog_wf_def split: option.splits if_splits) blast+
qed (fastforce simp: catalog_wf_def split: if_splits)+

lemma apply_record_action_wf: "records_wf r \<Longrightarrow> apply_record_action a r = Inr r' \<Longrightarrow> records_wf r'"
  using records_remove_wf [of r]
  by (cases a) (auto simp: records_put_wf split: prod.splits option.splits, (metis snd_conv)+)

subsection \<open>Properties\<close>

text \<open>C36: Registry integrity. Whatever a batch does, if it is accepted then every registered table
  still has a non-empty metadata location and lives in a namespace that exists, and both containers
  stay in key order.\<close>

theorem catalog_integrity:
  assumes "catalog_wf r" "apply_batch batch r = Inr r'"
  shows "catalog_wf r'"
  using assms try_fold_inv [of "cb_actions batch" catalog_wf apply_action r r']
  by (auto simp: apply_batch_def apply_action_wf split: if_splits)

definition ex_batch :: catalog_batch where
  "ex_batch = \<lparr> cb_requirements = [NamespaceAbsent ''a.b''],
     cb_actions = [CreateNamespace ''a.b'', PutTable ''a.b.t'' ''m0'', PutTable ''a.b.t'' ''m1''] \<rparr>"

lemma ex_batch_apply: "apply_batch ex_batch ([], []) = Inr ([''a.b''], [(''a.b.t'', ''m1'')])"
  by code_simp

theorem catalog_integrity_witness: "catalog_wf ([''a.b''], [(''a.b.t'', ''m1'')])"
  by (rule catalog_integrity [OF _ ex_batch_apply]) (simp add: catalog_wf_def)

fun touches :: "string \<Rightarrow> catalog_action \<Rightarrow> bool" where
  "touches table (PutTable t _) = (t = table)"
| "touches table (DropTable t) = (t = table)"
| "touches table _ = False"

lemma apply_action_untouched:
  "apply_action a r = Inr r' \<Longrightarrow> \<not> touches table a \<Longrightarrow> map_of (snd r') table = map_of (snd r) table"
  by (induction a r rule: apply_action.induct) (auto split: if_splits option.splits)

lemma try_fold_untouched:
  "try_fold apply_action as r = Inr r' \<Longrightarrow> \<forall>a \<in> set as. \<not> touches table a \<Longrightarrow>
     map_of (snd r') table = map_of (snd r) table"
  by (induction as arbitrary: r) (auto dest: apply_action_untouched)

text \<open>Optimistic concurrency. Once a batch has moved a table to a new metadata location, a later
  batch that still requires the old location is refused.\<close>

lemma stale_table_pointer_refused:
  assumes "apply_batch b1 r = Inr r1"
    and "cb_actions b1 = before @ PutTable table new # after" "\<forall>a \<in> set after. \<not> touches table a"
    and "TableMetadata table old \<in> set (cb_requirements b2)" "old \<noteq> new"
  shows "apply_batch b2 r1 = Inl CatalogBatchError"
proof -
  obtain s t where st: "apply_action (PutTable table new) s = Inr t" "try_fold apply_action after t = Inr r1"
    using assms(1,2) by (auto simp: apply_batch_def split: if_splits)
  have "map_of (snd r1) table = Some new"
    using try_fold_untouched [OF st(2) assms(3)] st(1) by (cases s) (auto split: option.splits if_splits)
  then have "\<not> requirement_satisfied r1 (TableMetadata table old)" using assms(5) by (cases r1) auto
  then show ?thesis using assms(4) by (auto simp: apply_batch_def list_all_iff)
qed

lemma stale_table_pointer_refused_witness:
  "apply_batch \<lparr> cb_requirements = [TableMetadata ''a.b.t'' ''m0''], cb_actions = [DropTable ''a.b.t''] \<rparr>
     ([''a.b''], [(''a.b.t'', ''m1'')]) = Inl CatalogBatchError"
  by (rule stale_table_pointer_refused [OF ex_batch_apply,
        of "[CreateNamespace ''a.b'', PutTable ''a.b.t'' ''m0'']" "''a.b.t''" "''m1''" "[]" "''m0''"])
    (simp_all add: ex_batch_def)

type_synonym record_map = "catalog_entity \<times> string \<Rightarrow> string option"

fun spec_requirement :: "record_map \<Rightarrow> catalog_requirement \<Rightarrow> bool" where
  "spec_requirement m (RecordAbsent entity ident) = ((entity, ident) \<notin> dom m)"
| "spec_requirement m (RecordDocument entity ident expected) = (m (entity, ident) = Some expected)"
| "spec_requirement m _ = True"

fun spec_actions :: "catalog_action list \<Rightarrow> record_map \<Rightarrow> record_map option" where
  "spec_actions [] m = Some m"
| "spec_actions (PutRecord entity ident document # as) m = spec_actions as (m((entity, ident) \<mapsto> document))"
| "spec_actions (DeleteRecord entity ident # as) m =
     (if (entity, ident) \<in> dom m then spec_actions as (m((entity, ident) := None)) else None)"
| "spec_actions (_ # as) m = spec_actions as m"

definition records_map :: "catalog_records \<Rightarrow> record_map" where
  "records_map records = (\<lambda>(entity, ident). records_get records entity ident)"

lemma records_map_put [simp]:
  "records_map (records_put e i d records) = (records_map records)((e, i) \<mapsto> d)"
  using recs.get_put [of "(e, i)" d records] by (simp add: records_map_def)

lemma records_map_remove:
  "records_map (snd (records_remove e i records)) = (records_map records)((e, i) := None)"
  using recs.get_del [of "(e, i)" records] by (simp add: records_map_def)

lemma records_actions_spec:
  "map_option records_map (ok (try_fold apply_record_action as records)) = spec_actions as (records_map records)"
proof (induction as arbitrary: records)
  case (Cons a as)
  show ?case
  proof (cases a)
    case (DeleteRecord e i)
    have "fst (records_remove e i records) = records_map records (e, i)"
      by (simp add: records_remove_result records_map_def)
    then show ?thesis
      using Cons DeleteRecord records_map_remove [of e i records]
      by (cases "records_remove e i records"; cases "fst (records_remove e i records)") (auto simp: domIff fun_upd_def)
  qed (use Cons in \<open>simp_all add: fun_upd_def\<close>)
qed simp

text \<open>C37: The hosted-domain records implement one map from collection and identity to document: a
  batch is accepted exactly when its record requirements hold of that map and each deletion finds its
  document, and it then leaves the map updated action by action.\<close>

theorem records_refine_map:
  "map_option records_map (ok (apply_records batch records)) =
     (if list_all (spec_requirement (records_map records)) (cb_requirements batch)
      then spec_actions (cb_actions batch) (records_map records) else None)"
proof -
  have "record_requirement_valid records r = spec_requirement (records_map records) r" for r
    by (cases r) (auto simp: records_map_def)
  then have "list_all (record_requirement_valid records) = list_all (spec_requirement (records_map records))"
    by presburger
  then show ?thesis by (simp add: apply_records_def records_actions_spec)
qed

end
