(* ===== verification/Raft_Types.thy ===== *)
theory Raft_Types
  imports Coding Catalog_Batch
begin

section \<open>Replicated command types\<close>

text \<open>
  \<open>crates/verglas-consensus/src/raft.rs\<close>: archive segment names, payload certificates, entry
  headers with their metadata, and the commands and responses of the replicated log. OpenRaft owns
  terms, votes and log matching and is not modelled; the types here are what it carries. The lemmas
  show what a validated certificate guarantees to later quorums, and that the header builders
  produce headers that carry their body exactly one way with metadata matching their kind.
\<close>

datatype certificate_error = CertificateError nat

subsection \<open>Archive segments\<close>

record wal_archive_segment =
  seg_start_lsn :: nat
  seg_end_lsn :: nat
  seg_key :: string
  seg_hash :: hash

definition segment_from_key :: "deps \<Rightarrow> string \<Rightarrow> certificate_error + wal_archive_segment" where
  "segment_from_key D key =
     (let name = last (split_on (CHR ''/'') key) in
      case split_on (CHR ''-'') name of
        [start, fin, digest] \<Rightarrow>
          if length start \<noteq> 16 \<or> length fin \<noteq> 16 \<or> length digest \<noteq> 64 then Inl (CertificateError 1)
          else and_then (ok_or (CertificateError 1) (from_str_radix16 start)) (\<lambda>start_lsn.
               and_then (ok_or (CertificateError 1) (from_str_radix16 fin)) (\<lambda>end_lsn.
               and_then (ok_or (CertificateError 1) (hex_decode D digest)) (\<lambda>bytes.
               if hex_encode D bytes \<noteq> digest then Inl (CertificateError 1)
               else if length bytes \<noteq> 32 then Inl (CertificateError 1)
               else if start_lsn \<ge> end_lsn \<or> key = [] then Inl (CertificateError 1)
               else Inr \<lparr> seg_start_lsn = start_lsn, seg_end_lsn = end_lsn, seg_key = key, seg_hash = bytes \<rparr>)))
      | _ \<Rightarrow> Inl (CertificateError 1))"

definition segment_length :: "wal_archive_segment \<Rightarrow> nat" where
  "segment_length segment = seg_end_lsn segment - seg_start_lsn segment"

lemma segment_from_key_bounds:
  "segment_from_key D key = Inr segment \<Longrightarrow>
     seg_key segment = key \<and> seg_start_lsn segment < seg_end_lsn segment \<and> length (seg_hash segment) = 32"
  by (auto simp: segment_from_key_def Let_def split: list.splits if_splits)

subsection \<open>Payload certificates\<close>

record payload_certificate =
  pc_mode :: replication_mode
  pc_k :: nat
  pc_m :: nat
  pc_voters :: "node_id list"
  pc_holders :: "node_id list"

definition required_holders :: "replication_mode \<Rightarrow> nat \<Rightarrow> nat \<Rightarrow> nat" where
  "required_holders mode k voter_count =
     (let election_quorum = voter_count div 2 + 1 in
      case mode of
        Coded \<Rightarrow> voter_count - election_quorum + k
      | Complete \<Rightarrow> election_quorum)"

definition certificate_with_voters ::
    "replication_mode \<Rightarrow> nat \<Rightarrow> nat \<Rightarrow> node_id list \<Rightarrow> node_id list \<Rightarrow> certificate_error + payload_certificate" where
  "certificate_with_voters mode k m voters holders =
     (let holders = sort_dedup holders in
      and_then (ok_or (CertificateError (u64_bound - 1)) (checked_add k m)) (\<lambda>voter_count.
      if k = 0 \<or> voter_count = 0 \<or> length voters \<noteq> voter_count \<or> 0 \<in> set voters
         \<or> length (bs_of_list voters) \<noteq> voter_count \<or> 0 \<in> set holders
         \<or> \<not> list_all (\<lambda>holder. holder \<in> set voters) holders
      then Inl (CertificateError voter_count)
      else
        (let required = required_holders mode k voter_count in
         if length holders < required \<or> length holders > voter_count then Inl (CertificateError required)
         else Inr \<lparr> pc_mode = mode, pc_k = k, pc_m = m, pc_voters = voters, pc_holders = holders \<rparr>)))"

definition certificate_new ::
    "replication_mode \<Rightarrow> nat \<Rightarrow> nat \<Rightarrow> node_id list \<Rightarrow> certificate_error + payload_certificate" where
  "certificate_new mode k m holders =
     and_then (ok_or (CertificateError (u64_bound - 1)) (checked_add k m)) (\<lambda>count.
       certificate_with_voters mode k m [1..<Suc count] holders)"

text \<open>The facts a validated certificate carries.\<close>

definition certificate_wf :: "payload_certificate \<Rightarrow> bool" where
  "certificate_wf c \<longleftrightarrow>
     0 < pc_k c \<and> length (pc_voters c) = pc_k c + pc_m c \<and> pc_k c + pc_m c < u64_bound \<and>
     distinct (pc_voters c) \<and> 0 \<notin> set (pc_voters c) \<and>
     sorted_wrt (<) (pc_holders c) \<and> set (pc_holders c) \<subseteq> set (pc_voters c) \<and>
     required_holders (pc_mode c) (pc_k c) (length (pc_voters c)) \<le> length (pc_holders c)"

lemma length_bs_of_list_eq: "length (bs_of_list xs) = length xs \<longleftrightarrow> distinct xs"
  using card_distinct [of xs] distinct_card [of xs] by (auto simp: length_bs_of_list)

lemma certificate_with_voters_Inr:
  "certificate_with_voters mode k m voters holders = Inr c \<Longrightarrow>
     certificate_wf c \<and> pc_mode c = mode \<and> pc_k c = k \<and> pc_m c = m \<and> pc_voters c = voters \<and>
     pc_holders c = sort_dedup holders"
  by (auto simp: certificate_with_voters_def certificate_wf_def Let_def list_all_iff
      length_bs_of_list_eq [symmetric] split: if_splits)

lemma certificate_overlap:
  assumes "certificate_wf c" "majority (length (pc_voters c)) \<le> card (R \<inter> set (pc_voters c))"
  shows "(case pc_mode c of Coded \<Rightarrow> pc_k c | Complete \<Rightarrow> 1) \<le> card (set (pc_holders c) \<inter> R)"
proof -
  have "card (set (pc_holders c)) = length (pc_holders c)"
    using assms(1) by (intro distinct_card) (simp add: certificate_wf_def strict_sorted_iff)
  then have "case pc_mode c of Coded \<Rightarrow> holds_coded (pc_voters c) (pc_k c) (set (pc_holders c))
      | Complete \<Rightarrow> holds_majority (pc_voters c) (set (pc_holders c))"
    using assms(1) by (cases "pc_mode c")
      (auto simp: certificate_wf_def required_holders_def holds_coded_def holds_majority_def majority_def Let_def)
  moreover have "reaches_majority (pc_voters c) R" using assms(2) by (simp add: reaches_majority_def)
  ultimately show ?thesis
    using coded_rule.overlap [of "pc_voters c" "pc_k c"] complete_rule.overlap [of "pc_voters c"]
    by (cases "pc_mode c") auto
qed

subsection \<open>Entry headers\<close>

datatype entry_metadata =
    MetaNone
  | MetaWalStart nat
  | MetaWalArchiveBinding string
  | MetaWal nat nat
  | MetaArchive wal_archive_segment
  | MetaCatalog catalog_batch
  | MetaCatalogCheckpoint nat
  | MetaWarehouseRoute string string

record entry_header =
  eh_group :: string
  eh_generation :: nat
  eh_kind :: command_kind
  eh_request :: request_id
  eh_payload_len :: nat
  eh_payload_hash :: hash
  eh_writer_epoch :: "nat option"
  eh_certificate :: "payload_certificate option"
  eh_inline :: "bytes option"
  eh_metadata :: entry_metadata

definition header_new ::
    "string \<Rightarrow> nat \<Rightarrow> command_kind \<Rightarrow> request_id \<Rightarrow> nat \<Rightarrow> hash \<Rightarrow> nat option \<Rightarrow> payload_certificate
      \<Rightarrow> certificate_error + entry_header" where
  "header_new grp generation kind request payload_len payload_hash writer_epoch certificate =
     (if grp = [] then Inl (CertificateError 1)
      else Inr \<lparr> eh_group = grp, eh_generation = generation, eh_kind = kind, eh_request = request,
                 eh_payload_len = payload_len, eh_payload_hash = payload_hash,
                 eh_writer_epoch = writer_epoch, eh_certificate = Some certificate,
                 eh_inline = None, eh_metadata = MetaNone \<rparr>)"

definition header_new_inline ::
    "deps \<Rightarrow> string \<Rightarrow> nat \<Rightarrow> command_kind \<Rightarrow> request_id \<Rightarrow> nat option \<Rightarrow> bytes
      \<Rightarrow> certificate_error + entry_header" where
  "header_new_inline D grp generation kind request writer_epoch body =
     (if grp = [] then Inl (CertificateError 1)
      else Inr \<lparr> eh_group = grp, eh_generation = generation, eh_kind = kind, eh_request = request,
                 eh_payload_len = length body, eh_payload_hash = sha256 D body,
                 eh_writer_epoch = writer_epoch, eh_certificate = None,
                 eh_inline = Some body, eh_metadata = MetaNone \<rparr>)"

definition with_wal_range :: "nat \<Rightarrow> nat \<Rightarrow> entry_header \<Rightarrow> certificate_error + entry_header" where
  "with_wal_range start fin h =
     (if eh_kind h \<noteq> Wal \<or> checked_sub fin start \<noteq> Some (eh_payload_len h) then Inl (CertificateError 1)
      else Inr (h\<lparr>eh_metadata := MetaWal start fin\<rparr>))"

definition with_wal_start :: "nat \<Rightarrow> entry_header \<Rightarrow> certificate_error + entry_header" where
  "with_wal_start start h =
     (if eh_kind h \<noteq> TimelineOpen \<or> eh_payload_len h \<noteq> 0 then Inl (CertificateError 1)
      else Inr (h\<lparr>eh_metadata := MetaWalStart start\<rparr>))"

definition with_wal_archive_bucket :: "string \<Rightarrow> entry_header \<Rightarrow> certificate_error + entry_header" where
  "with_wal_archive_bucket bucket h =
     (if eh_kind h \<noteq> WalArchiveBinding \<or> eh_payload_len h \<noteq> length bucket \<or> bucket = []
      then Inl (CertificateError 1)
      else Inr (h\<lparr>eh_metadata := MetaWalArchiveBinding bucket\<rparr>))"

definition with_archive_segment :: "deps \<Rightarrow> wal_archive_segment \<Rightarrow> entry_header \<Rightarrow> certificate_error + entry_header" where
  "with_archive_segment D segment h =
     (if eh_kind h \<noteq> ArchiveCheckpoint \<or> eh_payload_len h \<noteq> length (seg_key segment)
         \<or> eh_payload_hash h \<noteq> sha256 D (as_bytes (seg_key segment))
      then Inl (CertificateError 1)
      else Inr (h\<lparr>eh_metadata := MetaArchive segment\<rparr>))"

definition with_catalog_batch :: "catalog_batch \<Rightarrow> entry_header \<Rightarrow> certificate_error + entry_header" where
  "with_catalog_batch batch h =
     (if eh_kind h \<noteq> command_kind.Catalog then Inl (CertificateError 1)
      else Inr (h\<lparr>eh_metadata := MetaCatalog batch\<rparr>))"

definition with_catalog_checkpoint :: "nat \<Rightarrow> entry_header \<Rightarrow> certificate_error + entry_header" where
  "with_catalog_checkpoint applied_index h =
     (if eh_kind h \<noteq> CatalogCheckpoint \<or> applied_index = 0 then Inl (CertificateError 1)
      else Inr (h\<lparr>eh_metadata := MetaCatalogCheckpoint applied_index\<rparr>))"

definition with_warehouse_route :: "string \<Rightarrow> string \<Rightarrow> entry_header \<Rightarrow> certificate_error + entry_header" where
  "with_warehouse_route warehouse grp h =
     (if eh_kind h \<noteq> TenantRoot \<or> warehouse = [] \<or> grp = [] then Inl (CertificateError 1)
      else Inr (h\<lparr>eh_metadata := MetaWarehouseRoute warehouse grp\<rparr>))"

text \<open>What the builders establish: the body travels exactly one way, and the metadata fits the kind.\<close>

definition header_ok :: "entry_header \<Rightarrow> bool" where
  "header_ok h \<longleftrightarrow>
     (eh_certificate h = None \<longleftrightarrow> eh_inline h \<noteq> None) \<and>
     (case eh_metadata h of
        MetaNone \<Rightarrow> True
      | MetaWalStart _ \<Rightarrow> eh_kind h = TimelineOpen
      | MetaWalArchiveBinding _ \<Rightarrow> eh_kind h = WalArchiveBinding
      | MetaWal start fin \<Rightarrow> eh_kind h = Wal \<and> start \<le> fin \<and> fin - start = eh_payload_len h
      | MetaArchive segment \<Rightarrow> eh_kind h = ArchiveCheckpoint \<and> seg_start_lsn segment < seg_end_lsn segment
      | MetaCatalog _ \<Rightarrow> eh_kind h = command_kind.Catalog
      | MetaCatalogCheckpoint _ \<Rightarrow> eh_kind h = CatalogCheckpoint
      | MetaWarehouseRoute _ _ \<Rightarrow> eh_kind h = TenantRoot)"

lemma header_new_ok: "header_new grp gen kind req len digest epoch cert = Inr h \<Longrightarrow> header_ok h"
  by (auto simp: header_new_def header_ok_def split: if_splits)

lemma header_new_inline_ok: "header_new_inline D grp gen kind req epoch body = Inr h \<Longrightarrow> header_ok h"
  by (auto simp: header_new_inline_def header_ok_def split: if_splits)

lemma with_metadata_ok:
  assumes "header_ok h"
  shows "with_wal_range a b h = Inr h' \<Longrightarrow> header_ok h'"
    and "with_wal_start a h = Inr h' \<Longrightarrow> header_ok h'"
    and "with_wal_archive_bucket bucket h = Inr h' \<Longrightarrow> header_ok h'"
    and "segment_from_key D key = Inr seg \<Longrightarrow> with_archive_segment D seg h = Inr h' \<Longrightarrow> header_ok h'"
    and "with_catalog_batch batch h = Inr h' \<Longrightarrow> header_ok h'"
    and "with_catalog_checkpoint idx h = Inr h' \<Longrightarrow> header_ok h'"
    and "with_warehouse_route w g h = Inr h' \<Longrightarrow> header_ok h'"
  using assms segment_from_key_bounds [of D key seg]
  by (auto simp: header_ok_def with_wal_range_def with_wal_start_def with_wal_archive_bucket_def
      with_archive_segment_def with_catalog_batch_def with_catalog_checkpoint_def with_warehouse_route_def
      split: if_splits)

subsection \<open>Commands and responses\<close>

datatype raft_command =
    Commit entry_header
  | Repair nat nat payload_certificate
  | ReleaseWal nat

datatype applied_outcome =
    Committed | Duplicate | OutConflictingRetry | OutStaleWriterEpoch | WalGap
  | InvalidArchiveCheckpoint | CatalogConflict

record raft_response =
  rr_index :: nat
  rr_writer_epoch :: "nat option"
  rr_outcome :: applied_outcome
  rr_wal_end :: "nat option"
  rr_archive_lsn :: "nat option"
  rr_catalog_changed :: bool

subsection \<open>Properties\<close>

text \<open>C13: What a payload certificate proves. Any certificate the constructor accepts has holders among
  its distinct non-zero voters, and every set of nodes that reaches a majority of those voters contains
  at least \<open>k\<close> holders when the payload is coded, and at least one when it is complete.\<close>

theorem certificate_sound:
  assumes "certificate_with_voters mode k m voters holders = Inr c" "reaches_majority voters R"
  shows "distinct (pc_voters c) \<and> set (pc_holders c) \<subseteq> set (pc_voters c) \<and>
     (case mode of Coded \<Rightarrow> k | Complete \<Rightarrow> 1) \<le> card (set (pc_holders c) \<inter> R)"
  using certificate_with_voters_Inr [OF assms(1)] certificate_overlap [of c R] assms(2)
  by (auto simp: certificate_wf_def reaches_majority_def)

definition ex_certificate :: payload_certificate where
  "ex_certificate = \<lparr> pc_mode = Coded, pc_k = 2, pc_m = 1, pc_voters = [5, 4, 6], pc_holders = [4, 5, 6] \<rparr>"

lemma ex_certificate: "certificate_with_voters Coded 2 1 [5, 4, 6] [6, 5, 4, 5] = Inr ex_certificate"
  by (simp add: certificate_with_voters_def checked_add_def required_holders_def sort_dedup_def
      bs_of_list_def ex_certificate_def Let_def)

theorem certificate_sound_witness:
  "distinct (pc_voters ex_certificate) \<and> set (pc_holders ex_certificate) \<subseteq> set (pc_voters ex_certificate) \<and>
     (case Coded of Coded \<Rightarrow> 2 | Complete \<Rightarrow> 1) \<le> card (set (pc_holders ex_certificate) \<inter> {4, 6})"
  by (rule certificate_sound [OF ex_certificate]) (simp add: reaches_majority_def majority_def)

end
