(* ===== verification/Payload_Types.thy ===== *)
theory Payload_Types
  imports Raft_Types
begin

section \<open>Payload requests and errors\<close>

text \<open>
  The data that crosses the \<open>PayloadStore\<close> and \<open>RepresentationTransport\<close> traits of
  \<open>crates/verglas-consensus/src/payload.rs\<close>: representations, the requests of each operation,
  staged payloads and the error enumeration. The replicated state machine issues release requests
  and the payload stores of the theory \<open>Payload\<close> answer all of them.
\<close>

record payload_representation =
  rep_term :: nat
  rep_index :: nat
  rep_group :: string
  rep_generation :: nat
  rep_mode :: replication_mode
  rep_hash :: hash
  rep_request :: request_id
  rep_length :: nat
  rep_slot :: nat
  rep_bytes :: bytes

record repair_request =
  rq_hash :: hash
  rq_group :: string
  rq_source_generation :: nat
  rq_target_generation :: nat
  rq_request :: request_id
  rq_length :: nat
  rq_source_term :: nat
  rq_source_index :: nat
  rq_certificate :: payload_certificate
  rq_target_voters :: "node_id list"

record seal_request =
  sl_hash :: hash
  sl_group :: string
  sl_generation :: nat
  sl_request :: request_id
  sl_term :: nat
  sl_index :: nat
  sl_certificate :: payload_certificate

record reconstruct_request =
  rc_hash :: hash
  rc_group :: string
  rc_generation :: nat
  rc_request :: request_id
  rc_length :: nat
  rc_term :: nat
  rc_index :: nat
  rc_certificate :: payload_certificate

record release_request =
  rl_hash :: hash
  rl_group :: string
  rl_generation :: nat
  rl_request :: request_id
  rl_length :: nat
  rl_term :: nat
  rl_index :: nat
  rl_certificate :: payload_certificate

record staged_payload =
  sp_hash :: hash
  sp_length :: nat
  sp_certificate :: payload_certificate

text \<open>An \<open>io::Error\<close>, as far as the code looks at its kind.\<close>

datatype io_kind = NotFound | OtherKind

datatype payload_error =
    InvalidGeometry
  | InsufficientDurability nat nat
  | UnknownHolder
  | PayloadUnavailable
  | CorruptRepresentation
  | Transport string
  | Io io_kind

fun payload_error_required :: "payload_error \<Rightarrow> nat" where
  "payload_error_required (InsufficientDurability required durable) = required"
| "payload_error_required _ = 0"

end
