(* ===== verification/State_Machine.thy ===== *)
theory State_Machine
  imports Payload_Types
begin

section \<open>The replicated state machine\<close>

text \<open>
  \<open>PersistentStateMachine\<close> of \<open>crates/verglas-consensus/src/raft_store.rs\<close>: the applied
  state, \<open>apply\<close> for every kind of log entry, the two history compactions, the release of
  reclaimed payloads and the construction and installation of snapshots. The locks guard one state
  value, passed explicitly here; the files behind it are the theory \<open>Log_Store\<close>. The payload
  store that releases go to is the argument \<open>release\<close>, and the JSON image of a snapshot is the
  pair of arguments \<open>to_json\<close>, \<open>from_json\<close>. Writer epochs only step by one and are
  unbounded here.
\<close>

subsection \<open>State\<close>

record log_id =
  li_term :: nat
  li_node :: node_id
  li_index :: nat

record stored_membership =
  ms_log_id :: "log_id option"
  ms_voters :: "node_id list"

record applied_identity =
  ai_index :: nat
  ai_group :: string
  ai_kind :: command_kind
  ai_hash :: hash
  ai_writer_epoch :: "nat option"
  ai_wal_end :: "nat option"
  ai_archive_lsn :: "nat option"
  ai_catalog_changed :: bool

record repair_allocation =
  ra_generation :: nat
  ra_certificate :: payload_certificate
  ra_log_id :: log_id

record state_machine =
  sm_last_applied :: "log_id option"
  sm_membership :: stored_membership
  sm_committed :: "(nat, entry_header) btree"
  sm_committed_log_ids :: "(nat, log_id) btree"
  sm_repairs :: "(nat, repair_allocation) btree"
  sm_retries :: "(request_id, applied_identity) btree"
  sm_writer_epoch :: nat
  sm_writer_active :: bool
  sm_wal_archive_bucket :: "string option"
  sm_wal_initialized :: bool
  sm_wal_end :: nat
  sm_archive_lsn :: nat
  sm_namespaces :: "string list"
  sm_tables :: "(string, string) btree"
  sm_records :: catalog_records
  sm_warehouses :: "(string, string) btree"
  sm_catalog_checkpoint :: "(nat \<times> string) option"

definition sm_default :: state_machine where
  "sm_default =
     \<lparr> sm_last_applied = None, sm_membership = \<lparr> ms_log_id = None, ms_voters = [] \<rparr>,
       sm_committed = [], sm_committed_log_ids = [], sm_repairs = [], sm_retries = [],
       sm_writer_epoch = 0, sm_writer_active = False, sm_wal_archive_bucket = None,
       sm_wal_initialized = False, sm_wal_end = 0, sm_archive_lsn = 0, sm_namespaces = [],
       sm_tables = [], sm_records = [], sm_warehouses = [], sm_catalog_checkpoint = None \<rparr>"

datatype entry_payload =
    Blank
  | Membership "node_id list"
  | Normal raft_command

record log_entry =
  le_log_id :: log_id
  le_payload :: entry_payload

datatype storage_error =
    RepairUnknownHeader
  | RepairInlineHeader
  | RepairIdentityChanged
  | ReleaseBeyondCheckpoint

subsection \<open>Compaction\<close>

definition drop_indices :: "nat list \<Rightarrow> state_machine \<Rightarrow> state_machine" where
  "drop_indices indices s =
     s\<lparr>sm_committed := fold bt_remove indices (sm_committed s),
       sm_committed_log_ids := fold bt_remove indices (sm_committed_log_ids s),
       sm_repairs := fold bt_remove indices (sm_repairs s)\<rparr>"

definition compact_checkpointed_wal_history :: "nat \<Rightarrow> state_machine \<Rightarrow> state_machine" where
  "compact_checkpointed_wal_history through_lsn s =
     drop_indices (filter_map (\<lambda>(index, header).
       (case eh_metadata header of
          MetaWal _ fin \<Rightarrow> if fin \<le> through_lsn then Some index else None
        | _ \<Rightarrow> None)) (sm_committed s)) s"

definition compact_checkpointed_catalog_history :: "state_machine \<Rightarrow> state_machine" where
  "compact_checkpointed_catalog_history s =
     (case sm_catalog_checkpoint s of
        None \<Rightarrow> s
      | Some (applied_index, _) \<Rightarrow>
          drop_indices (filter_map (\<lambda>(index, header).
            if eh_kind header = command_kind.Catalog then Some index else None)
              (bt_upto applied_index (sm_committed s))) s)"

subsection \<open>Applying one entry\<close>

definition response :: "nat \<Rightarrow> nat option \<Rightarrow> applied_outcome \<Rightarrow> nat option \<Rightarrow> nat option \<Rightarrow> bool \<Rightarrow> raft_response" where
  "response index writer_epoch outcome wal_end archive_lsn catalog_changed =
     \<lparr> rr_index = index, rr_writer_epoch = writer_epoch, rr_outcome = outcome, rr_wal_end = wal_end,
       rr_archive_lsn = archive_lsn, rr_catalog_changed = catalog_changed \<rparr>"

definition retry_response :: "applied_identity \<Rightarrow> entry_header \<Rightarrow> raft_response" where
  "retry_response previous h =
     (let same = (ai_group previous = eh_group h \<and> ai_kind previous = eh_kind h
                  \<and> ai_hash previous = eh_payload_hash h \<and> ai_writer_epoch previous = eh_writer_epoch h)
      in response (ai_index previous) (ai_writer_epoch previous)
           (if same then Duplicate else OutConflictingRetry)
           (if same then ai_wal_end previous else None)
           (if same then ai_archive_lsn previous else None)
           (same \<and> ai_catalog_changed previous))"

fun epoch_valid :: "command_kind \<Rightarrow> nat option \<Rightarrow> state_machine \<Rightarrow> bool" where
  "epoch_valid TimelineOpen _ s = (sm_wal_archive_bucket s \<noteq> None)"
| "epoch_valid WriterLease epoch s = (sm_wal_initialized s \<and> epoch = Some (sm_writer_epoch s + 1))"
| "epoch_valid Wal epoch s = (sm_writer_active s \<and> epoch = Some (sm_writer_epoch s))"
| "epoch_valid ReleaseWriter epoch s = (sm_writer_active s \<and> epoch = Some (sm_writer_epoch s))"
| "epoch_valid _ _ _ = True"

text \<open>
  The effect of the metadata of an entry: refused with a response and no change, or the changed
  state with the tail, the archive watermark and the catalog flag to report.
\<close>

type_synonym meta_effect = "state_machine \<times> nat option \<times> nat option \<times> bool"

fun apply_metadata :: "deps \<Rightarrow> nat \<Rightarrow> entry_header \<Rightarrow> entry_metadata \<Rightarrow> state_machine \<Rightarrow> raft_response + meta_effect" where
  "apply_metadata D index h (MetaWalStart start) s =
     (if sm_wal_initialized s \<and> start > sm_wal_end s
      then Inl (response index None WalGap (Some (sm_wal_end s)) None False)
      else
        (let s' = (if \<not> sm_wal_initialized s
                   then s\<lparr>sm_wal_initialized := True, sm_wal_end := start, sm_archive_lsn := start\<rparr> else s)
         in Inr (s', Some (sm_wal_end s'), None, False)))"
| "apply_metadata D index h (MetaWalArchiveBinding bucket) s =
     (case sm_wal_archive_bucket s of
        Some existing \<Rightarrow>
          if existing \<noteq> bucket then Inl (response index None CatalogConflict None None False)
          else Inr (s, None, None, False)
      | None \<Rightarrow> Inr (s\<lparr>sm_wal_archive_bucket := Some bucket\<rparr>, None, None, False))"
| "apply_metadata D index h (MetaWal start fin) s =
     (if start \<noteq> sm_wal_end s
      then Inl (response index (Some (sm_writer_epoch s)) WalGap (Some (sm_wal_end s)) None False)
      else Inr (s\<lparr>sm_wal_end := fin\<rparr>, Some fin, None, False))"
| "apply_metadata D index h (MetaArchive segment) s =
     (if seg_start_lsn segment \<noteq> sm_archive_lsn s \<or> seg_end_lsn segment > sm_wal_end s
      then Inl (response index (Some (sm_writer_epoch s)) InvalidArchiveCheckpoint
                  (Some (sm_wal_end s)) (Some (sm_archive_lsn s)) False)
      else Inr (s\<lparr>sm_archive_lsn := seg_end_lsn segment\<rparr>, None, Some (seg_end_lsn segment), False))"
| "apply_metadata D index h (MetaCatalog batch) s =
     (case (apply_batch batch (sm_namespaces s, sm_tables s), apply_records batch (sm_records s)) of
        (Inr (namespaces, tables), Inr records) \<Rightarrow>
          Inr (s\<lparr>sm_namespaces := namespaces, sm_tables := tables, sm_records := records\<rparr>, None, None, True)
      | _ \<Rightarrow> Inl (response index None CatalogConflict None None False))"
| "apply_metadata D index h (MetaCatalogCheckpoint applied_index) s =
     (if applied_index > index then Inl (response index None CatalogConflict None None False)
      else Inr (s\<lparr>sm_catalog_checkpoint := Some (applied_index, hex_encode D (eh_payload_hash h))\<rparr>, None, None, False))"
| "apply_metadata D index h (MetaWarehouseRoute warehouse route) s =
     (case map_of (sm_warehouses s) warehouse of
        Some existing \<Rightarrow>
          if existing \<noteq> route then Inl (response index None CatalogConflict None None False)
          else Inr (s, None, None, False)
      | None \<Rightarrow> Inr (s\<lparr>sm_warehouses := bt_insert warehouse route (sm_warehouses s)\<rparr>, None, None, False))"
| "apply_metadata D index h MetaNone s = Inr (s, None, None, False)"

definition install_writer :: "entry_header \<Rightarrow> state_machine \<Rightarrow> state_machine" where
  "install_writer h s =
     (if eh_kind h = WriterLease
      then s\<lparr>sm_writer_epoch := (case eh_writer_epoch h of Some e \<Rightarrow> e | None \<Rightarrow> sm_writer_epoch s),
             sm_writer_active := True\<rparr>
      else if eh_kind h = ReleaseWriter then s\<lparr>sm_writer_active := False\<rparr>
      else s)"

definition record_commit :: "log_id \<Rightarrow> entry_header \<Rightarrow> nat option \<Rightarrow> nat option \<Rightarrow> bool \<Rightarrow> state_machine \<Rightarrow> state_machine" where
  "record_commit lid h wal_end archive_lsn catalog_changed s =
     s\<lparr>sm_retries := bt_insert (eh_request h)
          \<lparr> ai_index = li_index lid, ai_group = eh_group h, ai_kind = eh_kind h, ai_hash = eh_payload_hash h,
            ai_writer_epoch = eh_writer_epoch h, ai_wal_end = wal_end, ai_archive_lsn = archive_lsn,
            ai_catalog_changed = catalog_changed \<rparr> (sm_retries s),
       sm_committed := bt_insert (li_index lid) h (sm_committed s),
       sm_committed_log_ids := bt_insert (li_index lid) lid (sm_committed_log_ids s)\<rparr>"

definition apply_commit :: "deps \<Rightarrow> log_id \<Rightarrow> entry_header \<Rightarrow> state_machine \<Rightarrow> state_machine \<times> raft_response" where
  "apply_commit D lid h s =
     (case map_of (sm_retries s) (eh_request h) of
        Some previous \<Rightarrow> (s, retry_response previous h)
      | None \<Rightarrow>
          if \<not> epoch_valid (eh_kind h) (eh_writer_epoch h) s
          then (s, response (li_index lid) (Some (sm_writer_epoch s)) OutStaleWriterEpoch None None False)
          else
            (case apply_metadata D (li_index lid) h (eh_metadata h) s of
               Inl refused \<Rightarrow> (s, refused)
             | Inr (s1, wal_end, archive_lsn, catalog_changed) \<Rightarrow>
                 (let wal_end = (if eh_kind h = WriterLease then Some (sm_wal_end s1) else wal_end) in
                  (record_commit lid h wal_end archive_lsn catalog_changed (install_writer h s1),
                   response (li_index lid) (eh_writer_epoch h) Committed wal_end archive_lsn catalog_changed))))"

definition apply_repair :: "log_id \<Rightarrow> nat \<Rightarrow> nat \<Rightarrow> payload_certificate \<Rightarrow> state_machine
    \<Rightarrow> storage_error + (state_machine \<times> raft_response)" where
  "apply_repair lid index generation certificate s =
     and_then (ok_or RepairUnknownHeader (map_of (sm_committed s) index)) (\<lambda>h.
     and_then (ok_or RepairInlineHeader (eh_certificate h)) (\<lambda>original.
     if pc_mode certificate \<noteq> pc_mode original \<or> pc_k certificate \<noteq> pc_k original
        \<or> pc_m certificate \<noteq> pc_m original
        \<or> length (pc_voters certificate) \<noteq> length (pc_voters original)
        \<or> generation \<le> eh_generation h
        \<or> (case map_of (sm_repairs s) index of
             Some existing \<Rightarrow> generation \<le> ra_generation existing | None \<Rightarrow> False)
     then Inl RepairIdentityChanged
     else Inr (s\<lparr>sm_repairs := bt_insert index
                   \<lparr> ra_generation = generation, ra_certificate = certificate, ra_log_id = lid \<rparr> (sm_repairs s)\<rparr>,
               response (li_index lid) None Committed None None False)))"

definition apply_release_wal :: "log_id \<Rightarrow> nat \<Rightarrow> state_machine \<Rightarrow> storage_error + (state_machine \<times> raft_response)" where
  "apply_release_wal lid through_lsn s =
     (if through_lsn > sm_archive_lsn s then Inl ReleaseBeyondCheckpoint
      else Inr (compact_checkpointed_wal_history through_lsn s,
                response (li_index lid) None Committed (Some (sm_wal_end s)) (Some (sm_archive_lsn s)) False))"

text \<open>
  \<open>last_applied\<close> moves before the entry is interpreted, so it also moves when a repair or a
  release fails; the failure is the second component.
\<close>

definition apply_entry :: "deps \<Rightarrow> log_entry \<Rightarrow> state_machine \<Rightarrow> state_machine \<times> (storage_error + raft_response)" where
  "apply_entry D entry s =
     (let lid = le_log_id entry;
          s = s\<lparr>sm_last_applied := Some lid\<rparr>;
          finish = (\<lambda>r. case r of Inl e \<Rightarrow> (s, Inl e) | Inr (s', resp) \<Rightarrow> (s', Inr resp))
      in case le_payload entry of
           Blank \<Rightarrow> (s, Inr (response (li_index lid) None Committed None None False))
         | Membership voters \<Rightarrow>
             (s\<lparr>sm_membership := \<lparr> ms_log_id = Some lid, ms_voters = voters \<rparr>\<rparr>,
              Inr (response (li_index lid) None Committed None None False))
         | Normal (Commit h) \<Rightarrow> (case apply_commit D lid h s of (s', resp) \<Rightarrow> (s', Inr resp))
         | Normal (Repair index generation certificate) \<Rightarrow> finish (apply_repair lid index generation certificate s)
         | Normal (ReleaseWal through_lsn) \<Rightarrow> finish (apply_release_wal lid through_lsn s))"

fun apply_entries :: "deps \<Rightarrow> log_entry list \<Rightarrow> state_machine \<Rightarrow> state_machine \<times> (storage_error + raft_response list)" where
  "apply_entries D [] s = (s, Inr [])"
| "apply_entries D (e # es) s =
     (case apply_entry D e s of
        (s', Inl err) \<Rightarrow> (s', Inl err)
      | (s', Inr r) \<Rightarrow>
          (case apply_entries D es s' of
             (s'', Inl err) \<Rightarrow> (s'', Inl err)
           | (s'', Inr rs) \<Rightarrow> (s'', Inr (r # rs))))"

subsection \<open>Readers of the applied state\<close>

fun collect_segments :: "nat option \<Rightarrow> entry_header list \<Rightarrow> payload_error + (nat option \<times> wal_archive_segment list)" where
  "collect_segments cursor [] = Inr (cursor, [])"
| "collect_segments cursor (h # hs) =
     (case eh_metadata h of
        MetaArchive segment \<Rightarrow>
          if cursor \<noteq> None \<and> cursor \<noteq> Some (seg_start_lsn segment) then Inl CorruptRepresentation
          else and_then (collect_segments (Some (seg_end_lsn segment)) hs)
                 (\<lambda>(cursor, segments). Inr (cursor, segment # segments))
      | _ \<Rightarrow> collect_segments cursor hs)"

definition archived_wal_segments :: "nat \<Rightarrow> state_machine \<Rightarrow> payload_error + wal_archive_segment list" where
  "archived_wal_segments through_lsn s =
     (if through_lsn \<noteq> sm_archive_lsn s then Inl CorruptRepresentation
      else and_then (collect_segments None (bt_vals (sm_committed s))) (\<lambda>(cursor, segments).
             if cursor = None \<or> cursor = Some through_lsn then Inr segments
             else Inl CorruptRepresentation))"

definition applied_index :: "state_machine \<Rightarrow> nat" where
  "applied_index s = (case sm_last_applied s of None \<Rightarrow> 0 | Some lid \<Rightarrow> li_index lid)"

definition membership_generation :: "state_machine \<Rightarrow> nat" where
  "membership_generation s = (case ms_log_id (sm_membership s) of None \<Rightarrow> 0 | Some lid \<Rightarrow> li_index lid)"

definition committed_voters :: "state_machine \<Rightarrow> node_id list" where
  "committed_voters s = bs_of_list (ms_voters (sm_membership s))"

definition is_initialized :: "state_machine \<Rightarrow> bool" where
  "is_initialized s \<longleftrightarrow> ms_voters (sm_membership s) \<noteq> []"

definition committed_header :: "nat \<Rightarrow> state_machine \<Rightarrow> entry_header option" where
  "committed_header index s = map_of (sm_committed s) index"

definition committed_log_id :: "nat \<Rightarrow> state_machine \<Rightarrow> log_id option" where
  "committed_log_id index s = map_of (sm_committed_log_ids s) index"

subsection \<open>Releasing reclaimed payloads\<close>

type_synonym 'w release = "release_request \<Rightarrow> 'w \<Rightarrow> 'w \<times> (payload_error + unit)"

definition release_of :: "entry_header \<Rightarrow> nat \<Rightarrow> log_id \<Rightarrow> payload_certificate \<Rightarrow> release_request" where
  "release_of h generation lid certificate =
     \<lparr> rl_hash = eh_payload_hash h, rl_group = eh_group h, rl_generation = generation,
       rl_request = eh_request h, rl_length = eh_payload_len h, rl_term = li_term lid,
       rl_index = li_index lid, rl_certificate = certificate \<rparr>"

definition release_committed_payload :: "'w release \<Rightarrow> state_machine \<Rightarrow> nat \<Rightarrow> entry_header \<Rightarrow> 'w \<Rightarrow> 'w \<times> (payload_error + unit)" where
  "release_committed_payload release s index h w =
     (case eh_certificate h of
        None \<Rightarrow> (w, Inr ())
      | Some certificate \<Rightarrow>
          (case map_of (sm_committed_log_ids s) index of
             None \<Rightarrow> (w, Inl CorruptRepresentation)
           | Some lid \<Rightarrow>
               (case release (release_of h (eh_generation h) lid certificate) w of
                  (w', Inl e) \<Rightarrow> (w', Inl e)
                | (w', Inr _) \<Rightarrow>
                    (case map_of (sm_repairs s) index of
                       None \<Rightarrow> (w', Inr ())
                     | Some repair \<Rightarrow>
                         release (release_of h (ra_generation repair) (ra_log_id repair) (ra_certificate repair)) w'))))"

fun release_headers :: "'w release \<Rightarrow> state_machine \<Rightarrow> (nat \<times> entry_header) list \<Rightarrow> 'w \<Rightarrow> 'w \<times> (payload_error + unit)" where
  "release_headers release s [] w = (w, Inr ())"
| "release_headers release s ((index, h) # hs) w =
     (case release_committed_payload release s index h w of
        (w', Inl e) \<Rightarrow> (w', Inl e)
      | (w', Inr _) \<Rightarrow> release_headers release s hs w')"

definition wal_covered :: "state_machine \<Rightarrow> (nat \<times> entry_header) list" where
  "wal_covered s =
     filter (\<lambda>(index, h). case eh_metadata h of MetaWal _ fin \<Rightarrow> fin \<le> sm_archive_lsn s | _ \<Rightarrow> False) (sm_committed s)"

definition release_checkpointed_wal_payloads :: "'w release option \<Rightarrow> state_machine \<Rightarrow> 'w \<Rightarrow> 'w \<times> (payload_error + unit)" where
  "release_checkpointed_wal_payloads payloads s w =
     (case payloads of
        None \<Rightarrow> (w, Inr ())
      | Some release \<Rightarrow> release_headers release s (wal_covered s) w)"

definition release_checkpointed_catalog_payloads :: "'w release \<Rightarrow> state_machine \<Rightarrow> 'w \<Rightarrow> 'w \<times> (payload_error + unit)" where
  "release_checkpointed_catalog_payloads release s w =
     (case sm_catalog_checkpoint s of
        None \<Rightarrow> (w, Inr ())
      | Some (applied, _) \<Rightarrow>
          release_headers release s
            (filter (\<lambda>(index, h). eh_kind h = command_kind.Catalog) (bt_upto applied (sm_committed s))) w)"

definition release_catalog_payloads_pruned_by_snapshot ::
    "'w release \<Rightarrow> state_machine \<Rightarrow> state_machine \<Rightarrow> 'w \<Rightarrow> 'w \<times> (payload_error + unit)" where
  "release_catalog_payloads_pruned_by_snapshot release local installed w =
     (case sm_catalog_checkpoint installed of
        None \<Rightarrow> (w, Inr ())
      | Some (checkpoint, _) \<Rightarrow>
          release_headers release local
            (filter (\<lambda>(index, h). eh_kind h = command_kind.Catalog \<and> map_of (sm_committed installed) index = None)
              (bt_upto checkpoint (sm_committed local))) w)"

subsection \<open>Snapshots\<close>

record snapshot_meta =
  sn_last_log_id :: "log_id option"
  sn_last_membership :: stored_membership
  sn_id :: string

record stored_snapshot =
  ss_meta :: snapshot_meta
  ss_data :: bytes

record replica =
  rp_state :: state_machine
  rp_snapshot_index :: nat
  rp_current :: "stored_snapshot option"

datatype snapshot_error =
    ReadStateMachine
  | ReadSnapshot
  | WriteSnapshot
  | WriteStateMachine payload_error

text \<open>
  The flag \<open>persisted\<close> says whether the queued image write completed; the name of a snapshot is
  a function of the last applied log identity and the sequence number.
\<close>

definition build_snapshot ::
    "(state_machine \<Rightarrow> bytes option) \<Rightarrow> (log_id option \<Rightarrow> nat \<Rightarrow> string) \<Rightarrow> 'w release option \<Rightarrow> bool
      \<Rightarrow> replica \<Rightarrow> 'w \<Rightarrow> replica \<times> 'w \<times> (snapshot_error + stored_snapshot)" where
  "build_snapshot to_json name payloads persisted r w =
     (case (case payloads of None \<Rightarrow> (w, Inr ())
            | Some release \<Rightarrow> release_checkpointed_catalog_payloads release (rp_state r) w) of
        (w', Inl e) \<Rightarrow> (r, w', Inl (WriteStateMachine e))
      | (w', Inr _) \<Rightarrow>
          (let s = compact_checkpointed_catalog_history (rp_state r); r = r\<lparr>rp_state := s\<rparr> in
           case to_json s of
             None \<Rightarrow> (r, w', Inl ReadStateMachine)
           | Some data \<Rightarrow>
               (let sequence = rp_snapshot_index r + 1;
                    stored = \<lparr> ss_meta = \<lparr> sn_last_log_id = sm_last_applied s, sn_last_membership = sm_membership s,
                                             sn_id = name (sm_last_applied s) sequence \<rparr>,
                               ss_data = data \<rparr>;
                    r = r\<lparr>rp_snapshot_index := sequence\<rparr>
                in if persisted then (r\<lparr>rp_current := Some stored\<rparr>, w', Inr stored)
                   else (r, w', Inl WriteSnapshot))))"

definition install_snapshot ::
    "(bytes \<Rightarrow> state_machine option) \<Rightarrow> 'w release option \<Rightarrow> bool \<Rightarrow> snapshot_meta \<Rightarrow> bytes
      \<Rightarrow> replica \<Rightarrow> 'w \<Rightarrow> replica \<times> 'w \<times> (snapshot_error + unit)" where
  "install_snapshot from_json payloads persisted meta data r w =
     (case from_json data of
        None \<Rightarrow> (r, w, Inl ReadSnapshot)
      | Some decoded \<Rightarrow>
          (let decoded = decoded\<lparr>sm_last_applied := sn_last_log_id meta, sm_membership := sn_last_membership meta\<rparr> in
           case (case payloads of None \<Rightarrow> (w, Inr ())
                 | Some release \<Rightarrow> release_catalog_payloads_pruned_by_snapshot release (rp_state r) decoded w) of
             (w', Inl e) \<Rightarrow> (r, w', Inl (WriteStateMachine e))
           | (w', Inr _) \<Rightarrow>
               (let r = r\<lparr>rp_state := decoded\<rparr> in
                if persisted then (r\<lparr>rp_current := Some \<lparr> ss_meta = meta, ss_data = data \<rparr>\<rparr>, w', Inr ())
                else (r, w', Inl WriteSnapshot))))"

subsection \<open>Contiguous ranges\<close>

text \<open>Where a list of half-open ranges leads when each begins at the end of the one before.\<close>

fun chain :: "nat \<Rightarrow> (nat \<times> nat) list \<Rightarrow> nat option" where
  "chain c [] = Some c"
| "chain c ((a, b) # rs) = (if a = c \<and> a \<le> b then chain b rs else None)"

lemma chain_append: "chain c (xs @ ys) = Option.bind (chain c xs) (\<lambda>d. chain d ys)"
  by (induction c xs rule: chain.induct) auto

lemma chain_mono: "chain c rs = Some d \<Longrightarrow> c \<le> d"
  by (induction c rs rule: chain.induct) (auto split: if_splits)

lemma chain_ends_above: "chain c rs = Some d \<Longrightarrow> t < c \<Longrightarrow> filter (\<lambda>(a, b). t < b) rs = rs"
  by (induction c rs rule: chain.induct) (auto split: if_splits)

text \<open>Forgetting the ranges that end at or below a bound leaves a chain to the same end.\<close>

lemma chain_release:
  assumes "chain c rs = Some d" "c \<le> limit" "t \<le> limit"
  shows "\<exists>c' \<le> limit. chain c' (filter (\<lambda>(a, b). t < b) rs) = Some d"
  using assms
proof (induction c rs rule: chain.induct)
  case (2 c a b rs)
  show ?case
  proof (cases "t < b")
    case True
    have "chain b rs = Some d" using 2 by (auto split: if_splits)
    then have "filter (\<lambda>(a, b). t < b) rs = rs" using True by (rule chain_ends_above)
    then show ?thesis using True 2 by (auto split: if_splits)
  next
    case False
    then show ?thesis using 2 by (auto split: if_splits)
  qed
qed auto

definition wal_range :: "entry_header \<Rightarrow> (nat \<times> nat) option" where
  "wal_range h = (case eh_metadata h of MetaWal start fin \<Rightarrow> Some (start, fin) | _ \<Rightarrow> None)"

definition archive_range :: "entry_header \<Rightarrow> (nat \<times> nat) option" where
  "archive_range h =
     (case eh_metadata h of MetaArchive seg \<Rightarrow> Some (seg_start_lsn seg, seg_end_lsn seg) | _ \<Rightarrow> None)"

definition wal_ranges :: "state_machine \<Rightarrow> (nat \<times> nat) list" where
  "wal_ranges s = filter_map wal_range (bt_vals (sm_committed s))"

definition archive_ranges :: "state_machine \<Rightarrow> (nat \<times> nat) list" where
  "archive_ranges s = filter_map archive_range (bt_vals (sm_committed s))"

subsection \<open>Invariants\<close>

definition index_wf :: "state_machine \<Rightarrow> bool" where
  "index_wf s \<longleftrightarrow>
     sorted_keys (sm_committed s) \<and> sorted_keys (sm_committed_log_ids s) \<and> sorted_keys (sm_repairs s) \<and>
     bt_keys (sm_committed_log_ids s) = bt_keys (sm_committed s) \<and>
     set (bt_keys (sm_repairs s)) \<subseteq> set (bt_keys (sm_committed s)) \<and>
     (\<forall>i \<in> set (bt_keys (sm_committed s)). sm_last_applied s \<noteq> None \<and> i \<le> applied_index s) \<and>
     (\<forall>h \<in> set (bt_vals (sm_committed s)). header_ok h)"

definition wal_wf :: "state_machine \<Rightarrow> bool" where
  "wal_wf s \<longleftrightarrow>
     sm_archive_lsn s \<le> sm_wal_end s \<and>
     (\<not> sm_wal_initialized s \<longrightarrow> \<not> sm_writer_active s \<and> wal_ranges s = [] \<and> archive_ranges s = [] \<and>
        sm_wal_end s = 0) \<and>
     (\<exists>base \<le> sm_archive_lsn s. chain base (wal_ranges s) = Some (sm_wal_end s)) \<and>
     (\<exists>base. chain base (archive_ranges s) = Some (sm_archive_lsn s))"

definition catalog_state_wf :: "state_machine \<Rightarrow> bool" where
  "catalog_state_wf s \<longleftrightarrow> catalog_wf (sm_namespaces s, sm_tables s) \<and> records_wf (sm_records s)"

text \<open>Every header that is still held is the one its request identity is bound to.\<close>

definition retry_wf :: "state_machine \<Rightarrow> bool" where
  "retry_wf s \<longleftrightarrow>
     (\<forall>(i, h) \<in> set (sm_committed s). \<exists>ai. map_of (sm_retries s) (eh_request h) = Some ai \<and>
        ai_index ai = i \<and> ai_group ai = eh_group h \<and> ai_kind ai = eh_kind h \<and>
        ai_hash ai = eh_payload_hash h \<and> ai_writer_epoch ai = eh_writer_epoch h)"

definition sm_wf :: "state_machine \<Rightarrow> bool" where
  "sm_wf s \<longleftrightarrow> index_wf s \<and> wal_wf s \<and> catalog_state_wf s \<and> retry_wf s"

text \<open>
  What OpenRaft guarantees of the entries it hands over: they come in log order. Headers come from
  the builders.
\<close>

definition entry_ok :: "log_entry \<Rightarrow> state_machine \<Rightarrow> bool" where
  "entry_ok e s \<longleftrightarrow>
     (sm_last_applied s \<noteq> None \<longrightarrow> applied_index s < li_index (le_log_id e)) \<and>
     (case le_payload e of Normal (Commit h) \<Rightarrow> header_ok h | _ \<Rightarrow> True)"

inductive sm_step :: "deps \<Rightarrow> state_machine \<Rightarrow> state_machine \<Rightarrow> bool" for D where
  step_apply: "entry_ok e s \<Longrightarrow> sm_step D s (fst (apply_entry D e s))"
| step_compact: "sm_step D s (compact_checkpointed_catalog_history s)"

text \<open>What no step takes back: retry identities, the epoch, both watermarks.\<close>

definition sm_ext :: "state_machine \<Rightarrow> state_machine \<Rightarrow> bool" where
  "sm_ext s t \<longleftrightarrow>
     map_of (sm_retries s) \<subseteq>\<^sub>m map_of (sm_retries t) \<and> sm_writer_epoch s \<le> sm_writer_epoch t \<and>
     sm_wal_end s \<le> sm_wal_end t \<and> sm_archive_lsn s \<le> sm_archive_lsn t \<and>
     (sm_wal_initialized s \<longrightarrow> sm_wal_initialized t) \<and>
     (\<forall>b. sm_wal_archive_bucket s = Some b \<longrightarrow> sm_wal_archive_bucket t = Some b) \<and>
     map_of (sm_warehouses s) \<subseteq>\<^sub>m map_of (sm_warehouses t)"

subsection \<open>How a command changes the state\<close>

lemma apply_metadata_frame:
  "apply_metadata D i h m s = Inr (s1, w, a, c) \<Longrightarrow>
     sm_committed s1 = sm_committed s \<and> sm_committed_log_ids s1 = sm_committed_log_ids s \<and>
     sm_repairs s1 = sm_repairs s \<and> sm_retries s1 = sm_retries s \<and> sm_last_applied s1 = sm_last_applied s \<and>
     sm_writer_epoch s1 = sm_writer_epoch s \<and> sm_writer_active s1 = sm_writer_active s"
  by (induction D i h m s rule: apply_metadata.induct)
    (auto simp: Let_def split: if_splits option.splits sum.splits)

lemma install_writer_frame [simp]:
  "sm_committed (install_writer h s) = sm_committed s"
  "sm_committed_log_ids (install_writer h s) = sm_committed_log_ids s"
  "sm_repairs (install_writer h s) = sm_repairs s" "sm_retries (install_writer h s) = sm_retries s"
  "sm_last_applied (install_writer h s) = sm_last_applied s" "sm_wal_end (install_writer h s) = sm_wal_end s"
  "sm_archive_lsn (install_writer h s) = sm_archive_lsn s"
  "sm_wal_initialized (install_writer h s) = sm_wal_initialized s"
  "sm_wal_archive_bucket (install_writer h s) = sm_wal_archive_bucket s"
  "sm_namespaces (install_writer h s) = sm_namespaces s" "sm_tables (install_writer h s) = sm_tables s"
  "sm_records (install_writer h s) = sm_records s" "sm_warehouses (install_writer h s) = sm_warehouses s"
  "sm_catalog_checkpoint (install_writer h s) = sm_catalog_checkpoint s"
  by (simp_all add: install_writer_def)

lemma apply_commit_cases:
  obtains (refused) "fst (apply_commit D lid h s) = s" "rr_outcome (snd (apply_commit D lid h s)) \<noteq> Committed"
  | (committed) s1 w a c where
      "map_of (sm_retries s) (eh_request h) = None" "epoch_valid (eh_kind h) (eh_writer_epoch h) s"
      "apply_metadata D (li_index lid) h (eh_metadata h) s = Inr (s1, w, a, c)"
      "apply_commit D lid h s =
        (record_commit lid h (if eh_kind h = WriterLease then Some (sm_wal_end s1) else w) a c (install_writer h s1),
         response (li_index lid) (eh_writer_epoch h) Committed
           (if eh_kind h = WriterLease then Some (sm_wal_end s1) else w) a c)"
proof (cases "map_of (sm_retries s) (eh_request h)")
  case (Some previous)
  then show thesis by (intro refused) (auto simp: apply_commit_def retry_response_def response_def Let_def)
next
  case None
  show thesis
  proof (cases "epoch_valid (eh_kind h) (eh_writer_epoch h) s")
    case False
    then show thesis using None by (intro refused) (auto simp: apply_commit_def response_def)
  next
    case True
    show thesis
    proof (cases "apply_metadata D (li_index lid) h (eh_metadata h) s")
      case (Inl r)
      have "rr_outcome r \<noteq> Committed"
        using Inl by (cases "eh_metadata h") (auto simp: response_def Let_def split: if_splits option.splits sum.splits)
      then show thesis using None True Inl by (intro refused) (auto simp: apply_commit_def)
    next
      case (Inr r)
      obtain s1 w a c where "r = (s1, w, a, c)" by (cases r)
      then show thesis using None True Inr by (intro committed [of s1 w a c]) (auto simp: apply_commit_def Let_def)
    qed
  qed
qed

lemma fold_bt_remove: "fold bt_remove ks m = filter (\<lambda>(k, _). k \<notin> set ks) m"
  by (induction ks arbitrary: m) (auto simp: bt_remove_def intro: filter_cong)

text \<open>Dropping the indices of the headers that satisfy a test keeps exactly the others.\<close>

lemma set_filter_map_if:
  "set (filter_map (\<lambda>(k, v). if P k v then Some k else None) m) = {k. \<exists>v. (k, v) \<in> set m \<and> P k v}"
proof (induction m)
  case (Cons x m)
  obtain k v where "x = (k, v)" by (cases x)
  with Cons show ?case by (cases "P k v") auto
qed simp

lemma filter_dropped:
  assumes "sorted_keys m"
  shows "filter (\<lambda>(k, _). k \<notin> set (filter_map (\<lambda>(k, v). if P k v then Some k else None) m)) m
     = filter (\<lambda>(k, v). \<not> P k v) m"
  unfolding set_filter_map_if using sorted_keys_mem [OF assms] by (auto intro!: filter_cong)

definition wal_done :: "nat \<Rightarrow> entry_header \<Rightarrow> bool" where
  "wal_done t h = (case eh_metadata h of MetaWal _ fin \<Rightarrow> fin \<le> t | _ \<Rightarrow> False)"

lemma compact_wal_committed:
  assumes "sorted_keys (sm_committed s)"
  shows "sm_committed (compact_checkpointed_wal_history t s) = filter (\<lambda>(_, h). \<not> wal_done t h) (sm_committed s)"
proof -
  have f: "(\<lambda>(index, header). case eh_metadata header of MetaWal _ fin \<Rightarrow> if fin \<le> t then Some index else None
      | _ \<Rightarrow> None) = (\<lambda>(index, header). if wal_done t header then Some index else None)"
    by (auto simp: wal_done_def fun_eq_iff split: entry_metadata.splits)
  show ?thesis
    unfolding compact_checkpointed_wal_history_def drop_indices_def f
    using filter_dropped [OF assms, of "\<lambda>_. wal_done t"] by (simp add: fold_bt_remove)
qed

definition catalog_done :: "state_machine \<Rightarrow> nat \<Rightarrow> entry_header \<Rightarrow> bool" where
  "catalog_done s i h =
     (case sm_catalog_checkpoint s of
        None \<Rightarrow> False
      | Some (applied, _) \<Rightarrow> i \<le> applied \<and> eh_kind h = command_kind.Catalog)"

lemma filter_map_filter: "filter_map f (filter P xs) = filter_map (\<lambda>x. if P x then f x else None) xs"
  by (induction xs) (auto split: option.splits)

lemma compact_catalog_committed:
  assumes "sorted_keys (sm_committed s)"
  shows "sm_committed (compact_checkpointed_catalog_history s)
     = filter (\<lambda>(i, h). \<not> catalog_done s i h) (sm_committed s)"
proof (cases "sm_catalog_checkpoint s")
  case None
  then show ?thesis by (simp add: compact_checkpointed_catalog_history_def catalog_done_def case_prod_beta)
next
  case (Some cp)
  obtain applied nm where cp: "cp = (applied, nm)" by (cases cp)
  have "filter_map (\<lambda>(index, header). if eh_kind header = command_kind.Catalog then Some index else None)
      (bt_upto applied (sm_committed s)) =
      filter_map (\<lambda>(index, header). if catalog_done s index header then Some index else None) (sm_committed s)"
    unfolding bt_upto_def filter_map_filter using Some cp
    by (intro arg_cong [where f = "\<lambda>f. filter_map f (sm_committed s)"]) (auto simp: catalog_done_def fun_eq_iff)
  then show ?thesis
    using Some cp filter_dropped [OF assms, of "catalog_done s"]
    by (simp add: compact_checkpointed_catalog_history_def drop_indices_def fold_bt_remove)
qed

subsection \<open>Preservation\<close>

abbreviation touch :: "log_id \<Rightarrow> state_machine \<Rightarrow> state_machine" where
  "touch lid s \<equiv> s\<lparr>sm_last_applied := Some lid\<rparr>"

lemma bt_keys_filter: "bt_keys (filter (\<lambda>(k, _). P k) m) = filter P (bt_keys m)"
  by (induction m) (auto simp: bt_keys_def)

lemma drop_indices_frame [simp]:
  "sm_last_applied (drop_indices ks s) = sm_last_applied s" "sm_retries (drop_indices ks s) = sm_retries s"
  "sm_wal_end (drop_indices ks s) = sm_wal_end s" "sm_archive_lsn (drop_indices ks s) = sm_archive_lsn s"
  "sm_wal_initialized (drop_indices ks s) = sm_wal_initialized s"
  "sm_writer_active (drop_indices ks s) = sm_writer_active s"
  "sm_writer_epoch (drop_indices ks s) = sm_writer_epoch s" "sm_namespaces (drop_indices ks s) = sm_namespaces s"
  "sm_tables (drop_indices ks s) = sm_tables s" "sm_records (drop_indices ks s) = sm_records s"
  "sm_warehouses (drop_indices ks s) = sm_warehouses s"
  "sm_wal_archive_bucket (drop_indices ks s) = sm_wal_archive_bucket s"
  "sm_catalog_checkpoint (drop_indices ks s) = sm_catalog_checkpoint s"
  by (simp_all add: drop_indices_def)

lemma drop_indices_index_wf: "index_wf s \<Longrightarrow> index_wf (drop_indices ks s)"
  by (auto simp: index_wf_def drop_indices_def fold_bt_remove bt_keys_filter sorted_keys_filter applied_index_def
      bt_vals_def)

lemma drop_indices_retry_wf: "retry_wf s \<Longrightarrow> retry_wf (drop_indices ks s)"
  by (auto simp: retry_wf_def drop_indices_def fold_bt_remove)

lemma touch_wf:
  assumes "sm_wf s" "entry_ok e s"
  shows "sm_wf (touch (le_log_id e) s)"
    and "\<forall>i \<in> set (bt_keys (sm_committed s)). i < li_index (le_log_id e)"
  using assms
  by (auto simp: sm_wf_def index_wf_def wal_wf_def catalog_state_wf_def retry_wf_def wal_ranges_def
      archive_ranges_def entry_ok_def applied_index_def)

text \<open>A commit appends its header to the history in index order.\<close>

lemma record_commit_committed:
  assumes "\<forall>i \<in> set (bt_keys (sm_committed s)). i < li_index lid"
  shows "sm_committed (record_commit lid h w a c s) = sm_committed s @ [(li_index lid, h)]"
  using assms by (simp add: record_commit_def bt_insert_last bt_keys_def)

lemma record_commit_log_ids:
  assumes "\<forall>i \<in> set (bt_keys (sm_committed_log_ids s)). i < li_index lid"
  shows "sm_committed_log_ids (record_commit lid h w a c s) = sm_committed_log_ids s @ [(li_index lid, lid)]"
  using assms by (simp add: record_commit_def bt_insert_last bt_keys_def)

lemma record_commit_frame [simp]:
  "sm_last_applied (record_commit lid h w a c s) = sm_last_applied s"
  "sm_repairs (record_commit lid h w a c s) = sm_repairs s"
  "sm_wal_end (record_commit lid h w a c s) = sm_wal_end s"
  "sm_archive_lsn (record_commit lid h w a c s) = sm_archive_lsn s"
  "sm_wal_initialized (record_commit lid h w a c s) = sm_wal_initialized s"
  "sm_writer_active (record_commit lid h w a c s) = sm_writer_active s"
  "sm_writer_epoch (record_commit lid h w a c s) = sm_writer_epoch s"
  "sm_namespaces (record_commit lid h w a c s) = sm_namespaces s"
  "sm_tables (record_commit lid h w a c s) = sm_tables s" "sm_records (record_commit lid h w a c s) = sm_records s"
  "sm_warehouses (record_commit lid h w a c s) = sm_warehouses s"
  "sm_wal_archive_bucket (record_commit lid h w a c s) = sm_wal_archive_bucket s"
  by (simp_all add: record_commit_def)

lemma commit_index_wf:
  assumes wf: "index_wf s" and new: "\<forall>i \<in> set (bt_keys (sm_committed s)). i < li_index lid"
    and last: "sm_last_applied s = Some lid" and h: "header_ok h"
    and frame: "sm_committed s' = sm_committed s" "sm_committed_log_ids s' = sm_committed_log_ids s"
      "sm_repairs s' = sm_repairs s" "sm_last_applied s' = sm_last_applied s"
  shows "index_wf (record_commit lid h w a c s')"
proof -
  have keys: "bt_keys (sm_committed_log_ids s) = bt_keys (sm_committed s)" using wf by (simp add: index_wf_def)
  have "sm_committed (record_commit lid h w a c s') = sm_committed s @ [(li_index lid, h)]"
    using record_commit_committed [of s' lid h w a c] new frame by simp
  moreover have "sm_committed_log_ids (record_commit lid h w a c s') = sm_committed_log_ids s @ [(li_index lid, lid)]"
    using record_commit_log_ids [of s' lid h w a c] new frame keys by simp
  ultimately show ?thesis
    using wf new last h frame keys
    by (auto simp: index_wf_def sorted_keys_def sorted_wrt_append bt_keys_def bt_vals_def applied_index_def)
qed

lemma commit_retry_wf:
  assumes wf: "retry_wf s" and new: "\<forall>i \<in> set (bt_keys (sm_committed s)). i < li_index lid"
    and fresh: "map_of (sm_retries s) (eh_request h) = None"
    and frame: "sm_committed s' = sm_committed s" "sm_retries s' = sm_retries s"
  shows "retry_wf (record_commit lid h w a c s')"
proof -
  have "sm_committed (record_commit lid h w a c s') = sm_committed s @ [(li_index lid, h)]"
    using record_commit_committed [of s' lid h w a c] new frame by simp
  moreover have "eh_request h' \<noteq> eh_request h" if "(i, h') \<in> set (sm_committed s)" for i h'
    using wf that fresh by (auto simp: retry_wf_def)
  ultimately show ?thesis
    using wf frame by (auto simp: retry_wf_def record_commit_def)
qed

lemma commit_catalog_wf:
  assumes "catalog_state_wf s" "apply_metadata D i h m s = Inr (s1, w, a, c)"
  shows "catalog_state_wf s1"
proof (cases m)
  case (MetaCatalog batch)
  then obtain ns ts rs where r: "apply_batch batch (sm_namespaces s, sm_tables s) = Inr (ns, ts)"
      "apply_records batch (sm_records s) = Inr rs"
      "s1 = s\<lparr>sm_namespaces := ns, sm_tables := ts, sm_records := rs\<rparr>"
    using assms(2) by (auto split: sum.splits)
  have "catalog_wf (ns, ts)" using r(1) assms(1)
    by (auto simp: catalog_state_wf_def apply_batch_def split: if_splits
        intro: try_fold_inv [of _ catalog_wf apply_action] apply_action_wf)
  moreover have "records_wf rs" using r(2) assms(1)
    by (auto simp: catalog_state_wf_def apply_records_def split: if_splits
        intro: try_fold_inv [of _ records_wf apply_record_action] apply_record_action_wf)
  ultimately show ?thesis using r(3) by (simp add: catalog_state_wf_def)
qed (use assms in \<open>auto simp: catalog_state_wf_def Let_def split: if_splits option.splits\<close>)

lemma commit_ranges:
  assumes "\<forall>i \<in> set (bt_keys (sm_committed s)). i < li_index lid" "sm_committed s' = sm_committed s"
  shows "wal_ranges (record_commit lid h w a c s') = wal_ranges s @ (case wal_range h of None \<Rightarrow> [] | Some r \<Rightarrow> [r])"
    and "archive_ranges (record_commit lid h w a c s') =
       archive_ranges s @ (case archive_range h of None \<Rightarrow> [] | Some r \<Rightarrow> [r])"
  using record_commit_committed [of s' lid h w a c] assms
  by (simp_all add: wal_ranges_def archive_ranges_def bt_vals_def split: option.splits)

lemma wal_wf_quiet:
  assumes "wal_wf s" "wal_ranges t = wal_ranges s" "archive_ranges t = archive_ranges s"
    and "sm_wal_end t = sm_wal_end s" "sm_archive_lsn t = sm_archive_lsn s"
    and "sm_wal_initialized t = sm_wal_initialized s" "sm_writer_active t \<longrightarrow> sm_wal_initialized s"
  shows "wal_wf t"
  using assms by (auto simp: wal_wf_def)

lemma metadata_quiet:
  assumes "apply_metadata D i h m s = Inr (s1, w, a, c)"
    and "\<forall>x. m \<noteq> MetaWalStart x" "\<forall>x y. m \<noteq> MetaWal x y" "\<forall>x. m \<noteq> MetaArchive x"
  shows "sm_wal_end s1 = sm_wal_end s \<and> sm_archive_lsn s1 = sm_archive_lsn s \<and>
     sm_wal_initialized s1 = sm_wal_initialized s"
  using assms by (cases m) (auto split: if_splits option.splits sum.splits)

lemma commit_wal_wf:
  assumes wf: "wal_wf s" and new: "\<forall>i \<in> set (bt_keys (sm_committed s)). i < li_index lid" and h: "header_ok h"
    and epoch: "epoch_valid (eh_kind h) (eh_writer_epoch h) s"
    and meta: "apply_metadata D (li_index lid) h (eh_metadata h) s = Inr (s1, w, a, c)"
  shows "wal_wf (record_commit lid h w' a' c' (install_writer h s1))"
proof -
  have "sm_committed (install_writer h s1) = sm_committed s" using apply_metadata_frame [OF meta] by simp
  note ranges = commit_ranges [OF new this]
  have active: "sm_wal_initialized s" if "sm_writer_active (install_writer h s1)"
    using that wf epoch apply_metadata_frame [OF meta]
    by (cases "eh_kind h") (auto simp: install_writer_def wal_wf_def)
  obtain base base' where chains: "base \<le> sm_archive_lsn s" "chain base (wal_ranges s) = Some (sm_wal_end s)"
      "chain base' (archive_ranges s) = Some (sm_archive_lsn s)"
    using wf by (auto simp: wal_wf_def)
  show ?thesis
  proof (cases "eh_metadata h")
    case (MetaWalStart start)
    then have r: "wal_range h = None" "archive_range h = None" by (simp_all add: wal_range_def archive_range_def)
    show ?thesis
    proof (cases "sm_wal_initialized s")
      case True
      then show ?thesis
        using meta MetaWalStart wf by (auto simp: wal_wf_def ranges r split: if_splits)
    next
      case False
      then have "wal_ranges s = []" "archive_ranges s = []" using wf by (simp_all add: wal_wf_def)
      then show ?thesis using False meta MetaWalStart by (auto simp: wal_wf_def ranges r Let_def)
    qed
  next
    case (MetaWal start fin)
    then have r: "wal_range h = Some (start, fin)" "archive_range h = None"
      by (simp_all add: wal_range_def archive_range_def)
    have "sm_wal_initialized s" using MetaWal h epoch wf by (auto simp: header_ok_def wal_wf_def)
    then show ?thesis
      using meta MetaWal wf h chains
      by (auto simp: wal_wf_def ranges r chain_append header_ok_def split: if_splits)
  next
    case (MetaArchive seg)
    then have r: "wal_range h = None" "archive_range h = Some (seg_start_lsn seg, seg_end_lsn seg)"
      by (simp_all add: wal_range_def archive_range_def)
    have seg: "seg_start_lsn seg = sm_archive_lsn s" "seg_end_lsn seg \<le> sm_wal_end s"
        "seg_start_lsn seg < seg_end_lsn seg" "sm_archive_lsn s1 = seg_end_lsn seg" "sm_wal_end s1 = sm_wal_end s"
        "sm_wal_initialized s1 = sm_wal_initialized s"
      using meta MetaArchive h by (auto simp: header_ok_def split: if_splits)
    then have "sm_wal_initialized s" using wf by (auto simp: wal_wf_def)
    moreover have "\<exists>b \<le> seg_end_lsn seg. chain b (wal_ranges s) = Some (sm_wal_end s)"
      using chains(1,2) seg(1,3) by (intro exI [of _ base]) simp
    moreover have "\<exists>b. chain b (archive_ranges s @ [(seg_start_lsn seg, seg_end_lsn seg)]) = Some (seg_end_lsn seg)"
      using chains(3) seg(1,3) by (intro exI [of _ base']) (simp add: chain_append)
    ultimately show ?thesis using seg by (simp add: wal_wf_def ranges r)
  qed (rule wal_wf_quiet [OF wf]; use metadata_quiet [OF meta] active in
        \<open>simp add: ranges wal_range_def archive_range_def\<close>)+
qed

lemma apply_entry_cases:
  obtains (same) "fst (apply_entry D e s) = touch (le_log_id e) s"
  | (member) m where "fst (apply_entry D e s) = (touch (le_log_id e) s)\<lparr>sm_membership := m\<rparr>"
  | (commit) h where "le_payload e = Normal (Commit h)"
      "fst (apply_entry D e s) = fst (apply_commit D (le_log_id e) h (touch (le_log_id e) s))"
  | (repair) index alloc where "index \<in> set (bt_keys (sm_committed s))"
      "fst (apply_entry D e s) = (touch (le_log_id e) s)\<lparr>sm_repairs := bt_insert index alloc (sm_repairs s)\<rparr>"
  | (release) t where "t \<le> sm_archive_lsn s"
      "fst (apply_entry D e s) = compact_checkpointed_wal_history t (touch (le_log_id e) s)"
proof (cases "le_payload e")
  case Blank
  then show thesis by (intro same) (simp add: apply_entry_def Let_def)
next
  case (Membership v)
  then show thesis by (intro member) (simp add: apply_entry_def Let_def)
next
  case (Normal cmd)
  show thesis
  proof (cases cmd)
    case (Commit h)
    then show thesis using Normal by (intro commit) (simp_all add: apply_entry_def Let_def case_prod_beta)
  next
    case (Repair index generation certificate)
    show thesis
    proof (cases "apply_repair (le_log_id e) index generation certificate (touch (le_log_id e) s)")
      case (Inl x)
      then show thesis using Normal Repair by (intro same) (simp add: apply_entry_def Let_def)
    next
      case (Inr x)
      then obtain h alloc where "map_of (sm_committed s) index = Some h"
        "fst x = (touch (le_log_id e) s)\<lparr>sm_repairs := bt_insert index alloc (sm_repairs s)\<rparr>"
        by (auto simp: apply_repair_def split: if_splits)
      moreover from this have "index \<in> set (bt_keys (sm_committed s))"
        unfolding bt_keys_def by (metis domI dom_map_of_conv_image_fst set_map)
      ultimately show thesis
        using Normal Repair Inr by (intro repair) (simp_all add: apply_entry_def Let_def case_prod_beta)
    qed
  next
    case (ReleaseWal t)
    then show thesis
      using Normal by (cases "t \<le> sm_archive_lsn s")
        (auto simp: apply_entry_def Let_def apply_release_wal_def intro: same release)
  qed
qed

lemma wal_wf_compact_wal:
  assumes wf: "wal_wf s" "sorted_keys (sm_committed s)" and t: "t \<le> sm_archive_lsn s"
  shows "wal_wf (compact_checkpointed_wal_history t s)"
proof -
  have w: "filter_map wal_range (map snd (filter (\<lambda>(_, h). \<not> wal_done t h) m)) =
      filter (\<lambda>(a, b). t < b) (filter_map wal_range (map snd m))" for m :: "(nat, entry_header) btree"
    by (induction m) (auto simp: wal_done_def wal_range_def split: entry_metadata.splits option.splits)
  have a: "filter_map archive_range (map snd (filter (\<lambda>(_, h). \<not> wal_done t h) m)) =
      filter_map archive_range (map snd m)" for m :: "(nat, entry_header) btree"
    by (induction m) (auto simp: wal_done_def archive_range_def split: entry_metadata.splits option.splits)
  have ranges: "wal_ranges (compact_checkpointed_wal_history t s) = filter (\<lambda>(a, b). t < b) (wal_ranges s)"
      "archive_ranges (compact_checkpointed_wal_history t s) = archive_ranges s"
    unfolding wal_ranges_def archive_ranges_def bt_vals_def compact_wal_committed [OF wf(2)] w a by simp_all
  obtain base where "chain base (wal_ranges s) = Some (sm_wal_end s)" "base \<le> sm_archive_lsn s"
    using wf(1) by (auto simp: wal_wf_def)
  from chain_release [OF this t]
  have "\<exists>b \<le> sm_archive_lsn s. chain b (filter (\<lambda>(a, b). t < b) (wal_ranges s)) = Some (sm_wal_end s)" .
  then show ?thesis
    using wf(1) unfolding wal_wf_def ranges by (auto simp: compact_checkpointed_wal_history_def)
qed

lemma wal_wf_compact_catalog:
  assumes wf: "wal_wf s" "index_wf s"
  shows "wal_wf (compact_checkpointed_catalog_history s)"
proof -
  have sorted: "sorted_keys (sm_committed s)" and ok: "\<forall>(i, h) \<in> set (sm_committed s). header_ok h"
    using wf(2) by (auto simp: index_wf_def bt_vals_def)
  have r: "filter_map wal_range (map snd (filter (\<lambda>(i, h). \<not> catalog_done s i h) m)) = filter_map wal_range (map snd m)"
      "filter_map archive_range (map snd (filter (\<lambda>(i, h). \<not> catalog_done s i h) m)) = filter_map archive_range (map snd m)"
    if "\<forall>(i, h) \<in> set m. header_ok h" for m :: "(nat, entry_header) btree"
    using that
    by (induction m) (auto simp: catalog_done_def wal_range_def archive_range_def header_ok_def
        split: entry_metadata.splits option.splits)
  have "wal_ranges (compact_checkpointed_catalog_history s) = wal_ranges s"
      "archive_ranges (compact_checkpointed_catalog_history s) = archive_ranges s"
    unfolding wal_ranges_def archive_ranges_def bt_vals_def compact_catalog_committed [OF sorted] r [OF ok] by simp_all
  then show ?thesis
    using wf(1) by (intro wal_wf_quiet [OF wf(1)])
      (auto simp: compact_checkpointed_catalog_history_def wal_wf_def split: option.splits)
qed

lemma commit_sm_wf:
  assumes wf: "sm_wf s" and new: "\<forall>i \<in> set (bt_keys (sm_committed s)). i < li_index lid"
    and last: "sm_last_applied s = Some lid" and h: "header_ok h"
  shows "sm_wf (fst (apply_commit D lid h s))"
proof (rule apply_commit_cases [of D lid h s])
  fix s1 w a c
  assume fresh: "map_of (sm_retries s) (eh_request h) = None"
    and epoch: "epoch_valid (eh_kind h) (eh_writer_epoch h) s"
    and meta: "apply_metadata D (li_index lid) h (eh_metadata h) s = Inr (s1, w, a, c)"
    and result: "apply_commit D lid h s =
        (record_commit lid h (if eh_kind h = WriterLease then Some (sm_wal_end s1) else w) a c (install_writer h s1),
         response (li_index lid) (eh_writer_epoch h) Committed
           (if eh_kind h = WriterLease then Some (sm_wal_end s1) else w) a c)"
  note frame = apply_metadata_frame [OF meta]
  have parts: "index_wf s" "wal_wf s" "catalog_state_wf s" "retry_wf s" using wf by (simp_all add: sm_wf_def)
  have "catalog_state_wf s1" by (rule commit_catalog_wf [OF parts(3) meta])
  then show ?thesis
    unfolding result fst_conv sm_wf_def
    using commit_index_wf [OF parts(1) new last h, of "install_writer h s1"]
      commit_wal_wf [OF parts(2) new h epoch meta] commit_retry_wf [OF parts(4) new fresh, of "install_writer h s1"] frame
    by (simp add: catalog_state_wf_def)
qed (use wf in simp)

lemma compact_wal_sm_wf:
  "sm_wf s \<Longrightarrow> t \<le> sm_archive_lsn s \<Longrightarrow> sm_wf (compact_checkpointed_wal_history t s)"
  using wal_wf_compact_wal [of s t] drop_indices_index_wf [of s] drop_indices_retry_wf [of s]
  by (simp add: sm_wf_def index_wf_def [of s] compact_checkpointed_wal_history_def catalog_state_wf_def)

lemma compact_catalog_sm_wf: "sm_wf s \<Longrightarrow> sm_wf (compact_checkpointed_catalog_history s)"
  using wal_wf_compact_catalog [of s] drop_indices_index_wf [of s] drop_indices_retry_wf [of s]
  by (auto simp: sm_wf_def compact_checkpointed_catalog_history_def catalog_state_wf_def split: option.splits)

lemma apply_entry_wf:
  assumes "sm_wf s" "entry_ok e s"
  shows "sm_wf (fst (apply_entry D e s))"
proof (rule apply_entry_cases [of D e s])
  note t = touch_wf [OF assms]
  show "sm_wf (fst (apply_entry D e s))" if "fst (apply_entry D e s) = touch (le_log_id e) s"
    using that t(1) by simp
  show "sm_wf (fst (apply_entry D e s))" if "fst (apply_entry D e s) = (touch (le_log_id e) s)\<lparr>sm_membership := m\<rparr>" for m
    using that t(1) by (simp add: sm_wf_def index_wf_def wal_wf_def catalog_state_wf_def retry_wf_def wal_ranges_def
        archive_ranges_def applied_index_def)
  show "sm_wf (fst (apply_entry D e s))" if "le_payload e = Normal (Commit h)"
      "fst (apply_entry D e s) = fst (apply_commit D (le_log_id e) h (touch (le_log_id e) s))" for h
    using commit_sm_wf [OF t(1), of "le_log_id e" h D] t(2) assms(2) that by (simp add: entry_ok_def)
  show "sm_wf (fst (apply_entry D e s))" if "index \<in> set (bt_keys (sm_committed s))"
      "fst (apply_entry D e s) = (touch (le_log_id e) s)\<lparr>sm_repairs := bt_insert index alloc (sm_repairs s)\<rparr>" for index alloc
    using t(1) that set_bt_insert [of index alloc "sm_repairs s"]
    by (auto simp: sm_wf_def index_wf_def wal_wf_def catalog_state_wf_def retry_wf_def wal_ranges_def
        archive_ranges_def applied_index_def bt_keys_def)
  show "sm_wf (fst (apply_entry D e s))" if "t' \<le> sm_archive_lsn s"
      "fst (apply_entry D e s) = compact_checkpointed_wal_history t' (touch (le_log_id e) s)" for t'
    using that compact_wal_sm_wf [OF t(1), of t'] by simp
qed

lemma metadata_ext:
  assumes "wal_wf s" "header_ok h" "apply_metadata D i h (eh_metadata h) s = Inr (s1, w, a, c)"
  shows "sm_wal_end s \<le> sm_wal_end s1 \<and> sm_archive_lsn s \<le> sm_archive_lsn s1 \<and>
     (sm_wal_initialized s \<longrightarrow> sm_wal_initialized s1) \<and>
     (\<forall>b. sm_wal_archive_bucket s = Some b \<longrightarrow> sm_wal_archive_bucket s1 = Some b) \<and>
     map_of (sm_warehouses s) \<subseteq>\<^sub>m map_of (sm_warehouses s1)"
  using assms
  by (cases "eh_metadata h")
    (auto simp: wal_wf_def header_ok_def Let_def map_le_def split: if_splits option.splits sum.splits)

lemma commit_sm_ext:
  assumes wf: "wal_wf s" and h: "header_ok h"
  shows "sm_ext s (fst (apply_commit D lid h s))"
proof (rule apply_commit_cases [of D lid h s])
  fix s1 w a c
  assume fresh: "map_of (sm_retries s) (eh_request h) = None"
    and epoch: "epoch_valid (eh_kind h) (eh_writer_epoch h) s"
    and meta: "apply_metadata D (li_index lid) h (eh_metadata h) s = Inr (s1, w, a, c)"
    and result: "apply_commit D lid h s =
        (record_commit lid h (if eh_kind h = WriterLease then Some (sm_wal_end s1) else w) a c (install_writer h s1),
         response (li_index lid) (eh_writer_epoch h) Committed
           (if eh_kind h = WriterLease then Some (sm_wal_end s1) else w) a c)"
  note frame = apply_metadata_frame [OF meta]
  have "sm_writer_epoch s \<le> sm_writer_epoch (install_writer h s1)"
    using frame epoch by (auto simp: install_writer_def)
  moreover have "map_of (sm_retries s) \<subseteq>\<^sub>m (map_of (sm_retries s1))(eh_request h \<mapsto> x)" for x
    using fresh frame by (auto simp: map_le_def)
  ultimately show ?thesis
    unfolding result fst_conv sm_ext_def using metadata_ext [OF wf h meta]
    by (simp add: record_commit_def)
qed (simp add: sm_ext_def)

lemma apply_entry_ext:
  assumes "sm_wf s" "entry_ok e s"
  shows "sm_ext s (fst (apply_entry D e s))"
proof (rule apply_entry_cases [of D e s])
  show "sm_ext s (fst (apply_entry D e s))" if "le_payload e = Normal (Commit h)"
      "fst (apply_entry D e s) = fst (apply_commit D (le_log_id e) h (touch (le_log_id e) s))" for h
    using commit_sm_ext [of "touch (le_log_id e) s" h D "le_log_id e"] touch_wf(1) [OF assms] assms(2) that
    by (simp add: entry_ok_def sm_wf_def sm_ext_def)
qed (auto simp: sm_ext_def compact_checkpointed_wal_history_def)

definition sm_start :: "state_machine \<Rightarrow> bool" where
  "sm_start s \<longleftrightarrow> s = sm_default"

lemma sm_default_wf: "sm_wf sm_default"
  by (simp add: sm_default_def sm_wf_def index_wf_def wal_wf_def catalog_state_wf_def retry_wf_def wal_ranges_def
      archive_ranges_def bt_keys_def bt_vals_def catalog_wf_def records_wf_def)

interpretation sm: step_system sm_start "sm_step D" sm_wf sm_ext for D
proof unfold_locales
  show "sm_start s \<Longrightarrow> sm_wf s" for s by (simp add: sm_start_def sm_default_wf)
  show "sm_wf s \<Longrightarrow> sm_step D s t \<Longrightarrow> sm_wf t" for s t
    by (auto elim!: sm_step.cases intro: apply_entry_wf compact_catalog_sm_wf)
  show "sm_wf s \<Longrightarrow> sm_step D s t \<Longrightarrow> sm_ext s t" for s t
    by (auto elim!: sm_step.cases intro: apply_entry_ext)
      (auto simp: sm_ext_def compact_checkpointed_catalog_history_def split: option.splits)
  show "sm_ext s s" for s by (simp add: sm_ext_def)
  show "sm_ext s t \<Longrightarrow> sm_ext t u \<Longrightarrow> sm_ext s u" for s t u
    unfolding sm_ext_def by (auto intro: map_le_trans)
qed

end
