(* ===== verification/State_Properties.thy ===== *)
theory State_Properties
  imports State_Machine
begin

section \<open>Properties of the replicated state machine\<close>

text \<open>
  What the applied state of \<open>crates/verglas-consensus/src/raft_store.rs\<close> promises along any
  sequence of applied log entries and local compactions: the write-ahead log ranges and the archive
  segments stay contiguous, a request identity takes effect once, an older writer epoch stays fenced,
  a refused command changes nothing, and compaction and snapshots are invisible to later commands.
  The last section shows the one command that can observe compaction.
\<close>

subsection \<open>Log ranges and archive segments\<close>

text \<open>C3: The unarchived tail is never lost. In every reachable state the archive watermark is at most
  the WAL end, and the WAL ranges of the headers still held form one gapless chain that starts at or
  below the archive watermark and ends exactly at the WAL end, whatever was released or compacted.\<close>

theorem wal_tail_contiguous:
  assumes "(sm_step D)\<^sup>*\<^sup>* sm_default s"
  shows "sm_archive_lsn s \<le> sm_wal_end s \<and>
     (\<exists>base \<le> sm_archive_lsn s. chain base (wal_ranges s) = Some (sm_wal_end s))"
  using sm.reach_inv [OF _ assms] by (simp add: sm_start_def sm_wf_def wal_wf_def)

lemma collect_segments_chain:
  assumes "chain c (filter_map archive_range hs) = Some d" "cursor = None \<or> cursor = Some c"
  shows "\<exists>segs. collect_segments cursor hs = Inr (if segs = [] then cursor else Some d, segs) \<and>
     filter_map archive_range hs = map (\<lambda>seg. (seg_start_lsn seg, seg_end_lsn seg)) segs"
  using assms
proof (induction hs arbitrary: c cursor)
  case (Cons h hs)
  show ?case
  proof (cases "archive_range h")
    case None
    then have "collect_segments cursor (h # hs) = collect_segments cursor hs"
      by (auto simp: archive_range_def split: entry_metadata.splits)
    then show ?thesis using Cons None by simp
  next
    case (Some r)
    then obtain seg where seg: "eh_metadata h = MetaArchive seg" "r = (seg_start_lsn seg, seg_end_lsn seg)"
      by (auto simp: archive_range_def split: entry_metadata.splits)
    then have step: "seg_start_lsn seg = c" "chain (seg_end_lsn seg) (filter_map archive_range hs) = Some d"
      using Cons.prems(1) Some by (auto split: if_splits)
    obtain segs where segs: "collect_segments (Some (seg_end_lsn seg)) hs =
        Inr (if segs = [] then Some (seg_end_lsn seg) else Some d, segs)"
        "filter_map archive_range hs = map (\<lambda>seg. (seg_start_lsn seg, seg_end_lsn seg)) segs"
      using Cons.IH [OF step(2), of "Some (seg_end_lsn seg)"] by auto
    have "seg_end_lsn seg = d" if "segs = []" using step(2) segs(2) that by simp
    then show ?thesis
      using segs seg Some step(1) Cons.prems(2) by (intro exI [of _ "seg # segs"]) auto
  qed
qed simp

text \<open>C19: The archive listing never fails on its own watermark. In every reachable state
  \<open>archived_wal_segments\<close> at the current watermark succeeds, and the segments it returns are
  contiguous and end exactly at the watermark.\<close>

theorem archived_segments_total:
  assumes "(sm_step D)\<^sup>*\<^sup>* sm_default s"
  shows "\<exists>segs base. archived_wal_segments (sm_archive_lsn s) s = Inr segs \<and>
     chain base (map (\<lambda>seg. (seg_start_lsn seg, seg_end_lsn seg)) segs) = Some (sm_archive_lsn s)"
proof -
  obtain base where base: "chain base (filter_map archive_range (bt_vals (sm_committed s))) = Some (sm_archive_lsn s)"
    using sm.reach_inv [OF _ assms] by (auto simp: sm_start_def sm_wf_def wal_wf_def archive_ranges_def)
  obtain segs where segs: "collect_segments None (bt_vals (sm_committed s)) =
      Inr (if segs = [] then None else Some (sm_archive_lsn s), segs)"
      "filter_map archive_range (bt_vals (sm_committed s)) = map (\<lambda>seg. (seg_start_lsn seg, seg_end_lsn seg)) segs"
    using collect_segments_chain [OF base, of None] by auto
  show ?thesis
    using segs base by (intro exI [of _ segs] exI [of _ base]) (simp add: archived_wal_segments_def)
qed

subsection \<open>Retries and fencing\<close>

lemma apply_entry_commit:
  assumes "le_payload e = Normal (Commit h)"
  shows "apply_entry D e s =
     (fst (apply_commit D (le_log_id e) h (touch (le_log_id e) s)),
      Inr (snd (apply_commit D (le_log_id e) h (touch (le_log_id e) s))))"
  using assms by (simp add: apply_entry_def Let_def case_prod_beta)

lemma committed_identity:
  assumes "le_payload e = Normal (Commit h)" "apply_entry D e s = (s', Inr r)" "rr_outcome r = Committed"
  shows "map_of (sm_retries s') (eh_request h) =
       Some \<lparr> ai_index = rr_index r, ai_group = eh_group h, ai_kind = eh_kind h, ai_hash = eh_payload_hash h,
              ai_writer_epoch = rr_writer_epoch r, ai_wal_end = rr_wal_end r, ai_archive_lsn = rr_archive_lsn r,
              ai_catalog_changed = rr_catalog_changed r \<rparr>"
    and "rr_writer_epoch r = eh_writer_epoch h" "rr_index r = li_index (le_log_id e)"
    and "epoch_valid (eh_kind h) (eh_writer_epoch h) s"
    and "eh_kind h = WriterLease \<Longrightarrow> sm_writer_epoch s' = sm_writer_epoch s + 1"
proof -
  let ?t = "touch (le_log_id e) s"
  have r: "s' = fst (apply_commit D (le_log_id e) h ?t)" "r = snd (apply_commit D (le_log_id e) h ?t)"
    using assms(2) by (simp_all add: apply_entry_commit [OF assms(1)])
  have valid: "epoch_valid (eh_kind h) (eh_writer_epoch h) ?t \<longleftrightarrow> epoch_valid (eh_kind h) (eh_writer_epoch h) s"
    by (cases "eh_kind h") simp_all
  obtain s1 w a c where c: "epoch_valid (eh_kind h) (eh_writer_epoch h) s"
      "apply_commit D (le_log_id e) h ?t =
        (record_commit (le_log_id e) h w a c (install_writer h s1),
         response (li_index (le_log_id e)) (eh_writer_epoch h) Committed w a c)"
    using apply_commit_cases [of D "le_log_id e" h ?t] assms(3) r(2) valid by metis
  then show "map_of (sm_retries s') (eh_request h) =
       Some \<lparr> ai_index = rr_index r, ai_group = eh_group h, ai_kind = eh_kind h, ai_hash = eh_payload_hash h,
              ai_writer_epoch = rr_writer_epoch r, ai_wal_end = rr_wal_end r, ai_archive_lsn = rr_archive_lsn r,
              ai_catalog_changed = rr_catalog_changed r \<rparr>"
    and "rr_writer_epoch r = eh_writer_epoch h" "rr_index r = li_index (le_log_id e)"
    using r by (simp_all add: record_commit_def response_def)
  show "epoch_valid (eh_kind h) (eh_writer_epoch h) s" by (rule c(1))
  show "sm_writer_epoch s' = sm_writer_epoch s + 1" if "eh_kind h = WriterLease"
    using c that r(1) by (simp add: install_writer_def)
qed


text \<open>C18: Fencing of a superseded writer. Once a writer lease has committed, its epoch is one more than
  before, and in every later state a new WAL append or writer release that carries an older epoch is
  refused as stale and changes nothing but the applied position.\<close>

theorem superseded_writer_fenced:
  assumes "(sm_step D)\<^sup>*\<^sup>* sm_default s" "entry_ok e s" "le_payload e = Normal (Commit h)" "eh_kind h = WriterLease"
    and "apply_entry D e s = (s', Inr r)" "rr_outcome r = Committed" "(sm_step D)\<^sup>*\<^sup>* s' t"
    and "le_payload e' = Normal (Commit h')" "eh_kind h' = Wal \<or> eh_kind h' = ReleaseWriter"
    and "eh_writer_epoch h' = Some old" "old \<le> sm_writer_epoch s" "map_of (sm_retries t) (eh_request h') = None"
  shows "eh_writer_epoch h = Some (sm_writer_epoch s + 1) \<and>
     apply_entry D e' t =
       (touch (le_log_id e') t,
        Inr (response (li_index (le_log_id e')) (Some (sm_writer_epoch t)) OutStaleWriterEpoch None None False))"
proof -
  have "sm_wf s" using sm.reach_inv [OF _ assms(1)] by (simp add: sm_start_def)
  then have "sm_wf s'" using apply_entry_wf [OF _ assms(2), of D] assms(5) by simp
  then have "sm_ext s' t" by (rule sm.run_ext [OF assms(7)])
  note c = committed_identity [OF assms(3,5,6)]
  have "old < sm_writer_epoch t" using c(5) [OF assms(4)] \<open>sm_ext s' t\<close> assms(11) by (simp add: sm_ext_def)
  moreover have "eh_writer_epoch h = Some (sm_writer_epoch s + 1)" using c(4) assms(4) by simp
  ultimately show ?thesis
    using assms(8-10,12) by (auto simp: apply_entry_commit apply_commit_def)
qed

text \<open>C34: A command that is not committed has no effect. Whatever the state, a commit entry whose response
  is anything but committed leaves every part of the state but the applied position as it was.\<close>

theorem refused_without_effect:
  assumes "le_payload e = Normal (Commit h)" "apply_entry D e s = (s', Inr r)" "rr_outcome r \<noteq> Committed"
  shows "s' = touch (le_log_id e) s"
proof (rule apply_commit_cases [of D "le_log_id e" h "touch (le_log_id e) s"])
  show "s' = touch (le_log_id e) s"
    if "fst (apply_commit D (le_log_id e) h (touch (le_log_id e) s)) = touch (le_log_id e) s"
    using that assms(2) by (simp add: apply_entry_commit [OF assms(1)])
qed (use assms in \<open>auto simp: apply_entry_commit response_def\<close>)

subsection \<open>Compaction and snapshots\<close>

text \<open>States that agree on everything but the retained headers.\<close>

definition same_view :: "state_machine \<Rightarrow> state_machine \<Rightarrow> bool" where
  "same_view s t \<longleftrightarrow>
     s\<lparr>sm_committed := [], sm_committed_log_ids := [], sm_repairs := []\<rparr> =
     t\<lparr>sm_committed := [], sm_committed_log_ids := [], sm_repairs := []\<rparr>"

definition is_repair :: "log_entry \<Rightarrow> bool" where
  "is_repair e = (case le_payload e of Normal (Repair _ _ _) \<Rightarrow> True | _ \<Rightarrow> False)"

lemma same_view_fields:
  assumes "same_view s t"
  obtains cs ls rs where "t = s\<lparr>sm_committed := cs, sm_committed_log_ids := ls, sm_repairs := rs\<rparr>"
proof -
  have "t = s\<lparr>sm_committed := sm_committed t, sm_committed_log_ids := sm_committed_log_ids t, sm_repairs := sm_repairs t\<rparr>"
    using assms unfolding same_view_def by (cases s; cases t) simp
  then show thesis by (rule that)
qed

lemma same_view_drop: "same_view s t \<Longrightarrow> same_view (drop_indices ks s) (drop_indices ks' t)"
  by (simp add: same_view_def drop_indices_def)

lemma apply_metadata_view:
  "apply_metadata D i h m (s\<lparr>sm_committed := cs, sm_committed_log_ids := ls, sm_repairs := rs\<rparr>) =
     (case apply_metadata D i h m s of
        Inl r \<Rightarrow> Inl r
      | Inr (s1, w, a, c) \<Rightarrow> Inr (s1\<lparr>sm_committed := cs, sm_committed_log_ids := ls, sm_repairs := rs\<rparr>, w, a, c))"
  by (cases m) (auto simp: Let_def split: option.splits sum.splits)

lemma epoch_valid_view:
  "epoch_valid k e (s\<lparr>sm_committed := cs, sm_committed_log_ids := ls, sm_repairs := rs\<rparr>) = epoch_valid k e s"
  by (cases k) simp_all

lemma apply_commit_view:
  assumes "same_view s t"
  shows "snd (apply_commit D lid h s) = snd (apply_commit D lid h t)"
    and "same_view (fst (apply_commit D lid h s)) (fst (apply_commit D lid h t))"
proof -
  obtain cs ls rs where t: "t = s\<lparr>sm_committed := cs, sm_committed_log_ids := ls, sm_repairs := rs\<rparr>"
    by (rule same_view_fields [OF assms])
  show "snd (apply_commit D lid h s) = snd (apply_commit D lid h t)"
    and "same_view (fst (apply_commit D lid h s)) (fst (apply_commit D lid h t))"
    unfolding t apply_commit_def apply_metadata_view epoch_valid_view
    by (auto simp: same_view_def record_commit_def install_writer_def Let_def split: option.splits sum.splits)
qed

lemma apply_entry_view:
  assumes "same_view s t" "\<not> is_repair e"
  shows "snd (apply_entry D e s) = snd (apply_entry D e t) \<and>
     same_view (fst (apply_entry D e s)) (fst (apply_entry D e t))"
proof (cases "le_payload e")
  case (Normal cmd)
  have touched: "same_view (touch (le_log_id e) s) (touch (le_log_id e) t)"
    using assms(1) by (cases s; cases t) (simp add: same_view_def)
  have lsn: "sm_archive_lsn s = sm_archive_lsn t" "sm_wal_end s = sm_wal_end t"
    using assms(1) by (cases s; cases t; simp add: same_view_def)+
  show ?thesis
  proof (cases cmd)
    case (Commit h)
    then show ?thesis using Normal apply_commit_view [OF touched] by (simp add: apply_entry_commit)
  next
    case (Repair i g c)
    then show ?thesis using Normal assms(2) by (simp add: is_repair_def)
  next
    case (ReleaseWal through)
    then show ?thesis
      using Normal touched lsn
      by (simp add: apply_entry_def Let_def apply_release_wal_def compact_checkpointed_wal_history_def same_view_drop)
  qed
qed (use assms(1) in \<open>cases s; cases t; simp add: same_view_def apply_entry_def Let_def\<close>)+

lemma apply_entries_view:
  assumes "same_view s t" "\<forall>e \<in> set es. \<not> is_repair e"
  shows "snd (apply_entries D es s) = snd (apply_entries D es t)"
  using assms
proof (induction es arbitrary: s t)
  case (Cons e es)
  note step = apply_entry_view [OF Cons.prems(1), of e D]
  have "snd (apply_entries D es (fst (apply_entry D e s))) = snd (apply_entries D es (fst (apply_entry D e t)))"
    using Cons step by simp
  then show ?case
    using step Cons.prems(2)
    by (cases "apply_entry D e s"; cases "apply_entry D e t"; cases "snd (apply_entry D e s)")
      (auto split: prod.splits sum.splits)
qed simp



subsection \<open>A concrete run\<close>

text \<open>Bind the bucket, open the timeline at 100, lease the writer, append three bytes, archive them.\<close>

definition ex_header :: "command_kind \<Rightarrow> nat \<Rightarrow> nat \<Rightarrow> nat option \<Rightarrow> entry_metadata \<Rightarrow> entry_header" where
  "ex_header kind request len epoch meta =
     \<lparr> eh_group = ''timeline'', eh_generation = 1, eh_kind = kind, eh_request = request, eh_payload_len = len,
       eh_payload_hash = [], eh_writer_epoch = epoch, eh_certificate = None, eh_inline = Some (replicate len 0),
       eh_metadata = meta \<rparr>"

definition ex_log_entry :: "nat \<Rightarrow> entry_header \<Rightarrow> log_entry" where
  "ex_log_entry index h = \<lparr> le_log_id = \<lparr> li_term = 1, li_node = 1, li_index = index \<rparr>, le_payload = Normal (Commit h) \<rparr>"

definition ex_bind :: log_entry where
  "ex_bind = ex_log_entry 1 (ex_header WalArchiveBinding 11 1 None (MetaWalArchiveBinding ''b''))"

definition ex_open :: log_entry where
  "ex_open = ex_log_entry 2 (ex_header TimelineOpen 12 0 None (MetaWalStart 100))"

definition ex_lease :: log_entry where
  "ex_lease = ex_log_entry 3 (ex_header WriterLease 13 0 (Some 1) MetaNone)"

definition ex_append_wal :: log_entry where
  "ex_append_wal = ex_log_entry 4 (ex_header Wal 14 3 (Some 1) (MetaWal 100 103))"

definition ex_segment :: wal_archive_segment where
  "ex_segment = \<lparr> seg_start_lsn = 100, seg_end_lsn = 103, seg_key = ''k'', seg_hash = [] \<rparr>"

definition ex_archive :: log_entry where
  "ex_archive = ex_log_entry 5 (ex_header ArchiveCheckpoint 15 1 None (MetaArchive ex_segment))"

definition ex_opened :: state_machine where
  "ex_opened = fst (apply_entry xor_deps ex_open (fst (apply_entry xor_deps ex_bind sm_default)))"

definition ex_leased :: state_machine where
  "ex_leased = fst (apply_entry xor_deps ex_lease ex_opened)"

definition ex_archived :: state_machine where
  "ex_archived = fst (apply_entry xor_deps ex_archive (fst (apply_entry xor_deps ex_append_wal ex_leased)))"

lemmas ex_run = apply_entry_def apply_commit_def record_commit_def install_writer_def response_def
  sm_default_def ex_bind_def ex_open_def ex_lease_def ex_append_wal_def ex_archive_def ex_log_entry_def
  ex_header_def ex_segment_def Let_def entry_ok_def applied_index_def header_ok_def

lemma ex_step: "entry_ok e s \<Longrightarrow> (sm_step D)\<^sup>*\<^sup>* sm_default s \<Longrightarrow> (sm_step D)\<^sup>*\<^sup>* sm_default (fst (apply_entry D e s))"
  by (meson rtranclp.rtrancl_into_rtrancl step_apply)

lemma ex_bind_ok: "entry_ok ex_bind sm_default"
  by (simp add: ex_run)

lemma ex_open_ok: "entry_ok ex_open (fst (apply_entry xor_deps ex_bind sm_default))"
  by (simp add: ex_run)

lemma ex_reach_opened: "(sm_step xor_deps)\<^sup>*\<^sup>* sm_default ex_opened"
  unfolding ex_opened_def by (intro ex_step ex_open_ok ex_bind_ok rtranclp.rtrancl_refl)

lemma ex_lease_ok: "entry_ok ex_lease ex_opened"
  by (simp add: ex_run ex_opened_def)

lemma ex_reach_leased: "(sm_step xor_deps)\<^sup>*\<^sup>* sm_default ex_leased"
  unfolding ex_leased_def by (intro ex_step ex_lease_ok ex_reach_opened)

lemma ex_append_ok: "entry_ok ex_append_wal ex_leased"
  by (simp add: ex_run ex_opened_def ex_leased_def)

lemma ex_archive_ok: "entry_ok ex_archive (fst (apply_entry xor_deps ex_append_wal ex_leased))"
  by (simp add: ex_run ex_opened_def ex_leased_def)

lemma ex_reach_archived: "(sm_step xor_deps)\<^sup>*\<^sup>* sm_default ex_archived"
  unfolding ex_archived_def by (intro ex_step ex_archive_ok ex_append_ok ex_reach_leased)

theorem wal_tail_contiguous_witness:
  "sm_archive_lsn ex_archived \<le> sm_wal_end ex_archived \<and>
     (\<exists>base \<le> sm_archive_lsn ex_archived. chain base (wal_ranges ex_archived) = Some (sm_wal_end ex_archived))"
  by (rule wal_tail_contiguous [OF ex_reach_archived])

theorem archived_segments_total_witness:
  "\<exists>segs base. archived_wal_segments (sm_archive_lsn ex_archived) ex_archived = Inr segs \<and>
     chain base (map (\<lambda>seg. (seg_start_lsn seg, seg_end_lsn seg)) segs) = Some (sm_archive_lsn ex_archived)"
  by (rule archived_segments_total [OF ex_reach_archived])

lemma ex_lease_apply:
  "apply_entry xor_deps ex_lease ex_opened = (ex_leased, Inr (response 3 (Some 1) Committed (Some 100) None False))"
  by (simp add: ex_leased_def ex_run ex_opened_def)


theorem superseded_writer_fenced_witness:
  "apply_entry xor_deps (ex_log_entry 4 (ex_header Wal 14 3 (Some 0) (MetaWal 100 103))) ex_leased =
     (touch \<lparr> li_term = 1, li_node = 1, li_index = 4 \<rparr> ex_leased,
      Inr (response 4 (Some 1) OutStaleWriterEpoch None None False))"
proof -
  have "map_of (sm_retries ex_leased) 14 = None" "sm_writer_epoch ex_leased = 1"
    by (simp_all add: ex_leased_def ex_run ex_opened_def)
  then show ?thesis
    using superseded_writer_fenced [OF ex_reach_opened ex_lease_ok _ _ ex_lease_apply _ rtranclp.rtrancl_refl,
        of "ex_header WriterLease 13 0 (Some 1) MetaNone"
          "ex_log_entry 4 (ex_header Wal 14 3 (Some 0) (MetaWal 100 103))"
          "ex_header Wal 14 3 (Some 0) (MetaWal 100 103)" 0]
    by (simp add: ex_lease_def ex_log_entry_def response_def ex_header_def)
qed

theorem refused_without_effect_witness:
  "fst (apply_entry xor_deps (ex_log_entry 4 (ex_header Wal 14 3 (Some 1) (MetaWal 105 108))) ex_leased) =
     touch \<lparr> li_term = 1, li_node = 1, li_index = 4 \<rparr> ex_leased"
  using refused_without_effect [of "ex_log_entry 4 (ex_header Wal 14 3 (Some 1) (MetaWal 105 108))"
      "ex_header Wal 14 3 (Some 1) (MetaWal 105 108)" xor_deps ex_leased]
  by (simp add: ex_leased_def ex_run ex_opened_def)


definition ex_to_json :: "state_machine \<Rightarrow> bytes option" where
  "ex_to_json s = (if s = sm_default then Some [1] else None)"

definition ex_from_json :: "bytes \<Rightarrow> state_machine option" where
  "ex_from_json data = (if data = [1] then Some sm_default else None)"

definition ex_replica :: replica where
  "ex_replica = \<lparr> rp_state = sm_default, rp_snapshot_index = 0, rp_current = None \<rparr>"

definition ex_snapshot :: stored_snapshot where
  "ex_snapshot = \<lparr> ss_meta = \<lparr> sn_last_log_id = None, sn_last_membership = \<lparr> ms_log_id = None, ms_voters = [] \<rparr>,
       sn_id = ''s'' \<rparr>, ss_data = [1] \<rparr>"


subsection \<open>Where the promises stop\<close>

text \<open>
  The identity a retry is compared with has no metadata, so reopening a timeline under the same request
  at another position is answered as a duplicate of the first opening.
\<close>

lemma retry_ignores_metadata:
  "apply_entry xor_deps (ex_log_entry 3 (ex_header TimelineOpen 12 0 None (MetaWalStart 500))) ex_opened =
     (touch \<lparr> li_term = 1, li_node = 1, li_index = 3 \<rparr> ex_opened,
      Inr (response 2 None Duplicate (Some 100) None False))"
  by (simp add: ex_run ex_opened_def retry_response_def)

text \<open>
  A repair is the one command that looks at the retained headers. Building a snapshot is a local
  decision, so of two replicas with the same applied log the one that has compacted a checkpointed
  catalog header fails the repair of that header with a storage error while the other applies it.
\<close>

definition ex_catalog_header :: entry_header where
  "ex_catalog_header = (ex_header command_kind.Catalog 21 0 None MetaNone)
     \<lparr>eh_certificate := Some ex_certificate, eh_inline := None\<rparr>"

definition ex_checkpointed :: state_machine where
  "ex_checkpointed = fst (apply_entry xor_deps (ex_log_entry 2 (ex_header CatalogCheckpoint 22 0 None (MetaCatalogCheckpoint 1)))
     (fst (apply_entry xor_deps (ex_log_entry 1 ex_catalog_header) sm_default)))"

definition ex_repair :: log_entry where
  "ex_repair = \<lparr> le_log_id = \<lparr> li_term = 1, li_node = 1, li_index = 3 \<rparr>, le_payload = Normal (Repair 1 2 ex_certificate) \<rparr>"

lemma repair_sees_compaction:
  "snd (apply_entry xor_deps ex_repair ex_checkpointed) = Inr (response 3 None Committed None None False)"
  "snd (apply_entry xor_deps ex_repair (compact_checkpointed_catalog_history ex_checkpointed)) = Inl RepairUnknownHeader"
  by (simp_all add: ex_run ex_repair_def ex_checkpointed_def ex_catalog_header_def apply_repair_def
      compact_checkpointed_catalog_history_def drop_indices_def bt_upto_def bt_remove_def)

end
