(* ===== verification/Log_Store.thy ===== *)
theory Log_Store
  imports State_Machine
begin

section \<open>The persistent Raft log\<close>

text \<open>
  \<open>PersistentLogStore\<close>, its append-only journal and the group-committing \<open>PersistenceActor\<close>
  of \<open>crates/verglas-consensus/src/raft_store.rs\<close>. The files are a metadata image, replaced
  atomically, and the bytes of the journal; the queue of the actor is a list of records in channel
  order. The JSON text of a record is a pair of partial functions \<open>J\<close>; \<open>records_ok\<close> is what
  is relied on of it. The lemmas show that replaying the journal, with or without an interrupted last
  frame, gives back the in-memory log.
\<close>

subsection \<open>Data\<close>

type_synonym vote = "nat \<times> node_id \<times> bool"

datatype log_record =
    LogAppend "log_entry list"
  | LogTruncate nat
  | LogPurge log_id

record log_data =
  ld_last_purged :: "log_id option"
  ld_committed :: "log_id option"
  ld_vote :: "vote option"

record log_state =
  ls_metadata :: log_data
  ls_entries :: "(nat, log_entry) btree"

record recovered_log =
  rl_entries :: "(nat, log_entry) btree"
  rl_last_purged :: "log_id option"

record json =
  j_enc :: "log_record \<Rightarrow> bytes option"
  j_dec :: "bytes \<Rightarrow> log_record option"

datatype io_error = WouldBlock | InvalidData | InvalidInput | OtherIo

definition records_ok :: "json \<Rightarrow> log_record list \<Rightarrow> bool" where
  "records_ok J recs \<longleftrightarrow>
     (\<forall>r \<in> set recs. \<exists>b. j_enc J r = Some b \<and> j_dec J b = Some r \<and> length b < u64_bound)"

subsection \<open>Journal frames and recovery\<close>

definition frame_bytes :: "deps \<Rightarrow> bytes \<Rightarrow> bytes" where
  "frame_bytes D body = le_bytes 8 (length body) @ le_bytes 4 (crc32c D body) @ body"

definition write_log_frame :: "deps \<Rightarrow> json \<Rightarrow> log_record \<Rightarrow> bytes \<Rightarrow> io_error + bytes" where
  "write_log_frame D J r journal =
     (case j_enc J r of
        None \<Rightarrow> Inl InvalidData
      | Some body \<Rightarrow>
          if length body < u64_bound then Inr (journal @ frame_bytes D body) else Inl InvalidInput)"

definition apply_log_record :: "log_record \<Rightarrow> recovered_log \<Rightarrow> recovered_log" where
  "apply_log_record r recovered =
     (case r of
        LogAppend appended \<Rightarrow>
          recovered\<lparr>rl_entries := fold (\<lambda>e. bt_insert (li_index (le_log_id e)) e) appended (rl_entries recovered)\<rparr>
      | LogTruncate since \<Rightarrow> recovered\<lparr>rl_entries := bt_below since (rl_entries recovered)\<rparr>
      | LogPurge lid \<Rightarrow>
          recovered\<lparr>rl_last_purged := Some lid,
                    rl_entries := bt_split_off (li_index lid + 1) (rl_entries recovered)\<rparr>)"

definition recovered_default :: recovered_log where
  "recovered_default = \<lparr> rl_entries = [], rl_last_purged = None \<rparr>"

text \<open>The replay loop, over the bytes from the current offset on.\<close>

function replay_frames :: "deps \<Rightarrow> json \<Rightarrow> nat \<Rightarrow> bytes \<Rightarrow> recovered_log \<Rightarrow> io_error + (recovered_log \<times> nat)" where
  "replay_frames D J offset bs recovered =
     (if bs = [] then Inr (recovered, offset)
      else if \<not> offset + 12 < u64_bound then Inl InvalidData
      else if length bs < 12 then Inr (recovered, offset)
      else
        (let len = of_le (take 8 bs); checksum = of_le (take 4 (drop 8 bs)); rest = drop 12 bs in
         if \<not> offset + 12 + len < u64_bound then Inl InvalidData
         else if length rest < len then Inr (recovered, offset)
         else if crc32c D (take len rest) \<noteq> checksum then Inl InvalidData
         else
           (case j_dec J (take len rest) of
              None \<Rightarrow> Inl InvalidData
            | Some r \<Rightarrow> replay_frames D J (offset + 12 + len) (drop len rest) (apply_log_record r recovered))))"
  by pat_completeness auto
termination
  by (relation "measure (\<lambda>(D, J, offset, bs, recovered). length bs)") auto

declare replay_frames.simps [simp del]

text \<open>The recovered log, and the journal cut back to its last complete frame.\<close>

definition recover_log_records :: "deps \<Rightarrow> json \<Rightarrow> bytes \<Rightarrow> io_error + (recovered_log \<times> bytes)" where
  "recover_log_records D J journal =
     and_then (replay_frames D J 0 journal recovered_default)
       (\<lambda>(recovered, offset). Inr (recovered, take offset journal))"

definition log_open :: "deps \<Rightarrow> json \<Rightarrow> log_data \<Rightarrow> bytes \<Rightarrow> io_error + log_state" where
  "log_open D J metadata journal =
     and_then (recover_log_records D J journal) (\<lambda>(recovered, _).
       let metadata = (if rl_last_purged recovered \<noteq> None
                       then metadata\<lparr>ld_last_purged := rl_last_purged recovered\<rparr> else metadata)
       in Inr \<lparr> ls_metadata = metadata, ls_entries = rl_entries recovered \<rparr>)"

subsection \<open>Operations of the store\<close>

record log_store =
  lg_state :: log_state
  lg_queue :: "log_record list"
  lg_journal :: bytes
  lg_image :: log_data

definition log_store_new :: log_store where
  "log_store_new =
     (let metadata = \<lparr> ld_last_purged = None, ld_committed = None, ld_vote = None \<rparr> in
      \<lparr> lg_state = \<lparr> ls_metadata = metadata, ls_entries = [] \<rparr>, lg_queue = [], lg_journal = [], lg_image = metadata \<rparr>)"

definition restore_entry :: "nat \<times> log_entry option \<Rightarrow> (nat, log_entry) btree \<Rightarrow> (nat, log_entry) btree" where
  "restore_entry p entries =
     (case snd p of Some prior \<Rightarrow> bt_insert (fst p) prior entries | None \<Rightarrow> bt_remove (fst p) entries)"

definition dispatch_append :: "bool \<Rightarrow> log_entry list \<Rightarrow> log_store \<Rightarrow> (io_error + unit) \<times> log_store" where
  "dispatch_append accepted entries s =
     (let old = ls_entries (lg_state s);
          previous = map (\<lambda>e. (li_index (le_log_id e), map_of old (li_index (le_log_id e)))) entries;
          inserted = fold (\<lambda>e. bt_insert (li_index (le_log_id e)) e) entries old
      in if accepted
         then (Inr (), s\<lparr>lg_state := (lg_state s)\<lparr>ls_entries := inserted\<rparr>, lg_queue := lg_queue s @ [LogAppend entries]\<rparr>)
         else (Inl WouldBlock, s\<lparr>lg_state := (lg_state s)\<lparr>ls_entries := fold restore_entry previous inserted\<rparr>\<rparr>))"

text \<open>The actor writes its queue, one frame per record in order.\<close>

fun write_frames :: "deps \<Rightarrow> json \<Rightarrow> log_record list \<Rightarrow> bytes \<Rightarrow> io_error + bytes" where
  "write_frames D J [] journal = Inr journal"
| "write_frames D J (r # rs) journal = and_then (write_log_frame D J r journal) (write_frames D J rs)"

definition actor_flush :: "deps \<Rightarrow> json \<Rightarrow> log_store \<Rightarrow> io_error + log_store" where
  "actor_flush D J s =
     and_then (write_frames D J (lg_queue s) (lg_journal s)) (\<lambda>journal. Inr (s\<lparr>lg_journal := journal, lg_queue := []\<rparr>))"

text \<open>An operation that awaits its own record first sees every earlier record written.\<close>

definition persist_record :: "deps \<Rightarrow> json \<Rightarrow> log_record \<Rightarrow> log_store \<Rightarrow> io_error + log_store" where
  "persist_record D J r s = actor_flush D J (s\<lparr>lg_queue := lg_queue s @ [r]\<rparr>)"

definition log_truncate :: "deps \<Rightarrow> json \<Rightarrow> log_id \<Rightarrow> log_store \<Rightarrow> io_error + log_store" where
  "log_truncate D J lid s =
     and_then (persist_record D J (LogTruncate (li_index lid)) s) (\<lambda>s.
       Inr (s\<lparr>lg_state := (lg_state s)\<lparr>ls_entries := bt_below (li_index lid) (ls_entries (lg_state s))\<rparr>\<rparr>))"

definition log_purge :: "deps \<Rightarrow> json \<Rightarrow> log_id \<Rightarrow> log_store \<Rightarrow> io_error + log_store" where
  "log_purge D J lid s =
     and_then (persist_record D J (LogPurge lid) s) (\<lambda>s.
       Inr (s\<lparr>lg_state := \<lparr> ls_metadata = (ls_metadata (lg_state s))\<lparr>ld_last_purged := Some lid\<rparr>,
                            ls_entries = bt_split_off (li_index lid + 1) (ls_entries (lg_state s)) \<rparr>\<rparr>))"

definition persist_metadata :: "bool \<Rightarrow> log_data \<Rightarrow> log_store \<Rightarrow> io_error + log_store" where
  "persist_metadata persisted metadata s =
     (if persisted then Inr (s\<lparr>lg_image := metadata, lg_state := (lg_state s)\<lparr>ls_metadata := metadata\<rparr>\<rparr>)
      else Inl OtherIo)"

definition save_committed :: "bool \<Rightarrow> log_id option \<Rightarrow> log_store \<Rightarrow> io_error + log_store" where
  "save_committed persisted committed s =
     persist_metadata persisted ((ls_metadata (lg_state s))\<lparr>ld_committed := committed\<rparr>) s"

definition save_vote :: "bool \<Rightarrow> vote \<Rightarrow> log_store \<Rightarrow> io_error + log_store" where
  "save_vote persisted vote s =
     persist_metadata persisted ((ls_metadata (lg_state s))\<lparr>ld_vote := Some vote\<rparr>) s"

definition get_log_state :: "log_store \<Rightarrow> log_id option \<times> log_id option" where
  "get_log_state s =
     (let purged = ld_last_purged (ls_metadata (lg_state s)); entries = ls_entries (lg_state s)
      in (purged, if entries = [] then purged else Some (le_log_id (snd (last entries)))))"

definition try_get_log_entries :: "nat \<Rightarrow> nat \<Rightarrow> log_store \<Rightarrow> log_entry list" where
  "try_get_log_entries lo hi s = bt_vals (bt_below hi (bt_split_off lo (ls_entries (lg_state s))))"

subsection \<open>Group commit\<close>

definition queue_capacity :: nat where
  "queue_capacity = 16"

type_synonym path = string

text \<open>One drained batch: per request its barrier file and the outcome of its own write.\<close>

fun batch_barriers :: "(path option \<times> (io_error + unit)) list \<Rightarrow> path list \<Rightarrow> path list" where
  "batch_barriers [] barriers = barriers"
| "batch_barriers ((barrier, outcome) # rs) barriers =
     (case (outcome, barrier) of
        (Inr _, Some p) \<Rightarrow> batch_barriers rs (if p \<in> set barriers then barriers else barriers @ [p])
      | _ \<Rightarrow> batch_barriers rs barriers)"

definition commit_batch :: "(path \<Rightarrow> io_error + unit) \<Rightarrow> (path option \<times> (io_error + unit)) list \<Rightarrow> (io_error + unit) list" where
  "commit_batch sync_batch batch =
     (let failed = filter_map (\<lambda>p. case sync_batch p of Inl e \<Rightarrow> Some (p, e) | Inr _ \<Rightarrow> None) (batch_barriers batch [])
      in map (\<lambda>(barrier, outcome).
           let sync_failure = Option.bind barrier (\<lambda>p. map_option snd (find (\<lambda>f. fst f = p) failed))
           in case (outcome, sync_failure) of
                (Inr _, Some e) \<Rightarrow> Inl e
              | _ \<Rightarrow> outcome) batch)"

definition drain_batch :: "'a list \<Rightarrow> 'a list \<times> 'a list" where
  "drain_batch queue = (take queue_capacity queue, drop queue_capacity queue)"

subsection \<open>Frames\<close>

fun journal_of :: "deps \<Rightarrow> json \<Rightarrow> log_record list \<Rightarrow> bytes" where
  "journal_of D J [] = []"
| "journal_of D J (r # rs) = frame_bytes D (the (j_enc J r)) @ journal_of D J rs"

lemma journal_of_append: "journal_of D J (xs @ ys) = journal_of D J xs @ journal_of D J ys"
  by (induction xs) auto

lemma write_frames_ok:
  assumes "records_ok J rs" shows "write_frames D J rs journal = Inr (journal @ journal_of D J rs)"
  using assms
proof (induction rs arbitrary: journal)
  case (Cons r rs)
  then obtain b where "j_enc J r = Some b" "length b < u64_bound" by (auto simp: records_ok_def)
  moreover have "records_ok J rs" using Cons.prems by (simp add: records_ok_def)
  ultimately show ?case using Cons.IH by (simp add: write_log_frame_def)
qed simp

lemma length_frame_bytes [simp]: "length (frame_bytes D b) = 12 + length b"
  by (simp add: frame_bytes_def)

lemma frame_bytes_parts:
  "take 8 (frame_bytes D b @ rest) = le_bytes 8 (length b)"
  "take 4 (drop 8 (frame_bytes D b @ rest)) = le_bytes 4 (crc32c D b)"
  "drop 12 (frame_bytes D b @ rest) = b @ rest"
proof -
  have "frame_bytes D b @ rest = le_bytes 8 (length b) @ le_bytes 4 (crc32c D b) @ b @ rest"
    by (simp add: frame_bytes_def)
  then show "take 8 (frame_bytes D b @ rest) = le_bytes 8 (length b)"
    "take 4 (drop 8 (frame_bytes D b @ rest)) = le_bytes 4 (crc32c D b)"
    "drop 12 (frame_bytes D b @ rest) = b @ rest"
    by (simp_all add: drop_append)
qed

lemma of_le_u64: "n < u64_bound \<Longrightarrow> of_le (le_bytes 8 n) = n"
  by (rule of_le_le_bytes_id) simp

lemma of_le_u32: "n < u32_bound \<Longrightarrow> of_le (le_bytes 4 n) = n"
  by (rule of_le_le_bytes_id) simp

lemma replay_one:
  assumes "digest_ok D" "j_dec J b = Some r" "offset + 12 + length b < u64_bound"
  shows "replay_frames D J offset (frame_bytes D b @ rest) recovered =
     replay_frames D J (offset + 12 + length b) rest (apply_log_record r recovered)"
proof -
  have crc: "crc32c D b < u32_bound" using assms(1) by (simp add: digest_ok_def)
  have len: "length b < u64_bound" using assms(3) by linarith
  define bs where "bs = frame_bytes D b @ rest"
  have parts: "of_le (take 8 bs) = length b" "of_le (take 4 (drop 8 bs)) = crc32c D b" "drop 12 bs = b @ rest"
    unfolding bs_def by (simp_all only: frame_bytes_parts of_le_u64 [OF len] of_le_u32 [OF crc])
  have nonempty: "\<not> length bs < 12" by (simp add: bs_def)
  then have "bs \<noteq> []" by auto
  then have "replay_frames D J offset bs recovered =
      replay_frames D J (offset + 12 + length b) rest (apply_log_record r recovered)"
    using assms(2,3) nonempty by (subst replay_frames.simps) (simp add: parts Let_def)
  then show ?thesis by (simp add: bs_def)
qed

text \<open>An interrupted frame, the proper prefix of a frame that a crash leaves, ends the replay.\<close>

lemma replay_torn:
  assumes "n < 12 + length b" "offset + 12 + length b < u64_bound"
  shows "replay_frames D J offset (take n (frame_bytes D b)) recovered = Inr (recovered, offset)"
proof -
  define t where "t = take n (frame_bytes D b)"
  have len: "length t = n" using assms(1) by (simp add: t_def)
  have "replay_frames D J offset t recovered = Inr (recovered, offset)"
  proof (cases "length t < 12")
    case True
    then show ?thesis using assms(2) by (subst replay_frames.simps) simp
  next
    case False
    have "take 8 t = le_bytes 8 (length b)"
      using False len frame_bytes_parts(1) [of D b "[]"] by (simp add: t_def min_absorb1)
    then have size: "of_le (take 8 t) = length b" using assms(2) by (simp add: of_le_u64)
    have "length (drop 12 t) < length b" using len assms(1) False by simp
    moreover have "t \<noteq> []" using False by auto
    ultimately show ?thesis using False size assms(2) by (subst replay_frames.simps) (simp add: Let_def)
  qed
  then show ?thesis by (simp add: t_def)
qed

lemma replay_journal:
  assumes "digest_ok D" "records_ok J recs" "offset + length (journal_of D J recs) < u64_bound"
  shows "replay_frames D J offset (journal_of D J recs @ rest) recovered =
     replay_frames D J (offset + length (journal_of D J recs)) rest (fold apply_log_record recs recovered)"
  using assms(2,3)
proof (induction recs arbitrary: offset recovered)
  case (Cons r recs)
  then obtain b where b: "j_enc J r = Some b" "j_dec J b = Some r" by (auto simp: records_ok_def)
  have "replay_frames D J offset (frame_bytes D b @ journal_of D J recs @ rest) recovered =
      replay_frames D J (offset + 12 + length b) (journal_of D J recs @ rest) (apply_log_record r recovered)"
    using Cons.prems(2) b by (intro replay_one [OF assms(1)]) simp_all
  moreover have "records_ok J recs" using Cons.prems(1) by (simp add: records_ok_def)
  ultimately show ?case
    using Cons.IH [of "offset + 12 + length b"] Cons.prems(2) b by (simp add: add.assoc)
qed simp

subsection \<open>The store keeps its log in the journal\<close>

text \<open>
  The in-memory log is the journal, written or still queued, replayed; the metadata image holds the
  vote and the committed identity, and a purge boundary it knows is in the written journal.
\<close>

definition log_view :: "log_record list \<Rightarrow> recovered_log" where
  "log_view recs = fold apply_log_record recs recovered_default"

definition log_written :: "deps \<Rightarrow> json \<Rightarrow> log_store \<Rightarrow> log_record list \<Rightarrow> bool" where
  "log_written D J s recs \<longleftrightarrow>
     lg_journal s = journal_of D J recs \<and> records_ok J (recs @ lg_queue s) \<and>
     ls_entries (lg_state s) = rl_entries (log_view (recs @ lg_queue s)) \<and>
     ld_last_purged (ls_metadata (lg_state s)) = rl_last_purged (log_view (recs @ lg_queue s)) \<and>
     ld_committed (lg_image s) = ld_committed (ls_metadata (lg_state s)) \<and>
     ld_vote (lg_image s) = ld_vote (ls_metadata (lg_state s)) \<and>
     (ld_last_purged (lg_image s) \<noteq> None \<longrightarrow> rl_last_purged (log_view recs) \<noteq> None) \<and>
     rl_last_purged (log_view (recs @ lg_queue s)) = rl_last_purged (log_view recs) \<and>
     sorted_keys (ls_entries (lg_state s))"

definition log_inv :: "deps \<Rightarrow> json \<Rightarrow> log_store \<Rightarrow> bool" where
  "log_inv D J s \<longleftrightarrow> (\<exists>recs. log_written D J s recs)"

inductive log_step :: "deps \<Rightarrow> json \<Rightarrow> log_store \<Rightarrow> log_store \<Rightarrow> bool" for D J where
  log_dispatch: "records_ok J [LogAppend entries] \<Longrightarrow> log_step D J s (snd (dispatch_append accepted entries s))"
| log_flush: "actor_flush D J s = Inr s' \<Longrightarrow> log_step D J s s'"
| log_truncated: "records_ok J [LogTruncate (li_index lid)] \<Longrightarrow> log_truncate D J lid s = Inr s' \<Longrightarrow> log_step D J s s'"
| log_purged: "records_ok J [LogPurge lid] \<Longrightarrow> log_purge D J lid s = Inr s' \<Longrightarrow> log_step D J s s'"
| log_voted: "save_vote persisted vote s = Inr s' \<Longrightarrow> log_step D J s s'"
| log_committed: "save_committed persisted committed s = Inr s' \<Longrightarrow> log_step D J s s'"

lemma log_view_snoc: "log_view (recs @ [r]) = apply_log_record r (log_view recs)"
  by (simp add: log_view_def)

lemma records_ok_append [simp]: "records_ok J (xs @ ys) \<longleftrightarrow> records_ok J xs \<and> records_ok J ys"
  by (auto simp: records_ok_def)

text \<open>A refused append rolls the in-memory log back to exactly what it was.\<close>

lemma map_of_fold_restore:
  "map_of (fold restore_entry (map (\<lambda>k. (k, map_of old k)) ks) m) k = (if k \<in> set ks then map_of old k else map_of m k)"
proof (induction ks arbitrary: m)
  case (Cons x ks)
  then show ?case by (cases "map_of old x") (auto simp: restore_entry_def)
qed simp

lemma sorted_fold_restore: "sorted_keys m \<Longrightarrow> sorted_keys (fold restore_entry ps m)"
  by (induction ps arbitrary: m) (auto simp: restore_entry_def split: option.splits)

lemma map_of_fold_insert_other:
  "k \<notin> (\<lambda>e. li_index (le_log_id e)) ` set es \<Longrightarrow>
     map_of (fold (\<lambda>e. bt_insert (li_index (le_log_id e)) e) es m) k = map_of m k"
  by (induction es arbitrary: m) auto

lemma sorted_fold_entries:
  "sorted_keys m \<Longrightarrow> sorted_keys (fold (\<lambda>e. bt_insert (li_index (le_log_id e)) e) es m)"
  using bt.invar_put_all [of m "\<lambda>e. li_index (le_log_id e)" "\<lambda>e. e" es] by simp

lemma rollback_exact:
  assumes "sorted_keys old"
  shows "fold restore_entry (map (\<lambda>e. (li_index (le_log_id e), map_of old (li_index (le_log_id e)))) es)
     (fold (\<lambda>e. bt_insert (li_index (le_log_id e)) e) es old) = old"
proof (rule sorted_keys_eqI)
  let ?ks = "map (\<lambda>e. li_index (le_log_id e)) es"
  have ps: "map (\<lambda>e. (li_index (le_log_id e), map_of old (li_index (le_log_id e)))) es = map (\<lambda>k. (k, map_of old k)) ?ks"
    by simp
  show "map_of (fold restore_entry (map (\<lambda>e. (li_index (le_log_id e), map_of old (li_index (le_log_id e)))) es)
     (fold (\<lambda>e. bt_insert (li_index (le_log_id e)) e) es old)) = map_of old"
    unfolding ps by (rule ext) (auto simp: map_of_fold_restore map_of_fold_insert_other simp del: map_map)
qed (use assms in \<open>simp_all add: sorted_fold_restore sorted_fold_entries\<close>)

lemma actor_flush_ok:
  "records_ok J (lg_queue s) \<Longrightarrow>
     actor_flush D J s = Inr (s\<lparr>lg_journal := lg_journal s @ journal_of D J (lg_queue s), lg_queue := []\<rparr>)"
  by (simp add: actor_flush_def write_frames_ok)

lemma sorted_apply_record:
  "sorted_keys (rl_entries v) \<Longrightarrow> sorted_keys (rl_entries (apply_log_record r v))"
  by (auto simp: apply_log_record_def sorted_fold_entries split: log_record.splits)

lemma log_inv_flush:
  assumes "log_inv D J s" "actor_flush D J s = Inr s'"
  shows "log_inv D J s'"
proof -
  from assms(1) obtain recs where recs: "log_written D J s recs" by (auto simp: log_inv_def)
  have s': "s' = s\<lparr>lg_journal := lg_journal s @ journal_of D J (lg_queue s), lg_queue := []\<rparr>"
    using assms(2) actor_flush_ok [of J s D] recs by (simp add: log_written_def)
  have "log_written D J s' (recs @ lg_queue s)"
    unfolding s' using recs by (auto simp: log_written_def journal_of_append)
  then show ?thesis by (auto simp: log_inv_def)
qed

text \<open>A record that is written before the in-memory log changes by it.\<close>

lemma log_inv_record:
  assumes inv: "log_inv D J s" and ok: "records_ok J [r]" and p: "persist_record D J r s = Inr s1"
    and new: "ls_entries st = rl_entries (apply_log_record r
        \<lparr> rl_entries = ls_entries (lg_state s), rl_last_purged = ld_last_purged (ls_metadata (lg_state s)) \<rparr>)"
      "ld_last_purged (ls_metadata st) = rl_last_purged (apply_log_record r
        \<lparr> rl_entries = ls_entries (lg_state s), rl_last_purged = ld_last_purged (ls_metadata (lg_state s)) \<rparr>)"
      "ld_committed (ls_metadata st) = ld_committed (ls_metadata (lg_state s))"
      "ld_vote (ls_metadata st) = ld_vote (ls_metadata (lg_state s))"
  shows "log_inv D J (s1\<lparr>lg_state := st\<rparr>)"
proof -
  from inv obtain recs where recs: "log_written D J s recs" by (auto simp: log_inv_def)
  have "records_ok J (lg_queue (s\<lparr>lg_queue := lg_queue s @ [r]\<rparr>))" using recs ok by (simp add: log_written_def)
  then have s1: "s1 = s\<lparr>lg_journal := lg_journal s @ journal_of D J (lg_queue s @ [r]), lg_queue := []\<rparr>"
    using p actor_flush_ok [of J "s\<lparr>lg_queue := lg_queue s @ [r]\<rparr>" D] by (simp add: persist_record_def)
  have view: "\<lparr> rl_entries = ls_entries (lg_state s), rl_last_purged = ld_last_purged (ls_metadata (lg_state s)) \<rparr>
      = log_view (recs @ lg_queue s)"
    using recs by (simp add: log_written_def)
  have snoc: "log_view (recs @ lg_queue s @ [r]) = apply_log_record r (log_view (recs @ lg_queue s))"
    using log_view_snoc [of "recs @ lg_queue s" r] by simp
  have purged: "rl_last_purged v \<noteq> None \<Longrightarrow> rl_last_purged (apply_log_record r v) \<noteq> None" for v
    by (auto simp: apply_log_record_def split: log_record.splits)
  have "sorted_keys (rl_entries (apply_log_record r (log_view (recs @ lg_queue s))))"
    using recs by (intro sorted_apply_record) (auto simp: log_written_def)
  moreover have "ld_last_purged (lg_image s) \<noteq> None \<longrightarrow>
      rl_last_purged (apply_log_record r (log_view (recs @ lg_queue s))) \<noteq> None"
    using recs purged by (simp add: log_written_def)
  ultimately have "log_written D J (s1\<lparr>lg_state := st\<rparr>) (recs @ lg_queue s @ [r])"
    unfolding s1 using recs ok new [unfolded view] by (simp add: log_written_def journal_of_append snoc)
  then show ?thesis by (auto simp: log_inv_def)
qed

lemma log_inv_dispatch:
  assumes "log_inv D J s" "records_ok J [LogAppend entries]"
  shows "log_inv D J (snd (dispatch_append accepted entries s))"
proof (cases accepted)
  case True
  from assms(1) obtain recs where recs: "log_written D J s recs" by (auto simp: log_inv_def)
  have snoc: "log_view (recs @ lg_queue s @ [LogAppend entries]) = apply_log_record (LogAppend entries) (log_view (recs @ lg_queue s))"
    using log_view_snoc [of "recs @ lg_queue s" "LogAppend entries"] by simp
  have "log_written D J (snd (dispatch_append accepted entries s)) recs"
    using True recs assms(2)
    by (auto simp: log_written_def dispatch_append_def Let_def snoc apply_log_record_def sorted_fold_entries)
  then show ?thesis by (auto simp: log_inv_def)
next
  case False
  then have "snd (dispatch_append accepted entries s) = s"
    using rollback_exact [of "ls_entries (lg_state s)" entries] assms(1)
    by (auto simp: dispatch_append_def Let_def log_inv_def log_written_def)
  then show ?thesis using assms(1) by simp
qed

lemma log_inv_metadata:
  assumes "log_inv D J s" "persist_metadata persisted metadata s = Inr s'"
    and "ld_last_purged metadata = ld_last_purged (ls_metadata (lg_state s))"
  shows "log_inv D J s'"
  using assms unfolding log_inv_def log_written_def persist_metadata_def by (auto split: if_splits)

definition journal_grows :: "log_store \<Rightarrow> log_store \<Rightarrow> bool" where
  "journal_grows s t \<longleftrightarrow> (\<exists>x. lg_journal t = lg_journal s @ x)"

lemma actor_flush_grows: "actor_flush D J s = Inr s' \<Longrightarrow> journal_grows s s' \<and> lg_state s' = lg_state s"
proof -
  have "write_frames D J rs j = Inr j' \<Longrightarrow> \<exists>x. j' = j @ x" for rs j j'
    by (induction rs arbitrary: j) (fastforce simp: write_log_frame_def split: option.splits if_splits)+
  then show "actor_flush D J s = Inr s' \<Longrightarrow> journal_grows s s' \<and> lg_state s' = lg_state s"
    by (auto simp: actor_flush_def journal_grows_def)
qed

lemma persist_record_grows: "persist_record D J r s = Inr s' \<Longrightarrow> journal_grows s s' \<and> lg_state s' = lg_state s"
  using actor_flush_grows [of D J "s\<lparr>lg_queue := lg_queue s @ [r]\<rparr>"]
  by (simp add: persist_record_def journal_grows_def)

lemma log_step_inv:
  assumes "log_inv D J s" "log_step D J s s'"
  shows "log_inv D J s' \<and> journal_grows s s'"
  using assms(2,1)
proof (cases rule: log_step.cases)
  case (log_dispatch entries accepted)
  then show ?thesis using assms(1) log_inv_dispatch [of D J s entries accepted]
    by (auto simp: journal_grows_def dispatch_append_def Let_def)
next
  case log_flush
  then show ?thesis using assms(1) log_inv_flush actor_flush_grows by blast
next
  case (log_truncated lid)
  then obtain s1 where "persist_record D J (LogTruncate (li_index lid)) s = Inr s1"
      "s' = s1\<lparr>lg_state := (lg_state s1)\<lparr>ls_entries := bt_below (li_index lid) (ls_entries (lg_state s1))\<rparr>\<rparr>"
    by (auto simp: log_truncate_def)
  then show ?thesis
    using log_inv_record [OF assms(1) log_truncated(1)] persist_record_grows
    by (fastforce simp: apply_log_record_def journal_grows_def)
next
  case (log_purged lid)
  then obtain s1 where "persist_record D J (LogPurge lid) s = Inr s1"
      "s' = s1\<lparr>lg_state := \<lparr> ls_metadata = (ls_metadata (lg_state s1))\<lparr>ld_last_purged := Some lid\<rparr>,
                            ls_entries = bt_split_off (li_index lid + 1) (ls_entries (lg_state s1)) \<rparr>\<rparr>"
    by (auto simp: log_purge_def)
  then show ?thesis
    using log_inv_record [OF assms(1) log_purged(1)] persist_record_grows
    by (fastforce simp: apply_log_record_def journal_grows_def)
next
  case (log_voted persisted vote)
  then show ?thesis
    using log_inv_metadata [OF assms(1)] by (fastforce simp: save_vote_def persist_metadata_def journal_grows_def split: if_splits)
next
  case (log_committed persisted committed)
  then show ?thesis
    using log_inv_metadata [OF assms(1)] by (fastforce simp: save_committed_def persist_metadata_def journal_grows_def split: if_splits)
qed

definition log_start :: "log_store \<Rightarrow> bool" where
  "log_start s \<longleftrightarrow> s = log_store_new"

interpretation lg: step_system log_start "log_step D J" "log_inv D J" journal_grows for D J
proof unfold_locales
  show "log_start s \<Longrightarrow> log_inv D J s" for s
    by (auto simp: log_start_def log_store_new_def Let_def log_inv_def log_written_def log_view_def recovered_default_def
        records_ok_def intro!: exI [of _ "[]"])
qed (auto simp: log_step_inv, auto simp: journal_grows_def)

subsection \<open>Properties\<close>

lemma log_open_journal:
  assumes "digest_ok D" "records_ok J recs" "length (journal_of D J recs) + 12 + length b < u64_bound" "n < 12 + length b"
  shows "recover_log_records D J (journal_of D J recs @ take n (frame_bytes D b)) = Inr (log_view recs, journal_of D J recs)"
  using replay_journal [OF assms(1,2), of 0] replay_torn [OF assms(4), of "length (journal_of D J recs)"] assms(3)
  by (simp add: recover_log_records_def log_view_def)

text \<open>C24: Crash recovery of the journal. Replaying the frames of any sequence of records followed by an
  interrupted frame, cut anywhere, succeeds with exactly those records applied in order, and cuts the
  file back to the last complete frame.\<close>

theorem journal_recovery:
  assumes "digest_ok D" "records_ok J recs" "length (journal_of D J recs) + 12 + length b < u64_bound" "n < 12 + length b"
  shows "recover_log_records D J (journal_of D J recs @ take n (frame_bytes D b)) =
     Inr (fold apply_log_record recs recovered_default, journal_of D J recs)"
  using log_open_journal [OF assms] by (simp add: log_view_def)

definition ex_json :: json where
  "ex_json = \<lparr> j_enc = (\<lambda>r. if r = LogAppend [] then Some [9] else if r = LogTruncate 5 then Some [8, 8] else None),
     j_dec = (\<lambda>b. if b = [9] then Some (LogAppend []) else if b = [8, 8] then Some (LogTruncate 5) else None) \<rparr>"

lemma ex_json_ok: "records_ok ex_json [LogAppend [], LogTruncate 5]"
  by (simp add: records_ok_def ex_json_def)

theorem journal_recovery_witness:
  "recover_log_records xor_deps ex_json
     (journal_of xor_deps ex_json [LogAppend [], LogTruncate 5] @ take 10 (frame_bytes xor_deps [9])) =
   Inr (fold apply_log_record [LogAppend [], LogTruncate 5] recovered_default,
        journal_of xor_deps ex_json [LogAppend [], LogTruncate 5])"
  by (rule journal_recovery [OF xor_digest_ok ex_json_ok]) (simp_all add: ex_json_def)



lemma batch_barriers_props:
  "distinct bs \<Longrightarrow> distinct (batch_barriers batch bs)"
  "set (batch_barriers batch bs) = set bs \<union> {p. (Some p, Inr ()) \<in> set batch}"
proof (induction batch arbitrary: bs)
  case (Cons r batch)
  obtain barrier outcome where r: "r = (barrier, outcome)" by (cases r)
  { case 1 then show ?case using Cons r by (cases barrier; cases outcome) auto }
  { case 2 then show ?case using Cons r by (cases barrier; cases outcome) auto }
qed auto

lemma find_failed:
  "map_option snd (find (\<lambda>f. fst f = p) (filter_map (\<lambda>p. case sync p of Inl e \<Rightarrow> Some (p, e) | Inr _ \<Rightarrow> None) ps)) =
     (if p \<in> set ps then (case sync p of Inl e \<Rightarrow> Some e | Inr _ \<Rightarrow> None) else None)"
  by (induction ps) (auto split: sum.splits)

text \<open>C25: Group commit acknowledges exactly what is durable. For every drained batch, a request is
  acknowledged iff its own write succeeded and the one flush of its file succeeded; every other request
  gets its own error, and each file of the batch is flushed once.\<close>

theorem group_commit_sound:
  "commit_batch sync_batch batch =
     map (\<lambda>(barrier, outcome).
       case outcome of
         Inl e \<Rightarrow> Inl e
       | Inr _ \<Rightarrow> (case barrier of None \<Rightarrow> Inr () | Some p \<Rightarrow> sync_batch p)) batch \<and>
   distinct (batch_barriers batch [])"
proof -
  have "commit_batch sync_batch batch =
     map (\<lambda>(barrier, outcome).
       case outcome of
         Inl e \<Rightarrow> Inl e
       | Inr _ \<Rightarrow> (case barrier of None \<Rightarrow> Inr () | Some p \<Rightarrow> sync_batch p)) batch"
    unfolding commit_batch_def Let_def
  proof (rule map_cong [OF refl])
    fix r assume r: "r \<in> set batch"
    obtain barrier outcome where b: "r = (barrier, outcome)" by (cases r)
    then show "(case r of (barrier, outcome) \<Rightarrow>
         case (outcome, Option.bind barrier (\<lambda>p. map_option snd (find (\<lambda>f. fst f = p)
           (filter_map (\<lambda>p. case sync_batch p of Inl e \<Rightarrow> Some (p, e) | Inr _ \<Rightarrow> None) (batch_barriers batch []))))) of
           (Inl a, x) \<Rightarrow> outcome | (Inr a, None) \<Rightarrow> outcome | (Inr a, Some e) \<Rightarrow> Inl e) =
       (case r of (barrier, outcome) \<Rightarrow>
         case outcome of Inl e \<Rightarrow> Inl e | Inr _ \<Rightarrow> (case barrier of None \<Rightarrow> Inr () | Some p \<Rightarrow> sync_batch p))"
      using r by (cases outcome; cases barrier)
        (auto simp: find_failed batch_barriers_props(2) split: sum.splits)
  qed
  then show ?thesis using batch_barriers_props(1) [of "[]" batch] by simp
qed

end
