(* ===== verification/Durable.thy ===== *)
theory Durable
  imports Simulated "HOL-Library.List_Lexorder"
begin

section \<open>The durable group\<close>

text \<open>
  \<open>crates/verglas-consensus/src/durable.rs\<close>: the file format of one voter's record (a fixed
  header and one representation, each with a trailing CRC32C), the group that writes those records
  before it acknowledges, and its recovery. The directory of a voter is a map from index to the
  optional contents of its two files; each write of a record has one of the four outcomes of
  \<open>persist_outcome\<close>, chosen by the environment. The recovery loop takes fuel; one more unit than
  the highest stored index is enough, because the loop stops at the first index without records.
\<close>

subsection \<open>Headers\<close>

record durable_header =
  dh_index :: nat
  dh_term :: nat
  dh_mode :: replication_mode
  dh_kind :: command_kind
  dh_length :: nat
  dh_hash :: hash
  dh_request :: request_id
  dh_writer_epoch :: "nat option"
  dh_k :: nat
  dh_n :: nat

definition checksummed :: "deps \<Rightarrow> bytes \<Rightarrow> bytes" where
  "checksummed D bs = bs @ be_bytes 4 (crc32c D bs)"

definition validate_checksummed :: "deps \<Rightarrow> bytes \<Rightarrow> consensus_error + bytes" where
  "validate_checksummed D bs =
     (if length bs < 4 then Inl DurabilityUnavailable
      else
        (let body = take (length bs - 4) bs; found = of_be (drop (length bs - 4) bs) in
         if crc32c D body \<noteq> found then Inl DurabilityUnavailable else Inr body))"

fun mode_byte :: "replication_mode \<Rightarrow> byte" where
  "mode_byte Coded = 0"
| "mode_byte Complete = 1"

fun kind_byte :: "command_kind \<Rightarrow> byte" where
  "kind_byte command_kind.Catalog = 0"
| "kind_byte Wal = 1"
| "kind_byte WriterLease = 2"
| "kind_byte ArchiveCheckpoint = 3"
| "kind_byte ReleaseWriter = 4"
| "kind_byte Object = 5"
| "kind_byte TenantRoot = 6"
| "kind_byte TimelineOpen = 7"
| "kind_byte CatalogCheckpoint = 8"
| "kind_byte WalArchiveBinding = 9"

definition header_fields :: "durable_header \<Rightarrow> bytes" where
  "header_fields h =
     be_bytes 8 (dh_index h) @ be_bytes 8 (dh_term h) @ [mode_byte (dh_mode h), kind_byte (dh_kind h)] @
     be_bytes 8 (dh_length h) @ dh_hash h @ be_bytes 16 (dh_request h) @
     [if dh_writer_epoch h \<noteq> None then 1 else 0] @
     be_bytes 8 (case dh_writer_epoch h of None \<Rightarrow> 0 | Some e \<Rightarrow> e) @
     be_bytes 8 (dh_k h) @ be_bytes 8 (dh_n h)"

definition header_encode :: "deps \<Rightarrow> durable_header \<Rightarrow> bytes" where
  "header_encode D h = checksummed D (header_fields h)"

definition byte_mode :: "byte \<Rightarrow> consensus_error + replication_mode" where
  "byte_mode b = (if b = 0 then Inr Coded else if b = 1 then Inr Complete else Inl DurabilityUnavailable)"

definition byte_kind :: "byte \<Rightarrow> consensus_error + command_kind" where
  "byte_kind b =
     (if b = 0 then Inr command_kind.Catalog else if b = 1 then Inr Wal else if b = 2 then Inr WriterLease
      else if b = 3 then Inr ArchiveCheckpoint else if b = 4 then Inr ReleaseWriter else if b = 5 then Inr Object
      else if b = 6 then Inr TenantRoot else if b = 7 then Inr TimelineOpen else if b = 8 then Inr CatalogCheckpoint
      else if b = 9 then Inr WalArchiveBinding else Inl DurabilityUnavailable)"

definition header_decode :: "deps \<Rightarrow> bytes \<Rightarrow> consensus_error + durable_header" where
  "header_decode D bytes =
     and_then (validate_checksummed D bytes) (\<lambda>b.
     if length b \<noteq> 99 then Inl DurabilityUnavailable
     else
       and_then (byte_mode (b ! 16)) (\<lambda>mode.
       and_then (byte_kind (b ! 17)) (\<lambda>kind.
       and_then (if b ! 74 = 0 then Inr None
                 else if b ! 74 = 1 then Inr (Some (of_be (slice 75 83 b)))
                 else Inl DurabilityUnavailable) (\<lambda>epoch.
       Inr \<lparr> dh_index = of_be (slice 0 8 b), dh_term = of_be (slice 8 16 b), dh_mode = mode, dh_kind = kind,
             dh_length = of_be (slice 18 26 b), dh_hash = slice 26 58 b, dh_request = of_be (slice 58 74 b),
             dh_writer_epoch = epoch, dh_k = of_be (slice 83 91 b), dh_n = of_be (slice 91 99 b) \<rparr>))))"

definition durable_header_wf :: "durable_header \<Rightarrow> bool" where
  "durable_header_wf h \<longleftrightarrow>
     dh_index h < u64_bound \<and> dh_term h < u64_bound \<and> dh_length h < u64_bound \<and> length (dh_hash h) = 32 \<and>
     dh_request h < u128_bound \<and> (\<forall>e. dh_writer_epoch h = Some e \<longrightarrow> e < u64_bound) \<and>
     dh_k h < u64_bound \<and> dh_n h < u64_bound"

subsection \<open>One voter's files\<close>

record entry_files =
  ef_header :: "bytes option"
  ef_fragment :: "bytes option"

type_synonym file_replica = "(nat, entry_files) btree"

datatype persist_outcome = Persisted | NothingWritten | HeaderWritten | BothWritten

definition entry_at :: "nat \<Rightarrow> file_replica \<Rightarrow> entry_files" where
  "entry_at index files =
     (case map_of files index of None \<Rightarrow> \<lparr> ef_header = None, ef_fragment = None \<rparr> | Some e \<Rightarrow> e)"

definition replica_persist :: "deps \<Rightarrow> persist_outcome \<Rightarrow> durable_header \<Rightarrow> nat \<Rightarrow> bytes \<Rightarrow> file_replica
    \<Rightarrow> (consensus_error + unit) \<times> file_replica" where
  "replica_persist D outcome h slot fragment files =
     (let e = entry_at (dh_index h) files;
          with_header = e\<lparr>ef_header := Some (header_encode D h)\<rparr>;
          with_both = with_header\<lparr>ef_fragment := Some (checksummed D (be_bytes 8 slot @ fragment))\<rparr>
      in case outcome of
           Persisted \<Rightarrow> (Inr (), bt_insert (dh_index h) with_both files)
         | NothingWritten \<Rightarrow> (Inl DurabilityUnavailable, files)
         | HeaderWritten \<Rightarrow> (Inl DurabilityUnavailable, bt_insert (dh_index h) with_header files)
         | BothWritten \<Rightarrow> (Inl DurabilityUnavailable, bt_insert (dh_index h) with_both files))"

definition replica_load :: "deps \<Rightarrow> nat \<Rightarrow> file_replica \<Rightarrow> consensus_error + (durable_header \<times> bytes)" where
  "replica_load D index files =
     (let e = entry_at index files in
      and_then (ok_or DurabilityUnavailable (ef_header e)) (\<lambda>raw.
      and_then (header_decode D raw) (\<lambda>h.
      and_then (ok_or DurabilityUnavailable (ef_fragment e)) (\<lambda>stored.
      and_then (validate_checksummed D stored) (\<lambda>fragment.
      if length fragment < 8 then Inl DurabilityUnavailable else Inr (h, fragment))))))"

subsection \<open>The group\<close>

record durable_group =
  dg_config :: group_config
  dg_replicas :: "(node_id, file_replica) btree"
  dg_leader :: "node_id option"
  dg_term :: nat
  dg_commit :: nat
  dg_retries :: "(request_id, hash \<times> nat option \<times> nat) btree"
  dg_writer_epoch :: nat

abbreviation dg_voters :: "durable_group \<Rightarrow> node_id list" where
  "dg_voters s \<equiv> gc_voters (dg_config s)"

definition replica_map :: "group_config \<Rightarrow> (node_id \<times> file_replica) list
    \<Rightarrow> consensus_error + (node_id, file_replica) btree" where
  "replica_map config replicas =
     (let m = bt_of_list replicas in
      if list_all (\<lambda>v. map_of m v \<noteq> None) (gc_voters config) then Inr m else Inl DurabilityUnavailable)"

definition empty_group :: "group_config \<Rightarrow> (node_id, file_replica) btree \<Rightarrow> durable_group" where
  "empty_group config replicas =
     \<lparr> dg_config = config, dg_replicas = replicas, dg_leader = None, dg_term = 0, dg_commit = 0,
       dg_retries = [], dg_writer_epoch = 0 \<rparr>"

definition durable_bootstrap :: "group_config \<Rightarrow> (node_id \<times> file_replica) list \<Rightarrow> consensus_error + durable_group" where
  "durable_bootstrap config replicas =
     and_then (replica_map config replicas) (\<lambda>m. Inr (empty_group config m))"

definition durable_elect :: "durable_group \<Rightarrow> node_id \<Rightarrow> node_id list \<Rightarrow> consensus_error + (nat \<times> durable_group)" where
  "durable_elect s leader reachable =
     (if map_of (dg_replicas s) leader = None \<or> distinct_members (dg_voters s) reachable < majority (length (dg_voters s))
      then Inl ElectionQuorumUnavailable
      else Inr (dg_term s + 1, s\<lparr>dg_term := dg_term s + 1, dg_leader := Some leader\<rparr>))"

text \<open>Counts the encodings of the records and keeps the last one with the highest count.\<close>

definition header_counts :: "deps \<Rightarrow> (durable_header \<times> bytes) list \<Rightarrow> (bytes, nat) btree" where
  "header_counts D records =
     fold (\<lambda>(h, _) counts.
       let raw = header_encode D h in
       bt_insert raw ((case map_of counts raw of None \<Rightarrow> 0 | Some c \<Rightarrow> c) + 1) counts) records []"

definition max_by_count :: "(bytes \<times> nat) list \<Rightarrow> (bytes \<times> nat) option" where
  "max_by_count counts =
     fold (\<lambda>x best. case best of None \<Rightarrow> Some x | Some b \<Rightarrow> if snd b \<le> snd x then Some x else Some b) counts None"

definition agreed_header :: "deps \<Rightarrow> (durable_header \<times> bytes) list \<Rightarrow> nat \<Rightarrow> consensus_error + durable_header" where
  "agreed_header D records required =
     and_then (ok_or ReconstructionUnavailable (max_by_count (header_counts D records))) (\<lambda>(raw, count).
       if count < required then Inl ReconstructionUnavailable else header_decode D raw)"

definition durable_reconstruct :: "deps \<Rightarrow> group_config \<Rightarrow> durable_header \<Rightarrow> (durable_header \<times> bytes) list
    \<Rightarrow> consensus_error + bytes" where
  "durable_reconstruct D config header records =
     (if dh_k header \<noteq> gc_k config \<or> dh_n header \<noteq> length (gc_voters config) then Inl ReconstructionUnavailable
      else
        (let matched = filter (\<lambda>(h, _). dh_index h = dh_index header \<and> dh_hash h = dh_hash header
                                 \<and> dh_mode h = dh_mode header) records in
         if dh_mode header = Complete
         then
           (case matched of
              [] \<Rightarrow> Inl ReconstructionUnavailable
            | (_, raw) # _ \<Rightarrow>
                (let body = drop 8 raw in
                 if length body = dh_length header \<and> sha256 D body = dh_hash header then Inr body
                 else Inl ReconstructionUnavailable))
         else
           (let parts = filter_map (\<lambda>(_, b).
                  let slot = of_be (take 8 b) in
                  if slot < dh_n header then Some (slot, drop 8 b) else None) matched
            in and_then (decode D (gc_k config) (length (gc_voters config) - gc_k config) (dh_length header) parts)
                 (\<lambda>body. if sha256 D body = dh_hash header then Inr body else Inl ReconstructionUnavailable))))"

definition load_records :: "deps \<Rightarrow> nat \<Rightarrow> file_replica list \<Rightarrow> (durable_header \<times> bytes) list" where
  "load_records D index replicas = filter_map (\<lambda>files. ok (replica_load D index files)) replicas"

definition durable_read_committed :: "deps \<Rightarrow> durable_group \<Rightarrow> nat \<Rightarrow> consensus_error + bytes" where
  "durable_read_committed D s index =
     (if index = 0 \<or> index > dg_commit s then Inl ReconstructionUnavailable
      else
        (let records = load_records D index (bt_vals (dg_replicas s)) in
         and_then (agreed_header D records (majority (length (dg_voters s)))) (\<lambda>header.
           durable_reconstruct D (dg_config s) header records)))"

text \<open>One round of the recovery loop: what it does with the records of the next index.\<close>

definition recover_round :: "deps \<Rightarrow> (durable_header \<times> bytes) list \<Rightarrow> durable_group \<Rightarrow> consensus_error + durable_group" where
  "recover_round D records g =
     and_then (agreed_header D records (majority (length (dg_voters g)))) (\<lambda>header.
     and_then (durable_reconstruct D (dg_config g) header records) (\<lambda>body.
     if sha256 D body \<noteq> dh_hash header then Inl ReconstructionUnavailable
     else
       (let g' = g\<lparr>dg_retries := bt_insert (dh_request header)
                    (dh_hash header, dh_writer_epoch header, dg_commit g + 1) (dg_retries g)\<rparr> in
        and_then (if dh_kind header = WriterLease
                  then and_then (ok_or ReconstructionUnavailable (dh_writer_epoch header))
                         (\<lambda>epoch. Inr (g'\<lparr>dg_writer_epoch := epoch\<rparr>))
                  else Inr g')
          (\<lambda>g'. Inr (g'\<lparr>dg_commit := dg_commit g + 1\<rparr>)))))"

definition next_records :: "deps \<Rightarrow> node_id list \<Rightarrow> durable_group \<Rightarrow> (durable_header \<times> bytes) list" where
  "next_records D reachable g = load_records D (dg_commit g + 1) (filter_map (\<lambda>node. map_of (dg_replicas g) node) reachable)"

fun recover_loop :: "deps \<Rightarrow> nat \<Rightarrow> node_id list \<Rightarrow> durable_group \<Rightarrow> (consensus_error + durable_group) option" where
  "recover_loop D 0 reachable g = None"
| "recover_loop D (Suc fuel) reachable g =
     (if next_records D reachable g = [] then Some (Inr g)
      else case recover_round D (next_records D reachable g) g of
             Inl e \<Rightarrow> Some (Inl e)
           | Inr g' \<Rightarrow> recover_loop D fuel reachable g')"

definition durable_recover :: "deps \<Rightarrow> nat \<Rightarrow> group_config \<Rightarrow> (node_id \<times> file_replica) list \<Rightarrow> node_id list
    \<Rightarrow> (consensus_error + durable_group) option" where
  "durable_recover D fuel config replicas reachable =
     (if distinct_members (gc_voters config) reachable < majority (length (gc_voters config))
      then Some (Inl ElectionQuorumUnavailable)
      else recover_loop D fuel reachable (empty_group config (bt_of_list replicas)))"

text \<open>The loop that writes the durable voters in order and stops at the first failure.\<close>

fun persist_parts :: "deps \<Rightarrow> (node_id \<Rightarrow> persist_outcome) \<Rightarrow> durable_header \<Rightarrow> node_id list \<Rightarrow> bytes list
    \<Rightarrow> (nat \<times> node_id) list \<Rightarrow> (node_id, file_replica) btree \<Rightarrow> (consensus_error + unit) \<times> (node_id, file_replica) btree" where
  "persist_parts D outcome h durable parts [] replicas = (Inr (), replicas)"
| "persist_parts D outcome h durable parts ((slot, node) # rest) replicas =
     (if node \<in> set durable
      then
        (case map_of replicas node of
           None \<Rightarrow> (Inl WriteQuorumUnavailable, replicas)
         | Some files \<Rightarrow>
             (case replica_persist D (outcome node) h slot (parts ! slot) files of
                (Inl e, files') \<Rightarrow> (Inl e, bt_insert node files' replicas)
              | (Inr _, files') \<Rightarrow> persist_parts D outcome h durable parts rest (bt_insert node files' replicas)))
      else persist_parts D outcome h durable parts rest replicas)"

definition durable_fence :: "durable_group \<Rightarrow> proposal \<Rightarrow> consensus_error + unit" where
  "durable_fence s p =
     (case pr_writer_epoch p of
        Some actual \<Rightarrow>
          if pr_kind p = Wal \<and> actual \<noteq> dg_writer_epoch s
          then Inl (StaleWriterEpoch (dg_writer_epoch s) actual) else Inr ()
      | None \<Rightarrow> Inr ())"

definition durable_entry :: "nat \<Rightarrow> replication_mode \<Rightarrow> proposal \<Rightarrow> hash \<Rightarrow> committed_entry" where
  "durable_entry index mode p digest =
     \<lparr> ce_index = index, ce_mode = mode, ce_kind = pr_kind p, ce_payload = pr_payload p, ce_hash = digest,
       ce_fragments = [] \<rparr>"

definition proposed_header :: "deps \<Rightarrow> durable_group \<Rightarrow> proposal \<Rightarrow> replication_mode \<Rightarrow> durable_header" where
  "proposed_header D s p mode =
     \<lparr> dh_index = dg_commit s + 1, dh_term = dg_term s, dh_mode = mode, dh_kind = pr_kind p,
       dh_length = length (pr_payload p), dh_hash = sha256 D (pr_payload p), dh_request = pr_request p,
       dh_writer_epoch = pr_writer_epoch p, dh_k = gc_k (dg_config s), dh_n = length (dg_voters s) \<rparr>"

definition durable_append :: "deps \<Rightarrow> (node_id \<Rightarrow> persist_outcome) \<Rightarrow> durable_group \<Rightarrow> node_id \<Rightarrow> proposal \<Rightarrow> node_id list
    \<Rightarrow> replication_mode \<Rightarrow> (consensus_error + committed_entry) \<times> durable_group" where
  "durable_append D outcome s ingress p durable mode =
     (if dg_leader s = None then (Inl ElectionQuorumUnavailable, s)
      else
        (let digest = sha256 D (pr_payload p); voters = dg_voters s in
         case map_of (dg_retries s) (pr_request p) of
           Some (old, epoch, index) \<Rightarrow>
             if old \<noteq> digest \<or> epoch \<noteq> pr_writer_epoch p then (Inl (ConflictingRetry (pr_request p)), s)
             else (Inr (durable_entry index mode p digest), s)
         | None \<Rightarrow>
             (let certified = distinct_members voters durable;
                  needed = length voters - majority (length voters) + gc_k (dg_config s) in
              case durable_fence s p of
                Inl e \<Rightarrow> (Inl e, s)
              | Inr _ \<Rightarrow>
                  if certified < majority (length voters) then (Inl WriteQuorumUnavailable, s)
                  else if mode = Coded \<and> certified < needed then (Inl (CodedQuorumUnavailable needed certified), s)
                  else
                    (let h = proposed_header D s p mode in
                     case (if mode = Coded then encode D (dh_k h) (dh_n h - dh_k h) (pr_payload p)
                           else Inr (map (\<lambda>_. pr_payload p) voters)) of
                       Inl e \<Rightarrow> (Inl e, s)
                     | Inr parts \<Rightarrow>
                         (case persist_parts D outcome h durable parts (enumerate 0 voters) (dg_replicas s) of
                            (Inl e, replicas) \<Rightarrow> (Inl e, s\<lparr>dg_replicas := replicas\<rparr>)
                          | (Inr _, replicas) \<Rightarrow>
                              (Inr (durable_entry (dh_index h) mode p digest),
                               s\<lparr>dg_replicas := replicas,
                                 dg_retries := bt_insert (pr_request p) (digest, pr_writer_epoch p, dh_index h) (dg_retries s),
                                 dg_commit := dh_index h\<rparr>))))))"

definition durable_acquire_writer :: "deps \<Rightarrow> (node_id \<Rightarrow> persist_outcome) \<Rightarrow> durable_group \<Rightarrow> node_id \<Rightarrow> request_id \<Rightarrow> string
    \<Rightarrow> node_id list \<Rightarrow> (consensus_error + nat) \<times> durable_group" where
  "durable_acquire_writer D outcome s ingress request writer durable =
     (let payload = as_bytes writer; digest = sha256 D payload in
      case map_of (dg_retries s) request of
        Some (old, epoch, _) \<Rightarrow>
          if old \<noteq> digest then (Inl (ConflictingRetry request), s)
          else (ok_or (ConflictingRetry request) epoch, s)
      | None \<Rightarrow>
          (let next_epoch = dg_writer_epoch s + 1;
               p = with_writer_epoch next_epoch (proposal_new request WriterLease payload)
           in case durable_append D outcome s ingress p durable Complete of
                (Inl e, s') \<Rightarrow> (Inl e, s')
              | (Inr _, s') \<Rightarrow> (Inr next_epoch, s'\<lparr>dg_writer_epoch := next_epoch\<rparr>)))"

definition durable_propose where
  "durable_propose D outcome s ingress p durable = durable_append D outcome s ingress p durable Coded"

definition durable_propose_complete where
  "durable_propose_complete D outcome s ingress p durable = durable_append D outcome s ingress p durable Complete"

subsection \<open>The record format\<close>

lemma validate_checksummed_ok [simp, wire]:
  assumes "digest_ok D" shows "validate_checksummed D (checksummed D bs) = Inr bs"
proof -
  have "crc32c D bs < 256 ^ 4" using assms by (simp add: digest_ok_def)
  then show ?thesis by (simp add: validate_checksummed_def checksummed_def Let_def)
qed

lemma byte_mode_mode [simp]: "byte_mode (mode_byte m) = Inr m"
  by (cases m) (simp_all add: byte_mode_def)

lemma byte_kind_kind [simp]: "byte_kind (kind_byte k) = Inr k"
  by (cases k) (simp_all add: byte_kind_def)

lemma length_header_fields: "length (dh_hash h) = 32 \<Longrightarrow> length (header_fields h) = 99"
  by (simp add: header_fields_def)

lemma header_fields_slices:
  assumes "length (dh_hash h) = 32"
  shows "slice 0 8 (header_fields h) = be_bytes 8 (dh_index h)"
    and "slice 8 16 (header_fields h) = be_bytes 8 (dh_term h)"
    and "header_fields h ! 16 = mode_byte (dh_mode h)" and "header_fields h ! 17 = kind_byte (dh_kind h)"
    and "slice 18 26 (header_fields h) = be_bytes 8 (dh_length h)"
    and "slice 26 58 (header_fields h) = dh_hash h"
    and "slice 58 74 (header_fields h) = be_bytes 16 (dh_request h)"
    and "header_fields h ! 74 = (if dh_writer_epoch h \<noteq> None then 1 else 0)"
    and "slice 75 83 (header_fields h) = be_bytes 8 (case dh_writer_epoch h of None \<Rightarrow> 0 | Some e \<Rightarrow> e)"
    and "slice 83 91 (header_fields h) = be_bytes 8 (dh_k h)"
    and "slice 91 99 (header_fields h) = be_bytes 8 (dh_n h)"
  using assms by (simp_all add: header_fields_def slice_def nth_append drop_Cons' take_Cons')

lemma header_decode_encode:
  assumes "digest_ok D" "durable_header_wf h"
  shows "header_decode D (header_encode D h) = Inr h"
proof -
  have wf: "length (dh_hash h) = 32" "dh_index h < 256 ^ 8" "dh_term h < 256 ^ 8" "dh_length h < 256 ^ 8"
      "dh_request h < 256 ^ 16" "dh_k h < 256 ^ 8" "dh_n h < 256 ^ 8"
      "\<And>e. dh_writer_epoch h = Some e \<Longrightarrow> e < 256 ^ 8"
    using assms(2) by (simp_all add: durable_header_wf_def)
  note slices = header_fields_slices [OF wf(1)]
  show ?thesis
    using assms(1) wf
    by (cases "dh_writer_epoch h")
      (simp_all add: header_decode_def header_encode_def length_header_fields slices)
qed

interpretation hdr: codec "header_encode D" "header_decode D" "\<lambda>h. digest_ok D \<and> durable_header_wf h" for D
  by unfold_locales (simp add: header_decode_encode)

subsection \<open>Agreement on a header\<close>

definition votes :: "deps \<Rightarrow> bytes \<Rightarrow> (durable_header \<times> bytes) list \<Rightarrow> nat" where
  "votes D raw records = length (filter (\<lambda>(h, _). header_encode D h = raw) records)"

lemma header_counts_step:
  fixes D records counts
  defines "f \<equiv> \<lambda>(h, _ :: bytes) counts. let raw = header_encode D h in
       bt_insert raw ((case map_of counts raw of None \<Rightarrow> 0 | Some c \<Rightarrow> c) + 1) counts"
  assumes "sorted_keys counts"
  shows "sorted_keys (fold f records counts) \<and>
     map_of (fold f records counts) raw =
       (if votes D raw records = 0 then map_of counts raw
        else Some ((case map_of counts raw of None \<Rightarrow> 0 | Some c \<Rightarrow> c) + votes D raw records))"
  using assms(2)
proof (induction records arbitrary: counts)
  case (Cons r records)
  obtain h b where r: "r = (h, b)" by (cases r)
  have "sorted_keys (f r counts)" using Cons.prems by (simp add: r f_def Let_def)
  from Cons.IH [OF this] show ?case
    by (auto simp: r f_def Let_def votes_def split: option.splits)
qed (simp add: votes_def)

lemma header_counts_props:
  "sorted_keys (header_counts D records)"
  "map_of (header_counts D records) raw = (if votes D raw records = 0 then None else Some (votes D raw records))"
  using header_counts_step [of "[]" D records raw] by (simp_all add: header_counts_def)

lemma max_by_count_fold:
  "\<exists>m. fold (\<lambda>x best. case best of None \<Rightarrow> Some x | Some b \<Rightarrow> if snd b \<le> snd x then Some x else Some b) xs (Some b)
      = Some m \<and> m \<in> insert b (set xs) \<and> (\<forall>y \<in> insert b (set xs). snd y \<le> (snd m :: nat))"
proof (induction xs arbitrary: b)
  case (Cons x xs)
  show ?case
  proof (cases "snd b \<le> snd x")
    case True
    with Cons [of x] show ?thesis by auto
  next
    case False
    with Cons [of b] show ?thesis by force
  qed
qed simp

lemma max_by_count_max:
  assumes "xs \<noteq> []"
  shows "\<exists>m. max_by_count xs = Some m \<and> m \<in> set xs \<and> (\<forall>y \<in> set xs. snd y \<le> snd m)"
proof -
  obtain x ys where xs: "xs = x # ys" using assms by (cases xs) auto
  show ?thesis using max_by_count_fold [of ys x] unfolding xs max_by_count_def by simp
qed

lemma votes_disjoint: "raw \<noteq> raw' \<Longrightarrow> votes D raw records + votes D raw' records \<le> length records"
  by (induction records) (auto simp: votes_def)

text \<open>A header with more than half of the records, and at least the required number, is the one agreed on.\<close>

lemma agreed_header_majority:
  assumes "digest_ok D" "durable_header_wf h" "required \<le> votes D (header_encode D h) records"
    and "length records < 2 * votes D (header_encode D h) records"
  shows "agreed_header D records required = Inr h"
proof -
  let ?raw = "header_encode D h" and ?c = "header_counts D records"
  have mine: "map_of ?c ?raw = Some (votes D ?raw records)" using assms(4) by (simp add: header_counts_props)
  then have "?c \<noteq> []" by auto
  then obtain m where m: "max_by_count ?c = Some m" "m \<in> set ?c" "\<forall>y \<in> set ?c. snd y \<le> snd m"
    using max_by_count_max by blast
  have entry: "map_of ?c (fst m) = Some (snd m)"
    using m(2) header_counts_props(1) [of D records] by (simp add: sorted_keys_mem [symmetric])
  have "(?raw, votes D ?raw records) \<in> set ?c" using mine by (rule map_of_SomeD)
  then have "votes D ?raw records \<le> snd m" using m(3) by (metis snd_conv)
  moreover have "snd m = votes D (fst m) records" using entry by (simp add: header_counts_props split: if_splits)
  ultimately have "fst m = ?raw" using votes_disjoint [of "fst m" ?raw D records] assms(4) by linarith
  then have "m = (?raw, votes D ?raw records)" using entry mine by (simp add: prod_eq_iff)
  then show ?thesis
    using m(1) assms(3) header_decode_encode [OF assms(1,2)] by (simp add: agreed_header_def)
qed

subsection \<open>Writing the durable voters\<close>

definition written :: "deps \<Rightarrow> durable_header \<Rightarrow> nat \<Rightarrow> bytes \<Rightarrow> entry_files" where
  "written D h slot fragment =
     \<lparr> ef_header = Some (header_encode D h), ef_fragment = Some (checksummed D (be_bytes 8 slot @ fragment)) \<rparr>"

lemma load_written:
  assumes "digest_ok D" "durable_header_wf h"
  shows "replica_load D (dh_index h) (bt_insert (dh_index h) (written D h slot fragment) files) =
     Inr (h, be_bytes 8 slot @ fragment)"
  using assms by (simp add: replica_load_def entry_at_def written_def header_decode_encode Let_def)

lemma persist_Inr:
  "replica_persist D outcome h slot fragment files = (Inr u, files') \<Longrightarrow>
     files' = bt_insert (dh_index h) (written D h slot fragment) files"
  by (cases outcome; cases "entry_at (dh_index h) files") (auto simp: replica_persist_def Let_def written_def)

lemma persist_parts_ok:
  assumes "persist_parts D outcome h durable parts sns reps = (Inr u, reps')" "distinct (map snd sns)"
  shows "(\<forall>(slot, node) \<in> set sns. node \<in> set durable \<longrightarrow>
       (\<exists>files. map_of reps node = Some files \<and>
          map_of reps' node = Some (bt_insert (dh_index h) (written D h slot (parts ! slot)) files))) \<and>
     (\<forall>node. node \<notin> set durable \<inter> snd ` set sns \<longrightarrow> map_of reps' node = map_of reps node)"
  using assms
proof (induction sns arbitrary: reps)
  case (Cons sn sns)
  obtain slot node where sn: "sn = (slot, node)" by (cases sn)
  show ?case
  proof (cases "node \<in> set durable")
    case False
    then show ?thesis using Cons sn by auto
  next
    case True
    then obtain files files' where f: "map_of reps node = Some files"
        "replica_persist D (outcome node) h slot (parts ! slot) files = (Inr (), files')"
        "persist_parts D outcome h durable parts sns (bt_insert node files' reps) = (Inr u, reps')"
      using Cons.prems(1) sn by (auto split: option.splits sum.splits prod.splits)
    have files': "files' = bt_insert (dh_index h) (written D h slot (parts ! slot)) files"
      by (rule persist_Inr [OF f(2)])
    have new: "node \<notin> snd ` set sns" using Cons.prems(2) sn by auto
    have "distinct (map snd sns)" using Cons.prems(2) by simp
    note IH = Cons.IH [OF f(3) this]
    have same: "map_of (bt_insert node files' reps) n = map_of reps n" if "n \<noteq> node" for n using that by simp
    have here: "map_of reps' node = Some files'" using IH new by simp
    show ?thesis
    proof (intro conjI ballI allI impI)
      fix x assume x: "x \<in> set (sn # sns)"
      obtain slot' node' where x': "x = (slot', node')" by (cases x)
      show "case x of (slot, node) \<Rightarrow> node \<in> set durable \<longrightarrow> (\<exists>files. map_of reps node = Some files \<and>
          map_of reps' node = Some (bt_insert (dh_index h) (written D h slot (parts ! slot)) files))"
      proof (cases "x = sn")
        case True
        then show ?thesis using x' sn f(1) here files' by simp
      next
        case False
        then have mem: "(slot', node') \<in> set sns" using x x' by simp
        then have "node' \<noteq> node" using new by force
        then show ?thesis using IH mem same x' by fastforce
      qed
    next
      fix n assume n: "n \<notin> set durable \<inter> snd ` set (sn # sns)"
      then have "n \<noteq> node" using True sn by auto
      moreover have "n \<notin> set durable \<inter> snd ` set sns" using n by auto
      ultimately show "map_of reps' n = map_of reps n" using IH same by simp
    qed
  qed
qed simp

subsection \<open>Invariant and steps\<close>

definition durable_wf :: "durable_group \<Rightarrow> bool" where
  "durable_wf s \<longleftrightarrow>
     sorted_wrt (<) (dg_voters s) \<and> dg_voters s \<noteq> [] \<and> 0 < gc_k (dg_config s) \<and>
     gc_k (dg_config s) \<le> majority (length (dg_voters s)) \<and>
     sorted_keys (dg_replicas s) \<and> bt_keys (dg_replicas s) = dg_voters s"

text \<open>Operations keep the records at and below the commit index as they are.\<close>

definition durable_ext :: "durable_group \<Rightarrow> durable_group \<Rightarrow> bool" where
  "durable_ext s t \<longleftrightarrow>
     dg_config t = dg_config s \<and> dg_commit s \<le> dg_commit t \<and> map_of (dg_retries s) \<subseteq>\<^sub>m map_of (dg_retries t) \<and>
     (\<forall>node i. i \<le> dg_commit s \<longrightarrow>
        map_option (entry_at i) (map_of (dg_replicas t) node) = map_option (entry_at i) (map_of (dg_replicas s) node))"

inductive durable_step :: "deps \<Rightarrow> durable_group \<Rightarrow> durable_group \<Rightarrow> bool" for D where
  durable_elected: "durable_elect s leader reachable = Inr (t, s') \<Longrightarrow> durable_step D s s'"
| durable_appended: "durable_step D s (snd (durable_append D outcome s ingress p durable mode))"
| durable_acquired: "durable_step D s (snd (durable_acquire_writer D outcome s ingress request writer durable))"

lemma entry_at_insert: "i \<noteq> j \<Longrightarrow> entry_at i (bt_insert j e files) = entry_at i files"
  by (simp add: entry_at_def)

lemma persist_frame:
  "i \<noteq> dh_index h \<Longrightarrow> entry_at i (snd (replica_persist D outcome h slot fragment files)) = entry_at i files"
  by (cases outcome) (simp_all add: replica_persist_def Let_def entry_at_insert)

lemma persist_parts_frame:
  assumes "sorted_keys reps"
  shows "sorted_keys (snd (persist_parts D outcome h durable parts sns reps)) \<and>
     bt_keys (snd (persist_parts D outcome h durable parts sns reps)) = bt_keys reps \<and>
     (\<forall>node i. i \<noteq> dh_index h \<longrightarrow>
        map_option (entry_at i) (map_of (snd (persist_parts D outcome h durable parts sns reps)) node) =
        map_option (entry_at i) (map_of reps node))"
  using assms
proof (induction sns arbitrary: reps)
  case (Cons sn sns)
  obtain slot node where sn: "sn = (slot, node)" by (cases sn)
  show ?case
  proof (cases "node \<in> set durable \<and> map_of reps node \<noteq> None")
    case False
    then show ?thesis using Cons sn by auto
  next
    case True
    then obtain files where files: "map_of reps node = Some files" by auto
    obtain r files' where r: "replica_persist D (outcome node) h slot (parts ! slot) files = (r, files')"
      by (cases "replica_persist D (outcome node) h slot (parts ! slot) files")
    have keys: "bt_keys (bt_insert node files' reps) = bt_keys reps" "sorted_keys (bt_insert node files' reps)"
      using Cons.prems files by (simp_all add: bt_keys_overwrite bt_keys_mem)
    have entries: "map_option (entry_at i) (map_of (bt_insert node files' reps) n) = map_option (entry_at i) (map_of reps n)"
      if "i \<noteq> dh_index h" for i n
      using files persist_frame [OF that, of D "outcome node" slot "parts ! slot" files] r by simp
    show ?thesis
      using True files r keys entries Cons.IH [OF keys(2)] sn by (cases r) auto
  qed
qed simp

lemma append_cases:
  obtains (unchanged) "snd (durable_append D outcome s ingress p durable mode) = s"
  | (failed) h parts e replicas where "dh_index h = dg_commit s + 1"
      "persist_parts D outcome h durable parts (enumerate 0 (dg_voters s)) (dg_replicas s) = (Inl e, replicas)"
      "durable_append D outcome s ingress p durable mode = (Inl e, s\<lparr>dg_replicas := replicas\<rparr>)"
  | (committed) parts replicas where
      "map_of (dg_retries s) (pr_request p) = None"
      "majority (length (dg_voters s)) \<le> distinct_members (dg_voters s) durable"
      "mode = Coded \<longrightarrow> length (dg_voters s) - majority (length (dg_voters s)) + gc_k (dg_config s)
         \<le> distinct_members (dg_voters s) durable"
      "(if mode = Coded then encode D (gc_k (dg_config s)) (length (dg_voters s) - gc_k (dg_config s)) (pr_payload p)
        else Inr (map (\<lambda>_. pr_payload p) (dg_voters s))) = Inr parts"
      "persist_parts D outcome (proposed_header D s p mode) durable parts (enumerate 0 (dg_voters s)) (dg_replicas s)
         = (Inr (), replicas)"
      "durable_append D outcome s ingress p durable mode =
        (Inr (durable_entry (dg_commit s + 1) mode p (sha256 D (pr_payload p))),
         s\<lparr>dg_replicas := replicas,
           dg_retries := bt_insert (pr_request p) (sha256 D (pr_payload p), pr_writer_epoch p, dg_commit s + 1) (dg_retries s),
           dg_commit := dg_commit s + 1\<rparr>)"
proof (cases "dg_leader s = None \<or> map_of (dg_retries s) (pr_request p) \<noteq> None \<or> (\<exists>e. durable_fence s p = Inl e) \<or>
    distinct_members (dg_voters s) durable < majority (length (dg_voters s)) \<or>
    mode = Coded \<and> distinct_members (dg_voters s) durable
      < length (dg_voters s) - majority (length (dg_voters s)) + gc_k (dg_config s)")
  case True
  then show thesis
    by (intro unchanged) (auto simp: durable_append_def Let_def split: option.splits sum.splits)
next
  case False
  let ?h = "proposed_header D s p mode"
  let ?enc = "if mode = Coded then encode D (gc_k (dg_config s)) (length (dg_voters s) - gc_k (dg_config s)) (pr_payload p)
        else Inr (map (\<lambda>_. pr_payload p) (dg_voters s))"
  have h: "dh_index ?h = dg_commit s + 1" "dh_k ?h = gc_k (dg_config s)" "dh_n ?h = length (dg_voters s)"
    by (simp_all add: proposed_header_def)
  have none: "map_of (dg_retries s) (pr_request p) = None" and leader: "(dg_leader s = None) = False"
    using False by blast+
  obtain u where fence: "durable_fence s p = Inr u" using False by (cases "durable_fence s p") auto
  have eq: "durable_append D outcome s ingress p durable mode =
      (case ?enc of
         Inl e \<Rightarrow> (Inl e, s)
       | Inr parts \<Rightarrow>
           (case persist_parts D outcome ?h durable parts (enumerate 0 (dg_voters s)) (dg_replicas s) of
              (Inl e, replicas) \<Rightarrow> (Inl e, s\<lparr>dg_replicas := replicas\<rparr>)
            | (Inr _, replicas) \<Rightarrow>
                (Inr (durable_entry (dg_commit s + 1) mode p (sha256 D (pr_payload p))),
                 s\<lparr>dg_replicas := replicas,
                   dg_retries := bt_insert (pr_request p) (sha256 D (pr_payload p), pr_writer_epoch p, dg_commit s + 1)
                     (dg_retries s),
                   dg_commit := dg_commit s + 1\<rparr>)))"
    unfolding durable_append_def Let_def h fence none leader using False by auto
  show thesis
  proof (cases ?enc)
    case (Inl e)
    then show thesis using eq by (intro unchanged) simp
  next
    case (Inr parts)
    obtain r replicas where r: "persist_parts D outcome ?h durable parts (enumerate 0 (dg_voters s)) (dg_replicas s)
        = (r, replicas)"
      by (cases "persist_parts D outcome ?h durable parts (enumerate 0 (dg_voters s)) (dg_replicas s)")
    show thesis
    proof (cases r)
      case (Inl e)
      with eq \<open>?enc = Inr parts\<close> h r show thesis by (intro failed [of ?h parts e replicas]) simp_all
    next
      case (Inr x)
      with eq \<open>?enc = Inr parts\<close> r False none show thesis
        by (intro committed [of parts replicas]) (simp_all add: not_less)
    qed
  qed
qed

lemma commit_changes: "s\<lparr>dg_replicas := a, dg_retries := b, dg_commit := dh_index (proposed_header D s p mode)\<rparr> \<noteq> s"
  by (cases s) (simp add: proposed_header_def)

lemma append_committed:
  assumes "durable_append D outcome s ingress p durable mode = (Inr entry, s')" "map_of (dg_retries s) (pr_request p) = None"
  obtains parts replicas where
      "majority (length (dg_voters s)) \<le> distinct_members (dg_voters s) durable"
      "mode = Coded \<longrightarrow> length (dg_voters s) - majority (length (dg_voters s)) + gc_k (dg_config s)
         \<le> distinct_members (dg_voters s) durable"
      "(if mode = Coded then encode D (gc_k (dg_config s)) (length (dg_voters s) - gc_k (dg_config s)) (pr_payload p)
        else Inr (map (\<lambda>_. pr_payload p) (dg_voters s))) = Inr parts"
      "persist_parts D outcome (proposed_header D s p mode) durable parts (enumerate 0 (dg_voters s)) (dg_replicas s)
         = (Inr (), replicas)"
      "ce_index entry = dg_commit s + 1" "dg_replicas s' = replicas" "dg_commit s' = dg_commit s + 1"
      "dg_config s' = dg_config s"
proof (rule append_cases [of D outcome s ingress p durable mode])
  assume "snd (durable_append D outcome s ingress p durable mode) = s"
  with assms show thesis
    by (auto simp: durable_append_def Let_def commit_changes split: option.splits sum.splits if_splits prod.splits)
next
  fix h parts e replicas
  assume "durable_append D outcome s ingress p durable mode = (Inl e, s\<lparr>dg_replicas := replicas\<rparr>)"
  with assms show thesis by simp
qed (use assms that in \<open>simp add: durable_entry_def\<close>)

lemma append_wf_ext:
  assumes "durable_wf s"
  shows "durable_wf (snd (durable_append D outcome s ingress p durable mode)) \<and>
     durable_ext s (snd (durable_append D outcome s ingress p durable mode))"
proof (rule append_cases [of D outcome s ingress p durable mode])
  show ?thesis if "snd (durable_append D outcome s ingress p durable mode) = s"
    using that assms by (simp add: durable_ext_def)
next
  fix h parts e replicas
  assume "dh_index h = dg_commit s + 1"
    "persist_parts D outcome h durable parts (enumerate 0 (dg_voters s)) (dg_replicas s) = (Inl e, replicas)"
    "durable_append D outcome s ingress p durable mode = (Inl e, s\<lparr>dg_replicas := replicas\<rparr>)"
  then show ?thesis
    using assms persist_parts_frame [of "dg_replicas s" D outcome h durable parts "enumerate 0 (dg_voters s)"]
    by (simp add: durable_wf_def durable_ext_def)
next
  fix parts replicas
  assume a: "map_of (dg_retries s) (pr_request p) = None"
    "persist_parts D outcome (proposed_header D s p mode) durable parts (enumerate 0 (dg_voters s)) (dg_replicas s)
         = (Inr (), replicas)"
    "durable_append D outcome s ingress p durable mode =
        (Inr (durable_entry (dg_commit s + 1) mode p (sha256 D (pr_payload p))),
         s\<lparr>dg_replicas := replicas,
           dg_retries := bt_insert (pr_request p) (sha256 D (pr_payload p), pr_writer_epoch p, dg_commit s + 1) (dg_retries s),
           dg_commit := dg_commit s + 1\<rparr>)"
  then show ?thesis
    using assms persist_parts_frame [of "dg_replicas s" D outcome "proposed_header D s p mode" durable parts
        "enumerate 0 (dg_voters s)"]
    by (auto simp: durable_wf_def durable_ext_def proposed_header_def map_le_def)
qed

lemma durable_step_wf_ext:
  assumes "durable_wf s" "durable_step D s t"
  shows "durable_wf t \<and> durable_ext s t"
  using assms(2)
proof cases
  case (durable_elected leader reachable x)
  then show ?thesis using assms(1) by (auto simp: durable_elect_def durable_wf_def durable_ext_def split: if_splits)
next
  case (durable_appended outcome ingress p durable mode)
  then show ?thesis using append_wf_ext [OF assms(1)] by simp
next
  case (durable_acquired outcome ingress request writer durable)
  let ?p = "with_writer_epoch (dg_writer_epoch s + 1) (proposal_new request WriterLease (as_bytes writer))"
  obtain r s1 where r: "durable_append D outcome s ingress ?p durable Complete = (r, s1)"
    by (cases "durable_append D outcome s ingress ?p durable Complete")
  have "durable_wf s1 \<and> durable_ext s s1"
    using append_wf_ext [OF assms(1), of D outcome ingress ?p durable Complete] r by simp
  then show ?thesis
    using durable_acquired r assms(1)
    by (cases r) (auto simp: durable_acquire_writer_def Let_def durable_wf_def durable_ext_def split: option.splits)
qed

definition durable_start :: "durable_group \<Rightarrow> bool" where
  "durable_start s \<longleftrightarrow>
     (\<exists>name voters k config replicas. group_config_new name voters k = Inr config \<and>
        durable_bootstrap config replicas = Inr s \<and> set (map fst replicas) = set (gc_voters config))"

lemma durable_start_wf: "durable_start s \<Longrightarrow> durable_wf s"
proof -
  assume "durable_start s"
  then obtain name voters k config replicas where c: "group_config_new name voters k = Inr config"
      "s = empty_group config (bt_of_list replicas)" "set (map fst replicas) = set (gc_voters config)"
    by (auto simp: durable_start_def durable_bootstrap_def replica_map_def Let_def split: if_splits)
  have sorted: "sorted_wrt (<) (gc_voters config)" "gc_voters config \<noteq> []" "0 < gc_k config"
      "gc_k config \<le> majority (length (gc_voters config))"
    using c(1) by (auto simp: group_config_new_def Let_def split: if_splits simp flip: set_empty)
  have "set (bt_keys (bt_of_list replicas)) = set (gc_voters config)"
    using c(3) by (force simp: bt_keys_mem map_of_bt_of_list map_of_eq_None_iff split: option.splits)
  then have "bt_keys (bt_of_list replicas) = gc_voters config"
    using sorted(1) sorted_keys_of_list [of replicas] by (intro strict_sorted_equal) (auto simp: sorted_keys_def bt_keys_def)
  then show ?thesis using c(2) sorted by (simp add: durable_wf_def empty_group_def)
qed

interpretation dur: step_system durable_start "durable_step D" durable_wf durable_ext for D
proof unfold_locales
  show "durable_ext s t \<Longrightarrow> durable_ext t u \<Longrightarrow> durable_ext s u" for s t u
    unfolding durable_ext_def by (auto intro: map_le_trans)
qed (auto simp: durable_start_wf durable_step_wf_ext, simp add: durable_ext_def)

end
