(* ===== verification/Durable_Properties.thy ===== *)
theory Durable_Properties
  imports Durable
begin

section \<open>What the durable group promises\<close>

text \<open>
  The statements about \<open>crates/verglas-consensus/src/durable.rs\<close>: the header format, that an
  acknowledged command is read back from the files in every later state, that recovery ends, and
  what a write that stops between the two files of a record leaves behind.
\<close>

subsection \<open>Reading back\<close>

lemma distinct_members_filter:
  "distinct voters \<Longrightarrow> distinct_members voters durable = length (filter (\<lambda>v. v \<in> set durable) voters)"
  by (simp add: distinct_members_card distinct_card [symmetric] Int_def conj_commute)

text \<open>
  The records a reader loads, when the voters in \<open>durable\<close> hold the header with their own slot and
  no other voter holds a record with that digest.
\<close>

definition holds_entry :: "deps \<Rightarrow> durable_header \<Rightarrow> bytes list \<Rightarrow> node_id list \<Rightarrow> (nat \<Rightarrow> node_id \<Rightarrow> (durable_header \<times> bytes) option)
    \<Rightarrow> (nat \<times> node_id) list \<Rightarrow> bool" where
  "holds_entry D h parts durable load sns \<longleftrightarrow>
     (\<forall>(slot, node) \<in> set sns.
        (node \<in> set durable \<longrightarrow> load slot node = Some (h, be_bytes 8 slot @ parts ! slot)) \<and>
        (node \<notin> set durable \<longrightarrow> (\<forall>r b. load slot node = Some (r, b) \<longrightarrow> dh_hash r \<noteq> dh_hash h)))"

lemma matched_holders:
  assumes "holds_entry D h parts durable load sns"
  shows "filter (\<lambda>(r, _). dh_index r = dh_index h \<and> dh_hash r = dh_hash h \<and> dh_mode r = dh_mode h)
      (filter_map (\<lambda>(slot, node). load slot node) sns) =
    map (\<lambda>(slot, node). (h, be_bytes 8 slot @ parts ! slot)) (filter (\<lambda>sn. snd sn \<in> set durable) sns)"
  using assms
proof (induction sns)
  case (Cons sn sns)
  obtain slot node where sn: "sn = (slot, node)" by (cases sn)
  have "holds_entry D h parts durable load sns" using Cons.prems by (simp add: holds_entry_def)
  note IH = Cons.IH [OF this]
  have "node \<in> set durable \<longrightarrow> load slot node = Some (h, be_bytes 8 slot @ parts ! slot)"
    "node \<notin> set durable \<longrightarrow> (\<forall>r b. load slot node = Some (r, b) \<longrightarrow> dh_hash r \<noteq> dh_hash h)"
    using Cons.prems unfolding holds_entry_def sn by auto
  with IH show ?case unfolding sn by (cases "node \<in> set durable") (auto split: option.splits)
qed simp

lemma votes_holders:
  assumes "holds_entry D h parts durable load sns"
  shows "length (filter (\<lambda>sn. snd sn \<in> set durable) sns)
     \<le> votes D (header_encode D h) (filter_map (\<lambda>(slot, node). load slot node) sns)"
  using assms
proof (induction sns)
  case (Cons sn sns)
  obtain slot node where sn: "sn = (slot, node)" by (cases sn)
  have "holds_entry D h parts durable load sns" using Cons.prems by (simp add: holds_entry_def)
  note IH = Cons.IH [OF this]
  have "node \<in> set durable \<longrightarrow> load slot node = Some (h, be_bytes 8 slot @ parts ! slot)"
    using Cons.prems unfolding holds_entry_def sn by auto
  with IH show ?case unfolding sn votes_def by (cases "load slot node") (auto split: option.splits)
qed (simp add: votes_def)

lemma reconstruct_holders:
  fixes config :: group_config and h :: durable_header
  defines "voters \<equiv> gc_voters config"
  assumes digest: "digest_ok D" and wf: "durable_header_wf h"
    and holds: "holds_entry D h parts durable load (enumerate 0 voters)"
    and shape: "dh_k h = gc_k config" "dh_n h = length voters" "dh_hash h = sha256 D payload" "dh_length h = length payload"
    and voters: "distinct voters" "0 < gc_k config" "gc_k config \<le> length voters"
    and quorum: "majority (length voters) \<le> distinct_members voters durable"
    and coded: "dh_mode h = Coded \<longrightarrow> rs_ok D (gc_k config) (length voters - gc_k config) \<and>
        encode D (gc_k config) (length voters - gc_k config) payload = Inr parts \<and>
        length voters - majority (length voters) + gc_k config \<le> distinct_members voters durable"
    and complete: "dh_mode h = Complete \<longrightarrow> parts = map (\<lambda>_. payload) voters"
  shows "agreed_header D (filter_map (\<lambda>(slot, node). load slot node) (enumerate 0 voters)) (majority (length voters)) = Inr h"
    and "durable_reconstruct D config h (filter_map (\<lambda>(slot, node). load slot node) (enumerate 0 voters)) = Inr payload"
proof -
  let ?records = "filter_map (\<lambda>(slot, node). load slot node) (enumerate 0 voters)"
  define holders where "holders = filter (\<lambda>sn. snd sn \<in> set durable) (enumerate 0 voters)"
  have count: "length holders = distinct_members voters durable"
    unfolding holders_def distinct_members_filter [OF voters(1)]
    using length_filter_enumerate [of "\<lambda>v. v \<in> set durable" 0 voters] .
  have votes: "majority (length voters) \<le> votes D (header_encode D h) ?records"
    using votes_holders [OF holds] quorum count unfolding holders_def by simp
  moreover have "length ?records \<le> length voters" using filter_map_le [of _ "enumerate 0 voters"] by simp
  ultimately show "agreed_header D ?records (majority (length voters)) = Inr h"
    using two_majorities [of "length voters"] by (intro agreed_header_majority [OF digest wf]) linarith+
  have matched: "filter (\<lambda>(r, _). dh_index r = dh_index h \<and> dh_hash r = dh_hash h \<and> dh_mode r = dh_mode h) ?records =
      map (\<lambda>(slot, node). (h, be_bytes 8 slot @ parts ! slot)) holders"
    unfolding holders_def by (rule matched_holders [OF holds])
  have holder: "slot < length voters" if "(slot, node) \<in> set holders" for slot node
    using that unfolding holders_def by (auto simp: in_set_enumerate_eq)
  have "0 < length holders" using quorum count by (simp add: majority_def)
  then obtain slot0 node0 rest where first: "holders = (slot0, node0) # rest" by (cases holders) auto
  have n: "length voters < 256 ^ 8" using wf shape(2) by (simp add: durable_header_wf_def)
  show "durable_reconstruct D config h ?records = Inr payload"
  proof (cases "dh_mode h")
    case Complete
    then show ?thesis
      using matched shape complete first holder [of slot0 node0]
      by (simp add: durable_reconstruct_def voters_def [symmetric])
  next
    case Coded
    have slots: "of_be (take 8 (be_bytes 8 slot @ parts ! slot)) = slot" if "slot < length voters" for slot
      using that n by simp
    have parts: "filter_map (\<lambda>(_, b). let slot = of_be (take 8 b) in if slot < length voters then Some (slot, drop 8 b) else None)
        (map (\<lambda>(slot, node). (h, be_bytes 8 slot @ parts ! slot)) holders) = map (\<lambda>(slot, node). (slot, parts ! slot)) holders"
      using holder
    proof (induction holders)
      case (Cons sn holders)
      then show ?case using slots [of "fst sn"] by (cases sn) (auto simp: Let_def)
    qed simp
    have len: "length parts = length voters"
      using encode_total [of D "gc_k config" "length voters - gc_k config" payload] coded Coded voters by auto
    have "map fst (map (\<lambda>(slot, node). (slot, parts ! slot)) holders) = map fst holders" by auto
    moreover have "distinct (map fst holders)"
      unfolding holders_def by (rule distinct_map_filter) simp
    ultimately have distinct: "distinct (map fst (map (\<lambda>(slot, node). (slot, parts ! slot)) holders))"
      by (simp only:)
    have "shards_of parts (map (\<lambda>(slot, node). (slot, parts ! slot)) holders)"
      unfolding shards_of_def using distinct holder len by (intro conjI) auto
    moreover have "gc_k config \<le> length holders" using coded Coded count by simp
    ultimately have "decode D (gc_k config) (length voters - gc_k config) (length payload)
        (map (\<lambda>(slot, node). (slot, parts ! slot)) holders) = Inr payload"
      using coded Coded voters by (intro decode_encode) auto
    then show ?thesis
      using matched shape parts Coded by (simp add: durable_reconstruct_def voters_def [symmetric])
  qed
qed

lemma replica_load_entry: "entry_at i files = entry_at i files' \<Longrightarrow> replica_load D i files = replica_load D i files'"
  by (simp add: replica_load_def)

text \<open>The records a group loads at an index, in voter order.\<close>

definition group_load :: "deps \<Rightarrow> nat \<Rightarrow> durable_group \<Rightarrow> node_id \<Rightarrow> (durable_header \<times> bytes) option" where
  "group_load D i s node = ok (replica_load D i (the (map_of (dg_replicas s) node)))"

lemma load_records_voters:
  assumes "durable_wf s"
  shows "load_records D i (bt_vals (dg_replicas s)) =
     filter_map (\<lambda>(slot, node). group_load D i s node) (enumerate 0 (dg_voters s))"
proof -
  have "bt_vals (dg_replicas s) = map (\<lambda>k. the (map_of (dg_replicas s) k)) (dg_voters s)"
    using assms bt_vals_keys [of "dg_replicas s"] by (simp add: durable_wf_def)
  also have "\<dots> = map (\<lambda>sn. the (map_of (dg_replicas s) (snd sn))) (enumerate 0 (dg_voters s))"
    by (rule map_snd_enumerate [symmetric])
  finally show ?thesis
    by (simp add: load_records_def filter_map_map group_load_def case_prod_unfold)
qed

lemma group_load_ext:
  assumes "durable_wf s" "durable_ext s t" "i \<le> dg_commit s" "node \<in> set (dg_voters s)"
  shows "group_load D i t node = group_load D i s node"
proof -
  have "map_of (dg_replicas s) node \<noteq> None" using assms(1,4) bt_keys_mem [of node "dg_replicas s"] by (simp add: durable_wf_def)
  then obtain files where files: "map_of (dg_replicas s) node = Some files" by auto
  moreover have "map_option (entry_at i) (map_of (dg_replicas t) node) = map_option (entry_at i) (map_of (dg_replicas s) node)"
    using assms(2,3) by (simp add: durable_ext_def)
  ultimately obtain files' where "map_of (dg_replicas t) node = Some files'" "entry_at i files' = entry_at i files"
    by auto
  then show ?thesis using files replica_load_entry [of i files' files D] by (simp add: group_load_def)
qed

lemma durable_wf_distinct: "durable_wf s \<Longrightarrow> distinct (dg_voters s)"
  unfolding durable_wf_def using strict_sorted_iff by blast

lemma committed_holds:
  assumes parts: "persist_parts D outcome h durable parts (enumerate 0 (dg_voters s)) (dg_replicas s) = (Inr (), replicas)"
    and wf: "durable_wf s" and digest: "digest_ok D" "durable_header_wf h"
    and others: "\<forall>node files r b. node \<notin> set durable \<and> map_of (dg_replicas s) node = Some files \<and>
        replica_load D (dh_index h) files = Inr (r, b) \<longrightarrow> dh_hash r \<noteq> dh_hash h"
    and s': "dg_replicas s' = replicas"
  shows "holds_entry D h parts durable (\<lambda>slot node. group_load D (dh_index h) s' node) (enumerate 0 (dg_voters s))"
  unfolding holds_entry_def
proof (intro ballI, clarify, intro conjI impI allI)
  fix slot node
  assume sn: "(slot, node) \<in> set (enumerate 0 (dg_voters s))"
  have "distinct (map snd (enumerate 0 (dg_voters s)))" using durable_wf_distinct [OF wf] by simp
  note stored = persist_parts_ok [OF parts this]
  show "group_load D (dh_index h) s' node = Some (h, be_bytes 8 slot @ parts ! slot)" if member: "node \<in> set durable"
  proof -
    obtain files where "map_of replicas node = Some (bt_insert (dh_index h) (written D h slot (parts ! slot)) files)"
      using bspec [OF conjunct1 [OF stored] sn, unfolded prod.case] member by blast
    then show ?thesis using s' load_written [OF digest] by (simp add: group_load_def)
  qed
  show "dh_hash r \<noteq> dh_hash h" if "node \<notin> set durable" "group_load D (dh_index h) s' node = Some (r, b)" for r b
  proof -
    have "map_of (dg_replicas s) node \<noteq> None"
      using sn wf bt_keys_mem [of node "dg_replicas s"] by (auto simp: durable_wf_def in_set_enumerate_eq)
    then obtain files where files: "map_of (dg_replicas s) node = Some files" by auto
    then have "map_of replicas node = Some files" using spec [OF conjunct2 [OF stored], of node] that(1) by simp
    then have "replica_load D (dh_index h) files = Inr (r, b)" using that(2) s' by (simp add: group_load_def)
    then show ?thesis using others files that(1) by blast
  qed
qed

text \<open>What one acknowledged command leaves in the files, seen from any later state.\<close>

lemma committed_records:
  assumes wf: "durable_wf s"
    and commit: "durable_append D outcome s ingress p durable mode = (Inr entry, s')"
    and fresh: "map_of (dg_retries s) (pr_request p) = None"
    and later: "durable_wf t" "durable_ext s' t"
    and digest: "digest_ok D" and width: "durable_header_wf (proposed_header D s p mode)"
    and codec: "mode = Coded \<longrightarrow> rs_ok D (gc_k (dg_config s)) (length (dg_voters s) - gc_k (dg_config s))"
    and others: "\<forall>node files r b. node \<notin> set durable \<and> map_of (dg_replicas s) node = Some files \<and>
        replica_load D (dg_commit s + 1) files = Inr (r, b) \<longrightarrow> dh_hash r \<noteq> sha256 D (pr_payload p)"
  shows "agreed_header D (load_records D (dg_commit s + 1) (bt_vals (dg_replicas t))) (majority (length (dg_voters s)))
       = Inr (proposed_header D s p mode)"
    and "durable_reconstruct D (dg_config s) (proposed_header D s p mode)
       (load_records D (dg_commit s + 1) (bt_vals (dg_replicas t))) = Inr (pr_payload p)"
proof -
  let ?h = "proposed_header D s p mode"
  have h: "dh_index ?h = dg_commit s + 1" "dh_hash ?h = sha256 D (pr_payload p)" "dh_mode ?h = mode"
      "dh_k ?h = gc_k (dg_config s)" "dh_n ?h = length (dg_voters s)" "dh_length ?h = length (pr_payload p)"
    by (simp_all add: proposed_header_def)
  obtain parts replicas where c:
      "majority (length (dg_voters s)) \<le> distinct_members (dg_voters s) durable"
      "mode = Coded \<longrightarrow> length (dg_voters s) - majority (length (dg_voters s)) + gc_k (dg_config s)
         \<le> distinct_members (dg_voters s) durable"
      "(if mode = Coded then encode D (gc_k (dg_config s)) (length (dg_voters s) - gc_k (dg_config s)) (pr_payload p)
        else Inr (map (\<lambda>_. pr_payload p) (dg_voters s))) = Inr parts"
      "persist_parts D outcome ?h durable parts (enumerate 0 (dg_voters s)) (dg_replicas s) = (Inr (), replicas)"
      "ce_index entry = dg_commit s + 1" "dg_replicas s' = replicas" "dg_commit s' = dg_commit s + 1"
      "dg_config s' = dg_config s"
    by (rule append_committed [OF commit fresh])
  have wf': "durable_wf s'" using append_wf_ext [OF wf, of D outcome ingress p durable mode] commit by simp
  have config: "dg_config t = dg_config s" using later(2) c(8) by (simp add: durable_ext_def)
  have "holds_entry D ?h parts durable (\<lambda>slot node. group_load D (dg_commit s + 1) s' node) (enumerate 0 (dg_voters s))"
    using committed_holds [OF c(4) wf digest width _ c(6)] others h(1,2) by simp
  moreover have "group_load D (dg_commit s + 1) t node = group_load D (dg_commit s + 1) s' node"
    if "node \<in> set (dg_voters s)" for node
    using that group_load_ext [OF wf' later(2), of "dg_commit s + 1" node D] c(7,8) by simp
  ultimately have holds: "holds_entry D ?h parts durable (\<lambda>slot node. group_load D (dg_commit s + 1) t node)
      (enumerate 0 (dg_voters s))"
    by (auto simp: holds_entry_def in_set_enumerate_eq)
  have voters: "distinct (dg_voters s)" "0 < gc_k (dg_config s)" "gc_k (dg_config s) \<le> length (dg_voters s)"
    using durable_wf_distinct [OF wf] wf majority_le [of "length (dg_voters s)"] by (auto simp: durable_wf_def)
  have coded: "dh_mode ?h = Coded \<longrightarrow> rs_ok D (gc_k (dg_config s)) (length (dg_voters s) - gc_k (dg_config s)) \<and>
        encode D (gc_k (dg_config s)) (length (dg_voters s) - gc_k (dg_config s)) (pr_payload p) = Inr parts \<and>
        length (dg_voters s) - majority (length (dg_voters s)) + gc_k (dg_config s) \<le> distinct_members (dg_voters s) durable"
    unfolding h(3) using c(2,3) codec by (cases mode) auto
  have complete: "dh_mode ?h = Complete \<longrightarrow> parts = map (\<lambda>_. pr_payload p) (dg_voters s)" unfolding h(3) using c(3) by (cases mode) auto
  note result = reconstruct_holders [OF digest width holds h(4,5,2,6) voters c(1) coded complete]
  show "agreed_header D (load_records D (dg_commit s + 1) (bt_vals (dg_replicas t))) (majority (length (dg_voters s))) = Inr ?h"
    unfolding load_records_voters [OF later(1)] config using result(1) .
  show "durable_reconstruct D (dg_config s) ?h (load_records D (dg_commit s + 1) (bt_vals (dg_replicas t))) = Inr (pr_payload p)"
    unfolding load_records_voters [OF later(1)] config using result(2) .
qed


definition ex_replicas :: "(node_id \<times> file_replica) list" where
  "ex_replicas = [(1, []), (2, []), (3, [])]"

definition ex_durable :: durable_group where
  "ex_durable = (empty_group ex_config ex_replicas)\<lparr>dg_term := 1, dg_leader := Some 1\<rparr>"

lemma ex_durable_start: "durable_start (empty_group ex_config ex_replicas)"
  unfolding durable_start_def
  by (intro exI [of _ "''tenant''"] exI [of _ "[3, 1, 2]"] exI [of _ 2] exI [of _ ex_config] exI [of _ ex_replicas]) code_simp

lemma ex_durable_elected: "durable_elect (empty_group ex_config ex_replicas) 1 [1, 2] = Inr (1, ex_durable)"
  by code_simp

lemma ex_durable_reach: "(durable_step D)\<^sup>*\<^sup>* (empty_group ex_config ex_replicas) ex_durable"
  using durable_elected [OF ex_durable_elected] by blast

lemma ex_durable_width: "durable_header_wf (proposed_header xor_deps ex_durable ex_proposal mode)"
  by (simp add: durable_header_wf_def proposed_header_def ex_durable_def empty_group_def ex_proposal_def
      proposal_new_def ex_config_def xor_deps_sha)

definition ex_committed :: durable_group where
  "ex_committed = snd (durable_append xor_deps (\<lambda>_. Persisted) ex_durable 1 ex_proposal [1, 2, 3] Coded)"

lemma ex_durable_append:
  "durable_append xor_deps (\<lambda>_. Persisted) ex_durable 1 ex_proposal [1, 2, 3] Coded =
     (Inr (durable_entry 1 Coded ex_proposal (sha256 xor_deps [1, 2, 3])), ex_committed)"
  using ex_encode
  by (simp add: ex_committed_def durable_append_def ex_durable_def empty_group_def ex_config_def ex_proposal_def proposal_new_def
      durable_fence_def distinct_members_def majority_def bs_of_list_def proposed_header_def ex_replicas_def
      replica_persist_def Let_def)


text \<open>
  A record header decodes to itself: the fixed 99-byte layout with its trailing CRC32C keeps
  every field, for every command kind, both replication modes and an absent or present writer
  epoch, so two headers with the same bytes are the same header.
\<close>

lemma durable_header_roundtrip:
  assumes "digest_ok D" "durable_header_wf h" "durable_header_wf h'"
  shows "header_decode D (header_encode D h) = Inr h \<and> (header_encode D h = header_encode D h' \<longrightarrow> h = h')"
  using assms hdr.dec_enc [of D h] hdr.enc_inj [of D h h'] by simp

lemma durable_header_roundtrip_witness:
  "header_decode xor_deps (header_encode xor_deps (proposed_header xor_deps ex_durable ex_proposal Coded))
      = Inr (proposed_header xor_deps ex_durable ex_proposal Coded) \<and>
   header_encode xor_deps (proposed_header xor_deps ex_durable ex_proposal Coded)
     \<noteq> header_encode xor_deps (proposed_header xor_deps ex_durable ex_proposal Complete)"
  using durable_header_roundtrip [OF xor_digest_ok ex_durable_width ex_durable_width, of Coded Complete]
  by (auto simp: proposed_header_def)

subsection \<open>Recovery\<close>

text \<open>The highest index any of the given voters has files for.\<close>

definition stored_bound :: "(node_id \<times> file_replica) list \<Rightarrow> nat" where
  "stored_bound replicas = Max (insert 0 (\<Union>(_, files) \<in> set replicas. fst ` set files))"

lemma replica_load_absent: "i \<notin> fst ` set files \<Longrightarrow> ok (replica_load D i files) = None"
  by (simp add: replica_load_def entry_at_def Let_def map_of_eq_None_iff [THEN iffD2])

lemma load_records_beyond:
  assumes "stored_bound replicas < i" "\<forall>files \<in> set fs. \<exists>node. (node, files) \<in> set replicas"
  shows "load_records D i fs = []"
proof -
  have "ok (replica_load D i files) = None" if "files \<in> set fs" for files
  proof (rule replica_load_absent)
    have "finite (insert 0 (\<Union>(_, files) \<in> set replicas. fst ` set files))" by auto
    moreover have "j \<in> insert 0 (\<Union>(_, files) \<in> set replicas. fst ` set files)" if "j \<in> fst ` set files" for j
      using that \<open>files \<in> set fs\<close> assms(2) by fastforce
    ultimately have "j \<le> stored_bound replicas" if "j \<in> fst ` set files" for j
      using that unfolding stored_bound_def by (metis Max_ge)
    then show "i \<notin> fst ` set files" using assms(1) by (meson not_less)
  qed
  then show ?thesis by (induction fs) (auto simp: load_records_def)
qed

lemma reachable_files:
  assumes "m = bt_of_list replicas"
  shows "\<forall>files \<in> set (filter_map (\<lambda>node. map_of m node) reachable). \<exists>node. (node, files) \<in> set replicas"
  unfolding assms set_filter_map map_of_bt_of_list by (auto dest!: map_of_SomeD)

lemma recover_round_Inr:
  "recover_round D records g = Inr g' \<Longrightarrow>
     dg_commit g' = dg_commit g + 1 \<and> dg_replicas g' = dg_replicas g \<and> dg_config g' = dg_config g"
  by (auto simp: recover_round_def Let_def split: if_splits)

lemma recover_round_ok:
  assumes "agreed_header D records (majority (length (dg_voters g))) = Inr h"
    and "durable_reconstruct D (dg_config g) h records = Inr body" "sha256 D body = dh_hash h"
    and "dh_kind h = WriterLease \<longrightarrow> dh_writer_epoch h \<noteq> None"
  shows "\<exists>g'. recover_round D records g = Inr g' \<and>
     dg_retries g' = bt_insert (dh_request h) (dh_hash h, dh_writer_epoch h, dg_commit g + 1) (dg_retries g) \<and>
     dg_writer_epoch g' = (if dh_kind h = WriterLease then the (dh_writer_epoch h) else dg_writer_epoch g)"
  using assms by (cases "dh_kind h = WriterLease"; cases "dh_writer_epoch h") (simp_all add: recover_round_def Let_def)

lemma recover_loop_returns:
  assumes "dg_replicas g = bt_of_list replicas" "stored_bound replicas \<le> dg_commit g + fuel"
  shows "\<exists>r. \<forall>more. recover_loop D (Suc fuel + more) reachable g = Some r"
  using assms
proof (induction fuel arbitrary: g)
  case 0
  have "next_records D reachable g = []"
    unfolding next_records_def
    by (rule load_records_beyond [OF _ reachable_files [OF 0(1)]]) (use 0(2) in simp)
  then show ?case by simp
next
  case (Suc fuel)
  show ?case
  proof (cases "next_records D reachable g = [] \<or> (\<exists>e. recover_round D (next_records D reachable g) g = Inl e)")
    case True
    then show ?thesis by (cases "next_records D reachable g = []") auto
  next
    case False
    then obtain g' where g': "recover_round D (next_records D reachable g) g = Inr g'"
      by (cases "recover_round D (next_records D reachable g) g") auto
    obtain r where "\<forall>more. recover_loop D (Suc fuel + more) reachable g' = Some r"
      using Suc.IH [of g'] recover_round_Inr [OF g'] Suc.prems by auto
    then show ?thesis using False g' by auto
  qed
qed

text \<open>
  C26: Recovery ends. Whatever the voters' files hold and whoever is reachable, the recovery loop
  returns after at most one more round than the highest stored index, and further rounds would not
  change its answer.
\<close>

theorem recovery_terminates:
  "\<exists>r. \<forall>more. durable_recover D (Suc (stored_bound replicas) + more) config replicas reachable = Some r"
  using recover_loop_returns [of "empty_group config (bt_of_list replicas)" replicas "stored_bound replicas" D reachable]
  by (cases "distinct_members (gc_voters config) reachable < majority (length (gc_voters config))")
    (simp_all add: durable_recover_def empty_group_def del: recover_loop.simps)

text \<open>
  A run in which no write failed: the group starts with empty directories, every record write
  persists, leases are acquired through \<open>acquire_writer\<close>, and the numbers fit their widths.
\<close>

inductive clean_step :: "deps \<Rightarrow> durable_group \<Rightarrow> durable_group \<Rightarrow> bool" for D where
  clean_elected: "durable_elect s leader reachable = Inr (t, s') \<Longrightarrow> clean_step D s s'"
| clean_appended:
    "pr_kind p \<noteq> WriterLease \<Longrightarrow> durable_header_wf (proposed_header D s p mode) \<Longrightarrow>
     mode = Coded \<longrightarrow> rs_ok D (gc_k (dg_config s)) (length (dg_voters s) - gc_k (dg_config s)) \<Longrightarrow>
     clean_step D s (snd (durable_append D (\<lambda>_. Persisted) s ingress p durable mode))"
| clean_acquired:
    "durable_header_wf (proposed_header D s
       (with_writer_epoch (dg_writer_epoch s + 1) (proposal_new request WriterLease (as_bytes writer))) Complete) \<Longrightarrow>
     clean_step D s (snd (durable_acquire_writer D (\<lambda>_. Persisted) s ingress request writer durable))"

definition clean_start :: "durable_group \<Rightarrow> bool" where
  "clean_start s \<longleftrightarrow> durable_start s \<and> (\<forall>(node, files) \<in> set (dg_replicas s). files = [])"

definition log_retries :: "durable_header list \<Rightarrow> (request_id, hash \<times> nat option \<times> nat) btree" where
  "log_retries hs = fold (\<lambda>(i, h). bt_insert (dh_request h) (dh_hash h, dh_writer_epoch h, i)) (enumerate 1 hs) []"

definition log_epoch :: "durable_header list \<Rightarrow> nat" where
  "log_epoch hs = fold (\<lambda>h e. if dh_kind h = WriterLease then the (dh_writer_epoch h) else e) hs 0"

text \<open>The files of a group spell out this list of headers, with nothing above the commit index.\<close>

definition logged_at :: "deps \<Rightarrow> durable_group \<Rightarrow> nat \<Rightarrow> durable_header \<Rightarrow> bool" where
  "logged_at D s i h \<longleftrightarrow>
     agreed_header D (load_records D (i + 1) (bt_vals (dg_replicas s))) (majority (length (dg_voters s))) = Inr h \<and>
     (\<exists>body. durable_reconstruct D (dg_config s) h (load_records D (i + 1) (bt_vals (dg_replicas s))) = Inr body \<and>
        sha256 D body = dh_hash h) \<and>
     (dh_kind h = WriterLease \<longrightarrow> dh_writer_epoch h \<noteq> None)"

definition nothing_above :: "durable_group \<Rightarrow> bool" where
  "nothing_above s \<longleftrightarrow>
     (\<forall>node files i. map_of (dg_replicas s) node = Some files \<and> dg_commit s < i \<longrightarrow> ef_header (entry_at i files) = None)"

definition logged :: "deps \<Rightarrow> durable_group \<Rightarrow> durable_header list \<Rightarrow> bool" where
  "logged D s hs \<longleftrightarrow>
     durable_wf s \<and> length hs = dg_commit s \<and> (\<forall>i < length hs. logged_at D s i (hs ! i)) \<and>
     dg_retries s = log_retries hs \<and> dg_writer_epoch s = log_epoch hs \<and> nothing_above s"

lemma log_snoc:
  "log_retries (hs @ [h]) = bt_insert (dh_request h) (dh_hash h, dh_writer_epoch h, length hs + 1) (log_retries hs)"
  "log_epoch (hs @ [h]) = (if dh_kind h = WriterLease then the (dh_writer_epoch h) else log_epoch hs)"
  by (simp_all add: log_retries_def log_epoch_def enumerate_append_eq)

lemma load_records_ext:
  assumes "durable_wf s" "durable_wf t" "durable_ext s t" "i \<le> dg_commit s"
  shows "load_records D i (bt_vals (dg_replicas t)) = load_records D i (bt_vals (dg_replicas s))"
proof -
  have "dg_voters t = dg_voters s" using assms(3) by (simp add: durable_ext_def)
  moreover have "filter_map (\<lambda>(slot, node). group_load D i t node) (enumerate 0 (dg_voters s)) =
      filter_map (\<lambda>(slot, node). group_load D i s node) (enumerate 0 (dg_voters s))"
    using group_load_ext [OF assms(1,3,4)]
    by (intro filter_map_cong) (auto simp: in_set_enumerate_eq)
  ultimately show ?thesis by (simp add: load_records_voters assms(1,2))
qed

lemma logged_at_ext:
  assumes "durable_wf s" "durable_wf t" "durable_ext s t" "i < dg_commit s" "logged_at D s i h"
  shows "logged_at D t i h"
  using assms load_records_ext [OF assms(1,2,3), of "i + 1" D] by (simp add: logged_at_def durable_ext_def)

lemma persist_parts_total:
  "\<forall>(slot, node) \<in> set sns. map_of reps node \<noteq> None \<Longrightarrow> fst (persist_parts D (\<lambda>_. Persisted) h durable parts sns reps) = Inr ()"
proof (induction sns arbitrary: reps)
  case (Cons sn sns)
  obtain slot node where sn: "sn = (slot, node)" by (cases sn)
  then obtain files where files: "map_of reps node = Some files" using Cons.prems by auto
  have rest: "\<forall>(slot, node) \<in> set sns. map_of (bt_insert k v reps) node \<noteq> None" for k v using Cons.prems by auto
  show ?case
    using Cons.IH [OF rest] Cons.IH [of reps] Cons.prems files sn
    by (auto simp: replica_persist_def Let_def)
qed simp

lemma voters_have_files: "durable_wf s \<Longrightarrow> \<forall>(slot, node) \<in> set (enumerate n (dg_voters s)). map_of (dg_replicas s) node \<noteq> None"
proof
  fix sn assume wf: "durable_wf s" and sn: "sn \<in> set (enumerate n (dg_voters s))"
  have "snd sn \<in> set (dg_voters s)" using sn by (rule snd_enumerate)
  then show "case sn of (slot, node) \<Rightarrow> map_of (dg_replicas s) node \<noteq> None"
    using wf bt_keys_mem [of "snd sn" "dg_replicas s"] by (simp add: durable_wf_def case_prod_beta)
qed

lemma nothing_above_load: "nothing_above s \<Longrightarrow> map_of (dg_replicas s) node = Some files \<Longrightarrow> dg_commit s < i \<Longrightarrow>
    ok (replica_load D i files) = None"
  by (auto simp: nothing_above_def replica_load_def Let_def)

lemma append_logged:
  fixes s D p mode
  defines "h \<equiv> proposed_header D s p mode"
  assumes log: "logged D s hs" and digest: "digest_ok D" and width: "durable_header_wf h"
    and codec: "mode = Coded \<longrightarrow> rs_ok D (gc_k (dg_config s)) (length (dg_voters s) - gc_k (dg_config s))"
    and lease: "pr_kind p = WriterLease \<longrightarrow> pr_writer_epoch p \<noteq> None"
    and append: "durable_append D (\<lambda>_. Persisted) s ingress p durable mode = (r, s')"
  shows "s' = s \<and> (map_of (dg_retries s) (pr_request p) = None \<longrightarrow> (\<exists>e. r = Inl e)) \<or>
     (\<exists>entry. r = Inr entry) \<and> durable_wf s' \<and> dg_commit s' = dg_commit s + 1 \<and> dg_writer_epoch s' = dg_writer_epoch s \<and>
     (\<forall>i < length (hs @ [h]). logged_at D s' i ((hs @ [h]) ! i)) \<and> dg_retries s' = log_retries (hs @ [h]) \<and> nothing_above s'"
proof (rule append_cases [of D "\<lambda>_. Persisted" s ingress p durable mode])
  assume same: "snd (durable_append D (\<lambda>_. Persisted) s ingress p durable mode) = s"
  have "\<exists>e. r = Inl e" if "map_of (dg_retries s) (pr_request p) = None"
  proof (cases r)
    case (Inr entry)
    with append that same have "dg_commit s = dg_commit s + 1" by (metis append_committed snd_conv)
    then show ?thesis by simp
  qed simp
  then show ?thesis using same append by simp
next
  fix h' parts e replicas
  assume "persist_parts D (\<lambda>_. Persisted) h' durable parts (enumerate 0 (dg_voters s)) (dg_replicas s) = (Inl e, replicas)"
  then show ?thesis
    using persist_parts_total [OF voters_have_files, of s D h' durable parts 0] log by (simp add: logged_def)
next
  fix parts replicas
  assume a: "map_of (dg_retries s) (pr_request p) = None"
    "persist_parts D (\<lambda>_. Persisted) (proposed_header D s p mode) durable parts (enumerate 0 (dg_voters s)) (dg_replicas s)
         = (Inr (), replicas)"
    "durable_append D (\<lambda>_. Persisted) s ingress p durable mode =
        (Inr (durable_entry (dg_commit s + 1) mode p (sha256 D (pr_payload p))),
         s\<lparr>dg_replicas := replicas,
           dg_retries := bt_insert (pr_request p) (sha256 D (pr_payload p), pr_writer_epoch p, dg_commit s + 1) (dg_retries s),
           dg_commit := dg_commit s + 1\<rparr>)"
  have wf: "durable_wf s" and above: "nothing_above s" using log by (simp_all add: logged_def)
  have s': "s' = s\<lparr>dg_replicas := replicas,
           dg_retries := bt_insert (pr_request p) (sha256 D (pr_payload p), pr_writer_epoch p, dg_commit s + 1) (dg_retries s),
           dg_commit := dg_commit s + 1\<rparr>" and r: "\<exists>entry. r = Inr entry"
    using append a(3) by auto
  then obtain entry where commit: "durable_append D (\<lambda>_. Persisted) s ingress p durable mode = (Inr entry, s')"
    using append by auto
  have wf': "durable_wf s'" and ext: "durable_ext s s'"
    using append_wf_ext [OF wf, of D "\<lambda>_. Persisted" ingress p durable mode] commit by simp_all
  have others: "\<forall>node files r b. node \<notin> set durable \<and> map_of (dg_replicas s) node = Some files \<and>
        replica_load D (dg_commit s + 1) files = Inr (r, b) \<longrightarrow> dh_hash r \<noteq> sha256 D (pr_payload p)"
    using nothing_above_load [OF above, of _ _ "dg_commit s + 1" D] by (metis less_add_one ok.simps(2) option.distinct(1))
  note records = committed_records [OF wf commit a(1) wf' _ digest width [unfolded h_def] codec others]
  have new: "logged_at D s' (dg_commit s) h"
    using records lease s' unfolding logged_at_def h_def
    by (auto simp: proposed_header_def durable_ext_def)
  have old: "logged_at D s' i (hs ! i)" if "i < dg_commit s" for i
    using that log logged_at_ext [OF wf wf' ext that] by (simp add: logged_def)
  have frame: "map_option (entry_at i) (map_of replicas node) = map_option (entry_at i) (map_of (dg_replicas s) node)"
    if "dg_commit s + 1 < i" for node i
    using that wf a(2) persist_parts_frame [of "dg_replicas s" D "\<lambda>_. Persisted" "proposed_header D s p mode" durable parts
        "enumerate 0 (dg_voters s)"] by (simp add: durable_wf_def proposed_header_def)
  have "nothing_above s'"
    unfolding nothing_above_def
  proof (intro allI impI, elim conjE)
    fix node files i assume f: "map_of (dg_replicas s') node = Some files" "dg_commit s' < i"
    then obtain files0 where "map_of (dg_replicas s) node = Some files0" "entry_at i files0 = entry_at i files"
      using frame [of i node] s' by (cases "map_of (dg_replicas s) node") auto
    moreover have "dg_commit s < i" using f(2) s' by simp
    ultimately show "ef_header (entry_at i files) = None" using above unfolding nothing_above_def by metis
  qed
  moreover have "\<forall>i < length (hs @ [h]). logged_at D s' i ((hs @ [h]) ! i)"
    using new old log by (auto simp: nth_append logged_def less_Suc_eq)
  moreover have "dg_retries s' = log_retries (hs @ [h])"
    using log s' by (simp add: log_snoc logged_def h_def proposed_header_def)
  ultimately show ?thesis using wf' s' r by simp
qed

lemma logged_epoch_irrelevant: "logged_at D (s\<lparr>dg_writer_epoch := e\<rparr>) i h = logged_at D s i h"
  by (simp add: logged_at_def)

lemma clean_step_logged:
  assumes "clean_step D s t" "logged D s hs" "digest_ok D"
  shows "\<exists>hs'. logged D t hs'"
  using assms(1)
proof cases
  case (clean_elected leader reachable x)
  then have "logged D t hs"
    using assms(2) by (auto simp: durable_elect_def logged_def logged_at_def durable_wf_def nothing_above_def split: if_splits)
  then show ?thesis by blast
next
  case (clean_appended p mode ingress durable)
  obtain r s' where r: "durable_append D (\<lambda>_. Persisted) s ingress p durable mode = (r, s')"
    by (cases "durable_append D (\<lambda>_. Persisted) s ingress p durable mode")
  have "logged D s' hs \<or> logged D s' (hs @ [proposed_header D s p mode])"
    using append_logged [OF assms(2,3) clean_appended(3,4) _ r] assms(2) clean_appended(2)
    by (auto simp: logged_def log_snoc proposed_header_def)
  then show ?thesis using clean_appended(1) r by auto
next
  case (clean_acquired request writer ingress durable)
  let ?p = "with_writer_epoch (dg_writer_epoch s + 1) (proposal_new request WriterLease (as_bytes writer))"
  obtain r s' where r: "durable_append D (\<lambda>_. Persisted) s ingress ?p durable Complete = (r, s')"
    by (cases "durable_append D (\<lambda>_. Persisted) s ingress ?p durable Complete")
  have p: "pr_writer_epoch ?p = Some (dg_writer_epoch s + 1)" "pr_kind ?p = WriterLease" "pr_request ?p = request"
    by (simp_all add: with_writer_epoch_def proposal_new_def)
  note logs = append_logged [OF assms(2,3) clean_acquired(2) _ _ r]
  show ?thesis
  proof (cases "map_of (dg_retries s) request = None \<and> (\<exists>entry. r = Inr entry)")
    case True
    then have "logged D (s'\<lparr>dg_writer_epoch := dg_writer_epoch s + 1\<rparr>) (hs @ [proposed_header D s ?p Complete])"
      using logs assms(2) p
      by (auto simp: logged_def log_snoc logged_epoch_irrelevant proposed_header_def durable_wf_def nothing_above_def)
    moreover have "t = s'\<lparr>dg_writer_epoch := dg_writer_epoch s + 1\<rparr>"
      using True clean_acquired(1) r by (auto simp: durable_acquire_writer_def Let_def)
    ultimately show ?thesis by blast
  next
    case False
    then have "t = s"
      using clean_acquired(1) r logs p by (cases r) (auto simp: durable_acquire_writer_def Let_def split: option.splits)
    then show ?thesis using assms(2) by blast
  qed
qed

lemma clean_run_logged:
  assumes "(clean_step D)\<^sup>*\<^sup>* s t" "logged D s hs" "digest_ok D"
  shows "\<exists>hs'. logged D t hs'"
  using assms
proof (induction arbitrary: hs rule: rtranclp_induct)
  case (step y z)
  then show ?case using clean_step_logged by blast
qed blast

lemma clean_start_logged: "clean_start s \<Longrightarrow> logged D s []"
proof -
  assume start: "clean_start s"
  then have "durable_wf s" by (simp add: clean_start_def durable_start_wf)
  moreover have "dg_commit s = 0" "dg_retries s = []" "dg_writer_epoch s = 0"
    using start by (auto simp: clean_start_def durable_start_def durable_bootstrap_def empty_group_def)
  moreover have "nothing_above s"
    using start by (fastforce simp: clean_start_def nothing_above_def entry_at_def dest: map_of_SomeD)
  ultimately show ?thesis by (simp add: logged_def log_retries_def log_epoch_def)
qed

lemma voter_files: "durable_wf s \<Longrightarrow> filter_map (\<lambda>node. map_of (dg_replicas s) node) (dg_voters s) = bt_vals (dg_replicas s)"
proof -
  assume wf: "durable_wf s"
  have "filter_map (\<lambda>node. map_of (dg_replicas s) node) (bt_keys (dg_replicas s))
      = map (\<lambda>k. the (map_of (dg_replicas s) k)) (bt_keys (dg_replicas s))"
  proof -
    have "filter (\<lambda>x. map_of (dg_replicas s) x \<noteq> None) (bt_keys (dg_replicas s)) = bt_keys (dg_replicas s)"
      by (auto simp: filter_id_conv bt_keys_mem)
    then show ?thesis by (simp add: filter_map_conv comp_def)
  qed
  then show ?thesis using wf bt_vals_keys [of "dg_replicas s"] by (simp add: durable_wf_def)
qed

text \<open>The recovery loop replays a logged group from any point of its log.\<close>

lemma recover_logged:
  assumes log: "logged D s hs" and g: "dg_replicas g = dg_replicas s" "dg_config g = dg_config s"
      "dg_commit g + m = dg_commit s" "dg_retries g = log_retries (take (dg_commit g) hs)"
      "dg_writer_epoch g = log_epoch (take (dg_commit g) hs)"
  shows "\<exists>g'. recover_loop D (Suc m) (dg_voters s) g = Some (Inr g') \<and> dg_replicas g' = dg_replicas s \<and>
     dg_commit g' = dg_commit s \<and> dg_retries g' = dg_retries s \<and> dg_writer_epoch g' = dg_writer_epoch s"
  using g
proof (induction m arbitrary: g)
  case 0
  have wf: "durable_wf s" and above: "nothing_above s" using log by (simp_all add: logged_def)
  have "load_records D (dg_commit s + 1) (bt_vals (dg_replicas s)) = []"
    unfolding load_records_def
  proof -
    have "ok (replica_load D (dg_commit s + 1) files) = None" if member: "files \<in> set (bt_vals (dg_replicas s))" for files
    proof -
      obtain node where "(node, files) \<in> set (dg_replicas s)" using member by (auto simp: bt_vals_def)
      then have "map_of (dg_replicas s) node = Some files" using wf by (simp add: durable_wf_def sorted_keys_mem)
      then show ?thesis using nothing_above_load [OF above] by simp
    qed
    then show "filter_map (\<lambda>files. ok (replica_load D (dg_commit s + 1) files)) (bt_vals (dg_replicas s)) = []"
      by (intro filter_map_Nil) blast
  qed
  then have "next_records D (dg_voters s) g = []"
    using 0 voter_files [OF wf] by (simp add: next_records_def)
  then show ?case using 0 log by (simp add: logged_def)
next
  case (Suc m)
  let ?j = "dg_commit g"
  have wf: "durable_wf s" using log by (simp add: logged_def)
  have j: "?j < length hs" "logged_at D s ?j (hs ! ?j)" using log Suc.prems(3) by (simp_all add: logged_def)
  have records: "next_records D (dg_voters s) g = load_records D (?j + 1) (bt_vals (dg_replicas s))"
    using Suc.prems voter_files [OF wf] by (simp add: next_records_def)
  have nonempty: "next_records D (dg_voters s) g \<noteq> []"
    using j(2) unfolding records logged_at_def by (auto simp: agreed_header_def header_counts_def max_by_count_def)
  obtain g' where g': "recover_round D (next_records D (dg_voters s) g) g = Inr g'"
      "dg_retries g' = log_retries (take (?j + 1) hs)" "dg_writer_epoch g' = log_epoch (take (?j + 1) hs)"
    using recover_round_ok [of D "next_records D (dg_voters s) g" g "hs ! ?j"] j Suc.prems
    unfolding records logged_at_def by (auto simp: take_Suc_conv_app_nth log_snoc)
  have "dg_replicas g' = dg_replicas s" "dg_config g' = dg_config s" "dg_commit g' = ?j + 1"
    using recover_round_Inr [OF g'(1)] Suc.prems by simp_all
  with Suc.IH [of g'] g' nonempty Suc.prems(3) show ?case by simp
qed



subsection \<open>Progress\<close>

lemma append_available:
  assumes wf: "durable_wf s" and leader: "dg_leader s = Some l" and fresh: "map_of (dg_retries s) (pr_request p) = None"
    and fence: "durable_fence s p = Inr ()" and quorum: "majority (length (dg_voters s)) \<le> distinct_members (dg_voters s) durable"
    and coded: "mode = Coded \<longrightarrow> rs_ok D (gc_k (dg_config s)) (length (dg_voters s) - gc_k (dg_config s)) \<and>
        length (dg_voters s) - majority (length (dg_voters s)) + gc_k (dg_config s) \<le> distinct_members (dg_voters s) durable"
  shows "fst (durable_append D (\<lambda>_. Persisted) s ingress p durable mode)
     = Inr (durable_entry (dg_commit s + 1) mode p (sha256 D (pr_payload p)))"
proof -
  let ?h = "proposed_header D s p mode"
  have k: "0 < gc_k (dg_config s)" using wf by (simp add: durable_wf_def)
  have h: "dh_k ?h = gc_k (dg_config s)" "dh_n ?h = length (dg_voters s)" "dh_index ?h = dg_commit s + 1"
    by (simp_all add: proposed_header_def)
  obtain parts where parts: "(if mode = Coded then encode D (dh_k ?h) (dh_n ?h - dh_k ?h) (pr_payload p)
      else Inr (map (\<lambda>_. pr_payload p) (dg_voters s))) = Inr parts"
    using encode_total [OF _ k, of D "length (dg_voters s) - gc_k (dg_config s)" "pr_payload p"] coded
    by (cases mode) (auto simp: proposed_header_def)
  obtain replicas where written: "persist_parts D (\<lambda>_. Persisted) ?h durable parts (enumerate 0 (dg_voters s)) (dg_replicas s)
      = (Inr (), replicas)"
    using persist_parts_total [OF voters_have_files [OF wf], of D ?h durable parts 0] by (metis prod.collapse)
  have guards: "\<not> distinct_members (dg_voters s) durable < majority (length (dg_voters s))"
      "\<not> (mode = Coded \<and> distinct_members (dg_voters s) durable < length (dg_voters s) - majority (length (dg_voters s)) + gc_k (dg_config s))"
    using quorum coded by auto
  show ?thesis
    unfolding durable_append_def Let_def fresh fence
    using leader guards by (simp only: parts h(3)) (simp add: written)
qed

text \<open>
  C29: The group makes progress whenever a majority is up. In every reachable state, a voter that
  reaches a majority is elected, and a fresh command that passes the writer fence and whose
  certificate is large enough commits at the next index, coded or complete.
\<close>

theorem durable_progress:
  assumes start: "durable_start s0" "(durable_step D)\<^sup>*\<^sup>* s0 s"
    and leader: "leader \<in> set (dg_voters s)" "majority (length (dg_voters s)) \<le> distinct_members (dg_voters s) reachable"
    and fresh: "map_of (dg_retries s) (pr_request p) = None" and fence: "durable_fence s p = Inr ()"
    and quorum: "majority (length (dg_voters s)) \<le> distinct_members (dg_voters s) durable"
    and coded: "mode = Coded \<longrightarrow> rs_ok D (gc_k (dg_config s)) (length (dg_voters s) - gc_k (dg_config s)) \<and>
        length (dg_voters s) - majority (length (dg_voters s)) + gc_k (dg_config s) \<le> distinct_members (dg_voters s) durable"
  shows "\<exists>s1. durable_elect s leader reachable = Inr (dg_term s + 1, s1) \<and>
     fst (durable_append D (\<lambda>_. Persisted) s1 leader p durable mode)
       = Inr (durable_entry (dg_commit s + 1) mode p (sha256 D (pr_payload p)))"
proof -
  have wf: "durable_wf s" by (rule dur.reach_inv [OF start])
  let ?s1 = "s\<lparr>dg_term := dg_term s + 1, dg_leader := Some leader\<rparr>"
  have elect: "durable_elect s leader reachable = Inr (dg_term s + 1, ?s1)"
    using leader wf bt_keys_mem [of leader "dg_replicas s"] by (auto simp: durable_elect_def durable_wf_def)
  have "fst (durable_append D (\<lambda>_. Persisted) ?s1 leader p durable mode)
      = Inr (durable_entry (dg_commit ?s1 + 1) mode p (sha256 D (pr_payload p)))"
  proof (rule append_available)
    show "durable_wf ?s1" using wf by (simp add: durable_wf_def)
    show "durable_fence ?s1 p = Inr ()" using fence by (cases "pr_writer_epoch p") (auto simp: durable_fence_def split: if_splits)
  qed (use fresh quorum coded in simp_all)
  then show ?thesis using elect by simp
qed

theorem durable_progress_witness:
  "\<exists>s1. durable_elect ex_durable 2 [2, 3] = Inr (2, s1) \<and>
     fst (durable_append xor_deps (\<lambda>_. Persisted) s1 2 ex_proposal [1, 2, 3] Coded)
       = Inr (durable_entry 1 Coded ex_proposal (sha256 xor_deps [1, 2, 3]))"
proof -
  have facts: "gc_k (dg_config ex_durable) = 2" "length (dg_voters ex_durable) = 3" "dg_term ex_durable = 1"
      "dg_commit ex_durable = 0" "pr_payload ex_proposal = [1, 2, 3]" "dg_voters ex_durable = [1, 2, 3]"
    by (simp_all add: ex_durable_def empty_group_def ex_config_def ex_proposal_def proposal_new_def)
  have quorum: "majority (Suc (Suc (Suc 0))) = 2" "distinct_members [1, 2, 3] [1, 2, 3] = 3" "distinct_members [1, 2, 3] [2, 3] = 2" by code_simp+
  have "\<exists>s1. durable_elect ex_durable 2 [2, 3] = Inr (dg_term ex_durable + 1, s1) \<and>
     fst (durable_append xor_deps (\<lambda>_. Persisted) s1 2 ex_proposal [1, 2, 3] Coded)
       = Inr (durable_entry (dg_commit ex_durable + 1) Coded ex_proposal (sha256 xor_deps (pr_payload ex_proposal)))"
  proof (rule durable_progress [OF ex_durable_start ex_durable_reach])
    show "map_of (dg_retries ex_durable) (pr_request ex_proposal) = None" by code_simp
    show "durable_fence ex_durable ex_proposal = Inr ()" by code_simp
  qed (use facts quorum xor_rs_ok in \<open>simp_all\<close>)
  then show ?thesis by (simp only: facts one_add_one add_0)
qed

subsection \<open>Limits of the file protocol\<close>

lemmas durable_run = durable_append_def durable_fence_def distinct_members_def majority_def bs_of_list_def
  proposed_header_def replica_persist_def ex_durable_def empty_group_def ex_replicas_def ex_config_def proposal_new_def Let_def

text \<open>
  A complete entry acknowledged by voters 1 and 2 is on a majority, yet recovery from the majority
  of voters 2 and 3 fails: the header is counted among the reachable voters only, and has to reach
  a majority of all voters there.
\<close>

definition ex_pair :: durable_group where
  "ex_pair = snd (durable_append xor_deps (\<lambda>_. Persisted) ex_durable 1 ex_proposal [1, 2] Complete)"

lemma ex_pair_replicas:
  fixes h slot
  defines "h \<equiv> proposed_header xor_deps ex_durable ex_proposal Complete"
  shows "dg_replicas ex_pair = [(1, [(1, written xor_deps h 0 [1, 2, 3])]), (2, [(1, written xor_deps h 1 [1, 2, 3])]), (3, [])]"
    and "fst (durable_append xor_deps (\<lambda>_. Persisted) ex_durable 1 ex_proposal [1, 2] Complete)
       = Inr (durable_entry 1 Complete ex_proposal (sha256 xor_deps [1, 2, 3]))"
  by (simp_all add: h_def ex_pair_def durable_run ex_proposal_def written_def entry_at_def)

lemma quorum_recovery_fails:
  "(\<exists>entry. fst (durable_append xor_deps (\<lambda>_. Persisted) ex_durable 1 ex_proposal [1, 2] Complete) = Inr entry) \<and>
   distinct_members (gc_voters ex_config) [2, 3] = majority (length (gc_voters ex_config)) \<and>
   durable_recover xor_deps 2 ex_config (dg_replicas ex_pair) [2, 3] = Some (Inl ReconstructionUnavailable)"
proof -
  let ?h = "proposed_header xor_deps ex_durable ex_proposal Complete"
  have load: "replica_load xor_deps 1 [(1, written xor_deps ?h 1 [1, 2, 3])] = Inr (?h, be_bytes 8 1 @ [1, 2, 3])"
    using load_written [OF xor_digest_ok ex_durable_width [of Complete], of 1 "[1, 2, 3]" "[]"]
    by (simp add: proposed_header_def ex_durable_def empty_group_def)
  have records: "next_records xor_deps [2, 3] (empty_group ex_config (bt_of_list (dg_replicas ex_pair)))
      = [(?h, be_bytes 8 1 @ [1, 2, 3])]"
    using load by (simp add: next_records_def load_records_def empty_group_def ex_pair_replicas bt_of_list_def
        replica_load_def [of _ _ "[]"] entry_at_def [of _ "[]"] Let_def)
  have quorum: "distinct_members [1, 2, 3] [2, 3] = 2" "majority (length [1, 2, 3 :: nat]) = 2" by code_simp+
  have "recover_round xor_deps [(?h, be_bytes 8 1 @ [1, 2, 3])] (empty_group ex_config (bt_of_list (dg_replicas ex_pair)))
      = Inl ReconstructionUnavailable"
    by (simp add: recover_round_def agreed_header_def header_counts_def max_by_count_def Let_def empty_group_def
        ex_config_def majority_def)
  then have "recover_loop xor_deps (Suc 1) [2, 3] (empty_group ex_config (bt_of_list (dg_replicas ex_pair)))
      = Some (Inl ReconstructionUnavailable)"
    using records by simp
  moreover have "gc_voters ex_config = [1, 2, 3]" by (simp add: ex_config_def)
  ultimately show ?thesis
    using quorum ex_pair_replicas(2) by (simp add: durable_recover_def numeral_2_eq_2)
qed

text \<open>
  Two failed attempts at one index can leave voter 1 with the header of the second and the body of
  the first. A later acknowledged command with that header, written to voters 2 and 3, cannot be
  read: the reader takes the first record that matches, and its body has another digest.
\<close>

definition torn_first :: proposal where
  "torn_first = proposal_new 8 Catalog [9]"

definition torn_outcome :: "persist_outcome \<Rightarrow> node_id \<Rightarrow> persist_outcome" where
  "torn_outcome o1 node = (if node = 1 then o1 else Persisted)"

definition ex_torn1 :: durable_group where
  "ex_torn1 = snd (durable_append xor_deps (torn_outcome BothWritten) ex_durable 1 torn_first [1, 2] Complete)"

definition ex_torn2 :: durable_group where
  "ex_torn2 = snd (durable_append xor_deps (torn_outcome HeaderWritten) ex_torn1 1 ex_proposal [1, 2] Complete)"

definition ex_torn3 :: durable_group where
  "ex_torn3 = snd (durable_append xor_deps (\<lambda>_. Persisted) ex_torn2 1 ex_proposal [2, 3] Complete)"

lemma ex_torn_states:
  fixes h
  defines "h \<equiv> proposed_header xor_deps ex_durable ex_proposal Complete"
  shows "ex_torn1 = ex_durable\<lparr>dg_replicas := [(1, [(1, written xor_deps (proposed_header xor_deps ex_durable torn_first Complete) 0 [9])]), (2, []), (3, [])]\<rparr>"
    and "ex_torn2 = ex_durable\<lparr>dg_replicas := [(1, [(1, (written xor_deps h 0 [9]))]), (2, []), (3, [])]\<rparr>"
    and "dg_replicas ex_torn3 = [(1, [(1, written xor_deps h 0 [9])]), (2, [(1, written xor_deps h 1 [1, 2, 3])]),
        (3, [(1, written xor_deps h 2 [1, 2, 3])])] \<and> dg_commit ex_torn3 = 1 \<and> dg_config ex_torn3 = ex_config"
    and "\<exists>entry. fst (durable_append xor_deps (\<lambda>_. Persisted) ex_torn2 1 ex_proposal [2, 3] Complete) = Inr entry"
proof -
  show one: "ex_torn1 = ex_durable\<lparr>dg_replicas := [(1, [(1, written xor_deps (proposed_header xor_deps ex_durable torn_first Complete) 0 [9])]), (2, []), (3, [])]\<rparr>"
    by (simp add: h_def ex_torn1_def durable_run torn_first_def torn_outcome_def written_def entry_at_def)
  show two: "ex_torn2 = ex_durable\<lparr>dg_replicas := [(1, [(1, (written xor_deps h 0 [9]))]), (2, []), (3, [])]\<rparr>"
    unfolding ex_torn2_def one
    by (simp add: h_def durable_run ex_proposal_def torn_outcome_def written_def entry_at_def)
  show "dg_replicas ex_torn3 = [(1, [(1, written xor_deps h 0 [9])]), (2, [(1, written xor_deps h 1 [1, 2, 3])]),
        (3, [(1, written xor_deps h 2 [1, 2, 3])])] \<and> dg_commit ex_torn3 = 1 \<and> dg_config ex_torn3 = ex_config"
    and "\<exists>entry. fst (durable_append xor_deps (\<lambda>_. Persisted) ex_torn2 1 ex_proposal [2, 3] Complete) = Inr entry"
    unfolding ex_torn3_def two
    by (simp_all add: h_def durable_run ex_proposal_def written_def entry_at_def) (simp_all add: numeral_2_eq_2)
qed

lemma torn_write_blocks_read:
  "(\<exists>entry. fst (durable_append xor_deps (\<lambda>_. Persisted) ex_torn2 1 ex_proposal [2, 3] Complete) = Inr entry) \<and>
   durable_read_committed xor_deps ex_torn3 1 = Inl ReconstructionUnavailable"
proof -
  let ?h = "proposed_header xor_deps ex_durable ex_proposal Complete"
  have load: "replica_load xor_deps 1 [(1, written xor_deps ?h slot body)] = Inr (?h, be_bytes 8 slot @ body)" for slot body
    using load_written [OF xor_digest_ok ex_durable_width [of Complete], of slot body "[]"]
    by (simp add: proposed_header_def ex_durable_def empty_group_def)
  let ?records = "[(?h, be_bytes 8 0 @ [9]), (?h, be_bytes 8 1 @ [1, 2, 3]), (?h, be_bytes 8 2 @ [1, 2, 3])]"
  have records: "load_records xor_deps 1 (bt_vals (dg_replicas ex_torn3)) = ?records"
    using load by (simp add: load_records_def ex_torn_states(3) bt_vals_def)
  have "agreed_header xor_deps ?records (majority 3) = Inr ?h"
    by (rule agreed_header_majority [OF xor_digest_ok ex_durable_width]) (simp_all add: votes_def majority_def)
  moreover have "durable_reconstruct xor_deps ex_config ?h ?records = Inl ReconstructionUnavailable"
    by (simp add: durable_reconstruct_def proposed_header_def ex_config_def ex_durable_def empty_group_def
        ex_proposal_def proposal_new_def Let_def)
  moreover have "length (gc_voters ex_config) = 3" by (simp add: ex_config_def)
  ultimately show ?thesis
    using records ex_torn_states(3,4) by (simp add: durable_read_committed_def Let_def)
qed

end
