(* ===== verification/Wal_Wire.thy ===== *)
theory Wal_Wire
  imports Bytes
begin

section \<open>The WAL wire protocol\<close>

text \<open>
  \<open>crates/verglas-safekeeper/src/consensus_protocol.rs\<close>: the request and response frames a
  PostgreSQL compute exchanges with a WAL ingress, their encoders, the reader they are decoded
  with and the wire errors. Each field of a frame is a codec in the sense of the locale
  \<open>field_codec\<close>, interpreted for every field kind of the reader. The two properties are that
  decoding accepts exactly the encodings of well-formed messages, so that the format is canonical
  in both directions.
\<close>

subsection \<open>Messages\<close>

datatype wal_request =
    OpenTimeline nat nat
  | AcquireWriter nat string
  | Append nat nat nat bytes
  | ReadWal nat nat nat
  | StatusRequest nat
  | ReleaseWriterRequest nat nat

datatype wal_response =
    Applied nat "nat option" "nat option" "nat option"
  | WalBytes bytes
  | StatusResponse nat nat nat

datatype wal_wire_error =
    Truncated
  | UnknownTag byte
  | FieldTooLarge
  | InvalidUtf8
  | InvalidPresence byte
  | TrailingBytes

definition request_tag :: "wal_request \<Rightarrow> byte" where
  "request_tag r =
     (case r of
        AcquireWriter _ _ \<Rightarrow> 1 | Append _ _ _ _ \<Rightarrow> 2 | ReadWal _ _ _ \<Rightarrow> 3 | ReleaseWriterRequest _ _ \<Rightarrow> 4
      | StatusRequest _ \<Rightarrow> 5 | OpenTimeline _ _ \<Rightarrow> 6)"

definition response_tag :: "wal_response \<Rightarrow> byte" where
  "response_tag r = (case r of Applied _ _ _ _ \<Rightarrow> 1 | WalBytes _ \<Rightarrow> 2 | StatusResponse _ _ _ \<Rightarrow> 3)"

subsection \<open>Encoders\<close>

definition put_bytes :: "bytes \<Rightarrow> bytes \<Rightarrow> wal_wire_error + bytes" where
  "put_bytes output value =
     (if length value < u32_bound then Inr (output @ be_bytes 4 (length value) @ value) else Inl FieldTooLarge)"

definition put_optional_u64 :: "bytes \<Rightarrow> nat option \<Rightarrow> bytes" where
  "put_optional_u64 output value =
     (case value of Some v \<Rightarrow> output @ [1] @ be_bytes 8 v | None \<Rightarrow> output @ [0])"

definition request_encode :: "wal_request \<Rightarrow> wal_wire_error + bytes" where
  "request_encode r =
     (case r of
        OpenTimeline request_id start_lsn \<Rightarrow> Inr ([6] @ be_bytes 16 request_id @ be_bytes 8 start_lsn)
      | AcquireWriter request_id writer \<Rightarrow> put_bytes ([1] @ be_bytes 16 request_id) (as_bytes writer)
      | Append request_id writer_epoch start_lsn payload \<Rightarrow>
          put_bytes ([2] @ be_bytes 16 request_id @ be_bytes 8 writer_epoch @ be_bytes 8 start_lsn) payload
      | ReadWal from_lsn to_lsn minimum_index \<Rightarrow>
          Inr ([3] @ be_bytes 8 from_lsn @ be_bytes 8 to_lsn @ be_bytes 8 minimum_index)
      | ReleaseWriterRequest request_id writer_epoch \<Rightarrow> Inr ([4] @ be_bytes 16 request_id @ be_bytes 8 writer_epoch)
      | StatusRequest minimum_index \<Rightarrow> Inr ([5] @ be_bytes 8 minimum_index))"

definition response_encode :: "wal_response \<Rightarrow> wal_wire_error + bytes" where
  "response_encode r =
     (case r of
        Applied index writer_epoch wal_end archive_lsn \<Rightarrow>
          Inr (put_optional_u64 (put_optional_u64 (put_optional_u64 ([1] @ be_bytes 8 index) writer_epoch) wal_end) archive_lsn)
      | WalBytes payload \<Rightarrow> put_bytes [2] payload
      | StatusResponse index wal_end archive_lsn \<Rightarrow>
          Inr ([3] @ be_bytes 8 index @ be_bytes 8 wal_end @ be_bytes 8 archive_lsn))"

subsection \<open>The reader\<close>

type_synonym 'a reader = "bytes \<Rightarrow> wal_wire_error + ('a \<times> bytes)"

definition rd_take :: "nat \<Rightarrow> bytes reader" where
  "rd_take count remaining =
     (if length remaining < count then Inl Truncated else Inr (take count remaining, drop count remaining))"

definition rd_u8 :: "byte reader" where
  "rd_u8 input = and_then (rd_take 1 input) (\<lambda>(bs, rest). Inr (hd bs, rest))"

definition rd_u32 :: "nat reader" where
  "rd_u32 input = and_then (rd_take 4 input) (\<lambda>(bs, rest). Inr (of_be bs, rest))"

definition rd_u64 :: "nat reader" where
  "rd_u64 input = and_then (rd_take 8 input) (\<lambda>(bs, rest). Inr (of_be bs, rest))"

definition rd_u128 :: "nat reader" where
  "rd_u128 input = and_then (rd_take 16 input) (\<lambda>(bs, rest). Inr (of_be bs, rest))"

definition rd_bytes :: "bytes reader" where
  "rd_bytes input = and_then (rd_u32 input) (\<lambda>(count, rest). rd_take count rest)"

definition rd_optional_u64 :: "nat option reader" where
  "rd_optional_u64 input =
     and_then (rd_u8 input) (\<lambda>(marker, rest).
       if marker = 0 then Inr (None, rest)
       else if marker = 1 then and_then (rd_u64 rest) (\<lambda>(v, rest). Inr (Some v, rest))
       else Inl (InvalidPresence marker))"

definition rd_finish :: "bytes \<Rightarrow> wal_wire_error + unit" where
  "rd_finish remaining = (if remaining = [] then Inr () else Inl TrailingBytes)"

subsection \<open>Decoders\<close>

definition request_fields :: "byte \<Rightarrow> wal_request reader" where
  "request_fields tag input =
     (if tag = 6 then
        and_then (rd_u128 input) (\<lambda>(request_id, input).
        and_then (rd_u64 input) (\<lambda>(start_lsn, input). Inr (OpenTimeline request_id start_lsn, input)))
      else if tag = 1 then
        and_then (rd_u128 input) (\<lambda>(request_id, input).
        and_then (rd_bytes input) (\<lambda>(raw, input).
        and_then (ok_or InvalidUtf8 (from_utf8 raw)) (\<lambda>writer. Inr (AcquireWriter request_id writer, input))))
      else if tag = 2 then
        and_then (rd_u128 input) (\<lambda>(request_id, input).
        and_then (rd_u64 input) (\<lambda>(writer_epoch, input).
        and_then (rd_u64 input) (\<lambda>(start_lsn, input).
        and_then (rd_bytes input) (\<lambda>(payload, input).
          Inr (Append request_id writer_epoch start_lsn payload, input)))))
      else if tag = 3 then
        and_then (rd_u64 input) (\<lambda>(from_lsn, input).
        and_then (rd_u64 input) (\<lambda>(to_lsn, input).
        and_then (rd_u64 input) (\<lambda>(minimum_index, input). Inr (ReadWal from_lsn to_lsn minimum_index, input))))
      else if tag = 4 then
        and_then (rd_u128 input) (\<lambda>(request_id, input).
        and_then (rd_u64 input) (\<lambda>(writer_epoch, input). Inr (ReleaseWriterRequest request_id writer_epoch, input)))
      else if tag = 5 then
        and_then (rd_u64 input) (\<lambda>(minimum_index, input). Inr (StatusRequest minimum_index, input))
      else Inl (UnknownTag tag))"

definition request_decode :: "bytes \<Rightarrow> wal_wire_error + wal_request" where
  "request_decode bs =
     and_then (rd_u8 bs) (\<lambda>(tag, input).
     and_then (request_fields tag input) (\<lambda>(request, input).
     and_then (rd_finish input) (\<lambda>_. Inr request)))"

definition response_fields :: "byte \<Rightarrow> wal_response reader" where
  "response_fields tag input =
     (if tag = 1 then
        and_then (rd_u64 input) (\<lambda>(index, input).
        and_then (rd_optional_u64 input) (\<lambda>(writer_epoch, input).
        and_then (rd_optional_u64 input) (\<lambda>(wal_end, input).
        and_then (rd_optional_u64 input) (\<lambda>(archive_lsn, input).
          Inr (Applied index writer_epoch wal_end archive_lsn, input)))))
      else if tag = 2 then
        and_then (rd_bytes input) (\<lambda>(payload, input). Inr (WalBytes payload, input))
      else if tag = 3 then
        and_then (rd_u64 input) (\<lambda>(index, input).
        and_then (rd_u64 input) (\<lambda>(wal_end, input).
        and_then (rd_u64 input) (\<lambda>(archive_lsn, input). Inr (StatusResponse index wal_end archive_lsn, input))))
      else Inl (UnknownTag tag))"

definition response_decode :: "bytes \<Rightarrow> wal_wire_error + wal_response" where
  "response_decode bs =
     and_then (rd_u8 bs) (\<lambda>(tag, input).
     and_then (response_fields tag input) (\<lambda>(response, input).
     and_then (rd_finish input) (\<lambda>_. Inr response)))"

subsection \<open>Fields in both directions\<close>

lemma rd_take_iff: "rd_take n input = Inr (v, rest) \<longleftrightarrow> length v = n \<and> input = v @ rest"
  by (auto simp: rd_take_def)

lemma be_bytes_iff: "length bs = w \<Longrightarrow> of_be bs = n \<longleftrightarrow> n < 256 ^ w \<and> bs = be_bytes w n"
  using be_bytes_of_be [of bs] of_be_bound [of bs] of_be_be_bytes_id [of n w] by metis

lemma reads_int:
  "and_then (rd_take w input) (\<lambda>(bs, rest). Inr (of_be bs, rest)) = Inr (n, rest) \<longleftrightarrow>
     n < 256 ^ w \<and> input = be_bytes w n @ rest"
  using be_bytes_iff [of _ w n] by (fastforce simp: rd_take_iff)

interpretation u8f: exact_codec "\<lambda>b. [b]" rd_u8 "\<lambda>_. True"
  by unfold_locales (auto simp: rd_u8_def rd_take_iff length_Suc_conv)

interpretation u32f: exact_codec "be_bytes 4" rd_u32 "\<lambda>n. n < 256 ^ 4"
  by unfold_locales (simp only: rd_u32_def reads_int)

interpretation u64f: exact_codec "be_bytes 8" rd_u64 "\<lambda>n. n < 256 ^ 8"
  by unfold_locales (simp only: rd_u64_def reads_int)

interpretation u128f: exact_codec "be_bytes 16" rd_u128 "\<lambda>n. n < 256 ^ 16"
  by unfold_locales (simp only: rd_u128_def reads_int)

interpretation bytesf: exact_codec "\<lambda>v. be_bytes 4 (length v) @ v" rd_bytes "\<lambda>v. length v < 256 ^ 4"
  by unfold_locales (auto simp: rd_bytes_def u32f.exact rd_take_iff)

interpretation optf: exact_codec "put_optional_u64 []" rd_optional_u64 "\<lambda>v. \<forall>n. v = Some n \<longrightarrow> n < 256 ^ 8"
  by unfold_locales
    (auto simp: rd_optional_u64_def u8f.exact u64f.exact put_optional_u64_def split: if_splits option.splits,
     intro exI [of _ 0], simp)

lemmas fields_exact = u8f.exact u32f.exact u64f.exact u128f.exact bytesf.exact optf.exact

subsection \<open>Well-formed messages\<close>

text \<open>The widths of the Rust types, the \<open>u32\<close> length field, and that a \<open>String\<close> is UTF-8.\<close>

definition wal_request_wf :: "wal_request \<Rightarrow> bool" where
  "wal_request_wf r =
     (case r of
        OpenTimeline request_id start_lsn \<Rightarrow> request_id < u128_bound \<and> start_lsn < u64_bound
      | AcquireWriter request_id writer \<Rightarrow> request_id < u128_bound \<and> length writer < u32_bound \<and> is_str writer
      | Append request_id writer_epoch start_lsn payload \<Rightarrow>
          request_id < u128_bound \<and> writer_epoch < u64_bound \<and> start_lsn < u64_bound \<and> length payload < u32_bound
      | ReadWal from_lsn to_lsn minimum_index \<Rightarrow>
          from_lsn < u64_bound \<and> to_lsn < u64_bound \<and> minimum_index < u64_bound
      | StatusRequest minimum_index \<Rightarrow> minimum_index < u64_bound
      | ReleaseWriterRequest request_id writer_epoch \<Rightarrow> request_id < u128_bound \<and> writer_epoch < u64_bound)"

definition u64_opt :: "nat option \<Rightarrow> bool" where
  "u64_opt v = (case v of None \<Rightarrow> True | Some n \<Rightarrow> n < u64_bound)"

definition wal_response_wf :: "wal_response \<Rightarrow> bool" where
  "wal_response_wf r =
     (case r of
        Applied index writer_epoch wal_end archive_lsn \<Rightarrow>
          index < u64_bound \<and> u64_opt writer_epoch \<and> u64_opt wal_end \<and> u64_opt archive_lsn
      | WalBytes payload \<Rightarrow> length payload < u32_bound
      | StatusResponse index wal_end archive_lsn \<Rightarrow> index < u64_bound \<and> wal_end < u64_bound \<and> archive_lsn < u64_bound)"

lemma from_utf8_iff: "from_utf8 bs = Some s \<longleftrightarrow> is_str s \<and> bs = as_bytes s"
  by (auto simp: from_utf8_def is_str_def as_bytes_of_bytes)

lemma put_optional_append: "put_optional_u64 output v = output @ put_optional_u64 [] v"
  by (simp add: put_optional_u64_def split: option.splits)

lemma u64_opt_iff: "u64_opt v \<longleftrightarrow> (\<forall>n. v = Some n \<longrightarrow> n < 256 ^ 8)"
  by (simp add: u64_opt_def split: option.splits)

text \<open>The fields of a request after its tag, for one request kind at a time.\<close>

lemma request_fields_iff:
  "request_fields tag input = Inr (r, rest) \<longleftrightarrow>
     wal_request_wf r \<and> (\<exists>body. request_encode r = Inr (tag # body) \<and> input = body @ rest)"
  by (cases r)
    (auto simp: request_fields_def fields_exact request_encode_def wal_request_wf_def put_bytes_def from_utf8_iff
      split: if_splits)

lemma response_fields_iff:
  "response_fields tag input = Inr (r, rest) \<longleftrightarrow>
     wal_response_wf r \<and> (\<exists>body. response_encode r = Inr (tag # body) \<and> input = body @ rest)"
  by (cases r)
    (auto simp: response_fields_def fields_exact response_encode_def wal_response_wf_def put_bytes_def
      put_optional_append [of "_ # _"] put_optional_append [of "_ @ _"] u64_opt_iff split: if_splits)

lemma request_encode_Cons: "request_encode r = Inr bs \<Longrightarrow> \<exists>body. bs = request_tag r # body"
  by (cases r) (auto simp: request_encode_def request_tag_def put_bytes_def split: if_splits)

lemma response_encode_Cons: "response_encode r = Inr bs \<Longrightarrow> \<exists>body. bs = response_tag r # body"
  by (cases r) (auto simp: response_encode_def response_tag_def put_bytes_def put_optional_u64_def split: if_splits option.splits)

text \<open>
  C33: The request format is canonical in both directions: \<open>decode\<close> accepts a frame with a given
  result exactly when that result is a well-formed request whose encoding is the frame, byte for
  byte. So every request the encoder accepts is read back unchanged, no two frames mean the same
  request, and a truncated frame or one with trailing bytes, an unknown tag or invalid UTF-8 is
  refused.
\<close>

theorem wal_request_canonical:
  "request_decode bs = Inr r \<longleftrightarrow> wal_request_wf r \<and> request_encode r = Inr bs"
  using request_encode_Cons [of r bs]
  by (auto simp: request_decode_def u8f.exact request_fields_iff rd_finish_def split: if_splits)

text \<open>
  The response format is canonical in both directions: a frame decodes to a response exactly
  when it is the encoding of that well-formed response, with every optional field marked present
  or absent by one byte.
\<close>

lemma response_decode_iff:
  "response_decode bs = Inr r \<longleftrightarrow> wal_response_wf r \<and> response_encode r = Inr bs"
  using response_encode_Cons [of r bs]
  by (auto simp: response_decode_def u8f.exact response_fields_iff rd_finish_def split: if_splits)

text \<open>
  The only frame the encoder refuses is one whose variable field does not fit the 32-bit length:
  an append with a payload of four gigabytes or more and a writer name of that length get
  \<open>FieldTooLarge\<close>, and everything else encodes.
\<close>

lemma request_encode_error:
  "request_encode r = Inl e \<longleftrightarrow> e = FieldTooLarge \<and>
     ((\<exists>q w. r = AcquireWriter q w \<and> u32_bound \<le> length w) \<or> (\<exists>q p l b. r = Append q p l b \<and> u32_bound \<le> length b))"
  by (cases r) (auto simp: request_encode_def put_bytes_def not_less)

end
