(* ===== verification/Payload_File.thy ===== *)
theory Payload_File
  imports Payload_Types
begin

section \<open>Payload files of one voter, and a local set of voters\<close>

text \<open>
  \<open>crates/verglas-consensus/src/payload.rs\<close>, \<open>FilePayloadReplica\<close> and \<open>PayloadSet\<close>: the
  format of a representation file, the directory of a voter as a map from path to contents, and
  the local payload store over a fixed set of such directories. What the file system does is an
  argument of each operation (\<open>io_env\<close>): whether a file was replaced or removed, and whether
  the directory sync after it succeeded.
\<close>

subsection \<open>The file format\<close>

definition rep_mode_byte :: "replication_mode \<Rightarrow> byte" where
  "rep_mode_byte mode = (case mode of Coded \<Rightarrow> 0 | Complete \<Rightarrow> 1)"

definition rep_byte_mode :: "byte \<Rightarrow> payload_error + replication_mode" where
  "rep_byte_mode b = (if b = 0 then Inr Coded else if b = 1 then Inr Complete else Inl CorruptRepresentation)"

definition rep_fixed :: "payload_representation \<Rightarrow> bytes" where
  "rep_fixed r =
     rep_hash r @ be_bytes 8 (rep_generation r) @ [rep_mode_byte (rep_mode r)] @ be_bytes 16 (rep_request r) @
     be_bytes 8 (rep_length r) @ be_bytes 8 (rep_slot r) @ be_bytes 8 (rep_term r) @ be_bytes 8 (rep_index r)"

definition rep_record :: "payload_representation \<Rightarrow> bytes" where
  "rep_record r = be_bytes 4 (length (rep_group r)) @ as_bytes (rep_group r) @ rep_fixed r @ rep_bytes r"

definition rep_framed :: "deps \<Rightarrow> payload_representation \<Rightarrow> bytes" where
  "rep_framed D r = be_bytes 4 (crc32c D (rep_record r)) @ rep_record r"

definition rep_parse :: "deps \<Rightarrow> bytes \<Rightarrow> payload_error + payload_representation" where
  "rep_parse D framed =
     (if length framed < 97 then Inl CorruptRepresentation
      else
        (let checksum = of_be (take 4 framed); record = drop 4 framed in
         if crc32c D record \<noteq> checksum then Inl CorruptRepresentation
         else
           and_then (ok_or CorruptRepresentation (checked_add 4 (of_be (slice 0 4 record)))) (\<lambda>fixed_start.
           and_then (ok_or CorruptRepresentation (checked_add fixed_start 89)) (\<lambda>payload_start.
           if length record < payload_start then Inl CorruptRepresentation
           else
             and_then (ok_or CorruptRepresentation (from_utf8 (slice 4 fixed_start record))) (\<lambda>grp.
             and_then (rep_byte_mode (record ! (fixed_start + 40))) (\<lambda>mode.
             Inr \<lparr> rep_term = of_be (slice (fixed_start + 73) (fixed_start + 81) record),
                   rep_index = of_be (slice (fixed_start + 81) (fixed_start + 89) record),
                   rep_group = grp,
                   rep_generation = of_be (slice (fixed_start + 32) (fixed_start + 40) record),
                   rep_mode = mode,
                   rep_hash = slice fixed_start (fixed_start + 32) record,
                   rep_request = of_be (slice (fixed_start + 41) (fixed_start + 57) record),
                   rep_length = of_be (slice (fixed_start + 57) (fixed_start + 65) record),
                   rep_slot = of_be (slice (fixed_start + 65) (fixed_start + 73) record),
                   rep_bytes = drop payload_start record \<rparr>))))))"

text \<open>The widths of the Rust fields; the group name has to fit its 32-bit length.\<close>

definition rep_wf :: "payload_representation \<Rightarrow> bool" where
  "rep_wf r \<longleftrightarrow>
     rep_term r < u64_bound \<and> rep_index r < u64_bound \<and> rep_generation r < u64_bound \<and>
     rep_request r < u128_bound \<and> rep_length r < u64_bound \<and> rep_slot r < u64_bound \<and>
     length (rep_hash r) = 32 \<and> is_str (rep_group r) \<and> length (rep_group r) < u32_bound"

lemma rep_byte_mode_mode [simp]: "rep_byte_mode (rep_mode_byte m) = Inr m"
  by (cases m) (simp_all add: rep_byte_mode_def rep_mode_byte_def)

lemma length_rep_fixed: "length (rep_hash r) = 32 \<Longrightarrow> length (rep_fixed r) = 89"
  by (simp add: rep_fixed_def)

lemma rep_fixed_slices:
  assumes "length (rep_hash r) = 32"
  shows "slice 0 32 (rep_fixed r @ rest) = rep_hash r"
    and "slice 32 40 (rep_fixed r @ rest) = be_bytes 8 (rep_generation r)"
    and "(rep_fixed r @ rest) ! 40 = rep_mode_byte (rep_mode r)"
    and "slice 41 57 (rep_fixed r @ rest) = be_bytes 16 (rep_request r)"
    and "slice 57 65 (rep_fixed r @ rest) = be_bytes 8 (rep_length r)"
    and "slice 65 73 (rep_fixed r @ rest) = be_bytes 8 (rep_slot r)"
    and "slice 73 81 (rep_fixed r @ rest) = be_bytes 8 (rep_term r)"
    and "slice 81 89 (rep_fixed r @ rest) = be_bytes 8 (rep_index r)"
    and "drop 89 (rep_fixed r @ rest) = rest"
  using assms by (simp_all add: rep_fixed_def slice_def nth_append drop_Cons' take_Cons')

lemma rep_parse_framed:
  assumes "digest_ok D" "rep_wf r"
  shows "rep_parse D (rep_framed D r) = Inr r"
proof -
  have wf: "length (rep_hash r) = 32" "rep_term r < 256 ^ 8" "rep_index r < 256 ^ 8" "rep_generation r < 256 ^ 8"
      "rep_request r < 256 ^ 16" "rep_length r < 256 ^ 8" "rep_slot r < 256 ^ 8"
      "length (rep_group r) < 256 ^ 4" "is_str (rep_group r)"
    using assms(2) by (simp_all add: rep_wf_def)
  let ?n = "4 + length (rep_group r)" and ?rec = "rep_record r" and ?tail = "rep_fixed r @ rep_bytes r"
  have crc: "crc32c D ?rec < 256 ^ 4" using assms(1) by (simp add: digest_ok_def)
  have tail: "drop ?n ?rec = ?tail" by (simp add: rep_record_def)
  have len: "length ?rec = ?n + 89 + length (rep_bytes r)" using wf(1) by (simp add: rep_record_def length_rep_fixed)
  have grp: "slice 0 4 ?rec = be_bytes 4 (length (rep_group r))" "slice 4 ?n ?rec = as_bytes (rep_group r)"
    by (simp_all add: rep_record_def slice_def)
  have at: "slice (?n + a) (?n + b) ?rec = slice a b ?tail" for a b
    using slice_shift [of ?n a b ?rec] tail by simp
  have at0: "slice ?n (?n + b) ?rec = slice 0 b ?tail" for b using at [of 0 b] by simp
  have nth: "?rec ! (?n + 40) = ?tail ! 40"
    using nth_drop [of ?n ?rec 40] len tail by simp
  have payload: "drop (?n + 89) ?rec = rep_bytes r"
    using tail rep_fixed_slices(9) [OF wf(1), of "rep_bytes r"] by (metis add.commute drop_drop)
  have bound: "checked_add 4 (length (rep_group r)) = Some ?n" "checked_add ?n 89 = Some (?n + 89)"
    using wf(8) by simp_all
  have fields: "take 4 (rep_framed D r) = be_bytes 4 (crc32c D ?rec)" "drop 4 (rep_framed D r) = ?rec"
      "97 \<le> length (rep_framed D r)"
    using len by (simp_all add: rep_framed_def)
  have mode: "rep_byte_mode (?rec ! (?n + 40)) = Inr (rep_mode r)"
    unfolding nth rep_fixed_slices(3) [OF wf(1)] by simp
  have ints: "of_be (be_bytes 8 (rep_term r)) = rep_term r" "of_be (be_bytes 8 (rep_index r)) = rep_index r"
      "of_be (be_bytes 8 (rep_generation r)) = rep_generation r" "of_be (be_bytes 16 (rep_request r)) = rep_request r"
      "of_be (be_bytes 8 (rep_length r)) = rep_length r" "of_be (be_bytes 8 (rep_slot r)) = rep_slot r"
      "of_be (be_bytes 4 (length (rep_group r))) = length (rep_group r)"
      "of_be (be_bytes 4 (crc32c D ?rec)) = crc32c D ?rec"
    using wf crc by (simp_all only: of_be_be_bytes_id)
  show ?thesis
    unfolding rep_parse_def Let_def fields(1,2) grp(1) ints(7,8)
    using fields(3) len
    by (simp only: bound ok_or.simps and_then.simps grp(2) from_utf8_as_bytes [OF wf(9)] mode at at0
        rep_fixed_slices [OF wf(1)] ints payload) simp
qed

interpretation repf: codec "rep_framed D" "rep_parse D" "\<lambda>r. digest_ok D \<and> rep_wf r" for D
  by unfold_locales (simp add: rep_parse_framed)

subsection \<open>One voter's directory\<close>

type_synonym directory = "string list \<rightharpoonup> bytes"

record io_env =
  ie_write :: "node_id \<Rightarrow> write_outcome"
  ie_readable :: "node_id \<Rightarrow> bool"
  ie_delete :: "node_id \<Rightarrow> write_outcome"

definition payload_path :: "deps \<Rightarrow> hash \<Rightarrow> string \<Rightarrow> nat \<Rightarrow> request_id \<Rightarrow> node_id \<Rightarrow> string list" where
  "payload_path D digest grp generation request node =
     [''payloads'', hex_bytes digest, hex_bytes (sha256 D (as_bytes grp)), dec_string generation, hex_fixed 32 request,
      dec_string node]"

definition file_store :: "deps \<Rightarrow> io_env \<Rightarrow> node_id \<Rightarrow> payload_representation \<Rightarrow> directory \<Rightarrow> (payload_error + unit) \<times> directory" where
  "file_store D env node r dir =
     (if \<not> length (rep_group r) < u32_bound then (Inl CorruptRepresentation, dir)
      else
        (let path = payload_path D (rep_hash r) (rep_group r) (rep_generation r) (rep_request r) node in
         case ie_write env node of
           Written \<Rightarrow> (Inr (), dir(path \<mapsto> rep_framed D r))
         | Unwritten \<Rightarrow> (Inl (Io OtherKind), dir)
         | WrittenUnsynced \<Rightarrow> (Inl (Io OtherKind), dir(path \<mapsto> rep_framed D r))))"

definition file_load :: "deps \<Rightarrow> io_env \<Rightarrow> node_id \<Rightarrow> hash \<Rightarrow> string \<Rightarrow> nat \<Rightarrow> request_id \<Rightarrow> directory
    \<Rightarrow> payload_error + payload_representation" where
  "file_load D env node digest grp generation request dir =
     (case dir (payload_path D digest grp generation request node) of
        None \<Rightarrow> Inl (Io NotFound)
      | Some framed \<Rightarrow> if ie_readable env node then rep_parse D framed else Inl (Io OtherKind))"

definition file_delete :: "deps \<Rightarrow> io_env \<Rightarrow> node_id \<Rightarrow> hash \<Rightarrow> string \<Rightarrow> nat \<Rightarrow> request_id \<Rightarrow> directory
    \<Rightarrow> (payload_error + unit) \<times> directory" where
  "file_delete D env node digest grp generation request dir =
     (let path = payload_path D digest grp generation request node in
      if dir path = None then (Inr (), dir)
      else
        (case ie_delete env node of
           Written \<Rightarrow> (Inr (), dir(path := None))
         | Unwritten \<Rightarrow> (Inl (Io OtherKind), dir)
         | WrittenUnsynced \<Rightarrow> (Inl (Io OtherKind), dir(path := None))))"

subsection \<open>A local set of voters\<close>

record payload_set =
  ps_k :: nat
  ps_m :: nat
  ps_replicas :: "(node_id, directory) btree"

definition payload_set_new :: "nat \<Rightarrow> nat \<Rightarrow> (node_id \<times> directory) list \<Rightarrow> payload_error + payload_set" where
  "payload_set_new k m replicas =
     (let mapped = bt_of_list replicas in
      if k = 0 \<or> m = 0 \<or> checked_add k m \<noteq> Some (length mapped) then Inl InvalidGeometry
      else Inr \<lparr> ps_k = k, ps_m = m, ps_replicas = mapped \<rparr>)"

definition staged_rep :: "deps \<Rightarrow> string \<Rightarrow> nat \<Rightarrow> replication_mode \<Rightarrow> bytes \<Rightarrow> request_id \<Rightarrow> nat \<Rightarrow> bytes \<Rightarrow> payload_representation" where
  "staged_rep D grp generation mode body request slot data =
     \<lparr> rep_term = 0, rep_index = 0, rep_group = grp, rep_generation = generation, rep_mode = mode,
       rep_hash = sha256 D body, rep_request = request, rep_length = length body, rep_slot = slot, rep_bytes = data \<rparr>"

definition representations :: "deps \<Rightarrow> nat \<Rightarrow> nat \<Rightarrow> node_id list \<Rightarrow> replication_mode \<Rightarrow> bytes \<Rightarrow> payload_error + bytes list" where
  "representations D k m voters mode body =
     (case mode of
        Coded \<Rightarrow> map_err (\<lambda>_. PayloadUnavailable) (encode D k m body)
      | Complete \<Rightarrow> Inr (map (\<lambda>_. body) voters))"

fun store_holders :: "deps \<Rightarrow> io_env \<Rightarrow> (nat \<Rightarrow> payload_representation) \<Rightarrow> node_id list \<Rightarrow> node_id list
    \<Rightarrow> (node_id, directory) btree \<Rightarrow> (payload_error + unit) \<times> (node_id, directory) btree" where
  "store_holders D env rep keys [] replicas = (Inr (), replicas)"
| "store_holders D env rep keys (node # nodes) replicas =
     (case position (\<lambda>candidate. candidate = node) keys of
        None \<Rightarrow> (Inl UnknownHolder, replicas)
      | Some slot \<Rightarrow>
          (case file_store D env node (rep slot) (the (map_of replicas node)) of
             (Inl e, dir) \<Rightarrow> (Inl e, bt_insert node dir replicas)
           | (Inr _, dir) \<Rightarrow> store_holders D env rep keys nodes (bt_insert node dir replicas)))"

definition stage_local :: "deps \<Rightarrow> io_env \<Rightarrow> request_id \<Rightarrow> string \<Rightarrow> nat \<Rightarrow> replication_mode \<Rightarrow> bytes \<Rightarrow> node_id list
    \<Rightarrow> payload_set \<Rightarrow> (payload_error + staged_payload) \<times> payload_set" where
  "stage_local D env request grp generation mode body holders ps =
     (let keys = bt_keys (ps_replicas ps) in
      case certificate_with_voters mode (ps_k ps) (ps_m ps) keys holders of
        Inl (CertificateError required) \<Rightarrow> (Inl (InsufficientDurability required (length (bs_of_list holders))), ps)
      | Inr certificate \<Rightarrow>
          if \<not> list_all (\<lambda>node. map_of (ps_replicas ps) node \<noteq> None) (pc_holders certificate) then (Inl UnknownHolder, ps)
          else
            (case representations D (ps_k ps) (ps_m ps) keys mode body of
               Inl e \<Rightarrow> (Inl e, ps)
             | Inr reps \<Rightarrow>
                 (case store_holders D env (\<lambda>slot. staged_rep D grp generation mode body request slot (reps ! slot)) keys
                         (pc_holders certificate) (ps_replicas ps) of
                    (Inl e, replicas) \<Rightarrow> (Inl e, ps\<lparr>ps_replicas := replicas\<rparr>)
                  | (Inr _, replicas) \<Rightarrow>
                      (Inr \<lparr> sp_hash = sha256 D body, sp_length = length body, sp_certificate = certificate \<rparr>,
                       ps\<lparr>ps_replicas := replicas\<rparr>))))"

definition set_load :: "deps \<Rightarrow> io_env \<Rightarrow> payload_set \<Rightarrow> hash \<Rightarrow> string \<Rightarrow> nat \<Rightarrow> request_id \<Rightarrow> node_id
    \<Rightarrow> payload_error + payload_representation" where
  "set_load D env ps digest grp generation request node =
     and_then (ok_or UnknownHolder (map_of (ps_replicas ps) node)) (\<lambda>dir. file_load D env node digest grp generation request dir)"

definition reconstruct_from :: "deps \<Rightarrow> io_env \<Rightarrow> hash \<Rightarrow> string \<Rightarrow> nat \<Rightarrow> request_id \<Rightarrow> payload_certificate \<Rightarrow> node_id list
    \<Rightarrow> payload_set \<Rightarrow> payload_error + bytes" where
  "reconstruct_from D env digest grp generation request certificate live ps =
     (let records = filter_map (\<lambda>node. ok (set_load D env ps digest grp generation request node))
            (filter (\<lambda>node. node \<in> set live) (pc_holders certificate))
      in case records of
           [] \<Rightarrow> Inl PayloadUnavailable
         | first # _ \<Rightarrow>
             and_then (case pc_mode certificate of
                         Complete \<Rightarrow> Inr (rep_bytes first)
                       | Coded \<Rightarrow> map_err (\<lambda>_. PayloadUnavailable)
                           (decode D (pc_k certificate) (pc_m certificate) (rep_length first)
                              (map (\<lambda>r. (rep_slot r, rep_bytes r)) records)))
               (\<lambda>body. if length body \<noteq> rep_length first \<or> sha256 D body \<noteq> digest then Inl CorruptRepresentation
                       else Inr body))"

definition reconstruct_local :: "deps \<Rightarrow> io_env \<Rightarrow> hash \<Rightarrow> string \<Rightarrow> nat \<Rightarrow> request_id \<Rightarrow> payload_certificate
    \<Rightarrow> payload_set \<Rightarrow> payload_error + bytes" where
  "reconstruct_local D env digest grp generation request certificate ps =
     reconstruct_from D env digest grp generation request certificate (pc_holders certificate) ps"

definition unavailable_if_absent :: "payload_error \<Rightarrow> payload_error" where
  "unavailable_if_absent e = (if e = Io NotFound then PayloadUnavailable else e)"

definition set_set_voters :: "node_id list \<Rightarrow> payload_set \<Rightarrow> payload_error + unit" where
  "set_set_voters voters ps =
     (if bs_of_list voters \<noteq> bs_of_list (bt_keys (ps_replicas ps)) then Inl InvalidGeometry else Inr ())"

definition set_reconstruct :: "deps \<Rightarrow> io_env \<Rightarrow> reconstruct_request \<Rightarrow> payload_set \<Rightarrow> payload_error + bytes" where
  "set_reconstruct D env r ps =
     and_then (sequence (map (\<lambda>node.
         and_then (ok_or UnknownHolder (map_of (ps_replicas ps) node)) (\<lambda>dir.
           map_err unavailable_if_absent
             (file_load D env node (rc_hash r) (rc_group r) (rc_generation r) (rc_request r) dir)))
       (pc_holders (rc_certificate r)))) (\<lambda>records.
     if list_ex (\<lambda>x. rep_term x \<noteq> rc_term r \<or> rep_index x \<noteq> rc_index r \<or> rep_request x \<noteq> rc_request r \<or>
          rep_group x \<noteq> rc_group r \<or> rep_generation x \<noteq> rc_generation r \<or> rep_hash x \<noteq> rc_hash r \<or>
          rep_length x \<noteq> rc_length r \<or> rep_mode x \<noteq> pc_mode (rc_certificate r)) records
     then Inl PayloadUnavailable
     else reconstruct_local D env (rc_hash r) (rc_group r) (rc_generation r) (rc_request r) (rc_certificate r) ps)"

definition set_repair :: "deps \<Rightarrow> io_env \<Rightarrow> repair_request \<Rightarrow> payload_set \<Rightarrow> (payload_error + payload_certificate) \<times> payload_set" where
  "set_repair D env r ps =
     (if list_ex (\<lambda>node. map_of (ps_replicas ps) node = None) (rq_target_voters r) then (Inl UnknownHolder, ps)
      else
        (case set_reconstruct D env
                \<lparr> rc_hash = rq_hash r, rc_group = rq_group r, rc_generation = rq_source_generation r,
                  rc_request = rq_request r, rc_length = rq_length r, rc_term = rq_source_term r,
                  rc_index = rq_source_index r, rc_certificate = rq_certificate r \<rparr> ps of
           Inl e \<Rightarrow> (Inl e, ps)
         | Inr body \<Rightarrow>
             (case stage_local D env (rq_request r) (rq_group r) (rq_target_generation r) (pc_mode (rq_certificate r)) body
                     (rq_target_voters r) ps of
                (Inl e, ps') \<Rightarrow> (Inl e, ps')
              | (Inr staged, ps') \<Rightarrow> (Inr (sp_certificate staged), ps'))))"

fun set_seal_holders :: "deps \<Rightarrow> io_env \<Rightarrow> seal_request \<Rightarrow> node_id list \<Rightarrow> payload_set \<Rightarrow> (payload_error + unit) \<times> payload_set" where
  "set_seal_holders D env q [] ps = (Inr (), ps)"
| "set_seal_holders D env q (node # nodes) ps =
     (case and_then (ok_or UnknownHolder (map_of (ps_replicas ps) node)) (\<lambda>dir.
           and_then (map_err unavailable_if_absent
               (file_load D env node (sl_hash q) (sl_group q) (sl_generation q) (sl_request q) dir)) (\<lambda>record.
           and_then (ok_or UnknownHolder (position (\<lambda>voter. voter = node) (pc_voters (sl_certificate q)))) (\<lambda>slot.
           if rep_hash record \<noteq> sl_hash q \<or> rep_request record \<noteq> sl_request q \<or> rep_group record \<noteq> sl_group q \<or>
              rep_generation record \<noteq> sl_generation q \<or> rep_mode record \<noteq> pc_mode (sl_certificate q) \<or>
              rep_slot record \<noteq> slot \<or>
              (rep_term record \<noteq> 0 \<and> (rep_term record \<noteq> sl_term q \<or> rep_index record \<noteq> sl_index q))
           then Inl CorruptRepresentation else Inr (dir, record)))) of
        Inl e \<Rightarrow> (Inl e, ps)
      | Inr (dir, record) \<Rightarrow>
          if rep_term record = sl_term q \<and> rep_index record = sl_index q then set_seal_holders D env q nodes ps
          else
            (case file_store D env node (record\<lparr>rep_term := sl_term q, rep_index := sl_index q,
                    rep_hash := sl_hash q, rep_request := sl_request q\<rparr>) dir of
               (Inl e, dir') \<Rightarrow> (Inl e, ps\<lparr>ps_replicas := bt_insert node dir' (ps_replicas ps)\<rparr>)
             | (Inr _, dir') \<Rightarrow>
                 set_seal_holders D env q nodes (ps\<lparr>ps_replicas := bt_insert node dir' (ps_replicas ps)\<rparr>)))"

definition set_seal :: "deps \<Rightarrow> io_env \<Rightarrow> seal_request \<Rightarrow> payload_set \<Rightarrow> (payload_error + unit) \<times> payload_set" where
  "set_seal D env q ps =
     (if sl_term q = 0 \<or> sl_index q = 0 then (Inl CorruptRepresentation, ps)
      else set_seal_holders D env q (pc_holders (sl_certificate q)) ps)"

fun set_release_holders :: "deps \<Rightarrow> io_env \<Rightarrow> release_request \<Rightarrow> node_id list \<Rightarrow> payload_set \<Rightarrow> (payload_error + unit) \<times> payload_set" where
  "set_release_holders D env q [] ps = (Inr (), ps)"
| "set_release_holders D env q (node # nodes) ps =
     (case and_then (ok_or UnknownHolder (map_of (ps_replicas ps) node)) (\<lambda>dir.
           case file_load D env node (rl_hash q) (rl_group q) (rl_generation q) (rl_request q) dir of
             Inr record \<Rightarrow>
               and_then (ok_or UnknownHolder (position (\<lambda>voter. voter = node) (pc_voters (rl_certificate q)))) (\<lambda>slot.
               if rep_group record \<noteq> rl_group q \<or> rep_generation record \<noteq> rl_generation q \<or>
                  rep_mode record \<noteq> pc_mode (rl_certificate q) \<or> rep_hash record \<noteq> rl_hash q \<or>
                  rep_request record \<noteq> rl_request q \<or> rep_length record \<noteq> rl_length q \<or> rep_slot record \<noteq> slot \<or>
                  rep_term record \<noteq> rl_term q \<or> rep_index record \<noteq> rl_index q
               then Inl CorruptRepresentation else Inr dir)
           | Inl e \<Rightarrow> if e = Io NotFound then Inr dir else Inl e) of
        Inl e \<Rightarrow> (Inl e, ps)
      | Inr dir \<Rightarrow>
          (case file_delete D env node (rl_hash q) (rl_group q) (rl_generation q) (rl_request q) dir of
             (Inl e, dir') \<Rightarrow> (Inl e, ps\<lparr>ps_replicas := bt_insert node dir' (ps_replicas ps)\<rparr>)
           | (Inr _, dir') \<Rightarrow>
               set_release_holders D env q nodes (ps\<lparr>ps_replicas := bt_insert node dir' (ps_replicas ps)\<rparr>)))"

definition set_release :: "deps \<Rightarrow> io_env \<Rightarrow> release_request \<Rightarrow> payload_set \<Rightarrow> (payload_error + unit) \<times> payload_set" where
  "set_release D env q ps =
     (if pc_k (rl_certificate q) \<noteq> ps_k ps \<or> pc_m (rl_certificate q) \<noteq> ps_m ps then (Inl CorruptRepresentation, ps)
      else set_release_holders D env q (pc_holders (rl_certificate q)) ps)"

end
