(* ===== verification/Payload_Store.thy ===== *)
theory Payload_Store
  imports Payload_File
begin

section \<open>The distributed payload store\<close>

text \<open>
  \<open>crates/verglas-consensus/src/payload.rs\<close>, the traits \<open>RepresentationTransport\<close> and
  \<open>PayloadStore\<close> and \<open>DistributedPayloadStore\<close>. A transport is a record of the three trait
  methods over a state \<open>'n\<close> of the peers; \<open>'f\<close> is what the network does during one call of
  the store. Requests that the source starts together go to different voters and touch different
  records, so they run one after the other in the order of their completion. A staging call stops at
  the quorum and drops the requests still in flight; which of them reach their peers all the same is
  part of the environment (\<open>ce_landed\<close>). The locale \<open>representation_transport\<close> states what
  the store relies on, and the store's durability is proved from it: a staged body survives the loss
  of any minority of the voters.
\<close>

subsection \<open>Transports\<close>

record ('n, 'f) transport =
  tr_store :: "'f \<Rightarrow> node_id \<Rightarrow> payload_representation \<Rightarrow> 'n \<Rightarrow> (payload_error + unit) \<times> 'n"
  tr_load :: "'f \<Rightarrow> node_id \<Rightarrow> hash \<Rightarrow> string \<Rightarrow> nat \<Rightarrow> request_id \<Rightarrow> 'n \<Rightarrow> payload_error + payload_representation option"
  tr_delete :: "'f \<Rightarrow> node_id \<Rightarrow> hash \<Rightarrow> string \<Rightarrow> nat \<Rightarrow> request_id \<Rightarrow> nat \<Rightarrow> 'n \<Rightarrow> (payload_error + unit) \<times> 'n"

record 'f call_env =
  ce_faults :: 'f
  ce_rank :: "node_id \<Rightarrow> nat"
  ce_landed :: "node_id \<Rightarrow> bool"

subsection \<open>The store\<close>

record distributed_store =
  ds_k :: nat
  ds_m :: nat
  ds_voters :: "node_id list"

definition distributed_new :: "nat \<Rightarrow> nat \<Rightarrow> node_id list \<Rightarrow> payload_error + distributed_store" where
  "distributed_new k m voters =
     (if k = 0 \<or> m = 0 \<or> checked_add k m \<noteq> Some (length voters) \<or> length (bs_of_list voters) \<noteq> length voters \<or> 0 \<in> set voters
      then Inl InvalidGeometry
      else Inr \<lparr> ds_k = k, ds_m = m, ds_voters = voters \<rparr>)"

definition stage_order :: "node_id list \<Rightarrow> node_id list \<Rightarrow> node_id list" where
  "stage_order voters candidates =
     (let preferred = fold (\<lambda>c ordered. if c \<in> set voters \<and> c \<notin> set ordered then ordered @ [c] else ordered) candidates []
      in fold (\<lambda>v ordered. if v \<notin> set ordered then ordered @ [v] else ordered) voters preferred)"

definition stage_required :: "replication_mode \<Rightarrow> nat \<Rightarrow> nat \<Rightarrow> nat" where
  "stage_required mode k voter_count =
     (let election_quorum = voter_count div 2 + 1 in
      case mode of Coded \<Rightarrow> voter_count - election_quorum + k | Complete \<Rightarrow> election_quorum)"

definition staged_bytes :: "deps \<Rightarrow> nat \<Rightarrow> nat \<Rightarrow> replication_mode \<Rightarrow> node_id list \<Rightarrow> bytes \<Rightarrow> payload_error + bytes list" where
  "staged_bytes D k m mode voters body =
     (case mode of
        Coded \<Rightarrow> map_err (\<lambda>_. PayloadUnavailable) (encode D k m body)
      | Complete \<Rightarrow> Inr (map (\<lambda>_. body) voters))"

definition voter_rep :: "node_id list \<Rightarrow> (nat \<Rightarrow> payload_representation) \<Rightarrow> node_id \<Rightarrow> payload_error + payload_representation" where
  "voter_rep voters rep voter =
     and_then (ok_or UnknownHolder (position (\<lambda>configured. configured = voter) voters)) (\<lambda>slot. Inr (rep slot))"

definition store_rep :: "('n, 'f) transport \<Rightarrow> 'f \<Rightarrow> node_id \<Rightarrow> payload_error + payload_representation \<Rightarrow> 'n \<Rightarrow> (payload_error + unit) \<times> 'n" where
  "store_rep T f voter r net = (case r of Inl e \<Rightarrow> (Inl e, net) | Inr rep \<Rightarrow> tr_store T f voter rep net)"

text \<open>
  The completion loop of \<open>stage\<close>: the number of durable voters, or the voters of the quorum.
  On the quorum the pending requests are dropped; those that land anyway still store.
\<close>

fun stage_loop :: "('n, 'f) transport \<Rightarrow> 'f call_env \<Rightarrow> (node_id \<Rightarrow> payload_error + payload_representation) \<Rightarrow> nat
    \<Rightarrow> node_id list \<Rightarrow> node_id list \<Rightarrow> 'n \<Rightarrow> (nat + node_id list) \<times> 'n" where
  "stage_loop T env rep required durable [] net = (Inl (length durable), net)"
| "stage_loop T env rep required durable (voter # voters) net =
     (case store_rep T (ce_faults env) voter (rep voter) net of
        (Inl e, net') \<Rightarrow> stage_loop T env rep required durable voters net'
      | (Inr _, net') \<Rightarrow>
          if length durable + 1 = required
          then (Inr (durable @ [voter]),
                fold (\<lambda>v n. snd (store_rep T (ce_faults env) v (rep v) n)) (filter (ce_landed env) voters) net')
          else stage_loop T env rep required (durable @ [voter]) voters net')"

definition dist_rep :: "deps \<Rightarrow> request_id \<Rightarrow> string \<Rightarrow> nat \<Rightarrow> replication_mode \<Rightarrow> hash \<Rightarrow> nat \<Rightarrow> bytes list \<Rightarrow> nat \<Rightarrow> payload_representation" where
  "dist_rep D request grp generation mode digest len reps slot =
     \<lparr> rep_term = 0, rep_index = 0, rep_group = grp, rep_generation = generation, rep_mode = mode,
       rep_hash = digest, rep_request = request, rep_length = len, rep_slot = slot, rep_bytes = reps ! slot \<rparr>"

definition dist_stage :: "deps \<Rightarrow> ('n, 'f) transport \<Rightarrow> 'f call_env \<Rightarrow> request_id \<Rightarrow> string \<Rightarrow> nat \<Rightarrow> replication_mode \<Rightarrow> bytes
    \<Rightarrow> node_id list \<Rightarrow> distributed_store \<times> 'n \<Rightarrow> (payload_error + staged_payload) \<times> (distributed_store \<times> 'n)" where
  "dist_stage D T env request grp generation mode body candidates s =
     (let (st, net) = s; voters = ds_voters st;
          ordered = stage_order voters candidates;
          required = stage_required mode (ds_k st) (length voters);
          digest = sha256 D body
      in case staged_bytes D (ds_k st) (ds_m st) mode voters body of
           Inl e \<Rightarrow> (Inl e, s)
         | Inr reps \<Rightarrow>
             (case stage_loop T env (voter_rep voters (dist_rep D request grp generation mode digest (length body) reps))
                     required [] (sort_key (ce_rank env) ordered) net of
                (Inl durable, net') \<Rightarrow> (Inl (InsufficientDurability required durable), (st, net'))
              | (Inr durable, net') \<Rightarrow>
                  (case certificate_with_voters mode (ds_k st) (ds_m st) voters durable of
                     Inl _ \<Rightarrow> (Inl (InsufficientDurability required required), (st, net'))
                   | Inr certificate \<Rightarrow>
                       (Inr \<lparr> sp_hash = digest, sp_length = length body, sp_certificate = certificate \<rparr>, (st, net')))))"

definition load_holders :: "('n, 'f) transport \<Rightarrow> 'f \<Rightarrow> hash \<Rightarrow> string \<Rightarrow> nat \<Rightarrow> request_id \<Rightarrow> node_id list \<Rightarrow> 'n
    \<Rightarrow> (node_id \<times> (payload_error + payload_representation option)) list" where
  "load_holders T f digest grp generation request holders net =
     map (\<lambda>voter. (voter, tr_load T f voter digest grp generation request net)) holders"

definition certified_slot :: "payload_certificate \<Rightarrow> node_id \<Rightarrow> payload_error + nat" where
  "certified_slot certificate voter = ok_or UnknownHolder (position (\<lambda>candidate. candidate = voter) (pc_voters certificate))"

definition is_transport :: "payload_error \<Rightarrow> bool" where
  "is_transport e = (case e of Transport _ \<Rightarrow> True | _ \<Rightarrow> False)"

fun reconstruct_records :: "reconstruct_request \<Rightarrow> (node_id \<times> (payload_error + payload_representation option)) list
    \<Rightarrow> payload_error + payload_representation list" where
  "reconstruct_records r [] = Inr []"
| "reconstruct_records r ((voter, result) # rest) =
     (case result of
        Inl e \<Rightarrow> if is_transport e then reconstruct_records r rest else Inl e
      | Inr None \<Rightarrow> reconstruct_records r rest
      | Inr (Some record) \<Rightarrow>
          and_then (certified_slot (rc_certificate r) voter) (\<lambda>expected_slot.
          if rep_group record \<noteq> rc_group r \<or> rep_generation record \<noteq> rc_generation r \<or>
             rep_mode record \<noteq> pc_mode (rc_certificate r) \<or> rep_hash record \<noteq> rc_hash r \<or>
             rep_request record \<noteq> rc_request r \<or> rep_length record \<noteq> rc_length r \<or> rep_slot record \<noteq> expected_slot \<or>
             rep_term record \<noteq> rc_term r \<or> rep_index record \<noteq> rc_index r
          then Inl CorruptRepresentation
          else and_then (reconstruct_records r rest) (\<lambda>records. Inr (record # records))))"

definition needed_records :: "payload_certificate \<Rightarrow> nat" where
  "needed_records certificate = (case pc_mode certificate of Complete \<Rightarrow> 1 | Coded \<Rightarrow> pc_k certificate)"

definition dist_reconstruct :: "deps \<Rightarrow> ('n, 'f) transport \<Rightarrow> 'f call_env \<Rightarrow> reconstruct_request \<Rightarrow> distributed_store \<times> 'n \<Rightarrow> payload_error + bytes" where
  "dist_reconstruct D T env r s =
     (let certificate = rc_certificate r in
      and_then (reconstruct_records r (load_holders T (ce_faults env) (rc_hash r) (rc_group r) (rc_generation r) (rc_request r)
                  (pc_holders certificate) (snd s))) (\<lambda>records.
      if length records < needed_records certificate then Inl PayloadUnavailable
      else case records of
             [] \<Rightarrow> Inl PayloadUnavailable
           | first # _ \<Rightarrow>
               if rep_hash first \<noteq> rc_hash r \<or> rep_mode first \<noteq> pc_mode certificate \<or>
                  list_ex (\<lambda>record. rep_group record \<noteq> rep_group first \<or> rep_generation record \<noteq> rep_generation first \<or>
                    rep_mode record \<noteq> rep_mode first \<or> rep_hash record \<noteq> rep_hash first \<or>
                    rep_request record \<noteq> rep_request first \<or> rep_length record \<noteq> rep_length first) records
               then Inl CorruptRepresentation
               else
                 and_then (case pc_mode certificate of
                             Complete \<Rightarrow> Inr (rep_bytes first)
                           | Coded \<Rightarrow> map_err (\<lambda>_. PayloadUnavailable)
                               (decode D (pc_k certificate) (pc_m certificate) (rep_length first)
                                  (map (\<lambda>record. (rep_slot record, rep_bytes record)) records))) (\<lambda>body.
                 if length body \<noteq> rep_length first \<or> sha256 D body \<noteq> rc_hash r then Inl CorruptRepresentation
                 else Inr body)))"

definition dist_set_voters :: "node_id list \<Rightarrow> distributed_store \<times> 'n \<Rightarrow> (payload_error + unit) \<times> (distributed_store \<times> 'n)" where
  "dist_set_voters voters s =
     (let (st, net) = s in
      if length voters \<noteq> ds_k st + ds_m st \<or> length (bs_of_list voters) \<noteq> length voters then (Inl InvalidGeometry, s)
      else (Inr (), (st\<lparr>ds_voters := voters\<rparr>, net)))"

fun repair_stores :: "('n, 'f) transport \<Rightarrow> 'f \<Rightarrow> (nat \<Rightarrow> payload_representation) \<Rightarrow> (nat \<times> node_id) list \<Rightarrow> 'n
    \<Rightarrow> (payload_error + unit) \<times> 'n" where
  "repair_stores T f rep [] net = (Inr (), net)"
| "repair_stores T f rep ((slot, voter) # rest) net =
     (case tr_store T f voter (rep slot) net of
        (Inl e, net') \<Rightarrow> (Inl e, net')
      | (Inr _, net') \<Rightarrow> repair_stores T f rep rest net')"

definition dist_repair :: "deps \<Rightarrow> ('n, 'f) transport \<Rightarrow> 'f call_env \<Rightarrow> repair_request \<Rightarrow> distributed_store \<times> 'n
    \<Rightarrow> (payload_error + payload_certificate) \<times> (distributed_store \<times> 'n)" where
  "dist_repair D T env r s =
     (let (st, net) = s; target_voters = rq_target_voters r; mode = pc_mode (rq_certificate r) in
      if length target_voters \<noteq> ds_k st + ds_m st \<or> length (bs_of_list target_voters) \<noteq> length target_voters
      then (Inl InvalidGeometry, s)
      else
        (case dist_reconstruct D T env
                \<lparr> rc_hash = rq_hash r, rc_group = rq_group r, rc_generation = rq_source_generation r,
                  rc_request = rq_request r, rc_length = rq_length r, rc_term = rq_source_term r,
                  rc_index = rq_source_index r, rc_certificate = rq_certificate r \<rparr> s of
           Inl e \<Rightarrow> (Inl e, s)
         | Inr body \<Rightarrow>
             (case certificate_with_voters mode (ds_k st) (ds_m st) target_voters target_voters of
                Inl _ \<Rightarrow> (Inl InvalidGeometry, s)
              | Inr repaired \<Rightarrow>
                  (case staged_bytes D (ds_k st) (ds_m st) mode target_voters body of
                     Inl e \<Rightarrow> (Inl e, s)
                   | Inr reps \<Rightarrow>
                       (case repair_stores T (ce_faults env)
                               (dist_rep D (rq_request r) (rq_group r) (rq_target_generation r) mode (rq_hash r) (rq_length r) reps)
                               (enumerate 0 target_voters) net of
                          (Inl e, net') \<Rightarrow> (Inl e, (st, net'))
                        | (Inr _, net') \<Rightarrow> (Inr repaired, (st, net')))))))"

text \<open>The checking loop of \<open>seal\<close>: how many holders are sealed, and the records still to write.\<close>

fun seal_pending :: "seal_request \<Rightarrow> (node_id \<times> (payload_error + payload_representation option)) list
    \<Rightarrow> payload_error + nat \<times> (node_id \<times> payload_representation) list" where
  "seal_pending q [] = Inr (0, [])"
| "seal_pending q ((voter, result) # rest) =
     (case result of
        Inl e \<Rightarrow> if is_transport e then seal_pending q rest else Inl e
      | Inr None \<Rightarrow> seal_pending q rest
      | Inr (Some record) \<Rightarrow>
          and_then (certified_slot (sl_certificate q) voter) (\<lambda>expected_slot.
          if rep_request record \<noteq> sl_request q \<or> rep_group record \<noteq> sl_group q \<or> rep_generation record \<noteq> sl_generation q \<or>
             rep_mode record \<noteq> pc_mode (sl_certificate q) \<or> rep_hash record \<noteq> sl_hash q \<or> rep_slot record \<noteq> expected_slot \<or>
             (rep_term record \<noteq> 0 \<and> (rep_term record \<noteq> sl_term q \<or> rep_index record \<noteq> sl_index q))
          then Inl CorruptRepresentation
          else
            and_then (seal_pending q rest) (\<lambda>(sealed, pending).
            if rep_term record = sl_term q \<and> rep_index record = sl_index q then Inr (sealed + 1, pending)
            else Inr (sealed, (voter, record\<lparr>rep_term := sl_term q, rep_index := sl_index q\<rparr>) # pending))))"

fun seal_stores :: "('n, 'f) transport \<Rightarrow> 'f \<Rightarrow> (node_id \<times> payload_representation) list \<Rightarrow> 'n \<Rightarrow> (payload_error + unit) list \<times> 'n" where
  "seal_stores T f [] net = ([], net)"
| "seal_stores T f ((voter, record) # rest) net =
     (let (result, net') = tr_store T f voter record net; (results, net'') = seal_stores T f rest net'
      in (result # results, net''))"

fun count_sealed :: "nat \<Rightarrow> (payload_error + unit) list \<Rightarrow> payload_error + nat" where
  "count_sealed n [] = Inr n"
| "count_sealed n (Inr _ # rest) = count_sealed (n + 1) rest"
| "count_sealed n (Inl e # rest) = (if is_transport e then count_sealed n rest else Inl e)"

definition dist_seal :: "('n, 'f) transport \<Rightarrow> 'f call_env \<Rightarrow> seal_request \<Rightarrow> distributed_store \<times> 'n
    \<Rightarrow> (payload_error + unit) \<times> (distributed_store \<times> 'n)" where
  "dist_seal T env q s =
     (let (st, net) = s; certificate = sl_certificate q in
      if sl_term q = 0 \<or> sl_index q = 0 then (Inl CorruptRepresentation, s)
      else
        (case seal_pending q (load_holders T (ce_faults env) (sl_hash q) (sl_group q) (sl_generation q) (sl_request q)
                (pc_holders certificate) net) of
           Inl e \<Rightarrow> (Inl e, s)
         | Inr (sealed, pending) \<Rightarrow>
             (let (stored, net') = seal_stores T (ce_faults env) pending net in
              (and_then (count_sealed sealed stored) (\<lambda>total.
                 if total < needed_records certificate then Inl PayloadUnavailable else Inr ()), (st, net')))))"

definition release_mismatch :: "release_request \<Rightarrow> nat \<Rightarrow> payload_representation \<Rightarrow> bool" where
  "release_mismatch q slot record \<longleftrightarrow>
     rep_group record \<noteq> rl_group q \<or> rep_generation record \<noteq> rl_generation q \<or> rep_mode record \<noteq> pc_mode (rl_certificate q) \<or>
     rep_hash record \<noteq> rl_hash q \<or> rep_request record \<noteq> rl_request q \<or> rep_length record \<noteq> rl_length q \<or>
     rep_slot record \<noteq> slot \<or> rep_term record \<noteq> rl_term q \<or> rep_index record \<noteq> rl_index q"

fun release_check :: "release_request \<Rightarrow> (payload_error + nat \<times> payload_representation option) list \<Rightarrow> payload_error + unit" where
  "release_check q [] = Inr ()"
| "release_check q (Inl e # rest) = (if is_transport e then release_check q rest else Inl e)"
| "release_check q (Inr (slot, record) # rest) =
     (if (case record of None \<Rightarrow> False | Some record \<Rightarrow> release_mismatch q slot record) then Inl CorruptRepresentation
      else release_check q rest)"

fun release_deletes :: "('n, 'f) transport \<Rightarrow> 'f \<Rightarrow> release_request \<Rightarrow> (nat \<times> node_id) list \<Rightarrow> 'n \<Rightarrow> (payload_error + unit) list \<times> 'n" where
  "release_deletes T f q [] net = ([], net)"
| "release_deletes T f q ((slot, voter) # rest) net =
     (let (result, net') = tr_delete T f voter (rl_hash q) (rl_group q) (rl_generation q) (rl_request q) slot net;
          (results, net'') = release_deletes T f q rest net'
      in (result # results, net''))"

definition dist_release :: "('n, 'f) transport \<Rightarrow> 'f call_env \<Rightarrow> release_request \<Rightarrow> distributed_store \<times> 'n
    \<Rightarrow> (payload_error + unit) \<times> (distributed_store \<times> 'n)" where
  "dist_release T env q s =
     (let (st, net) = s; certificate = rl_certificate q;
          loaded = map (\<lambda>voter.
            and_then (certified_slot certificate voter) (\<lambda>slot.
            and_then (tr_load T (ce_faults env) voter (rl_hash q) (rl_group q) (rl_generation q) (rl_request q) net) (\<lambda>record.
            Inr (slot, record)))) (pc_holders certificate)
      in case release_check q loaded of
           Inl e \<Rightarrow> (Inl e, s)
         | Inr _ \<Rightarrow>
             (let (deleted, net') = release_deletes T (ce_faults env) q (enumerate 0 (pc_voters certificate)) net in
              (case find (\<lambda>r. case r of Inl e \<Rightarrow> \<not> is_transport e | Inr _ \<Rightarrow> False) deleted of
                 Some (Inl e) \<Rightarrow> (Inl e, (st, net'))
               | _ \<Rightarrow> (Inr (), (st, net')))))"

subsection \<open>Allocations\<close>

text \<open>The identity under which the voters keep a group's representations of one body.\<close>

type_synonym allocation = "hash \<times> nat \<times> request_id"

definition alloc :: "payload_representation \<Rightarrow> allocation" where
  "alloc r = (rep_hash r, rep_generation r, rep_request r)"

subsection \<open>Facts that hold over any transport\<close>

lemma fold_push:
  "set (fold (\<lambda>c ordered. if P c \<and> c \<notin> set ordered then ordered @ [c] else ordered) cs acc) = set acc \<union> {c \<in> set cs. P c} \<and>
   (distinct acc \<longrightarrow> distinct (fold (\<lambda>c ordered. if P c \<and> c \<notin> set ordered then ordered @ [c] else ordered) cs acc))"
  by (induction cs arbitrary: acc) auto

lemma stage_order_voters: "set (stage_order voters candidates) = set voters" "distinct (stage_order voters candidates)"
proof -
  let ?p = "fold (\<lambda>c ordered. if c \<in> set voters \<and> c \<notin> set ordered then ordered @ [c] else ordered) candidates []"
  have p: "set ?p \<subseteq> set voters" "distinct ?p" using fold_push [of "\<lambda>c. c \<in> set voters" candidates "[]"] by auto
  then show "set (stage_order voters candidates) = set voters" "distinct (stage_order voters candidates)"
    using fold_push [of "\<lambda>_. True" voters ?p] by (auto simp: stage_order_def)
qed

text \<open>Whatever the peers hold and answer, a reconstructed body has the requested digest and length.\<close>

lemma reconstruct_records_match:
  "reconstruct_records r loaded = Inr records \<Longrightarrow> x \<in> set records \<Longrightarrow> rep_length x = rc_length r \<and> rep_hash x = rc_hash r"
  by (induction r loaded arbitrary: records rule: reconstruct_records.induct)
    (auto split: sum.splits option.splits if_splits)

lemma dist_reconstruct_sound:
  assumes "dist_reconstruct D T env r s = Inr body"
  shows "sha256 D body = rc_hash r \<and> length body = rc_length r"
proof -
  obtain records where rec: "reconstruct_records r (load_holders T (ce_faults env) (rc_hash r) (rc_group r) (rc_generation r) (rc_request r)
      (pc_holders (rc_certificate r)) (snd s)) = Inr records"
    using assms by (auto simp: dist_reconstruct_def Let_def)
  obtain first rest where fr: "records = first # rest" and "length body = rep_length first" "sha256 D body = rc_hash r"
    using assms rec by (auto simp: dist_reconstruct_def Let_def split: list.splits if_splits)
  then show ?thesis using reconstruct_records_match [OF rec, of first] by simp
qed

lemma dist_reconstruct_eval:
  assumes "reconstruct_records r (load_holders T (ce_faults env) (rc_hash r) (rc_group r) (rc_generation r) (rc_request r)
      (pc_holders (rc_certificate r)) (snd s)) = Inr xs" "needed_records (rc_certificate r) \<le> length xs" "xs = x # xs'"
    "rep_hash x = rc_hash r" "rep_mode x = pc_mode (rc_certificate r)"
    "\<not> list_ex (\<lambda>y. rep_group y \<noteq> rep_group x \<or> rep_generation y \<noteq> rep_generation x \<or> rep_mode y \<noteq> rep_mode x \<or>
      rep_hash y \<noteq> rep_hash x \<or> rep_request y \<noteq> rep_request x \<or> rep_length y \<noteq> rep_length x) xs"
    "(case pc_mode (rc_certificate r) of Complete \<Rightarrow> Inr (rep_bytes x)
      | Coded \<Rightarrow> map_err (\<lambda>_. PayloadUnavailable) (decode D (pc_k (rc_certificate r)) (pc_m (rc_certificate r)) (rep_length x)
          (map (\<lambda>y. (rep_slot y, rep_bytes y)) xs))) = Inr body"
    "length body = rep_length x" "sha256 D body = rc_hash r"
  shows "dist_reconstruct D T env r s = Inr body"
  using assms by (cases "pc_mode (rc_certificate r)") (simp_all add: dist_reconstruct_def Let_def)

text \<open>One holder's record of a staged body, unsealed or sealed at its committed position.\<close>

definition part_of :: "deps \<Rightarrow> payload_certificate \<Rightarrow> string \<Rightarrow> nat \<Rightarrow> request_id \<Rightarrow> bytes \<Rightarrow> nat \<times> nat \<Rightarrow> node_id \<Rightarrow> payload_representation \<Rightarrow> bool" where
  "part_of D c grp generation request body at v r \<longleftrightarrow>
     (\<exists>reps slot. staged_bytes D (pc_k c) (pc_m c) (pc_mode c) (pc_voters c) body = Inr reps \<and>
        position (\<lambda>x. x = v) (pc_voters c) = Some slot \<and>
        r = (dist_rep D request grp generation (pc_mode c) (sha256 D body) (length body) reps slot)
              \<lparr>rep_term := fst at, rep_index := snd at\<rparr>)"

lemma part_of_fields:
  assumes "part_of D c grp generation request body at v r"
  shows "rep_group r = grp" "rep_generation r = generation" "rep_request r = request" "rep_hash r = sha256 D body"
    "rep_length r = length body" "rep_mode r = pc_mode c" "rep_term r = fst at" "rep_index r = snd at"
    "position (\<lambda>x. x = v) (pc_voters c) = Some (rep_slot r)" "certified_slot c v = Inr (rep_slot r)"
    "alloc r = (sha256 D body, generation, request)"
  using assms by (auto simp: part_of_def dist_rep_def certified_slot_def alloc_def)

lemma part_of_seal: "part_of D c grp gen req body at v r \<Longrightarrow> part_of D c grp gen req body at' v (r\<lparr>rep_term := fst at', rep_index := snd at'\<rparr>)"
  by (auto simp: part_of_def dist_rep_def)

lemma seal_pending_set:
  assumes "seal_pending q loaded = Inr (sealed, pending)" "(v, r) \<in> set pending"
  shows "\<exists>r0. (v, Inr (Some r0)) \<in> set loaded \<and> r = r0\<lparr>rep_term := sl_term q, rep_index := sl_index q\<rparr> \<and>
    certified_slot (sl_certificate q) v = Inr (rep_slot r0) \<and> rep_group r0 = sl_group q \<and>
    alloc r0 = (sl_hash q, sl_generation q, sl_request q)"
  using assms
proof (induction loaded arbitrary: sealed pending)
  case (Cons x loaded)
  obtain voter result where x: "x = (voter, result)" by (cases x)
  obtain n p where p: "seal_pending q loaded = Inr (n, p)"
    and c: "pending = p \<or> (\<exists>r0. result = Inr (Some r0) \<and> pending = (voter, r0\<lparr>rep_term := sl_term q, rep_index := sl_index q\<rparr>) # p \<and>
      certified_slot (sl_certificate q) voter = Inr (rep_slot r0) \<and> rep_group r0 = sl_group q \<and>
      alloc r0 = (sl_hash q, sl_generation q, sl_request q))"
    using Cons.prems(1) by (auto simp: x alloc_def split: sum.splits option.splits if_splits)
  show ?case
  proof (cases "(v, r) \<in> set p")
    case True
    then show ?thesis using Cons.IH [OF p] unfolding x by (meson list.set_intros(2))
  next
    case False
    then obtain r0 where r0: "result = Inr (Some r0)" "(v, r) = (voter, r0\<lparr>rep_term := sl_term q, rep_index := sl_index q\<rparr>)"
        "certified_slot (sl_certificate q) voter = Inr (rep_slot r0)" "rep_group r0 = sl_group q"
        "alloc r0 = (sl_hash q, sl_generation q, sl_request q)"
      using c Cons.prems(2) by auto
    then show ?thesis unfolding x by (intro exI [of _ r0]) simp
  qed
qed simp

lemma count_sealed_all: "list_all (\<lambda>x. x = Inr ()) results \<Longrightarrow> count_sealed n results = Inr (n + length results)"
  by (induction n results rule: count_sealed.induct) auto

text \<open>When every answer is missing or a record of the sealed body, nothing is refused.\<close>

definition missing :: "payload_error + payload_representation option \<Rightarrow> bool" where
  "missing result \<longleftrightarrow> result = Inr None \<or> (\<exists>e. result = Inl e \<and> is_transport e)"

definition answers :: "(node_id \<Rightarrow> payload_representation \<Rightarrow> bool) \<Rightarrow> (node_id \<times> (payload_error + payload_representation option)) list \<Rightarrow> bool" where
  "answers P loaded \<longleftrightarrow> (\<forall>(v, result) \<in> set loaded. missing result \<or> (\<exists>r. result = Inr (Some r) \<and> P v r))"

fun answered :: "node_id \<times> (payload_error + payload_representation option) \<Rightarrow> payload_representation option" where
  "answered (v, Inr (Some r)) = Some r"
| "answered (v, _) = None"

lemma answers_Cons:
  "answers P ((v, result) # loaded) \<longleftrightarrow>
     (missing result \<or> (\<exists>r. result = Inr (Some r) \<and> P v r)) \<and> answers P loaded"
  by (auto simp: answers_def)

lemma seal_pending_ok:
  assumes "answers (\<lambda>v r. certified_slot (sl_certificate q) v = Inr (rep_slot r) \<and> rep_group r = sl_group q \<and>
      alloc r = (sl_hash q, sl_generation q, sl_request q) \<and> rep_mode r = pc_mode (sl_certificate q) \<and>
      (rep_term r = 0 \<or> (rep_term r = sl_term q \<and> rep_index r = sl_index q))) loaded"
  shows "\<exists>sealed pending. seal_pending q loaded = Inr (sealed, pending) \<and>
    sealed + length pending = length (filter_map answered loaded) \<and>
    (\<forall>v r. (v, Inr (Some r)) \<in> set loaded \<longrightarrow> (rep_term r = sl_term q \<and> rep_index r = sl_index q) \<or>
       (v, r\<lparr>rep_term := sl_term q, rep_index := sl_index q\<rparr>) \<in> set pending) \<and>
    (distinct (map fst loaded) \<longrightarrow> distinct (map fst pending))"
  using assms
proof (induction loaded)
  case (Cons x loaded)
  obtain v result where x: "x = (v, result)" by (cases x)
  obtain sealed pending where rest: "seal_pending q loaded = Inr (sealed, pending)"
      "sealed + length pending = length (filter_map answered loaded)"
      "\<forall>v r. (v, Inr (Some r)) \<in> set loaded \<longrightarrow> (rep_term r = sl_term q \<and> rep_index r = sl_index q) \<or>
         (v, r\<lparr>rep_term := sl_term q, rep_index := sl_index q\<rparr>) \<in> set pending"
      "distinct (map fst loaded) \<longrightarrow> distinct (map fst pending)"
    using Cons.IH Cons.prems by (auto simp: x answers_Cons)
  have sub: "fst ` set pending \<subseteq> fst ` set loaded" using seal_pending_set [OF rest(1)] by force
  from Cons.prems consider (err) "missing result"
    | (rec) r where "result = Inr (Some r)" "certified_slot (sl_certificate q) v = Inr (rep_slot r)" "rep_group r = sl_group q"
        "alloc r = (sl_hash q, sl_generation q, sl_request q)" "rep_mode r = pc_mode (sl_certificate q)"
        "rep_term r = 0 \<or> (rep_term r = sl_term q \<and> rep_index r = sl_index q)"
    by (auto simp: x answers_Cons)
  then show ?case
  proof cases
    case err
    then show ?thesis using rest by (auto simp: x missing_def)
  next
    case rec
    then show ?thesis using rest sub by (cases "rep_term r = sl_term q \<and> rep_index r = sl_index q") (auto simp: x alloc_def)
  qed
qed simp

lemma reconstruct_records_ok:
  assumes "answers (\<lambda>v x. certified_slot (rc_certificate r) v = Inr (rep_slot x) \<and> rep_group x = rc_group r \<and>
      alloc x = (rc_hash r, rc_generation r, rc_request r) \<and> rep_mode x = pc_mode (rc_certificate r) \<and>
      rep_length x = rc_length r \<and> rep_term x = rc_term r \<and> rep_index x = rc_index r) loaded"
  shows "reconstruct_records r loaded = Inr (filter_map answered loaded)"
  using assms
proof (induction loaded)
  case (Cons x loaded)
  obtain v result where x: "x = (v, result)" by (cases x)
  show ?case using Cons by (auto simp: x answers_Cons alloc_def missing_def)
qed simp

subsection \<open>The transport contract\<close>


definition alloc_ok :: "allocation \<Rightarrow> bool" where
  "alloc_ok a \<longleftrightarrow> (case a of (digest, generation, request) \<Rightarrow>
     length digest = 32 \<and> generation < u64_bound \<and> request < u128_bound)"

text \<open>
  What the store relies on, for one group: a load of a reachable voter answers from the record kept
  for it, a load of any other voter finds nothing or fails as a transport error; a store replaces the one record it
  names or fails as a transport error, with or without effect, and touches nothing else; a voter
  with room for a record, in the sense of the transport, stores it.
\<close>

locale representation_transport =
  fixes T :: "('n, 'f) transport"
    and up :: "'f \<Rightarrow> node_id \<Rightarrow> bool"
    and room :: "'f \<Rightarrow> 'n \<Rightarrow> node_id \<Rightarrow> payload_representation \<Rightarrow> bool"
    and content :: "'n \<Rightarrow> node_id \<Rightarrow> allocation \<Rightarrow> payload_error + payload_representation option"
    and slot_of :: "node_id \<Rightarrow> nat option"
    and grp :: string
  assumes load_up: "slot_of v \<noteq> None \<Longrightarrow> up f v \<Longrightarrow> tr_load T f v digest grp gen req net = content net v (digest, gen, req)"
    and load_down: "slot_of v \<noteq> None \<Longrightarrow> \<not> up f v \<Longrightarrow> missing (tr_load T f v digest grp gen req net)"
    and store_effect: "slot_of v = Some (rep_slot r) \<Longrightarrow> rep_wf r \<Longrightarrow> rep_group r = grp \<Longrightarrow> tr_store T f v r net = (res, net') \<Longrightarrow>
      content net' v (alloc r) = Inr (Some r) \<or> (res \<noteq> Inr () \<and> content net' v (alloc r) = content net v (alloc r))"
    and store_frame: "slot_of v = Some (rep_slot r) \<Longrightarrow> rep_wf r \<Longrightarrow> rep_group r = grp \<Longrightarrow> tr_store T f v r net = (res, net') \<Longrightarrow>
      slot_of v' \<noteq> None \<Longrightarrow> alloc_ok a \<Longrightarrow> (v', a) \<noteq> (v, alloc r) \<Longrightarrow> content net' v' a = content net v' a"
    and store_error: "slot_of v \<noteq> None \<Longrightarrow> tr_store T f v r net = (Inl e, net') \<Longrightarrow> is_transport e"
    and store_up: "slot_of v \<noteq> None \<Longrightarrow> room f net v r \<Longrightarrow> \<exists>net'. tr_store T f v r net = (Inr (), net')"
    and room_frame: "slot_of v \<noteq> None \<Longrightarrow> slot_of v' \<noteq> None \<Longrightarrow> v \<noteq> v' \<Longrightarrow> tr_store T f v r net = (res, net') \<Longrightarrow> room f net' v' r' = room f net v' r'"
    and content_wf: "content net v a = Inr (Some r) \<Longrightarrow> rep_wf r"
begin

text \<open>Every record that changed from one state to the other is one of the stored ones.\<close>

definition changes :: "(node_id \<Rightarrow> payload_representation \<Rightarrow> bool) \<Rightarrow> 'n \<Rightarrow> 'n \<Rightarrow> bool" where
  "changes R net net' \<longleftrightarrow> (\<forall>v a. slot_of v \<noteq> None \<and> alloc_ok a \<longrightarrow>
     content net' v a = content net v a \<or> (\<exists>r. R v r \<and> alloc r = a \<and> content net' v a = Inr (Some r)))"

lemma changes_refl: "changes R net net"
  by (simp add: changes_def)

lemma changes_trans: "changes R n1 n2 \<Longrightarrow> changes R n2 n3 \<Longrightarrow> changes R n1 n3"
  unfolding changes_def by metis

lemma changes_mono: "changes R net net' \<Longrightarrow> (\<And>v r. R v r \<Longrightarrow> Q v r) \<Longrightarrow> changes Q net net'"
  unfolding changes_def by blast

definition fits :: "node_id \<Rightarrow> payload_representation \<Rightarrow> bool" where
  "fits v r \<longleftrightarrow> slot_of v = Some (rep_slot r) \<and> rep_wf r \<and> rep_group r = grp"

lemma store_changes: "fits v r \<Longrightarrow> tr_store T f v r net = (res, net') \<Longrightarrow> changes (\<lambda>v' r'. v' = v \<and> r' = r) net net'"
  unfolding changes_def fits_def using store_effect store_frame by blast

lemma store_rep_changes:
  assumes "\<And>r. x = Inr r \<Longrightarrow> fits v r" "store_rep T f v x net = (res, net')"
  shows "changes (\<lambda>v' r'. v' = v \<and> x = Inr r') net net'"
proof (cases x)
  case (Inl e)
  then show ?thesis using assms(2) by (simp add: store_rep_def changes_refl)
next
  case (Inr r)
  then show ?thesis using assms store_changes [of v r f net res net'] by (auto simp: store_rep_def intro: changes_mono)
qed

lemma fold_store_changes:
  assumes "\<And>v r. v \<in> set vs \<Longrightarrow> rep v = Inr r \<Longrightarrow> fits v r"
  shows "changes (\<lambda>v r. rep v = Inr r) net (fold (\<lambda>v n. snd (store_rep T f v (rep v) n)) vs net)"
  using assms
proof (induction vs arbitrary: net)
  case Nil
  then show ?case by (simp add: changes_refl)
next
  case (Cons v vs)
  let ?net = "snd (store_rep T f v (rep v) net)"
  have "changes (\<lambda>v r. rep v = Inr r) net ?net"
    using store_rep_changes [of "rep v" v f net "fst (store_rep T f v (rep v) net)" ?net] Cons.prems
    by (auto intro: changes_mono)
  then show ?case using Cons.IH [of ?net] Cons.prems changes_trans by fastforce
qed

lemma stage_loop_changes:
  assumes "\<And>v r. v \<in> set vs \<Longrightarrow> rep v = Inr r \<Longrightarrow> fits v r"
    and "stage_loop T env rep required durable vs net = (res, net')"
  shows "changes (\<lambda>v r. rep v = Inr r) net net'"
  using assms
proof (induction vs arbitrary: durable net)
  case Nil
  then show ?case by (simp add: changes_refl)
next
  case (Cons v vs)
  obtain x net1 where x: "store_rep T (ce_faults env) v (rep v) net = (x, net1)" by (cases "store_rep T (ce_faults env) v (rep v) net")
  have here: "changes (\<lambda>v r. rep v = Inr r) net net1"
    using store_rep_changes [OF _ x] Cons.prems(1) by (auto intro: changes_mono)
  have "changes (\<lambda>v r. rep v = Inr r) net1 net'"
  proof (cases "\<exists>e. x = Inl e")
    case True
    then show ?thesis using Cons.IH [of durable net1] Cons.prems x by auto
  next
    case False
    then have r: "x = Inr ()" by (cases x) auto
    show ?thesis
    proof (cases "length durable + 1 = required")
      case True
      then show ?thesis
        using Cons.prems x r fold_store_changes [of "filter (ce_landed env) vs" rep net1 "ce_faults env"] by auto
    next
      case False
      then show ?thesis using Cons.IH [of "durable @ [v]" net1] Cons.prems x r by auto
    qed
  qed
  then show ?case using here changes_trans by blast
qed

definition stored :: "(node_id \<Rightarrow> payload_error + payload_representation) \<Rightarrow> 'n \<Rightarrow> node_id \<Rightarrow> bool" where
  "stored rep net v \<longleftrightarrow> (\<exists>r. rep v = Inr r \<and> fits v r \<and> content net v (alloc r) = Inr (Some r))"

lemma fits_alloc_ok: "fits v r \<Longrightarrow> alloc_ok (alloc r)"
  by (simp add: fits_def rep_wf_def alloc_ok_def alloc_def)

lemma stored_kept: "changes (\<lambda>v r. rep v = Inr r) net net' \<Longrightarrow> stored rep net v \<Longrightarrow> stored rep net' v"
proof -
  assume c: "changes (\<lambda>v r. rep v = Inr r) net net'" and "stored rep net v"
  then obtain r where r: "rep v = Inr r" "fits v r" "content net v (alloc r) = Inr (Some r)" by (auto simp: stored_def)
  have "slot_of v \<noteq> None" "alloc_ok (alloc r)" using r(2) fits_alloc_ok by (auto simp: fits_def)
  then have "content net' v (alloc r) = content net v (alloc r) \<or> (\<exists>r'. rep v = Inr r' \<and> content net' v (alloc r) = Inr (Some r'))"
    using c unfolding changes_def by blast
  then show ?thesis using r by (auto simp: stored_def)
qed

lemma store_rep_stored:
  assumes "\<And>r. rep v = Inr r \<Longrightarrow> fits v r" "store_rep T f v (rep v) net = (Inr u, net')"
  shows "stored rep net' v"
proof -
  obtain r where r: "rep v = Inr r" "fits v r" using assms by (cases "rep v") (auto simp: store_rep_def)
  then show ?thesis using assms(2) store_effect [of v r f net "Inr u" net'] by (auto simp: store_rep_def stored_def fits_def)
qed

lemma stage_loop_durable:
  assumes "\<And>v r. v \<in> set vs \<Longrightarrow> rep v = Inr r \<Longrightarrow> fits v r" "\<forall>v \<in> set durable. stored rep net v"
    and "stage_loop T env rep required durable vs net = (Inr ds, net')"
  shows "(\<forall>v \<in> set ds. stored rep net' v) \<and> length ds = required \<and> set ds \<subseteq> set durable \<union> set vs \<and>
    (distinct (durable @ vs) \<longrightarrow> distinct ds)"
  using assms
proof (induction vs arbitrary: durable net)
  case (Cons v vs)
  obtain x net1 where x: "store_rep T (ce_faults env) v (rep v) net = (x, net1)" by (cases "store_rep T (ce_faults env) v (rep v) net")
  have here: "changes (\<lambda>v r. rep v = Inr r) net net1"
    using store_rep_changes [OF _ x] Cons.prems(1) by (auto intro: changes_mono)
  then have before: "\<forall>w \<in> set durable. stored rep net1 w" using Cons.prems(2) stored_kept by blast
  show ?case
  proof (cases "\<exists>e. x = Inl e")
    case True
    then have "stage_loop T env rep required durable vs net1 = (Inr ds, net')" using Cons.prems(3) x by auto
    then show ?thesis using Cons.IH [OF _ before] Cons.prems(1) by auto
  next
    case False
    then have r: "x = Inr ()" by (cases x) auto
    have now: "\<forall>w \<in> set (durable @ [v]). stored rep net1 w"
      using before store_rep_stored [of rep v] x r Cons.prems(1) by auto
    show ?thesis
    proof (cases "length durable + 1 = required")
      case True
      then have "ds = durable @ [v]" and n: "net' = fold (\<lambda>v n. snd (store_rep T (ce_faults env) v (rep v) n)) (filter (ce_landed env) vs) net1"
        using Cons.prems(3) x r by auto
      moreover have "changes (\<lambda>v r. rep v = Inr r) net1 net'"
        unfolding n using Cons.prems(1) by (intro fold_store_changes) auto
      ultimately show ?thesis using now stored_kept True by auto
    next
      case False
      then have "stage_loop T env rep required (durable @ [v]) vs net1 = (Inr ds, net')" using Cons.prems(3) x r by auto
      then show ?thesis using Cons.IH [OF _ now] Cons.prems(1) by auto
    qed
  qed
qed simp

text \<open>The holders of a certificate keep their records of a body committed at position \<open>at\<close>.\<close>

definition slots_agree :: "node_id list \<Rightarrow> bool" where
  "slots_agree voters \<longleftrightarrow> (\<forall>v \<in> set voters. slot_of v = position (\<lambda>x. x = v) voters)"

definition held :: "deps \<Rightarrow> payload_certificate \<Rightarrow> nat \<Rightarrow> request_id \<Rightarrow> bytes \<Rightarrow> nat \<times> nat \<Rightarrow> 'n \<Rightarrow> bool" where
  "held D c gen req body at net \<longleftrightarrow> certificate_wf c \<and> slots_agree (pc_voters c) \<and> alloc_ok (sha256 D body, gen, req) \<and>
     (\<forall>v \<in> set (pc_holders c). \<exists>r. content net v (sha256 D body, gen, req) = Inr (Some r) \<and>
        (part_of D c grp gen req body (0, 0) v r \<or> part_of D c grp gen req body at v r))"

lemma holder_slot:
  assumes "certificate_wf c" "slots_agree (pc_voters c)" "v \<in> set (pc_holders c)"
  shows "slot_of v \<noteq> None"
proof -
  have v: "v \<in> set (pc_voters c)" using assms by (auto simp: certificate_wf_def)
  then have "slot_of v = position (\<lambda>x. x = v) (pc_voters c)" using assms(2) by (simp add: slots_agree_def)
  then show ?thesis using position_mem [OF v] by auto
qed

lemma held_kept:
  assumes "held D c gen req body at net" "changes R net net'"
    and "\<And>v r. v \<in> set (pc_holders c) \<Longrightarrow> R v r \<Longrightarrow> alloc r = (sha256 D body, gen, req) \<Longrightarrow>
      part_of D c grp gen req body (0, 0) v r \<or> part_of D c grp gen req body at v r"
  shows "held D c gen req body at net'"
proof -
  have "\<exists>r. content net' v (sha256 D body, gen, req) = Inr (Some r) \<and>
      (part_of D c grp gen req body (0, 0) v r \<or> part_of D c grp gen req body at v r)" if v: "v \<in> set (pc_holders c)" for v
  proof -
    have "slot_of v \<noteq> None" using holder_slot v assms(1) by (auto simp: held_def)
    moreover have "alloc_ok (sha256 D body, gen, req)" using assms(1) by (simp add: held_def)
    ultimately have "content net' v (sha256 D body, gen, req) = content net v (sha256 D body, gen, req) \<or>
        (\<exists>r. R v r \<and> alloc r = (sha256 D body, gen, req) \<and> content net' v (sha256 D body, gen, req) = Inr (Some r))"
      using assms(2) unfolding changes_def by blast
    then show ?thesis using assms(1,3) v unfolding held_def by metis
  qed
  then show ?thesis using assms(1) by (simp add: held_def)
qed

text \<open>What the widths of a group's commands and the certificate's slots give for the records it stores.\<close>

definition sized :: "deps \<Rightarrow> nat \<Rightarrow> request_id \<Rightarrow> bytes \<Rightarrow> bool" where
  "sized D gen req body \<longleftrightarrow> digest_ok D \<and> gen < u64_bound \<and> req < u128_bound \<and> length body < u64_bound \<and>
     is_str grp \<and> length grp < u32_bound"

lemma dist_rep_fits:
  assumes "sized D gen req body" "slots_agree voters" "length voters < u64_bound"
    "voter_rep voters (dist_rep D req grp gen mode (sha256 D body) (length body) reps) v = Inr r"
  shows "fits v r"
proof -
  obtain slot where slot: "position (\<lambda>x. x = v) voters = Some slot"
      and r: "r = dist_rep D req grp gen mode (sha256 D body) (length body) reps slot"
    using assms(4) by (auto simp: voter_rep_def)
  then have "slot < length voters" "voters ! slot = v" using position_Some by fastforce+
  then have "slot_of v = Some slot" "slot < u64_bound" using assms(2,3) slot by (auto simp: slots_agree_def)
  then show ?thesis using assms(1) r by (auto simp: fits_def dist_rep_def rep_wf_def sized_def digest_ok_def)
qed

lemma stage_changes:
  assumes "sized D gen req body" "slots_agree (ds_voters st)" "length (ds_voters st) < u64_bound"
    "dist_stage D T env req grp gen mode body candidates (st, net) = (res, (st', net'))"
  shows "st' = st \<and> changes (\<lambda>v r. \<exists>reps. staged_bytes D (ds_k st) (ds_m st) mode (ds_voters st) body = Inr reps \<and>
    voter_rep (ds_voters st) (dist_rep D req grp gen mode (sha256 D body) (length body) reps) v = Inr r) net net'"
proof (cases "staged_bytes D (ds_k st) (ds_m st) mode (ds_voters st) body")
  case (Inl e)
  then show ?thesis using assms(4) by (auto simp: dist_stage_def Let_def changes_refl)
next
  case (Inr reps)
  let ?rep = "voter_rep (ds_voters st) (dist_rep D req grp gen mode (sha256 D body) (length body) reps)"
  let ?required = "stage_required mode (ds_k st) (length (ds_voters st))"
  obtain out net1 where l: "stage_loop T env ?rep ?required [] (sort_key (ce_rank env) (stage_order (ds_voters st) candidates)) net
      = (out, net1)"
    by fastforce
  have "changes (\<lambda>v r. ?rep v = Inr r) net net1"
    using dist_rep_fits [OF assms(1-3)] by (intro stage_loop_changes [OF _ l]) blast
  moreover have "st' = st \<and> net' = net1"
    using assms(4) l Inr by (auto simp: dist_stage_def Let_def split: sum.splits)
  ultimately show ?thesis using Inr by (auto intro: changes_mono)
qed

lemma stage_held:
  assumes "sized D gen req body" "slots_agree (ds_voters st)" "length (ds_voters st) < u64_bound"
    "dist_stage D T env req grp gen mode body candidates (st, net) = (Inr staged, (st', net'))"
  shows "sp_hash staged = sha256 D body \<and> sp_length staged = length body \<and>
    pc_mode (sp_certificate staged) = mode \<and> pc_k (sp_certificate staged) = ds_k st \<and> pc_m (sp_certificate staged) = ds_m st \<and>
    pc_voters (sp_certificate staged) = ds_voters st \<and> held D (sp_certificate staged) gen req body at net'"
proof -
  obtain reps where reps: "staged_bytes D (ds_k st) (ds_m st) mode (ds_voters st) body = Inr reps"
    using assms(4) by (auto simp: dist_stage_def Let_def split: sum.splits)
  let ?rep = "voter_rep (ds_voters st) (dist_rep D req grp gen mode (sha256 D body) (length body) reps)"
  let ?required = "stage_required mode (ds_k st) (length (ds_voters st))"
  obtain durable where l: "stage_loop T env ?rep ?required [] (sort_key (ce_rank env) (stage_order (ds_voters st) candidates)) net
      = (Inr durable, net')" and cert: "certificate_with_voters mode (ds_k st) (ds_m st) (ds_voters st) durable = Inr (sp_certificate staged)"
      and staged: "sp_hash staged = sha256 D body" "sp_length staged = length body"
    using assms(4) reps by (auto simp: dist_stage_def Let_def split: sum.splits prod.splits)
  let ?c = "sp_certificate staged"
  have c: "certificate_wf ?c" "pc_mode ?c = mode" "pc_k ?c = ds_k st" "pc_m ?c = ds_m st" "pc_voters ?c = ds_voters st"
      "pc_holders ?c = sort_dedup durable"
    using certificate_with_voters_Inr [OF cert] by auto
  have "\<forall>v \<in> set durable. stored ?rep net' v"
    using stage_loop_durable [OF _ _ l] dist_rep_fits [OF assms(1-3)] by auto
  then have "\<exists>r. content net' v (sha256 D body, gen, req) = Inr (Some r) \<and> part_of D ?c grp gen req body (0, 0) v r"
    if "v \<in> set (pc_holders ?c)" for v
    using that c reps by (fastforce simp: stored_def voter_rep_def part_of_def alloc_def dist_rep_def)
  then have "\<forall>v \<in> set (pc_holders ?c). \<exists>r. content net' v (sha256 D body, gen, req) = Inr (Some r) \<and>
      (part_of D ?c grp gen req body (0, 0) v r \<or> part_of D ?c grp gen req body at v r)"
    by blast
  then show ?thesis
    using c staged assms(1,2) by (simp add: held_def alloc_ok_def sized_def digest_ok_def)
qed

subsection \<open>Sealing and reconstructing under the contract\<close>

lemma loaded_content:
  assumes "certificate_wf c" "slots_agree (pc_voters c)"
    "(v, Inr (Some r)) \<in> set (load_holders T f digest grp gen req (pc_holders c) net)"
  shows "v \<in> set (pc_holders c)" "up f v" "content net v (digest, gen, req) = Inr (Some r)"
proof -
  show v: "v \<in> set (pc_holders c)" using assms(3) by (auto simp: load_holders_def)
  have l: "tr_load T f v digest grp gen req net = Inr (Some r)" using assms(3) by (auto simp: load_holders_def)
  show u: "up f v" using load_down [OF holder_slot [OF assms(1,2) v], of f digest gen req net] l by (auto simp: missing_def)
  show "content net v (digest, gen, req) = Inr (Some r)" using load_up [OF holder_slot [OF assms(1,2) v] u] l by simp
qed

lemma seal_stores_changes:
  "\<forall>(v, r) \<in> set pending. fits v r \<Longrightarrow> seal_stores T f pending net = (results, net') \<Longrightarrow>
     changes (\<lambda>v r. (v, r) \<in> set pending) net net'"
proof (induction pending arbitrary: net results net')
  case (Cons x pending)
  obtain v r where x: "x = (v, r)" by (cases x)
  obtain res net1 where st: "tr_store T f v r net = (res, net1)" by fastforce
  obtain rest where rest: "seal_stores T f pending net1 = (rest, net')" using Cons.prems(2) st by (auto simp: x split: prod.splits)
  have "changes (\<lambda>v r. (v, r) \<in> set (x # pending)) net net1"
    using store_changes [OF _ st] Cons.prems(1) by (auto simp: x intro: changes_mono)
  moreover have "changes (\<lambda>v r. (v, r) \<in> set (x # pending)) net1 net'"
    using Cons.IH [OF _ rest] Cons.prems(1) by (auto intro: changes_mono)
  ultimately show ?case using changes_trans by blast
qed (simp add: changes_refl)

lemma pending_fits:
  assumes "certificate_wf (sl_certificate q)" "slots_agree (pc_voters (sl_certificate q))" "sl_group q = grp"
    "sl_term q < u64_bound" "sl_index q < u64_bound"
    "seal_pending q (load_holders T f (sl_hash q) grp (sl_generation q) (sl_request q) (pc_holders (sl_certificate q)) net)
      = Inr (sealed, pending)" "(v, r) \<in> set pending"
  shows "fits v r \<and> up f v \<and> v \<in> set (pc_holders (sl_certificate q)) \<and>
    (\<exists>r0. content net v (sl_hash q, sl_generation q, sl_request q) = Inr (Some r0) \<and>
      r = r0\<lparr>rep_term := sl_term q, rep_index := sl_index q\<rparr> \<and> alloc r0 = (sl_hash q, sl_generation q, sl_request q))"
proof -
  obtain r0 where r0: "(v, Inr (Some r0)) \<in> set (load_holders T f (sl_hash q) grp (sl_generation q) (sl_request q)
        (pc_holders (sl_certificate q)) net)"
      "r = r0\<lparr>rep_term := sl_term q, rep_index := sl_index q\<rparr>" "certified_slot (sl_certificate q) v = Inr (rep_slot r0)"
      "rep_group r0 = sl_group q" "alloc r0 = (sl_hash q, sl_generation q, sl_request q)"
    using seal_pending_set [OF assms(6,7)] by blast
  note l = loaded_content [OF assms(1,2) r0(1)]
  have "v \<in> set (pc_voters (sl_certificate q))" using l(1) assms(1) by (auto simp: certificate_wf_def)
  then have "slot_of v = Some (rep_slot r0)" using r0(3) assms(2) by (auto simp: slots_agree_def certified_slot_def)
  moreover have "rep_wf r0" using content_wf [OF l(3)] .
  ultimately have "fits v r" using r0(2,4) assms(3-5) by (simp add: fits_def rep_wf_def)
  then show ?thesis using l r0 by blast
qed

lemma seal_changes:
  assumes "certificate_wf (sl_certificate q)" "slots_agree (pc_voters (sl_certificate q))" "sl_group q = grp"
    "sl_term q < u64_bound" "sl_index q < u64_bound" "dist_seal T env q (st, net) = (res, (st', net'))"
  shows "st' = st \<and> changes (\<lambda>v r. \<exists>r0. content net v (sl_hash q, sl_generation q, sl_request q) = Inr (Some r0) \<and>
      r = r0\<lparr>rep_term := sl_term q, rep_index := sl_index q\<rparr> \<and> alloc r0 = (sl_hash q, sl_generation q, sl_request q)) net net'"
proof -
  let ?loaded = "load_holders T (ce_faults env) (sl_hash q) grp (sl_generation q) (sl_request q) (pc_holders (sl_certificate q)) net"
  consider (same) "st' = st" "net' = net"
    | (store) sealed pending results where "seal_pending q ?loaded = Inr (sealed, pending)"
        "seal_stores T (ce_faults env) pending net = (results, net')" "st' = st"
    using assms(3,6) by (auto simp: dist_seal_def Let_def split: if_splits sum.splits prod.splits)
  then show ?thesis
  proof cases
    case same
    then show ?thesis by (simp add: changes_refl)
  next
    case store
    note f = pending_fits [OF assms(1-5) store(1)]
    have "changes (\<lambda>v r. (v, r) \<in> set pending) net net'" using f by (intro seal_stores_changes [OF _ store(2)]) blast
    then show ?thesis using f store(3) by (auto intro: changes_mono)
  qed
qed

lemma seal_held:
  assumes "held D c gen req body at net" "certificate_wf (sl_certificate q)" "slots_agree (pc_voters (sl_certificate q))"
    "sl_group q = grp" "sl_term q < u64_bound" "sl_index q < u64_bound" "dist_seal T env q (st, net) = (res, (st', net'))"
    "(sl_hash q, sl_generation q, sl_request q) = (sha256 D body, gen, req) \<Longrightarrow> (sl_term q, sl_index q) = at"
  shows "held D c gen req body at net'"
proof (rule held_kept [OF assms(1) conjunct2 [OF seal_changes [OF assms(2-7)]]])
  fix v r
  assume v: "v \<in> set (pc_holders c)" and a: "alloc r = (sha256 D body, gen, req)"
    and "\<exists>r0. content net v (sl_hash q, sl_generation q, sl_request q) = Inr (Some r0) \<and>
      r = r0\<lparr>rep_term := sl_term q, rep_index := sl_index q\<rparr> \<and> alloc r0 = (sl_hash q, sl_generation q, sl_request q)"
  then obtain r0 where r0: "content net v (sl_hash q, sl_generation q, sl_request q) = Inr (Some r0)"
      "r = r0\<lparr>rep_term := sl_term q, rep_index := sl_index q\<rparr>" "alloc r0 = (sl_hash q, sl_generation q, sl_request q)"
    by blast
  then have key: "(sl_hash q, sl_generation q, sl_request q) = (sha256 D body, gen, req)" using a by (simp add: alloc_def)
  then have "part_of D c grp gen req body (0, 0) v r0 \<or> part_of D c grp gen req body at v r0"
    using assms(1) v r0(1) by (fastforce simp: held_def)
  moreover have "r = r0\<lparr>rep_term := fst at, rep_index := snd at\<rparr>" using r0(2) assms(8) [OF key] by auto
  ultimately show "part_of D c grp gen req body (0, 0) v r \<or> part_of D c grp gen req body at v r"
    using part_of_seal by blast
qed

definition sealed :: "deps \<Rightarrow> payload_certificate \<Rightarrow> nat \<Rightarrow> request_id \<Rightarrow> bytes \<Rightarrow> nat \<times> nat \<Rightarrow> 'n \<Rightarrow> node_id \<Rightarrow> bool" where
  "sealed D c gen req body at net v \<longleftrightarrow>
     (\<exists>r. content net v (sha256 D body, gen, req) = Inr (Some r) \<and> part_of D c grp gen req body at v r)"

lemma seal_stores_live:
  "\<forall>(v, r) \<in> set pending. fits v r \<and> room f net v r \<Longrightarrow> distinct (map fst pending) \<Longrightarrow>
     \<exists>results net'. seal_stores T f pending net = (results, net') \<and> list_all (\<lambda>x. x = Inr ()) results \<and>
       length results = length pending \<and> (\<forall>(v, r) \<in> set pending. content net' v (alloc r) = Inr (Some r))"
proof (induction pending arbitrary: net)
  case (Cons x pending)
  obtain v r where x: "x = (v, r)" by (cases x)
  have fit: "fits v r" "room f net v r" and slot: "slot_of v \<noteq> None" using Cons.prems(1) by (auto simp: x fits_def)
  obtain net1 where st: "tr_store T f v r net = (Inr (), net1)" using store_up [OF slot fit(2)] by blast
  have room: "\<forall>(w, q) \<in> set pending. fits w q \<and> room f net1 w q"
  proof (safe)
    fix w q assume w: "(w, q) \<in> set pending"
    then show "fits w q" using Cons.prems(1) by auto
    have "w \<noteq> v" using Cons.prems(2) w by (force simp: x)
    then show "room f net1 w q" using room_frame [OF slot _ _ st, of w q] Cons.prems(1) w by (fastforce simp: fits_def)
  qed
  obtain rest net' where rest: "seal_stores T f pending net1 = (rest, net')" "list_all (\<lambda>x. x = Inr ()) rest"
      "length rest = length pending" "\<forall>(v, r) \<in> set pending. content net' v (alloc r) = Inr (Some r)"
    using Cons.IH [OF room] Cons.prems(2) by auto
  have "changes (\<lambda>v r. (v, r) \<in> set pending) net1 net'" using room by (intro seal_stores_changes [OF _ rest(1)]) auto
  moreover have "\<forall>q. (v, q) \<notin> set pending" using Cons.prems(2) by (force simp: x)
  ultimately have "content net' v (alloc r) = content net1 v (alloc r)"
    using slot fits_alloc_ok [OF fit(1)] unfolding changes_def by blast
  also have "content net1 v (alloc r) = Inr (Some r)" using store_effect [OF _ _ _ st] fit(1) by (simp add: fits_def)
  finally show ?case using rest st by (simp add: x)
qed simp

text \<open>The answers of the holders of a held body, and that enough of them answer.\<close>

lemma held_answers:
  assumes "held D c gen req body at net" "\<And>v r. v \<in> set (pc_holders c) \<Longrightarrow> up f v \<Longrightarrow>
      content net v (sha256 D body, gen, req) = Inr (Some r) \<Longrightarrow>
      part_of D c grp gen req body (0, 0) v r \<or> part_of D c grp gen req body at v r \<Longrightarrow> P v r"
  shows "answers P (load_holders T f (sha256 D body) grp gen req (pc_holders c) net)"
  unfolding answers_def load_holders_def
proof (clarsimp)
  fix v assume v: "v \<in> set (pc_holders c)"
    and none: "\<forall>r. tr_load T f v (sha256 D body) grp gen req net = Inr (Some r) \<longrightarrow> \<not> P v r"
  have slot: "slot_of v \<noteq> None" using holder_slot v assms(1) by (auto simp: held_def)
  show "missing (tr_load T f v (sha256 D body) grp gen req net)"
  proof (rule load_down [OF slot])
    show "\<not> up f v"
    proof
      assume u: "up f v"
      obtain r where r: "content net v (sha256 D body, gen, req) = Inr (Some r)"
          "part_of D c grp gen req body (0, 0) v r \<or> part_of D c grp gen req body at v r"
        using assms(1) v by (auto simp: held_def)
      then show False using none load_up [OF slot u] assms(2) [OF v u] by simp
    qed
  qed
qed

lemma held_answered:
  assumes "held D c gen req body at net"
  shows "filter_map answered (load_holders T f (sha256 D body) grp gen req (pc_holders c) net) =
    map (\<lambda>v. the (answered (v, content net v (sha256 D body, gen, req)))) (filter (up f) (pc_holders c))"
proof -
  have "answered (v, tr_load T f v (sha256 D body) grp gen req net) =
      (if up f v then Some (the (answered (v, content net v (sha256 D body, gen, req)))) else None)" if v: "v \<in> set (pc_holders c)" for v
  proof -
    have slot: "slot_of v \<noteq> None" using holder_slot v assms by (auto simp: held_def)
    obtain r where "content net v (sha256 D body, gen, req) = Inr (Some r)" using assms v by (auto simp: held_def)
    then show ?thesis
      using load_up [OF slot, of f "sha256 D body" gen req net] load_down [OF slot, of f "sha256 D body" gen req net]
      by (cases "up f v") (auto simp: missing_def)
  qed
  then have "filter_map answered (load_holders T f (sha256 D body) grp gen req (pc_holders c) net) =
      filter_map (\<lambda>v. if up f v then Some (the (answered (v, content net v (sha256 D body, gen, req)))) else None) (pc_holders c)"
    unfolding load_holders_def filter_map_map by (rule filter_map_cong)
  also have "\<dots> = map (\<lambda>v. the (answered (v, content net v (sha256 D body, gen, req)))) (filter (up f) (pc_holders c))"
    by (induction "pc_holders c") (auto simp: filter_map_conv comp_def)
  finally show ?thesis .
qed

lemma enough_holders:
  assumes "certificate_wf c" "reaches_majority (pc_voters c) {v. up f v}"
  shows "needed_records c \<le> length (filter (up f) (pc_holders c))"
proof -
  have "distinct (pc_holders c)" using assms(1) by (simp add: certificate_wf_def strict_sorted_iff)
  then have "length (filter (up f) (pc_holders c)) = card (set (pc_holders c) \<inter> {v. up f v})"
    by (subst distinct_card [symmetric]) (auto simp: Int_def)
  then show ?thesis
    using certificate_overlap [OF assms(1), of "{v. up f v}"] assms(2)
    by (cases "pc_mode c") (simp_all add: needed_records_def reaches_majority_def)
qed

lemma seal_live:
  assumes h: "held D c gen req body at net" and q: "q = \<lparr> sl_hash = sha256 D body, sl_group = grp, sl_generation = gen,
      sl_request = req, sl_term = fst at, sl_index = snd at, sl_certificate = c \<rparr>"
    and at: "0 < fst at" "0 < snd at" "fst at < u64_bound" "snd at < u64_bound"
    and majority: "reaches_majority (pc_voters c) {v. up (ce_faults env) v}"
    and space: "\<And>v r. v \<in> set (pc_holders c) \<Longrightarrow> up (ce_faults env) v \<Longrightarrow> part_of D c grp gen req body at v r \<Longrightarrow> room (ce_faults env) net v r"
  shows "\<exists>net'. dist_seal T env q (st, net) = (Inr (), (st, net')) \<and> held D c gen req body at net' \<and>
    (\<forall>v \<in> set (pc_holders c). up (ce_faults env) v \<longrightarrow> sealed D c gen req body at net' v)"
proof -
  let ?f = "ce_faults env" and ?key = "(sha256 D body, gen, req)"
  let ?loaded = "load_holders T ?f (sha256 D body) grp gen req (pc_holders c) net"
  have wf: "certificate_wf c" "slots_agree (pc_voters c)" "alloc_ok ?key" using h by (simp_all add: held_def)
  have "answers (\<lambda>v r. certified_slot (sl_certificate q) v = Inr (rep_slot r) \<and> rep_group r = sl_group q \<and>
      alloc r = (sl_hash q, sl_generation q, sl_request q) \<and> rep_mode r = pc_mode (sl_certificate q) \<and>
      (rep_term r = 0 \<or> (rep_term r = sl_term q \<and> rep_index r = sl_index q))) ?loaded"
    by (rule held_answers [OF h]) (auto simp: q dest: part_of_fields)
  then obtain n pending where p: "seal_pending q ?loaded = Inr (n, pending)" "n + length pending = length (filter_map answered ?loaded)"
      "\<forall>v r. (v, Inr (Some r)) \<in> set ?loaded \<longrightarrow> (rep_term r = sl_term q \<and> rep_index r = sl_index q) \<or>
         (v, r\<lparr>rep_term := sl_term q, rep_index := sl_index q\<rparr>) \<in> set pending"
      "distinct (map fst ?loaded) \<longrightarrow> distinct (map fst pending)"
    using seal_pending_ok by blast
  have "map fst ?loaded = pc_holders c" by (simp add: load_holders_def comp_def)
  then have d: "distinct (map fst pending)" using p(4) wf(1) by (simp add: certificate_wf_def strict_sorted_iff)
  have parts: "part_of D c grp gen req body at v r \<and> fits v r \<and> up ?f v \<and> v \<in> set (pc_holders c)" if "(v, r) \<in> set pending" for v r
  proof -
    have f: "fits v r" "up ?f v" "v \<in> set (pc_holders c)"
      and "\<exists>r0. content net v ?key = Inr (Some r0) \<and> r = r0\<lparr>rep_term := fst at, rep_index := snd at\<rparr>"
      using pending_fits [of q ?f net n pending v r] wf at that p(1) by (auto simp: q)
    then obtain r0 where "content net v ?key = Inr (Some r0)" "r = r0\<lparr>rep_term := fst at, rep_index := snd at\<rparr>" by blast
    moreover have "part_of D c grp gen req body (0, 0) v r0 \<or> part_of D c grp gen req body at v r0"
      using h f(3) calculation(1) by (fastforce simp: held_def)
    ultimately show ?thesis using f part_of_seal by blast
  qed
  then obtain results net' where s: "seal_stores T ?f pending net = (results, net')" "list_all (\<lambda>x. x = Inr ()) results"
      "length results = length pending" "\<forall>(v, r) \<in> set pending. content net' v (alloc r) = Inr (Some r)"
    using seal_stores_live [OF _ d, of ?f net] space by fastforce
  have count: "count_sealed n results = Inr (length (filter (up ?f) (pc_holders c)))"
    using count_sealed_all [OF s(2)] s(3) p(2) by (simp add: held_answered [OF h])
  have run: "dist_seal T env q (st, net) = (Inr (), (st, net'))"
    using p(1) s(1) count at(1,2) enough_holders [OF wf(1) majority] by (simp add: dist_seal_def q)
  have held': "held D c gen req body at net'"
    by (rule seal_held [OF h _ _ _ _ _ run]) (use wf at in \<open>simp_all add: q\<close>)
  have "sealed D c gen req body at net' v" if v: "v \<in> set (pc_holders c)" and u: "up ?f v" for v
  proof -
    obtain r where r: "content net v ?key = Inr (Some r)"
        "part_of D c grp gen req body (0, 0) v r \<or> part_of D c grp gen req body at v r"
      using h v by (auto simp: held_def)
    have "(v, Inr (Some r)) \<in> set ?loaded"
      using v load_up [OF holder_slot [OF wf(1,2) v] u] r(1) by (force simp: load_holders_def)
    then consider (already) "rep_term r = fst at" "rep_index r = snd at"
      | (written) "(v, r\<lparr>rep_term := fst at, rep_index := snd at\<rparr>) \<in> set pending"
      using p(3) by (fastforce simp: q)
    then show ?thesis
    proof cases
      case written
      then show ?thesis using s(4) parts part_of_fields(11) by (fastforce simp: sealed_def)
    next
      case already
      have "changes (\<lambda>v r. \<exists>r0. content net v ?key = Inr (Some r0) \<and>
          r = r0\<lparr>rep_term := fst at, rep_index := snd at\<rparr> \<and> alloc r0 = ?key) net net'"
        using seal_changes [OF _ _ _ _ _ run] wf at by (simp add: q)
      moreover have same: "r\<lparr>rep_term := fst at, rep_index := snd at\<rparr> = r" using already by simp
      ultimately have "content net' v ?key = Inr (Some r)"
        using holder_slot [OF wf(1,2) v] wf(3) r(1) unfolding changes_def by fastforce
      moreover have "part_of D c grp gen req body at v r" using r(2) part_of_seal [of D c grp gen req body _ v r at] same by metis
      ultimately show ?thesis by (auto simp: sealed_def)
    qed
  qed
  then show ?thesis using run held' by blast
qed

lemma reconstruct_live:
  assumes h: "held D c gen req body at net" and r: "r = \<lparr> rc_hash = sha256 D body, rc_group = grp, rc_generation = gen,
      rc_request = req, rc_length = length body, rc_term = fst at, rc_index = snd at, rc_certificate = c \<rparr>"
    and majority: "reaches_majority (pc_voters c) {v. up (ce_faults env) v}"
    and seals: "\<And>v. v \<in> set (pc_holders c) \<Longrightarrow> up (ce_faults env) v \<Longrightarrow> sealed D c gen req body at net v"
    and code: "pc_mode c = Coded \<Longrightarrow> rs_ok D (pc_k c) (pc_m c)"
  shows "dist_reconstruct D T env r (st, net) = Inr body"
proof -
  let ?f = "ce_faults env" and ?key = "(sha256 D body, gen, req)"
  let ?loaded = "load_holders T ?f (sha256 D body) grp gen req (pc_holders c) net"
  let ?rec = "\<lambda>v. the (answered (v, content net v ?key))" and ?vs = "filter (up ?f) (pc_holders c)"
  have wf: "certificate_wf c" using h by (simp add: held_def)
  have ans: "answers (\<lambda>v x. certified_slot (rc_certificate r) v = Inr (rep_slot x) \<and> rep_group x = rc_group r \<and>
      alloc x = (rc_hash r, rc_generation r, rc_request r) \<and> rep_mode x = pc_mode (rc_certificate r) \<and>
      rep_length x = rc_length r \<and> rep_term x = rc_term r \<and> rep_index x = rc_index r) ?loaded"
  proof (rule held_answers [OF h])
    fix v x assume "v \<in> set (pc_holders c)" "up ?f v" "content net v ?key = Inr (Some x)"
    then have "part_of D c grp gen req body at v x" using seals [of v] by (auto simp: sealed_def)
    from part_of_fields [OF this]
    show "certified_slot (rc_certificate r) v = Inr (rep_slot x) \<and> rep_group x = rc_group r \<and>
        alloc x = (rc_hash r, rc_generation r, rc_request r) \<and> rep_mode x = pc_mode (rc_certificate r) \<and>
        rep_length x = rc_length r \<and> rep_term x = rc_term r \<and> rep_index x = rc_index r"
      by (simp add: r)
  qed
  have records: "reconstruct_records r ?loaded = Inr (map ?rec ?vs)"
    using reconstruct_records_ok [OF ans] unfolding held_answered [OF h] .
  have part: "part_of D c grp gen req body at v (?rec v)" if "v \<in> set ?vs" for v
    using seals [of v] that by (auto simp: sealed_def)
  have enough: "needed_records c \<le> length ?vs" by (rule enough_holders [OF wf majority])
  moreover have "0 < needed_records c" using wf by (cases "pc_mode c") (auto simp: needed_records_def certificate_wf_def)
  ultimately obtain v vs where vs: "?vs = v # vs" by (cases ?vs) auto
  note first = part_of_fields [OF part [of v]]
  have uniform: "\<not> list_ex (\<lambda>x. rep_group x \<noteq> rep_group (?rec v) \<or> rep_generation x \<noteq> rep_generation (?rec v) \<or>
      rep_mode x \<noteq> rep_mode (?rec v) \<or> rep_hash x \<noteq> rep_hash (?rec v) \<or> rep_request x \<noteq> rep_request (?rec v) \<or>
      rep_length x \<noteq> rep_length (?rec v)) (map ?rec ?vs)"
    using part_of_fields [OF part] first vs by (auto simp: list_ex_iff)
  have body: "(case pc_mode c of Complete \<Rightarrow> Inr (rep_bytes (?rec v))
      | Coded \<Rightarrow> map_err (\<lambda>_. PayloadUnavailable) (decode D (pc_k c) (pc_m c) (length body)
          (map (\<lambda>x. (rep_slot x, rep_bytes x)) (map ?rec ?vs)))) = Inr body"
  proof -
    have "v \<in> set ?vs" using vs by simp
    then obtain reps where reps: "staged_bytes D (pc_k c) (pc_m c) (pc_mode c) (pc_voters c) body = Inr reps"
      using part by (auto simp: part_of_def)
    have slotted: "rep_slot (?rec w) < length (pc_voters c) \<and> pc_voters c ! rep_slot (?rec w) = w \<and> rep_bytes (?rec w) = reps ! rep_slot (?rec w)"
      if "w \<in> set ?vs" for w
      using part [OF that] reps position_Some by (fastforce simp: part_of_def dist_rep_def)
    show ?thesis
    proof (cases "pc_mode c")
      case Complete
      then have "reps = map (\<lambda>_. body) (pc_voters c)" using reps by (simp add: staged_bytes_def)
      then show ?thesis using slotted [of v] vs Complete by simp
    next
      case Coded
      then have enc: "encode D (pc_k c) (pc_m c) body = Inr reps" using reps by (auto simp: staged_bytes_def)
      have k: "0 < pc_k c" "length (pc_voters c) = pc_k c + pc_m c" using wf by (simp_all add: certificate_wf_def)
      then have "length reps = length (pc_voters c)" using encode_total [OF code [OF Coded] k(1), of body] enc by auto
      moreover have "distinct (map (\<lambda>w. rep_slot (?rec w)) ?vs)"
      proof -
        have "inj_on (\<lambda>w. rep_slot (?rec w)) (set ?vs)" by (rule inj_onI) (metis slotted)
        then show ?thesis using wf by (simp add: distinct_map certificate_wf_def strict_sorted_iff)
      qed
      ultimately have "shards_of reps (map (\<lambda>x. (rep_slot x, rep_bytes x)) (map ?rec ?vs))"
        using slotted by (auto simp: shards_of_def comp_def)
      moreover have "pc_k c \<le> length (map (\<lambda>x. (rep_slot x, rep_bytes x)) (map ?rec ?vs))"
        using enough Coded by (simp add: needed_records_def)
      ultimately show ?thesis using decode_encode [OF code [OF Coded] k(1) enc] Coded by simp
    qed
  qed
  have first: "rep_hash (?rec v) = sha256 D body" "rep_mode (?rec v) = pc_mode c" "rep_length (?rec v) = length body"
    using part_of_fields [OF part [of v]] vs by auto
  show ?thesis
  proof (rule dist_reconstruct_eval [where xs = "map ?rec ?vs" and x = "?rec v" and xs' = "map ?rec vs"])
    show "\<not> list_ex (\<lambda>y. rep_group y \<noteq> rep_group (?rec v) \<or> rep_generation y \<noteq> rep_generation (?rec v) \<or>
        rep_mode y \<noteq> rep_mode (?rec v) \<or> rep_hash y \<noteq> rep_hash (?rec v) \<or> rep_request y \<noteq> rep_request (?rec v) \<or>
        rep_length y \<noteq> rep_length (?rec v)) (map ?rec ?vs)"
      by (rule uniform)
    show "map ?rec ?vs = ?rec v # map ?rec vs" by (simp only: vs list.map)
  qed (use records enough first body in \<open>simp_all only: r reconstruct_request.simps length_map snd_conv\<close>)
qed

end

end
