(* ===== verification/Group.thy ===== *)
theory Group
  imports Payload_Store State_Machine
begin

section \<open>The consensus group\<close>

text \<open>
  \<open>crates/verglas-consensus/src/group.rs\<close>: the leader-facing boundary that stages a body, commits
  its header through Raft, seals the payload, and serves reads behind a linearizable fence. OpenRaft
  is a parameter (\<open>raft\<close>): a write or a fence returns the log entries this replica applied
  meanwhile and its own outcome, and the group applies them with \<open>apply_entry\<close>. The trait
  \<open>PayloadStore\<close> is the record \<open>payload_store\<close> of its methods over a state \<open>'p\<close>, which
  also holds what the environment does in the calls to come. An operation is a function from the
  group to a result and the group after it; \<open>await\<close> is \<open>.await?\<close>. The operations of one
  group run one after the other: between two suspension points of a call the log moves only where
  the call itself waits for Raft.
\<close>

subsection \<open>Fallible operations\<close>

definition await :: "('s \<Rightarrow> ('e + 'a) \<times> 's) \<Rightarrow> ('a \<Rightarrow> 's \<Rightarrow> ('e + 'b) \<times> 's) \<Rightarrow> 's \<Rightarrow> ('e + 'b) \<times> 's" where
  "await m f s = (case m s of (Inl e, s') \<Rightarrow> (Inl e, s') | (Inr a, s') \<Rightarrow> f a s')"

definition return :: "'e + 'a \<Rightarrow> 's \<Rightarrow> ('e + 'a) \<times> 's" where
  "return r s = (r, s)"

lemma return_eq [simp]: "return r s = (r', s') \<longleftrightarrow> r = r' \<and> s = s'"
  by (auto simp: return_def)

lemma await_Inr [simp]: "await m f s = (Inr b, s'') \<longleftrightarrow> (\<exists>a s'. m s = (Inr a, s') \<and> f a s' = (Inr b, s''))"
  by (auto simp: await_def split: prod.splits sum.splits)

lemma await_return [simp]: "await (return (Inr a)) f s = f a s" "await (return (Inl e)) f s = (Inl e, s)"
  by (simp_all add: await_def return_def)

text \<open>A relation between the states before and after that every step keeps.\<close>

lemma await_rel:
  assumes "R s (snd (m s))" "\<And>a s'. m s = (Inr a, s') \<Longrightarrow> R s' (snd (f a s'))" "\<And>x y z. R x y \<Longrightarrow> R y z \<Longrightarrow> R x z"
  shows "R s (snd (await m f s))"
  using assms by (auto simp: await_def split: prod.splits sum.splits)

subsection \<open>The services of a group\<close>

record 'p payload_store =
  pst_set_voters :: "node_id list \<Rightarrow> 'p \<Rightarrow> (payload_error + unit) \<times> 'p"
  pst_stage :: "request_id \<Rightarrow> string \<Rightarrow> nat \<Rightarrow> replication_mode \<Rightarrow> bytes \<Rightarrow> node_id list \<Rightarrow> 'p \<Rightarrow> (payload_error + staged_payload) \<times> 'p"
  pst_reconstruct :: "reconstruct_request \<Rightarrow> 'p \<Rightarrow> (payload_error + bytes) \<times> 'p"
  pst_repair :: "repair_request \<Rightarrow> 'p \<Rightarrow> (payload_error + payload_certificate) \<times> 'p"
  pst_seal :: "seal_request \<Rightarrow> 'p \<Rightarrow> (payload_error + unit) \<times> 'p"
  pst_release :: "release_request \<Rightarrow> 'p \<Rightarrow> (payload_error + unit) \<times> 'p"

datatype write_error = ForwardToLeader "node_id option" | WriteFailed

datatype wait_outcome = Metrics "node_id option" | TimedOut | ShuttingDown

record 'r raft =
  rf_client_write :: "raft_command \<Rightarrow> 'r \<Rightarrow> log_entry list \<times> (write_error + log_id) \<times> 'r"
  rf_ensure_linearizable :: "'r \<Rightarrow> log_entry list \<times> (string + unit) \<times> 'r"
  rf_current_leader :: "'r \<Rightarrow> node_id option"
  rf_wait :: "'r \<Rightarrow> wait_outcome \<times> 'r"
  rf_message :: "write_error \<Rightarrow> string"

text \<open>The services: the third-party functions, the payload store, Raft, and the JSON encoders.\<close>

record ('p, 'r) services =
  sv_deps :: deps
  sv_payloads :: "'p payload_store"
  sv_raft :: "'r raft"
  sv_batch_json :: "catalog_batch \<Rightarrow> bytes option"
  sv_export_json :: "string list \<Rightarrow> (string \<times> string) list \<Rightarrow> bytes option"

datatype group_error =
    InvalidIdentity
  | Payload payload_error
  | InvalidCertificate
  | RaftFailed string
  | NotLeader "node_id option"
  | NotCommitted nat
  | WrongGroup
  | GConflictingRetry
  | GStaleWriterEpoch
  | WalRangeOverflow
  | GWalGap
  | GInvalidArchiveCheckpoint
  | ArchiveNotCheckpointed nat nat
  | CatalogEncoding
  | GCatalogConflict
  | WalOutOfRange

definition client_write_error :: "'r raft \<Rightarrow> write_error \<Rightarrow> group_error" where
  "client_write_error R e =
     (case e of ForwardToLeader leader \<Rightarrow> NotLeader leader | WriteFailed \<Rightarrow> RaftFailed (rf_message R e))"

record ('p, 'r) consensus_group =
  cg_group :: string
  cg_generation :: nat
  cg_raft :: 'r
  cg_machine :: state_machine
  cg_factory :: "payload_error + 'p"
  cg_payloads :: "(payload_error + 'p) option"

definition group_new :: "string \<Rightarrow> nat \<Rightarrow> 'r \<Rightarrow> state_machine \<Rightarrow> payload_error + 'p \<Rightarrow> group_error + ('p, 'r) consensus_group" where
  "group_new grp generation raft machine factory =
     (if grp = [] \<or> generation = 0 then Inl InvalidIdentity
      else Inr \<lparr> cg_group = grp, cg_generation = generation, cg_raft = raft, cg_machine = machine,
                 cg_factory = factory, cg_payloads = None \<rparr>)"

definition inline_payload_threshold :: nat where
  "inline_payload_threshold = 4096"

type_synonym ('p, 'r, 'a) op = "('p, 'r) consensus_group \<Rightarrow> (group_error + 'a) \<times> ('p, 'r) consensus_group"

subsection \<open>Raft and the payload store\<close>

text \<open>Entries the log hands to this replica; a storage failure stops the core.\<close>

definition advance :: "deps \<Rightarrow> log_entry list \<Rightarrow> ('p, 'r, unit) op" where
  "advance D entries g =
     (case apply_entries D entries (cg_machine g) of
        (s, Inl _) \<Rightarrow> (Inl (RaftFailed ''storage''), g\<lparr>cg_machine := s\<rparr>)
      | (s, Inr _) \<Rightarrow> (Inr (), g\<lparr>cg_machine := s\<rparr>))"

definition apply_own :: "deps \<Rightarrow> log_id \<Rightarrow> raft_command \<Rightarrow> ('p, 'r, raft_response) op" where
  "apply_own D lid command g =
     (case apply_entry D \<lparr> le_log_id = lid, le_payload = Normal command \<rparr> (cg_machine g) of
        (s, Inl _) \<Rightarrow> (Inl (RaftFailed ''storage''), g\<lparr>cg_machine := s\<rparr>)
      | (s, Inr resp) \<Rightarrow> (Inr resp, g\<lparr>cg_machine := s\<rparr>))"

definition client_write :: "('p, 'r) services \<Rightarrow> (write_error \<Rightarrow> group_error) \<Rightarrow> raft_command \<Rightarrow> ('p, 'r, raft_response) op" where
  "client_write X on_error command g =
     (case rf_client_write (sv_raft X) command (cg_raft g) of
        (entries, outcome, raft) \<Rightarrow>
          await (advance (sv_deps X) entries) (\<lambda>_.
          await (return (map_err on_error outcome)) (\<lambda>lid.
          apply_own (sv_deps X) lid command)) (g\<lparr>cg_raft := raft\<rparr>))"

definition ensure_linearizable :: "('p, 'r) services \<Rightarrow> ('p, 'r, unit) op" where
  "ensure_linearizable X g =
     (case rf_ensure_linearizable (sv_raft X) (cg_raft g) of
        (entries, outcome, raft) \<Rightarrow>
          await (advance (sv_deps X) entries) (\<lambda>_. return (map_err RaftFailed outcome)) (g\<lparr>cg_raft := raft\<rparr>))"

definition resolve_payloads :: "('p, 'r, 'p) op" where
  "resolve_payloads g =
     (let result = (case cg_payloads g of None \<Rightarrow> cg_factory g | Some r \<Rightarrow> r)
      in (map_err Payload result, g\<lparr>cg_payloads := Some result\<rparr>))"

definition on_payloads :: "('p \<Rightarrow> (payload_error + 'a) \<times> 'p) \<Rightarrow> ('p, 'r, 'a) op" where
  "on_payloads f =
     await resolve_payloads (\<lambda>p g. case f p of (r, p') \<Rightarrow> (map_err Payload r, g\<lparr>cg_payloads := Some (Inr p')\<rparr>))"

definition gets :: "(state_machine \<Rightarrow> 'a) \<Rightarrow> ('p, 'r, 'a) op" where
  "gets f g = (Inr (f (cg_machine g)), g)"

subsection \<open>Configuration and leadership\<close>

definition refresh_configuration_generation :: "nat \<Rightarrow> ('p, 'r) consensus_group \<Rightarrow> ('p, 'r) consensus_group" where
  "refresh_configuration_generation generation g =
     (if generation \<noteq> 0 then g\<lparr>cg_generation := generation\<rparr> else g)"

definition refresh_voters :: "('p, 'r) services \<Rightarrow> node_id list \<Rightarrow> ('p, 'r, unit) op" where
  "refresh_voters X voters = on_payloads (pst_set_voters (sv_payloads X) voters)"

definition leader_id :: "('p, 'r) services \<Rightarrow> ('p, 'r) consensus_group \<Rightarrow> node_id option" where
  "leader_id X g = rf_current_leader (sv_raft X) (cg_raft g)"

definition wait_result :: "wait_outcome \<Rightarrow> group_error + node_id option" where
  "wait_result outcome =
     (case outcome of
        Metrics leader \<Rightarrow> Inr leader
      | TimedOut \<Rightarrow> Inr None
      | ShuttingDown \<Rightarrow> Inl (RaftFailed ''consensus core is shutting down''))"

definition await_leader :: "('p, 'r) services \<Rightarrow> ('p, 'r, node_id option) op" where
  "await_leader X g =
     (case leader_id X g of
        Some leader \<Rightarrow> (Inr (Some leader), g)
      | None \<Rightarrow> (case rf_wait (sv_raft X) (cg_raft g) of (outcome, raft) \<Rightarrow> (wait_result outcome, g\<lparr>cg_raft := raft\<rparr>)))"

definition await_leader_change :: "('p, 'r) services \<Rightarrow> node_id option \<Rightarrow> ('p, 'r, node_id option) op" where
  "await_leader_change X stale g =
     (if leader_id X g \<noteq> None \<and> leader_id X g \<noteq> stale then (Inr (leader_id X g), g)
      else (case rf_wait (sv_raft X) (cg_raft g) of (outcome, raft) \<Rightarrow> (wait_result outcome, g\<lparr>cg_raft := raft\<rparr>)))"

subsection \<open>Committing a body\<close>

fun outcome_result :: "raft_response \<Rightarrow> group_error + raft_response" where
  "outcome_result resp =
     (case rr_outcome resp of
        Committed \<Rightarrow> Inr resp
      | Duplicate \<Rightarrow> Inr resp
      | OutConflictingRetry \<Rightarrow> Inl GConflictingRetry
      | OutStaleWriterEpoch \<Rightarrow> Inl GStaleWriterEpoch
      | WalGap \<Rightarrow> Inl GWalGap
      | InvalidArchiveCheckpoint \<Rightarrow> Inl GInvalidArchiveCheckpoint
      | CatalogConflict \<Rightarrow> Inl GCatalogConflict)"

text \<open>The header before decoration, and the digest and certificate of a staged body.\<close>

definition base_header :: "('p, 'r) services \<Rightarrow> request_id \<Rightarrow> command_kind \<Rightarrow> replication_mode \<Rightarrow> bytes \<Rightarrow> nat option \<Rightarrow> node_id list
    \<Rightarrow> nat \<Rightarrow> ('p, 'r, entry_header \<times> (hash \<times> payload_certificate) option) op" where
  "base_header X request kind mode body writer_epoch holders generation g =
     (if length body \<le> inline_payload_threshold
      then await (return (map_err (\<lambda>_. InvalidCertificate)
             (header_new_inline (sv_deps X) (cg_group g) generation kind request writer_epoch body)))
             (\<lambda>base. return (Inr (base, None))) g
      else await (on_payloads (pst_stage (sv_payloads X) request (cg_group g) generation mode body holders)) (\<lambda>staged.
           await (return (map_err (\<lambda>_. InvalidCertificate)
             (header_new (cg_group g) generation kind request (sp_length staged) (sp_hash staged) writer_epoch (sp_certificate staged))))
             (\<lambda>base. return (Inr (base, Some (sp_hash staged, sp_certificate staged))))) g)"

definition seal_committed :: "('p, 'r) services \<Rightarrow> request_id \<Rightarrow> nat \<Rightarrow> raft_response \<Rightarrow> (hash \<times> payload_certificate) option
    \<Rightarrow> ('p, 'r, unit) op" where
  "seal_committed X request generation resp staged g =
     (case staged of
        Some (digest, certificate) \<Rightarrow>
          if rr_outcome resp \<in> {Committed, Duplicate}
          then await (return (ok_or (NotCommitted (rr_index resp)) (committed_log_id (rr_index resp) (cg_machine g)))) (\<lambda>lid.
               on_payloads (pst_seal (sv_payloads X)
                 \<lparr> sl_hash = digest, sl_group = cg_group g, sl_generation = generation, sl_request = request,
                   sl_term = li_term lid, sl_index = li_index lid, sl_certificate = certificate \<rparr>)) g
          else (Inr (), g)
      | None \<Rightarrow> (Inr (), g))"

definition commit_header :: "('p, 'r) services \<Rightarrow> request_id \<Rightarrow> command_kind \<Rightarrow> replication_mode \<Rightarrow> bytes \<Rightarrow> nat option \<Rightarrow> node_id list
    \<Rightarrow> (entry_header \<Rightarrow> certificate_error + entry_header) \<Rightarrow> ('p, 'r, raft_response) op" where
  "commit_header X request kind mode body writer_epoch holders decorate g =
     (let generation = cg_generation g in
      await (base_header X request kind mode body writer_epoch holders generation) (\<lambda>(base, staged).
      await (return (map_err (\<lambda>_. InvalidCertificate) (decorate base))) (\<lambda>header.
      await (client_write X (client_write_error (sv_raft X)) (Commit header)) (\<lambda>resp.
      await (seal_committed X request generation resp staged) (\<lambda>_.
      return (outcome_result resp))))) g)"

definition commit :: "('p, 'r) services \<Rightarrow> request_id \<Rightarrow> command_kind \<Rightarrow> replication_mode \<Rightarrow> bytes \<Rightarrow> nat option \<Rightarrow> node_id list
    \<Rightarrow> ('p, 'r, raft_response) op" where
  "commit X request kind mode body writer_epoch holders =
     commit_header X request kind mode body writer_epoch holders Inr"

definition open_timeline :: "('p, 'r) services \<Rightarrow> request_id \<Rightarrow> nat \<Rightarrow> node_id list \<Rightarrow> ('p, 'r, raft_response) op" where
  "open_timeline X request start_lsn holders =
     commit_header X request TimelineOpen Complete [] None holders (with_wal_start start_lsn)"

definition bind_wal_archive :: "('p, 'r) services \<Rightarrow> request_id \<Rightarrow> string \<Rightarrow> node_id list \<Rightarrow> ('p, 'r, raft_response) op" where
  "bind_wal_archive X request bucket holders =
     commit_header X request WalArchiveBinding Complete (as_bytes bucket) None holders (with_wal_archive_bucket bucket)"

definition group_acquire_writer :: "('p, 'r) services \<Rightarrow> request_id \<Rightarrow> string \<Rightarrow> node_id list \<Rightarrow> ('p, 'r, raft_response) op" where
  "group_acquire_writer X request writer holders g =
     commit_header X request WriterLease Complete (as_bytes writer) (Some (sm_writer_epoch (cg_machine g) + 1)) holders Inr g"

definition append_wal_mode :: "('p, 'r) services \<Rightarrow> request_id \<Rightarrow> nat \<Rightarrow> nat \<Rightarrow> bytes \<Rightarrow> replication_mode \<Rightarrow> node_id list
    \<Rightarrow> ('p, 'r, raft_response) op" where
  "append_wal_mode X request writer_epoch start_lsn body mode holders =
     await (return (ok_or WalRangeOverflow (checked_add start_lsn (length body)))) (\<lambda>fin.
     commit_header X request Wal mode body (Some writer_epoch) holders (with_wal_range start_lsn fin))"

definition append_wal :: "('p, 'r) services \<Rightarrow> request_id \<Rightarrow> nat \<Rightarrow> nat \<Rightarrow> bytes \<Rightarrow> node_id list \<Rightarrow> ('p, 'r, raft_response) op" where
  "append_wal X request writer_epoch start_lsn body holders =
     append_wal_mode X request writer_epoch start_lsn body Coded holders"

definition release_writer :: "('p, 'r) services \<Rightarrow> request_id \<Rightarrow> nat \<Rightarrow> node_id list \<Rightarrow> ('p, 'r, raft_response) op" where
  "release_writer X request writer_epoch holders =
     commit_header X request ReleaseWriter Complete [] (Some writer_epoch) holders Inr"

text \<open>The store attached to the state machine is the resolved one; without it nothing is released.\<close>

definition release_checkpointed :: "('p, 'r) services \<Rightarrow> ('p, 'r, unit) op" where
  "release_checkpointed X g =
     (case cg_payloads g of
        Some (Inr p) \<Rightarrow>
          (case release_checkpointed_wal_payloads (Some (\<lambda>q w. (case pst_release (sv_payloads X) q w of (r, w') \<Rightarrow> (w', r))))
                  (cg_machine g) p of
             (p', r) \<Rightarrow> (map_err Payload r, g\<lparr>cg_payloads := Some (Inr p')\<rparr>))
      | _ \<Rightarrow> (Inr (), g))"

definition archive_checkpoint :: "('p, 'r) services \<Rightarrow> request_id \<Rightarrow> nat \<Rightarrow> string \<Rightarrow> node_id list \<Rightarrow> ('p, 'r, raft_response) op" where
  "archive_checkpoint X request end_lsn object holders =
     await (return (map_err (\<lambda>_. GInvalidArchiveCheckpoint) (segment_from_key (sv_deps X) object))) (\<lambda>segment.
     if seg_end_lsn segment \<noteq> end_lsn then return (Inl GInvalidArchiveCheckpoint)
     else
       await (commit_header X request ArchiveCheckpoint Complete (as_bytes object) None holders
               (with_archive_segment (sv_deps X) segment)) (\<lambda>resp.
       await (release_checkpointed X) (\<lambda>_.
       await (client_write X (client_write_error (sv_raft X)) (ReleaseWal end_lsn)) (\<lambda>_.
       return (Inr resp)))))"

definition commit_catalog :: "('p, 'r) services \<Rightarrow> request_id \<Rightarrow> catalog_batch \<Rightarrow> node_id list \<Rightarrow> ('p, 'r, raft_response) op" where
  "commit_catalog X request batch holders =
     await (return (ok_or CatalogEncoding (sv_batch_json X batch))) (\<lambda>body.
     commit_header X request command_kind.Catalog Complete body None holders (with_catalog_batch batch))"

definition catalog_checkpoint :: "('p, 'r) services \<Rightarrow> request_id \<Rightarrow> nat \<Rightarrow> string \<Rightarrow> node_id list \<Rightarrow> ('p, 'r, raft_response) op" where
  "catalog_checkpoint X request index object holders =
     commit_header X request CatalogCheckpoint Complete (as_bytes object) None holders (with_catalog_checkpoint index)"

subsection \<open>Reading committed bodies\<close>

type_synonym allocated = "payload_certificate \<times> nat \<times> log_id"

definition allocation_of :: "nat \<Rightarrow> entry_header \<Rightarrow> state_machine \<Rightarrow> group_error + allocated" where
  "allocation_of index h s =
     (case map_of (sm_repairs s) index of
        Some repair \<Rightarrow> Inr (ra_certificate repair, ra_generation repair, ra_log_id repair)
      | None \<Rightarrow>
          and_then (ok_or InvalidCertificate (eh_certificate h)) (\<lambda>certificate.
          and_then (ok_or (NotCommitted index) (committed_log_id index s)) (\<lambda>lid.
          Inr (certificate, eh_generation h, lid))))"

fun seal_of :: "entry_header \<Rightarrow> allocated \<Rightarrow> seal_request" where
  "seal_of h (certificate, generation, lid) =
     \<lparr> sl_hash = eh_payload_hash h, sl_group = eh_group h, sl_generation = generation, sl_request = eh_request h,
       sl_term = li_term lid, sl_index = li_index lid, sl_certificate = certificate \<rparr>"

fun reconstruct_of :: "entry_header \<Rightarrow> allocated \<Rightarrow> reconstruct_request" where
  "reconstruct_of h (certificate, generation, lid) =
     \<lparr> rc_hash = eh_payload_hash h, rc_group = eh_group h, rc_generation = generation, rc_request = eh_request h,
       rc_length = eh_payload_len h, rc_term = li_term lid, rc_index = li_index lid, rc_certificate = certificate \<rparr>"

definition fetch_body :: "('p, 'r) services \<Rightarrow> nat \<Rightarrow> entry_header \<Rightarrow> ('p, 'r, bytes) op" where
  "fetch_body X index h =
     await resolve_payloads (\<lambda>_.
     await (gets (allocation_of index h)) (\<lambda>allocation.
     await (return allocation) (\<lambda>a.
     await (on_payloads (pst_seal (sv_payloads X) (seal_of h a))) (\<lambda>_.
     on_payloads (pst_reconstruct (sv_payloads X) (reconstruct_of h a))))))"

definition read :: "('p, 'r) services \<Rightarrow> nat \<Rightarrow> ('p, 'r, bytes) op" where
  "read X index =
     await (ensure_linearizable X) (\<lambda>_ g.
     await (return (ok_or (NotCommitted index) (committed_header index (cg_machine g)))) (\<lambda>h.
     if eh_group h \<noteq> cg_group g then return (Inl WrongGroup)
     else case eh_inline h of
            Some body \<Rightarrow> return (Inr body)
          | None \<Rightarrow> fetch_body X index h) g)"

definition verify_committed_header :: "('p, 'r) services \<Rightarrow> nat \<Rightarrow> entry_header \<Rightarrow> ('p, 'r, unit) op" where
  "verify_committed_header X index h =
     (if eh_inline h \<noteq> None then return (Inr ()) else await (fetch_body X index h) (\<lambda>_. return (Inr ())))"

text \<open>Every header is checked before the first error is reported.\<close>

fun verify_headers :: "('p, 'r) services \<Rightarrow> (nat \<times> entry_header) list \<Rightarrow> ('p, 'r, unit) op" where
  "verify_headers X [] g = (Inr (), g)"
| "verify_headers X ((index, h) # hs) g =
     (case verify_committed_header X index h g of
        (first, g') \<Rightarrow> (case verify_headers X hs g' of (rest, g'') \<Rightarrow> (and_then first (\<lambda>_. rest), g'')))"

definition verify_committed_prefix :: "('p, 'r) services \<Rightarrow> ('p, 'r, unit) op" where
  "verify_committed_prefix X g = verify_headers X (sm_committed (cg_machine g)) g"

definition read_fence :: "('p, 'r) services \<Rightarrow> ('p, 'r, unit) op" where
  "read_fence X = await (ensure_linearizable X) (\<lambda>_. verify_committed_prefix X)"

definition fenced :: "('p, 'r) services \<Rightarrow> (state_machine \<Rightarrow> 'a) \<Rightarrow> ('p, 'r, 'a) op" where
  "fenced X f = await (read_fence X) (\<lambda>_. gets f)"

definition register_warehouse :: "('p, 'r) services \<Rightarrow> request_id \<Rightarrow> string \<Rightarrow> string \<Rightarrow> node_id list \<Rightarrow> ('p, 'r, string option) op" where
  "register_warehouse X request warehouse route holders =
     await (commit_header X request TenantRoot Complete (as_bytes (warehouse @ [CHR 0x00] @ route)) None holders
             (with_warehouse_route warehouse route)) (\<lambda>_.
     fenced X (\<lambda>s. map_of (sm_warehouses s) warehouse))"

definition catalog_table :: "('p, 'r) services \<Rightarrow> string \<Rightarrow> ('p, 'r, string option) op" where
  "catalog_table X table = fenced X (\<lambda>s. map_of (sm_tables s) table)"

definition catalog_record :: "('p, 'r) services \<Rightarrow> catalog_entity \<Rightarrow> string \<Rightarrow> ('p, 'r, string option) op" where
  "catalog_record X entity name = fenced X (\<lambda>s. records_get (sm_records s) entity name)"

definition catalog_records_of :: "('p, 'r) services \<Rightarrow> catalog_entity \<Rightarrow> ('p, 'r, (string \<times> string) list) op" where
  "catalog_records_of X entity = fenced X (\<lambda>s. records_list (sm_records s) entity)"

record catalog_export =
  ce_applied_index :: nat
  ce_bytes :: bytes

definition export_catalog :: "('p, 'r) services \<Rightarrow> ('p, 'r, catalog_export) op" where
  "export_catalog X =
     await (fenced X (\<lambda>s. (sm_namespaces s, sm_tables s, applied_index s))) (\<lambda>(namespaces, tables, index).
     return (and_then (ok_or CatalogEncoding (sv_export_json X namespaces tables)) (\<lambda>bytes.
       Inr \<lparr> ce_applied_index = index, ce_bytes = bytes \<rparr>)))"

subsection \<open>Reading the WAL\<close>

record wal_archive_state =
  wa_applied_index :: nat
  wa_committed_end :: nat
  wa_checkpointed_end :: nat

record wal_read_plan =
  wp_applied_index :: nat
  wp_committed_end :: nat
  wp_checkpointed_end :: nat
  wp_archived_segments :: "wal_archive_segment list"
  wp_retained_tail :: bytes

definition wal_archive_state_of :: "state_machine \<Rightarrow> wal_archive_state" where
  "wal_archive_state_of s =
     \<lparr> wa_applied_index = applied_index s, wa_committed_end = sm_wal_end s, wa_checkpointed_end = sm_archive_lsn s \<rparr>"

definition fenced_archive_state :: "('p, 'r) services \<Rightarrow> ('p, 'r, wal_archive_state) op" where
  "fenced_archive_state X = await (ensure_linearizable X) (\<lambda>_. gets wal_archive_state_of)"

text \<open>The range indexing of a byte slice, absent when it is out of bounds.\<close>

definition get_range :: "nat \<Rightarrow> nat \<Rightarrow> bytes \<Rightarrow> bytes option" where
  "get_range a b body = (if a \<le> b \<and> b \<le> length body then Some (slice a b body) else None)"

definition wal_body :: "('p, 'r) services \<Rightarrow> nat \<Rightarrow> entry_header \<Rightarrow> ('p, 'r, bytes) op" where
  "wal_body X index h = (case eh_inline h of Some body \<Rightarrow> return (Inr body) | None \<Rightarrow> fetch_body X index h)"

fun read_wal_loop :: "('p, 'r) services \<Rightarrow> nat \<Rightarrow> (nat \<times> entry_header) list \<Rightarrow> nat \<Rightarrow> bytes \<Rightarrow> ('p, 'r, bytes) op" where
  "read_wal_loop X to [] cursor out = return (Inl WalOutOfRange)"
| "read_wal_loop X to ((index, h) # hs) cursor out =
     (case eh_metadata h of
        MetaWal start fin \<Rightarrow>
          if fin \<le> cursor \<or> to \<le> start then read_wal_loop X to hs cursor out
          else if cursor < start then return (Inl WalOutOfRange)
          else
            await (wal_body X index h) (\<lambda>body.
            await (return (ok_or WalOutOfRange (get_range (cursor - start) (min to fin - start) body))) (\<lambda>part.
            if min to fin = to then return (Inr (out @ part))
            else read_wal_loop X to hs (min to fin) (out @ part)))
      | _ \<Rightarrow> read_wal_loop X to hs cursor out)"

definition read_wal_after_fence :: "('p, 'r) services \<Rightarrow> nat \<Rightarrow> nat \<Rightarrow> nat \<Rightarrow> ('p, 'r, bytes) op" where
  "read_wal_after_fence X from to minimum_index g =
     (if applied_index (cg_machine g) < minimum_index then (Inl (NotCommitted minimum_index), g)
      else read_wal_loop X to (sm_committed (cg_machine g)) from [] g)"

definition read_wal :: "('p, 'r) services \<Rightarrow> nat \<Rightarrow> nat \<Rightarrow> nat \<Rightarrow> ('p, 'r, bytes) op" where
  "read_wal X from to minimum_index =
     (if to \<le> from then return (Inl WalOutOfRange)
      else await (ensure_linearizable X) (\<lambda>_. read_wal_after_fence X from to minimum_index))"

definition plan_wal_read :: "('p, 'r) services \<Rightarrow> nat \<Rightarrow> nat \<Rightarrow> nat \<Rightarrow> ('p, 'r, wal_read_plan) op" where
  "plan_wal_read X from to minimum_index =
     (if to \<le> from then return (Inl WalOutOfRange)
      else
        await (ensure_linearizable X) (\<lambda>_ g.
        (let s = cg_machine g; tail_start = max from (sm_archive_lsn s) in
         if applied_index s < minimum_index then (Inl (NotCommitted minimum_index), g)
         else if to > sm_wal_end s then (Inl WalOutOfRange, g)
         else
           await (return (map_err Payload (archived_wal_segments (sm_archive_lsn s) s))) (\<lambda>segments.
           await (if tail_start < to then read_wal_after_fence X tail_start to (applied_index s) else return (Inr [])) (\<lambda>tail.
           return (Inr \<lparr> wp_applied_index = applied_index s, wp_committed_end = sm_wal_end s,
             wp_checkpointed_end = sm_archive_lsn s, wp_archived_segments = segments, wp_retained_tail = tail \<rparr>))) g)))"

definition release_wal_through :: "('p, 'r) services \<Rightarrow> nat \<Rightarrow> ('p, 'r, wal_archive_state) op" where
  "release_wal_through X end_lsn =
     await (fenced_archive_state X) (\<lambda>state.
     if end_lsn > wa_checkpointed_end state then return (Inl (ArchiveNotCheckpointed end_lsn (wa_checkpointed_end state)))
     else return (Inr state))"

subsection \<open>Requests\<close>

datatype group_request =
    ReqBindWalArchive request_id string "node_id list"
  | ReqWalArchiveBinding
  | ReqOpenTimeline request_id nat "node_id list"
  | ReqAcquireWriter request_id string "node_id list"
  | ReqAppendWal request_id nat nat bytes "node_id list" replication_mode
  | ReqReadWal nat nat nat
  | ReqWalState nat
  | ReqReleaseWriter request_id nat "node_id list"
  | ReqArchiveCheckpoint request_id nat string "node_id list"
  | ReqCommitCatalog request_id catalog_batch "node_id list"
  | ReqCommitObject request_id bytes "node_id list" replication_mode
  | ReqRegisterWarehouse request_id string string "node_id list"
  | ReqResolveWarehouse string
  | ReqCatalogTable string
  | ReqCatalogNamespaces
  | ReqCatalogTables
  | ReqCatalogRecord catalog_entity string
  | ReqCatalogRecords catalog_entity
  | ReqExportCatalog
  | ReqCatalogCheckpoint request_id nat string "node_id list"

datatype group_response =
    RespWalArchiveBinding "string option"
  | RespApplied raft_response
  | RespBytes bytes
  | RespWalState wal_archive_state
  | RespArchivedWalReadPlan wal_read_plan
  | RespCatalogTable "string option"
  | RespCatalogNamespaces "string list"
  | RespCatalogTables "(string \<times> string) list"
  | RespCatalogRecord "string option"
  | RespCatalogRecords "(string \<times> string) list"
  | RespCatalogExport catalog_export
  | RespWarehouseGroup "string option"

definition respond :: "('a \<Rightarrow> group_response) \<Rightarrow> ('p, 'r, 'a) op \<Rightarrow> ('p, 'r, group_response) op" where
  "respond f m = await m (\<lambda>a. return (Inr (f a)))"

definition wal_read_response :: "('p, 'r) services \<Rightarrow> nat \<Rightarrow> nat \<Rightarrow> nat \<Rightarrow> ('p, 'r, group_response) op" where
  "wal_read_response X from to minimum_index g =
     (case read_wal X from to minimum_index g of
        (Inr bytes, g') \<Rightarrow> (Inr (RespBytes bytes), g')
      | (Inl e, g') \<Rightarrow>
          if e \<in> {Payload PayloadUnavailable, WalOutOfRange} then
            (if sm_archive_lsn (cg_machine g') \<le> from then (Inl e, g')
             else respond RespArchivedWalReadPlan (plan_wal_read X from to minimum_index) g')
          else (Inl e, g'))"

fun execute :: "('p, 'r) services \<Rightarrow> group_request \<Rightarrow> ('p, 'r, group_response) op" where
  "execute X (ReqBindWalArchive request bucket holders) = respond RespApplied (bind_wal_archive X request bucket holders)"
| "execute X ReqWalArchiveBinding = respond RespWalArchiveBinding (fenced X sm_wal_archive_bucket)"
| "execute X (ReqOpenTimeline request start_lsn holders) = respond RespApplied (open_timeline X request start_lsn holders)"
| "execute X (ReqAcquireWriter request writer holders) = respond RespApplied (group_acquire_writer X request writer holders)"
| "execute X (ReqAppendWal request writer_epoch start_lsn payload holders mode) =
     respond RespApplied (append_wal_mode X request writer_epoch start_lsn payload mode holders)"
| "execute X (ReqReadWal from to minimum_index) = wal_read_response X from to minimum_index"
| "execute X (ReqWalState minimum_index) =
     await (fenced_archive_state X) (\<lambda>state.
     if wa_applied_index state < minimum_index then return (Inl (NotCommitted minimum_index))
     else return (Inr (RespWalState state)))"
| "execute X (ReqReleaseWriter request writer_epoch holders) = respond RespApplied (release_writer X request writer_epoch holders)"
| "execute X (ReqArchiveCheckpoint request end_lsn object holders) =
     respond RespApplied (archive_checkpoint X request end_lsn object holders)"
| "execute X (ReqCommitCatalog request batch holders) = respond RespApplied (commit_catalog X request batch holders)"
| "execute X (ReqCommitObject request payload holders mode) =
     respond RespApplied (commit X request Object mode payload None holders)"
| "execute X (ReqRegisterWarehouse request warehouse route holders) =
     respond RespWarehouseGroup (register_warehouse X request warehouse route holders)"
| "execute X (ReqResolveWarehouse warehouse) = respond RespWarehouseGroup (fenced X (\<lambda>s. map_of (sm_warehouses s) warehouse))"
| "execute X (ReqCatalogTable table) = respond RespCatalogTable (catalog_table X table)"
| "execute X ReqCatalogNamespaces = respond RespCatalogNamespaces (fenced X sm_namespaces)"
| "execute X ReqCatalogTables = respond RespCatalogTables (fenced X sm_tables)"
| "execute X (ReqCatalogRecord entity name) = respond RespCatalogRecord (catalog_record X entity name)"
| "execute X (ReqCatalogRecords entity) = respond RespCatalogRecords (catalog_records_of X entity)"
| "execute X ReqExportCatalog = respond RespCatalogExport (export_catalog X)"
| "execute X (ReqCatalogCheckpoint request index object holders) =
     respond RespApplied (catalog_checkpoint X request index object holders)"

subsection \<open>Repair\<close>

definition repair_header :: "('p, 'r) services \<Rightarrow> node_id list \<Rightarrow> nat \<Rightarrow> entry_header \<Rightarrow> ('p, 'r, unit) op" where
  "repair_header X target_voters index h =
     await resolve_payloads (\<lambda>_.
     await (gets (allocation_of index h)) (\<lambda>allocation.
     await (return allocation) (\<lambda>(source_certificate, source_generation, source).
     await (on_payloads (pst_seal (sv_payloads X) (seal_of h (source_certificate, source_generation, source)))) (\<lambda>_.
     await (return (ok_or InvalidCertificate (checked_add source_generation 1))) (\<lambda>target_generation.
     await (on_payloads (pst_repair (sv_payloads X)
       \<lparr> rq_hash = eh_payload_hash h, rq_group = eh_group h, rq_source_generation = source_generation,
         rq_target_generation = target_generation, rq_request = eh_request h, rq_length = eh_payload_len h,
         rq_source_term = li_term source, rq_source_index = li_index source, rq_certificate = source_certificate,
         rq_target_voters = target_voters \<rparr>)) (\<lambda>certificate.
     await (client_write X (\<lambda>e. RaftFailed (rf_message (sv_raft X) e)) (Repair index target_generation certificate)) (\<lambda>resp.
     await (gets (\<lambda>s. map_of (sm_repairs s) index)) (\<lambda>found.
     await (return (ok_or (NotCommitted (rr_index resp)) found)) (\<lambda>repair.
     on_payloads (pst_seal (sv_payloads X)
       (seal_of h (ra_certificate repair, target_generation, ra_log_id repair))))))))))))"

fun repair_headers :: "('p, 'r) services \<Rightarrow> node_id list \<Rightarrow> (nat \<times> entry_header) list \<Rightarrow> ('p, 'r, unit) op" where
  "repair_headers X target_voters [] = return (Inr ())"
| "repair_headers X target_voters ((index, h) # hs) =
     (if eh_inline h \<noteq> None then repair_headers X target_voters hs
      else await (repair_header X target_voters index h) (\<lambda>_. repair_headers X target_voters hs))"

definition repair_committed :: "('p, 'r) services \<Rightarrow> node_id list \<Rightarrow> ('p, 'r, unit) op" where
  "repair_committed X target_voters g = repair_headers X target_voters (sm_committed (cg_machine g)) g"

subsection \<open>The two payload stores\<close>

text \<open>
  A store with what the environment does in its next calls: each call consumes the environment at
  position 0.
\<close>

record ('s, 'e) session =
  sn_state :: 's
  sn_calls :: "nat \<Rightarrow> 'e"

definition run_call :: "('e \<Rightarrow> 's \<Rightarrow> 'a \<times> 's) \<Rightarrow> ('s, 'e) session \<Rightarrow> 'a \<times> ('s, 'e) session" where
  "run_call f p = (case f (sn_calls p 0) (sn_state p) of (r, s) \<Rightarrow> (r, \<lparr> sn_state = s, sn_calls = (\<lambda>i. sn_calls p (Suc i)) \<rparr>))"

definition distributed_ops :: "deps \<Rightarrow> ('n, 'f) transport \<Rightarrow> (distributed_store \<times> 'n, 'f call_env) session payload_store" where
  "distributed_ops D T =
     \<lparr> pst_set_voters = (\<lambda>voters. run_call (\<lambda>_. dist_set_voters voters)),
       pst_stage = (\<lambda>request grp generation mode body candidates.
         run_call (\<lambda>env. dist_stage D T env request grp generation mode body candidates)),
       pst_reconstruct = (\<lambda>r. run_call (\<lambda>env s. (dist_reconstruct D T env r s, s))),
       pst_repair = (\<lambda>r. run_call (\<lambda>env. dist_repair D T env r)),
       pst_seal = (\<lambda>q. run_call (\<lambda>env. dist_seal T env q)),
       pst_release = (\<lambda>q. run_call (\<lambda>env. dist_release T env q)) \<rparr>"

definition file_set_ops :: "deps \<Rightarrow> (payload_set, io_env) session payload_store" where
  "file_set_ops D =
     \<lparr> pst_set_voters = (\<lambda>voters. run_call (\<lambda>_ ps. (set_set_voters voters ps, ps))),
       pst_stage = (\<lambda>request grp generation mode body holders.
         run_call (\<lambda>env. stage_local D env request grp generation mode body holders)),
       pst_reconstruct = (\<lambda>r. run_call (\<lambda>env ps. (set_reconstruct D env r ps, ps))),
       pst_repair = (\<lambda>r. run_call (\<lambda>env. set_repair D env r)),
       pst_seal = (\<lambda>q. run_call (\<lambda>env. set_seal D env q)),
       pst_release = (\<lambda>q. run_call (\<lambda>env. set_release D env q)) \<rparr>"

end
