(* ===== verification/Group_Reads.thy ===== *)
theory Group_Reads
  imports Group State_Properties
begin

section \<open>What a group serves\<close>

text \<open>
  The group over any payload store. The locale \<open>authentic_store\<close> is what a reader relies on: a
  reconstructed body has the digest and the length it was asked for. It is interpreted on the
  distributed store over any transport and on the local file set. From it follows that a WAL read
  returns exactly the requested bytes of the committed stream. The invariant \<open>group_wf\<close> says that
  the applied state is well formed and that Raft hands its entries over in log order, and every
  request keeps it.
\<close>

subsection \<open>Frames\<close>

definition same_log :: "('p, 'r) consensus_group \<Rightarrow> ('p, 'r) consensus_group \<Rightarrow> bool" where
  "same_log g g' \<longleftrightarrow> cg_machine g' = cg_machine g \<and> cg_raft g' = cg_raft g \<and> cg_group g' = cg_group g \<and>
     cg_generation g' = cg_generation g"

lemma same_log_refl [simp]: "same_log g g"
  by (simp add: same_log_def)

lemma same_log_trans: "same_log g g' \<Longrightarrow> same_log g' g'' \<Longrightarrow> same_log g g''"
  by (simp add: same_log_def)

lemmas same_log_await = await_rel [where R = same_log, OF _ _ same_log_trans]

lemma same_log_return [simp]: "same_log g (snd (return r g))"
  by (simp add: return_def)

lemma same_log_gets [simp]: "same_log g (snd (gets f g))"
  by (simp add: gets_def)

lemma same_log_resolve [simp]: "same_log g (snd (resolve_payloads g))"
  by (simp add: resolve_payloads_def same_log_def Let_def)

lemma same_log_on_payloads [simp]: "same_log g (snd (on_payloads f g))"
  unfolding on_payloads_def by (rule same_log_await [OF same_log_resolve]) (simp add: same_log_def split: prod.splits)

lemma on_payloads_Inr:
  "on_payloads f g = (Inr a, g') \<longleftrightarrow>
     (\<exists>p g1 p'. resolve_payloads g = (Inr p, g1) \<and> f p = (Inr a, p') \<and> g' = g1\<lparr>cg_payloads := Some (Inr p')\<rparr>)"
  by (cases "resolve_payloads g"; cases "fst (resolve_payloads g)"; cases "f (projr (fst (resolve_payloads g)))")
    (auto simp: on_payloads_def await_def)

lemma same_log_fetch [simp]: "same_log g (snd (fetch_body X index h g))"
  unfolding fetch_body_def by (intro same_log_await same_log_return same_log_gets same_log_resolve same_log_on_payloads)

lemma same_log_wal_body [simp]: "same_log g (snd (wal_body X index h g))"
  by (simp add: wal_body_def split: option.splits)

lemma same_log_loop: "same_log g (snd (read_wal_loop X to hs cursor out g))"
proof (induction hs arbitrary: cursor out g)
  case (Cons x hs)
  obtain index h where x: "x = (index, h)" by (cases x)
  show ?case
  proof (cases "eh_metadata h")
    case (MetaWal start fin)
    have "same_log g (snd (await (wal_body X index h) (\<lambda>body.
        await (return (ok_or WalOutOfRange (get_range (cursor - start) (min to fin - start) body))) (\<lambda>part.
        if min to fin = to then return (Inr (out @ part)) else read_wal_loop X to hs (min to fin) (out @ part))) g))"
      by (intro same_log_await same_log_wal_body same_log_return) (simp add: Cons.IH)
    then show ?thesis using Cons.IH by (simp add: x MetaWal)
  qed (use Cons.IH x in simp_all)
qed simp

lemma same_log_after_fence [simp]: "same_log g (snd (read_wal_after_fence X from to m g))"
  by (simp add: read_wal_after_fence_def same_log_loop)

lemma same_log_verify [simp]: "same_log g (snd (verify_headers X hs g))"
proof (induction X hs g rule: verify_headers.induct)
  case (2 X index h hs g)
  have "same_log g (snd (verify_committed_header X index h g))"
    by (auto simp: verify_committed_header_def intro!: same_log_await)
  then show ?case using 2 by (auto simp: split: prod.splits intro: same_log_trans)
qed simp

subsection \<open>The contract of a payload store\<close>

locale authentic_store =
  fixes D :: deps and ops :: "'p payload_store"
  assumes authentic: "pst_reconstruct ops r p = (Inr body, p') \<Longrightarrow> sha256 D body = rc_hash r \<and> length body = rc_length r"
begin

lemma fetch_authentic:
  assumes "sv_payloads X = ops" "fetch_body X index h g = (Inr body, g')"
  shows "sha256 D body = eh_payload_hash h \<and> length body = eh_payload_len h"
proof -
  obtain a p p' where "pst_reconstruct ops (reconstruct_of h a) p = (Inr body, p')"
    using assms by (auto simp: fetch_body_def on_payloads_Inr)
  then show ?thesis using authentic [of "reconstruct_of h a"] by (cases a) simp
qed

end

text \<open>The WAL bodies of a list of headers: the digest is known where the entry meets the range.\<close>

definition wal_stream :: "(nat \<Rightarrow> bytes) \<Rightarrow> (nat \<times> entry_header) list \<Rightarrow> bytes" where
  "wal_stream f hs = concat (map (\<lambda>(i, h). f i) (filter (\<lambda>(i, h). wal_range h \<noteq> None) hs))"

definition wal_bodies :: "deps \<Rightarrow> nat \<Rightarrow> nat \<Rightarrow> (nat \<Rightarrow> bytes) \<Rightarrow> (nat \<times> entry_header) list \<Rightarrow> bool" where
  "wal_bodies D from to f hs \<longleftrightarrow> (\<forall>(i, h) \<in> set hs. \<forall>a b. wal_range h = Some (a, b) \<longrightarrow>
     length (f i) = b - a \<and> (max from a < min to b \<longrightarrow> sha256 D (f i) = eh_payload_hash h))"

text \<open>An inline header describes the body it carries.\<close>

definition header_carries :: "deps \<Rightarrow> entry_header \<Rightarrow> bool" where
  "header_carries D h \<longleftrightarrow> (\<forall>b. eh_inline h = Some b \<longrightarrow> eh_payload_len h = length b \<and> eh_payload_hash h = sha256 D b)"

lemma wal_stream_Nil [simp]: "wal_stream f [] = []"
  by (simp add: wal_stream_def)

lemma wal_stream_Cons [simp]: "wal_stream f ((i, h) # hs) = (if wal_range h = None then [] else f i) @ wal_stream f hs"
  by (simp add: wal_stream_def)

lemma wal_stream_fresh: "i \<notin> fst ` set hs \<Longrightarrow> wal_stream (f(i := x)) hs = wal_stream f hs"
  by (induction hs) (force simp: wal_stream_def)+

lemma wal_bodies_fresh: "i \<notin> fst ` set hs \<Longrightarrow> wal_bodies D from to (f(i := x)) hs = wal_bodies D from to f hs"
  unfolding wal_bodies_def
proof (rule ball_cong [OF refl])
  fix y assume "i \<notin> fst ` set hs" "y \<in> set hs"
  then have "fst y \<noteq> i" by blast
  then show "(case y of (j, h) \<Rightarrow> \<forall>a b. wal_range h = Some (a, b) \<longrightarrow> length ((f(i := x)) j) = b - a \<and>
      (max from a < min to b \<longrightarrow> sha256 D ((f(i := x)) j) = eh_payload_hash h)) =
    (case y of (j, h) \<Rightarrow> \<forall>a b. wal_range h = Some (a, b) \<longrightarrow> length (f j) = b - a \<and>
      (max from a < min to b \<longrightarrow> sha256 D (f j) = eh_payload_hash h))"
    by (cases y) simp
qed

text \<open>Bodies of the right lengths exist when nothing is asked of their digests.\<close>

lemma wal_bodies_beyond:
  assumes "chain c (filter_map wal_range (map snd hs)) = Some d" "to \<le> c" "distinct (map fst hs)"
  shows "\<exists>f. wal_bodies D from to f hs"
  using assms
proof (induction hs arbitrary: c)
  case (Cons x hs)
  obtain i h where x: "x = (i, h)" by (cases x)
  have fresh: "i \<notin> fst ` set hs" and dist: "distinct (map fst hs)" using Cons.prems(3) x by auto
  show ?case
  proof (cases "wal_range h")
    case None
    then obtain f where "wal_bodies D from to f hs" using Cons.IH [OF _ Cons.prems(2) dist] Cons.prems(1) x by auto
    then show ?thesis using None x by (intro exI [of _ f]) (auto simp: wal_bodies_def)
  next
    case (Some r)
    obtain a b where r: "r = (a, b)" by (cases r)
    have step: "a = c" "a \<le> b" "chain b (filter_map wal_range (map snd hs)) = Some d"
      using Cons.prems(1) Some r x by (auto split: if_splits)
    then obtain f where f: "wal_bodies D from to f hs" using Cons.IH [OF step(3) _ dist] Cons.prems(2) by auto
    then have "wal_bodies D from to (f(i := replicate (b - a) 0)) hs" using wal_bodies_fresh [OF fresh] by blast
    then have "wal_bodies D from to (f(i := replicate (b - a) 0)) (x # hs)"
      using Some r x step Cons.prems(2) by (auto simp: wal_bodies_def)
    then show ?thesis by blast
  qed
qed (simp add: wal_bodies_def)

lemma wal_range_Some: "wal_range h = Some (a, b) \<longleftrightarrow> eh_metadata h = MetaWal a b"
  by (simp add: wal_range_def split: entry_metadata.splits)

lemma loop_below:
  assumes "chain c (filter_map wal_range (map snd hs)) = Some d" "cursor < c"
  shows "\<exists>e. fst (read_wal_loop X to hs cursor out g) = Inl e"
  using assms
proof (induction hs arbitrary: c)
  case (Cons x hs)
  obtain i h where x: "x = (i, h)" by (cases x)
  show ?case
  proof (cases "wal_range h")
    case None
    then have "read_wal_loop X to (x # hs) cursor out g = read_wal_loop X to hs cursor out g"
      by (simp add: x wal_range_def split: entry_metadata.splits)
    then show ?thesis using Cons.IH [OF _ Cons.prems(2)] Cons.prems(1) None x by simp
  next
    case (Some r)
    obtain a b where r: "r = (a, b)" by (cases r)
    have m: "eh_metadata h = MetaWal a b" using Some r by (simp add: wal_range_Some)
    have step: "a = c" "a \<le> b" "chain b (filter_map wal_range (map snd hs)) = Some d"
      using Cons.prems(1) Some r x by (auto split: if_splits)
    show ?thesis
    proof (cases "to \<le> a")
      case True
      then show ?thesis using Cons.IH [OF step(3)] Cons.prems(2) step(1,2) by (simp add: x m)
    next
      case False
      then show ?thesis using Cons.prems(2) step(1,2) by (simp add: x m return_def)
    qed
  qed
qed (simp add: return_def)

lemma wal_bodies_narrow:
  assumes "wal_bodies D mid to f hs" "chain mid (filter_map wal_range (map snd hs)) = Some d" "from \<le> mid"
  shows "wal_bodies D from to f hs"
proof -
  have "mid \<le> a \<and> a \<le> b" if "chain c rs = Some d" "mid \<le> c" "(a, b) \<in> set rs" for c rs a b
    using that by (induction c rs rule: chain.induct) (auto split: if_splits)
  note above = this [OF assms(2) order.refl]
  show ?thesis
    unfolding wal_bodies_def
  proof (intro ballI, clarify)
    fix i h a b assume m: "(i, h) \<in> set hs" and r: "wal_range h = Some (a, b)"
    then have "(a, b) \<in> set (filter_map wal_range (map snd hs))" by (force simp: set_filter_map)
    then have "mid \<le> a" "a \<le> b" using above by auto
    moreover have "length (f i) = b - a \<and> (max mid a < min to b \<longrightarrow> sha256 D (f i) = eh_payload_hash h)"
      using assms(1) m r by (auto simp: wal_bodies_def)
    ultimately show "length (f i) = b - a \<and> (max from a < min to b \<longrightarrow> sha256 D (f i) = eh_payload_hash h)"
      using assms(3) by (simp add: max_def)
  qed
qed

lemma wal_bodies_Cons:
  assumes "wal_bodies D from to f hs" "i \<notin> fst ` set hs" "wal_range h = Some (a, b)" "length body = b - a"
    "max from a < min to b \<Longrightarrow> sha256 D body = eh_payload_hash h"
  shows "wal_bodies D from to (f(i := body)) ((i, h) # hs)"
  using assms wal_bodies_fresh [OF assms(2), of D "from" to f body] by (simp add: wal_bodies_def)

lemma slice_split:
  assumes "length xs = n" "a \<le> n" "n \<le> b"
  shows "slice a b (xs @ ys) = slice a n xs @ slice 0 (b - n) ys"
  using assms by (simp add: slice_def)

lemma slice_within: "b \<le> length xs \<Longrightarrow> slice a b (xs @ ys) = slice a b xs"
  by (simp add: slice_def)

text \<open>The bytes from a cursor to the end of a request, in a stream that starts at \<open>c\<close>.\<close>

definition wal_exact :: "deps \<Rightarrow> nat \<Rightarrow> nat \<Rightarrow> nat \<Rightarrow> (nat \<times> entry_header) list \<Rightarrow> bytes \<Rightarrow> bool" where
  "wal_exact D from to c hs part \<longleftrightarrow> (\<exists>f. wal_bodies D from to f hs \<and> part = slice (from - c) (to - c) (wal_stream f hs))"

lemma wal_exact_other: "wal_range h = None \<Longrightarrow> wal_exact D from to c hs part \<Longrightarrow> wal_exact D from to c ((i, h) # hs) part"
  unfolding wal_exact_def by (elim exE) (auto intro!: exI simp: wal_bodies_def)

lemma wal_exact_skip:
  assumes "wal_exact D from to b hs part" "i \<notin> fst ` set hs" "wal_range h = Some (c, b)" "c \<le> b" "b \<le> from"
  shows "wal_exact D from to c ((i, h) # hs) part"
proof -
  obtain f where f: "wal_bodies D from to f hs" "part = slice (from - b) (to - b) (wal_stream f hs)"
    using assms(1) by (auto simp: wal_exact_def)
  let ?f = "f(i := replicate (b - c) 0)"
  have "wal_bodies D from to ?f ((i, h) # hs)" by (rule wal_bodies_Cons [OF f(1) assms(2,3)]) (use assms(5) in auto)
  moreover have "slice (from - c) (to - c) (wal_stream ?f ((i, h) # hs)) = part"
    using assms(3-5) f(2) slice_skip [of "replicate (b - c) 0" "b - c" "from - c" "to - c" "wal_stream f hs"]
    by (simp add: wal_stream_fresh [OF assms(2)])
  ultimately show ?thesis unfolding wal_exact_def by metis
qed

lemma wal_exact_last:
  assumes "chain b (filter_map wal_range (map snd hs)) = Some d" "to \<le> b" "distinct (map fst hs)" "i \<notin> fst ` set hs"
    and "wal_range h = Some (c, b)" "length body = b - c" "sha256 D body = eh_payload_hash h"
  shows "wal_exact D from to c ((i, h) # hs) (slice (from - c) (to - c) body)"
proof -
  obtain f where "wal_bodies D from to f hs" using wal_bodies_beyond [OF assms(1-3)] by blast
  then have "wal_bodies D from to (f(i := body)) ((i, h) # hs)" by (rule wal_bodies_Cons [OF _ assms(4-7)])
  moreover have "slice (from - c) (to - c) (wal_stream (f(i := body)) ((i, h) # hs)) = slice (from - c) (to - c) body"
    using slice_within [of "to - c" body "from - c" "wal_stream f hs"] assms(2,5,6)
    by (simp add: wal_stream_fresh [OF assms(4)])
  ultimately show ?thesis unfolding wal_exact_def by metis
qed

lemma wal_exact_cross:
  assumes "wal_exact D b to b hs part" "chain b (filter_map wal_range (map snd hs)) = Some d" "i \<notin> fst ` set hs"
    and "wal_range h = Some (c, b)" "length body = b - c" "sha256 D body = eh_payload_hash h" "c \<le> from" "from \<le> b" "b \<le> to"
  shows "wal_exact D from to c ((i, h) # hs) (slice (from - c) (b - c) body @ part)"
proof -
  obtain f where f: "wal_bodies D b to f hs" "part = slice 0 (to - b) (wal_stream f hs)"
    using assms(1) by (auto simp: wal_exact_def)
  have "wal_bodies D from to f hs" using wal_bodies_narrow [OF f(1) assms(2,8)] .
  then have "wal_bodies D from to (f(i := body)) ((i, h) # hs)" by (rule wal_bodies_Cons [OF _ assms(3-6)])
  moreover have "slice (from - c) (to - c) (wal_stream (f(i := body)) ((i, h) # hs)) = slice (from - c) (b - c) body @ part"
    using slice_split [of body "b - c" "from - c" "to - c" "wal_stream f hs"] assms(4-9) f(2)
    by (simp add: wal_stream_fresh [OF assms(3)])
  ultimately show ?thesis unfolding wal_exact_def by metis
qed

text \<open>
  The loop from a cursor inside the chain: the output grows by exactly the bytes from the cursor to
  the end of the request.
\<close>

context authentic_store
begin

lemma wal_body_authentic:
  assumes "sv_payloads X = ops" "header_carries D h" "wal_body X index h g = (Inr body, g')"
  shows "sha256 D body = eh_payload_hash h \<and> length body = eh_payload_len h"
  using assms fetch_authentic [OF assms(1), of index h g body g'] by (auto simp: wal_body_def header_carries_def split: option.splits)

lemma loop_exact:
  assumes X: "sv_payloads X = ops" and "read_wal_loop X to hs cursor out g = (Inr res, g')"
    and "chain c (filter_map wal_range (map snd hs)) = Some d" "c \<le> cursor" "cursor < to"
    and "distinct (map fst hs)" "\<forall>(i, h) \<in> set hs. header_ok h \<and> header_carries D h"
  shows "\<exists>part. res = out @ part \<and> wal_exact D cursor to c hs part \<and> to \<le> d"
  using assms(2-)
proof (induction hs arbitrary: c cursor out g)
  case (Cons x hs)
  obtain i h where x: "x = (i, h)" by (cases x)
  have fresh: "i \<notin> fst ` set hs" and dist: "distinct (map fst hs)" using Cons.prems(5) x by auto
  have ok: "header_ok h" "header_carries D h" "\<forall>(i, h) \<in> set hs. header_ok h \<and> header_carries D h" using Cons.prems(6) x by auto
  show ?case
  proof (cases "wal_range h")
    case None
    have "read_wal_loop X to hs cursor out g = (Inr res, g')"
      using None Cons.prems(1) by (simp add: x wal_range_def split: entry_metadata.splits)
    then show ?thesis
      using Cons.IH [OF _ _ Cons.prems(3,4) dist ok(3)] Cons.prems(2) None wal_exact_other [OF None] by (fastforce simp: x)
  next
    case (Some r)
    obtain b where r: "wal_range h = Some (c, b)" and step: "c \<le> b" "chain b (filter_map wal_range (map snd hs)) = Some d"
      using Cons.prems(2) Some x by (cases r) (auto split: if_splits)
    have m: "eh_metadata h = MetaWal c b" using r by (simp add: wal_range_Some)
    show ?thesis
    proof (cases "b \<le> cursor")
      case True
      then have "read_wal_loop X to hs cursor out g = (Inr res, g')" using Cons.prems(1) by (simp add: x m)
      then show ?thesis
        using Cons.IH [OF _ step(2) True Cons.prems(4) dist ok(3)] wal_exact_skip [OF _ fresh r step(1) True] unfolding x by blast
    next
      case False
      obtain body g1 part where body: "wal_body X i h g = (Inr body, g1)"
          and part: "get_range (cursor - c) (min to b - c) body = Some part"
          and rest: "(if min to b = to then return (Inr (out @ part)) else read_wal_loop X to hs (min to b) (out @ part)) g1 = (Inr res, g')"
        using Cons.prems(1,3,4) False by (auto simp: x m)
      have auth: "length body = b - c" "sha256 D body = eh_payload_hash h"
        using wal_body_authentic [OF X ok(2) body] ok(1) m by (auto simp: header_ok_def)
      have p: "part = slice (cursor - c) (min to b - c) body" using part by (simp add: get_range_def split: if_splits)
      show ?thesis
      proof (cases "to \<le> b")
        case True
        then show ?thesis
          using wal_exact_last [OF step(2) True dist fresh r auth, of cursor] rest p chain_mono [OF step(2)] unfolding x
          by (auto simp: min_def)
      next
        case False
        then have "read_wal_loop X to hs b (out @ part) g1 = (Inr res, g')" using rest by (simp add: min_def split: if_splits)
        then obtain tail where tail: "res = (out @ part) @ tail" "wal_exact D b to b hs tail" "to \<le> d"
          using Cons.IH [OF _ step(2) order.refl _ dist ok(3)] False by (metis not_le)
        have "wal_exact D cursor to c ((i, h) # hs) (part @ tail)"
          using wal_exact_cross [OF tail(2) step(2) fresh r auth Cons.prems(3)] p False \<open>\<not> b \<le> cursor\<close> by (simp add: min_def)
        then show ?thesis using tail(1,3) unfolding x by (intro exI [of _ "part @ tail"]) simp
      qed
    qed
  qed
qed (simp add: return_def)

end

subsection \<open>The invariant of a group\<close>

text \<open>What OpenRaft guarantees: entries come in log order, and their headers come from the builders.\<close>

definition command_ok :: "deps \<Rightarrow> entry_payload \<Rightarrow> bool" where
  "command_ok D payload = (case payload of Normal (Commit h) \<Rightarrow> header_ok h \<and> header_carries D h | _ \<Rightarrow> True)"

fun in_order :: "deps \<Rightarrow> nat \<Rightarrow> log_entry list \<Rightarrow> nat \<Rightarrow> bool" where
  "in_order D n [] n' = (n \<le> n')"
| "in_order D n (e # es) n' =
     (n < li_index (le_log_id e) \<and> command_ok D (le_payload e) \<and> in_order D (li_index (le_log_id e)) es n')"

definition raft_ok :: "deps \<Rightarrow> 'r raft \<Rightarrow> (nat \<Rightarrow> 'r \<Rightarrow> bool) \<Rightarrow> bool" where
  "raft_ok D R I \<longleftrightarrow> (\<forall>n r. I n r \<longrightarrow>
     (\<forall>command. command_ok D (Normal command) \<longrightarrow>
       (case rf_client_write R command r of (es, outcome, r') \<Rightarrow>
         \<exists>n'. in_order D n es n' \<and>
           (case outcome of Inl _ \<Rightarrow> I n' r' | Inr lid \<Rightarrow> n' < li_index lid \<and> I (li_index lid) r'))) \<and>
     (case rf_ensure_linearizable R r of (es, outcome, r') \<Rightarrow> \<exists>n'. in_order D n es n' \<and> I n' r'))"

definition carries_all :: "deps \<Rightarrow> state_machine \<Rightarrow> bool" where
  "carries_all D s \<longleftrightarrow> (\<forall>h \<in> set (bt_vals (sm_committed s)). header_carries D h)"

definition applied_up_to :: "nat \<Rightarrow> state_machine \<Rightarrow> bool" where
  "applied_up_to n s \<longleftrightarrow> (sm_last_applied s \<noteq> None \<longrightarrow> applied_index s \<le> n)"

definition group_wf :: "deps \<Rightarrow> (nat \<Rightarrow> 'r \<Rightarrow> bool) \<Rightarrow> ('p, 'r) consensus_group \<Rightarrow> bool" where
  "group_wf D I g \<longleftrightarrow> sm_wf (cg_machine g) \<and> carries_all D (cg_machine g) \<and>
     (\<exists>n. I n (cg_raft g) \<and> applied_up_to n (cg_machine g))"

lemma apply_entry_applied: "sm_last_applied (fst (apply_entry D e s)) = Some (le_log_id e)"
proof (rule apply_entry_cases [of D e s])
  fix h assume "fst (apply_entry D e s) = fst (apply_commit D (le_log_id e) h (touch (le_log_id e) s))"
  then show ?thesis
    by (cases rule: apply_commit_cases [of D "le_log_id e" h "touch (le_log_id e) s"]) (auto dest: apply_metadata_frame)
qed (auto simp: compact_checkpointed_wal_history_def)

lemma drop_indices_vals: "set (bt_vals (sm_committed (drop_indices ks s))) \<subseteq> set (bt_vals (sm_committed s))"
  by (auto simp: drop_indices_def fold_bt_remove bt_vals_def)

lemma apply_entry_carries:
  assumes "sm_wf s" "entry_ok e s" "carries_all D s" "command_ok D (le_payload e)"
  shows "carries_all D (fst (apply_entry D e s))"
proof (rule apply_entry_cases [of D e s])
  fix h assume h: "le_payload e = Normal (Commit h)"
    and a: "fst (apply_entry D e s) = fst (apply_commit D (le_log_id e) h (touch (le_log_id e) s))"
  have new: "\<forall>i \<in> set (bt_keys (sm_committed (touch (le_log_id e) s))). i < li_index (le_log_id e)" using touch_wf(2) [OF assms(1,2)] by simp
  show ?thesis
  proof (cases rule: apply_commit_cases [of D "le_log_id e" h "touch (le_log_id e) s"])
    case (committed s1 w c d)
    have "sm_committed (install_writer h s1) = sm_committed s" using apply_metadata_frame [OF committed(3)] by simp
    then show ?thesis
      using record_commit_committed [of "install_writer h s1" "le_log_id e"] new a committed(4) assms(3,4) h
      by (auto simp: carries_all_def bt_vals_def command_ok_def)
  qed (use a assms(3) in \<open>simp add: carries_all_def\<close>)
next
  fix t assume "fst (apply_entry D e s) = compact_checkpointed_wal_history t (touch (le_log_id e) s)"
  then show ?thesis
    using drop_indices_vals assms(3) unfolding carries_all_def compact_checkpointed_wal_history_def by fastforce
qed (use assms(3) in \<open>simp_all add: carries_all_def\<close>)

lemma entry_next:
  assumes "applied_up_to n s" "n < li_index (le_log_id e)" "command_ok D (le_payload e)"
  shows "entry_ok e s" "applied_up_to (li_index (le_log_id e)) (fst (apply_entry D e s))"
  using assms apply_entry_applied [of D e s]
  by (auto simp: applied_up_to_def entry_ok_def command_ok_def applied_index_def split: entry_payload.splits raft_command.splits)

text \<open>What a replica keeps while it applies entries in order.\<close>

definition log_step :: "deps \<Rightarrow> nat \<Rightarrow> state_machine \<Rightarrow> nat \<Rightarrow> state_machine \<Rightarrow> bool" where
  "log_step D n s n' s' \<longleftrightarrow> (sm_wf s \<and> carries_all D s \<and> applied_up_to n s \<longrightarrow>
     sm_wf s' \<and> carries_all D s' \<and> applied_up_to n' s' \<and> sm_ext s s')"

lemma log_step_trans: "log_step D n s n' s' \<Longrightarrow> log_step D n' s' n'' s'' \<Longrightarrow> log_step D n s n'' s''"
  unfolding log_step_def using sm.ext_trans by blast

lemma log_step_entry:
  "n < li_index (le_log_id e) \<Longrightarrow> command_ok D (le_payload e) \<Longrightarrow>
     log_step D n s (li_index (le_log_id e)) (fst (apply_entry D e s))"
  unfolding log_step_def using entry_next apply_entry_wf apply_entry_ext apply_entry_carries by blast

lemma log_step_later: "n \<le> n' \<Longrightarrow> log_step D n s n' s"
  by (auto simp: log_step_def applied_up_to_def intro: sm.ext_refl)

lemma in_order_le: "in_order D n es n' \<Longrightarrow> n \<le> n'"
  by (induction D n es n' rule: in_order.induct) auto

lemma log_step_entries: "in_order D n es n' \<Longrightarrow> log_step D n s n' (fst (apply_entries D es s))"
proof (induction D n es n' arbitrary: s rule: in_order.induct)
  case (1 D n n')
  then show ?case by (simp add: log_step_later)
next
  case (2 D n e es n')
  let ?n = "li_index (le_log_id e)"
  have step: "log_step D n s ?n (fst (apply_entry D e s))" and le: "?n \<le> n'"
    using 2 log_step_entry in_order_le by auto
  obtain s1 r where e: "apply_entry D e s = (s1, r)" by fastforce
  show ?case
  proof (cases r)
    case (Inl err)
    then show ?thesis using log_step_trans [OF step log_step_later [OF le]] e by simp
  next
    case (Inr resp)
    have "fst (apply_entries D (e # es) s) = fst (apply_entries D es s1)" using e Inr by (simp split: prod.splits sum.splits)
    moreover have "log_step D ?n s1 n' (fst (apply_entries D es s1))" using 2 by simp
    ultimately show ?thesis using log_step_trans step e by simp
  qed
qed

subsection \<open>Operations that keep the invariant\<close>

definition keeps :: "deps \<Rightarrow> (nat \<Rightarrow> 'r \<Rightarrow> bool) \<Rightarrow> ('p, 'r, 'a) op \<Rightarrow> bool" where
  "keeps D I m \<longleftrightarrow> (\<forall>g. group_wf D I g \<longrightarrow> group_wf D I (snd (m g)) \<and> sm_ext (cg_machine g) (cg_machine (snd (m g))))"

named_theorems keeps_intros "operations that keep the invariant of a group"

lemma keeps_same_log: "(\<And>g. same_log g (snd (m g))) \<Longrightarrow> keeps D I m"
  by (simp add: keeps_def same_log_def group_wf_def sm.ext_refl)

lemma keeps_await [keeps_intros]:
  fixes m :: "('p, 'r, 'a) op" and f :: "'a \<Rightarrow> ('p, 'r, 'b) op"
  assumes "keeps D I m" "\<And>a. keeps D I (f a)"
  shows "keeps D I (await m f)"
  unfolding keeps_def
proof (intro allI impI)
  fix g :: "('p, 'r) consensus_group" assume wf: "group_wf D I g"
  obtain r g1 where m: "m g = (r, g1)" by fastforce
  then have one: "group_wf D I g1" "sm_ext (cg_machine g) (cg_machine g1)" using assms(1) wf by (auto simp: keeps_def)
  show "group_wf D I (snd (await m f g)) \<and> sm_ext (cg_machine g) (cg_machine (snd (await m f g)))"
    using one assms(2) m sm.ext_trans by (cases r) (auto simp: await_def keeps_def)
qed

lemma keeps_if [keeps_intros]: "keeps D I m \<Longrightarrow> keeps D I m' \<Longrightarrow> keeps D I (if b then m else m')"
  by simp

lemma keeps_return [keeps_intros]: "keeps D I (return r)"
  by (rule keeps_same_log) simp

lemma keeps_gets [keeps_intros]: "keeps D I (gets f)"
  by (rule keeps_same_log) simp

lemma keeps_on_payloads [keeps_intros]: "keeps D I (on_payloads f)"
  by (rule keeps_same_log) simp

lemma keeps_resolve [keeps_intros]: "keeps D I resolve_payloads"
  by (rule keeps_same_log) simp

lemma keeps_fetch [keeps_intros]: "keeps D I (fetch_body X i h)"
  by (rule keeps_same_log) simp

lemma keeps_after_fence [keeps_intros]: "keeps D I (read_wal_after_fence X a b m)"
  by (rule keeps_same_log) simp

lemma keeps_verify [keeps_intros]: "keeps D I (verify_committed_prefix X)"
  by (rule keeps_same_log) (simp add: verify_committed_prefix_def)

lemma keeps_release [keeps_intros]: "keeps D I (release_checkpointed X)"
  by (rule keeps_same_log) (simp add: release_checkpointed_def same_log_def split: option.splits sum.splits prod.splits)

lemma group_wf_step:
  assumes "group_wf D I g" "I n (cg_raft g)" "applied_up_to n (cg_machine g)"
    and "log_step D n (cg_machine g) m s" "I m r"
  shows "group_wf D I (g\<lparr>cg_raft := r, cg_machine := s\<rparr>) \<and> sm_ext (cg_machine g) s"
  using assms by (auto simp: group_wf_def log_step_def)

lemma snd_advance: "snd (advance D es g) = g\<lparr>cg_machine := fst (apply_entries D es (cg_machine g))\<rparr>"
  by (simp add: advance_def split: prod.splits sum.splits)

lemma snd_apply_own:
  "snd (apply_own D lid c g) = g\<lparr>cg_machine := fst (apply_entry D \<lparr> le_log_id = lid, le_payload = Normal c \<rparr> (cg_machine g))\<rparr>"
  by (simp add: apply_own_def split: prod.splits sum.splits)

lemma keeps_client_write:
  fixes X :: "('p, 'r) services"
  assumes R: "raft_ok D (sv_raft X) I" "sv_deps X = D" and c: "command_ok D (Normal c)"
  shows "keeps D I (client_write X on_error c)"
  unfolding keeps_def
proof (intro allI impI)
  fix g :: "('p, 'r) consensus_group" assume wf: "group_wf D I g"
  then obtain n where n: "I n (cg_raft g)" "applied_up_to n (cg_machine g)" by (auto simp: group_wf_def)
  obtain es out r where w: "rf_client_write (sv_raft X) c (cg_raft g) = (es, out, r)" by (metis prod_cases3)
  obtain n' where n': "in_order D n es n'" "case out of Inl _ \<Rightarrow> I n' r | Inr lid \<Rightarrow> n' < li_index lid \<and> I (li_index lid) r"
    using R(1) n(1) c w by (fastforce simp: raft_ok_def)
  let ?s = "fst (apply_entries D es (cg_machine g))"
  have step: "log_step D n (cg_machine g) n' ?s" by (rule log_step_entries [OF n'(1)])
  obtain u g1 where a: "advance D es (g\<lparr>cg_raft := r\<rparr>) = (u, g1)" by fastforce
  have g1: "g1 = g\<lparr>cg_raft := r, cg_machine := ?s\<rparr>" using snd_advance [of D es "g\<lparr>cg_raft := r\<rparr>"] a by simp
  have "\<exists>m s. snd (client_write X on_error c g) = g\<lparr>cg_raft := r, cg_machine := s\<rparr> \<and> log_step D n (cg_machine g) m s \<and> I m r"
  proof (cases out)
    case (Inl e)
    have "snd (client_write X on_error c g) = g1"
      using a w Inl R(2) by (cases u) (simp_all add: client_write_def await_def return_def)
    then show ?thesis using g1 step n'(2) Inl by auto
  next
    case (Inr lid)
    let ?e = "\<lparr> le_log_id = lid, le_payload = Normal c \<rparr>"
    have own: "log_step D n' ?s (li_index lid) (fst (apply_entry D ?e ?s))"
      using log_step_entry [of n' ?e D ?s] n'(2) Inr c by simp
    show ?thesis
    proof (cases u)
      case (Inl e)
      then have "snd (client_write X on_error c g) = g1"
        using a w R(2) by (simp add: client_write_def await_def)
      then show ?thesis using g1 log_step_trans [OF step log_step_later [of n' "li_index lid"]] n'(2) Inr by auto
    next
      case (Inr v)
      then have "snd (client_write X on_error c g) = snd (apply_own D lid c g1)"
        using a w R(2) \<open>out = Inr lid\<close> by (simp add: client_write_def await_def return_def)
      then show ?thesis using g1 log_step_trans [OF step own] n'(2) \<open>out = Inr lid\<close> by (auto simp: snd_apply_own)
    qed
  qed
  then show "group_wf D I (snd (client_write X on_error c g)) \<and>
      sm_ext (cg_machine g) (cg_machine (snd (client_write X on_error c g)))"
    using group_wf_step [OF wf n] by auto
qed

lemma keeps_linearizable:
  fixes X :: "('p, 'r) services"
  assumes "raft_ok D (sv_raft X) I" "sv_deps X = D"
  shows "keeps D I (ensure_linearizable X)"
  unfolding keeps_def
proof (intro allI impI)
  fix g :: "('p, 'r) consensus_group" assume wf: "group_wf D I g"
  then obtain n where n: "I n (cg_raft g)" "applied_up_to n (cg_machine g)" by (auto simp: group_wf_def)
  obtain es out r where w: "rf_ensure_linearizable (sv_raft X) (cg_raft g) = (es, out, r)" by (metis prod_cases3)
  obtain n' where n': "in_order D n es n'" "I n' r" using assms(1) n(1) w by (fastforce simp: raft_ok_def)
  have "snd (ensure_linearizable X g) = snd (advance D es (g\<lparr>cg_raft := r\<rparr>))"
    using w assms(2) by (simp add: ensure_linearizable_def await_def return_def split: prod.splits sum.splits)
  then have "snd (ensure_linearizable X g) = g\<lparr>cg_raft := r, cg_machine := fst (apply_entries D es (cg_machine g))\<rparr>"
    by (simp add: snd_advance)
  then show "group_wf D I (snd (ensure_linearizable X g)) \<and> sm_ext (cg_machine g) (cg_machine (snd (ensure_linearizable X g)))"
    using group_wf_step [OF wf n log_step_entries [OF n'(1)] n'(2)] by simp
qed

text \<open>Decorations of a header add metadata that fits its kind.\<close>

definition decorates :: "deps \<Rightarrow> (entry_header \<Rightarrow> certificate_error + entry_header) \<Rightarrow> bool" where
  "decorates D f \<longleftrightarrow> (\<forall>h h'. header_ok h \<longrightarrow> header_carries D h \<longrightarrow> f h = Inr h' \<longrightarrow> header_ok h' \<and> header_carries D h')"

lemma decorations:
  shows "decorates D Inr" "decorates D (with_wal_range a b)" "decorates D (with_wal_start a)"
    "decorates D (with_wal_archive_bucket bucket)" "decorates D (with_catalog_batch batch)"
    "decorates D (with_catalog_checkpoint i)" "decorates D (with_warehouse_route w r)"
    "segment_from_key D key = Inr seg \<Longrightarrow> decorates D (with_archive_segment D seg)"
  by (auto simp: decorates_def header_ok_def header_carries_def with_wal_range_def with_wal_start_def with_wal_archive_bucket_def
      with_catalog_batch_def with_catalog_checkpoint_def with_warehouse_route_def with_archive_segment_def
      split: if_splits dest: segment_from_key_bounds)

lemma base_header_ok:
  assumes "base_header X request kind mode body epoch holders generation g = (Inr (base, staged), g')" "sv_deps X = D"
  shows "header_ok base \<and> header_carries D base"
  using assms
  by (auto simp: base_header_def header_ok_def header_carries_def header_new_def header_new_inline_def split: if_splits)

lemma keeps_result:
  assumes "keeps D I m" "\<And>a g g'. m g = (Inr a, g') \<Longrightarrow> P a" "\<And>a. P a \<Longrightarrow> keeps D I (f a)"
  shows "keeps D I (await m f)"
proof -
  have "await m f g = await m (\<lambda>a. if P a then f a else return (Inl InvalidIdentity)) g" for g
    using assms(2) by (cases "m g"; cases "fst (m g)") (auto simp: await_def)
  then have eq: "await m f = await m (\<lambda>a. if P a then f a else return (Inl InvalidIdentity))" by (rule ext)
  show ?thesis unfolding eq by (rule keeps_await [OF assms(1)]) (simp add: assms(3) keeps_return)
qed

lemma keeps_diag: "(\<And>x. keeps D I (m x)) \<Longrightarrow> keeps D I (\<lambda>g. m g g)"
  by (simp add: keeps_def)

lemma keeps_base_header [keeps_intros]: "keeps D I (base_header X request kind mode body epoch holders generation)"
proof (rule keeps_same_log)
  show "same_log g (snd (base_header X request kind mode body epoch holders generation g))" for g
    by (auto simp: base_header_def intro!: same_log_await)
qed

lemma keeps_seal_committed [keeps_intros]: "keeps D I (seal_committed X request generation resp staged)"
proof (rule keeps_same_log)
  show "same_log g (snd (seal_committed X request generation resp staged g))" for g
    by (auto simp: seal_committed_def split: option.splits intro!: same_log_await)
qed

lemma keeps_commit_header:
  fixes X :: "('p, 'r) services"
  assumes "raft_ok D (sv_raft X) I" "sv_deps X = D" "decorates D deco"
  shows "keeps D I (commit_header X request kind mode body epoch holders deco)"
proof -
  have "keeps D I (await (base_header X request kind mode body epoch holders generation) (\<lambda>(base, staged).
      await (return (map_err (\<lambda>_. InvalidCertificate) (deco base))) (\<lambda>header.
      await (client_write X (client_write_error (sv_raft X)) (Commit header)) (\<lambda>resp.
      await (seal_committed X request generation resp staged) (\<lambda>_.
      return (outcome_result resp))))))" for generation
  proof (rule keeps_result [where P = "\<lambda>(base, staged). header_ok base \<and> header_carries D base"], rule keeps_base_header)
    show "case a of (base, staged) \<Rightarrow> header_ok base \<and> header_carries D base"
      if "base_header X request kind mode body epoch holders generation g = (Inr a, g')" for a g g'
      using base_header_ok that assms(2) by (cases a) fastforce
    fix a :: "entry_header \<times> (hash \<times> payload_certificate) option" assume a: "case a of (base, staged) \<Rightarrow> header_ok base \<and> header_carries D base"
    obtain base staged where b: "a = (base, staged)" by (cases a)
    have "keeps D I (await (return (map_err (\<lambda>_. InvalidCertificate) (deco base))) (\<lambda>header.
      await (client_write X (client_write_error (sv_raft X)) (Commit header)) (\<lambda>resp.
      await (seal_committed X request generation resp staged) (\<lambda>_. return (outcome_result resp)))))"
    proof (rule keeps_result [where P = "\<lambda>h. header_ok h \<and> header_carries D h"], rule keeps_return)
      show "header_ok h \<and> header_carries D h" if "return (map_err (\<lambda>_. InvalidCertificate) (deco base)) g = (Inr h, g')"
        for h and g g' :: "('p, 'r) consensus_group"
        using that a b assms(3) by (auto simp: decorates_def)
    qed (use assms(1,2) in \<open>intro keeps_intros keeps_client_write; simp add: command_ok_def\<close>)
    then show "keeps D I (case a of (base, staged) \<Rightarrow>
      await (return (map_err (\<lambda>_. InvalidCertificate) (deco base))) (\<lambda>header.
      await (client_write X (client_write_error (sv_raft X)) (Commit header)) (\<lambda>resp.
      await (seal_committed X request generation resp staged) (\<lambda>_. return (outcome_result resp)))))"
      by (simp add: b)
  qed
  then show ?thesis unfolding commit_header_def Let_def by (rule keeps_diag)
qed

lemma keeps_fenced:
  fixes X :: "('p, 'r) services"
  assumes "raft_ok D (sv_raft X) I" "sv_deps X = D"
  shows "keeps D I (fenced X f)"
  unfolding fenced_def read_fence_def by (intro keeps_intros keeps_linearizable [OF assms])

lemma keeps_archive_checkpoint:
  fixes X :: "('p, 'r) services"
  assumes "raft_ok D (sv_raft X) I" "sv_deps X = D"
  shows "keeps D I (archive_checkpoint X request end_lsn object holders)"
  unfolding archive_checkpoint_def
proof (rule keeps_result [where P = "\<lambda>seg. segment_from_key D object = Inr seg"], rule keeps_return)
  show "segment_from_key D object = Inr seg"
    if "return (map_err (\<lambda>_. GInvalidArchiveCheckpoint) (segment_from_key (sv_deps X) object)) g = (Inr seg, g')"
    for seg and g g' :: "('p, 'r) consensus_group"
    using that assms(2) by simp
qed (use assms in \<open>intro keeps_intros keeps_commit_header keeps_client_write; simp add: decorations command_ok_def\<close>)

lemma keeps_plan:
  fixes X :: "('p, 'r) services"
  assumes "raft_ok D (sv_raft X) I" "sv_deps X = D"
  shows "keeps D I (plan_wal_read X from to m)"
  unfolding plan_wal_read_def
  by (intro keeps_if keeps_return keeps_await keeps_linearizable [OF assms] keeps_same_log)
    (auto simp: Let_def intro!: same_log_await)

lemma keeps_read_wal:
  fixes X :: "('p, 'r) services"
  assumes "raft_ok D (sv_raft X) I" "sv_deps X = D"
  shows "keeps D I (read_wal X from to m)"
  unfolding read_wal_def by (intro keeps_intros keeps_linearizable [OF assms])

lemma keeps_wal_read_response:
  fixes X :: "('p, 'r) services"
  assumes "raft_ok D (sv_raft X) I" "sv_deps X = D"
  shows "keeps D I (wal_read_response X from to m)"
  unfolding keeps_def
proof (intro allI impI)
  fix g :: "('p, 'r) consensus_group" assume wf: "group_wf D I g"
  obtain r g1 where r: "read_wal X from to m g = (r, g1)" by fastforce
  have one: "group_wf D I g1" "sm_ext (cg_machine g) (cg_machine g1)"
    using keeps_read_wal [OF assms, of "from" to m] wf r unfolding keeps_def by (metis snd_conv)+
  have "keeps D I (respond RespArchivedWalReadPlan (plan_wal_read X from to m))"
    unfolding respond_def by (intro keeps_intros keeps_plan [OF assms])
  then show "group_wf D I (snd (wal_read_response X from to m g)) \<and>
      sm_ext (cg_machine g) (cg_machine (snd (wal_read_response X from to m g)))"
    using one r sm.ext_trans by (cases r) (auto simp: wal_read_response_def keeps_def)
qed

lemmas request_ops = respond_def bind_wal_archive_def open_timeline_def append_wal_mode_def release_writer_def
  commit_catalog_def commit_def register_warehouse_def catalog_table_def catalog_record_def catalog_records_of_def
  export_catalog_def catalog_checkpoint_def fenced_archive_state_def

lemma keeps_execute:
  fixes X :: "('p, 'r) services"
  assumes "raft_ok D (sv_raft X) I" "sv_deps X = D"
  shows "keeps D I (execute X request)"
proof -
  note commit = keeps_commit_header [OF assms] and fence = keeps_fenced [OF assms] keeps_linearizable [OF assms]
  have acquire: "keeps D I (group_acquire_writer X r w hs)" for r w hs
    unfolding group_acquire_writer_def by (rule keeps_diag [OF commit]) (rule decorations)
  show ?thesis
    by (cases request) (simp_all add: request_ops keeps_intros commit fence acquire decorations
      keeps_archive_checkpoint [OF assms] keeps_wal_read_response [OF assms] split: prod.splits)
qed

lemma keeps_repair:
  fixes X :: "('p, 'r) services"
  assumes "raft_ok D (sv_raft X) I" "sv_deps X = D"
  shows "keeps D I (repair_committed X voters)"
proof -
  have one: "keeps D I (repair_header X voters i h)" for i h
    unfolding repair_header_def case_prod_beta
    by (intro keeps_intros keeps_client_write [OF assms]) (simp add: command_ok_def)
  have "keeps D I (repair_headers X voters hs)" for hs
    by (induction hs) (auto simp: keeps_intros one)
  then show ?thesis unfolding repair_committed_def by (rule keeps_diag)
qed

subsection \<open>The stores are authentic\<close>

lemma run_call_Inr:
  "run_call f p = (r, p') \<longleftrightarrow>
     (\<exists>s. f (sn_calls p 0) (sn_state p) = (r, s) \<and> p' = \<lparr> sn_state = s, sn_calls = (\<lambda>i. sn_calls p (Suc i)) \<rparr>)"
  by (auto simp: run_call_def split: prod.splits)

interpretation dist_store: authentic_store D "distributed_ops D T" for D :: deps and T :: "('n, 'f) transport"
  by unfold_locales (auto simp: distributed_ops_def run_call_Inr dest: dist_reconstruct_sound)

lemma set_reconstruct_sound:
  assumes "set_reconstruct D env r ps = Inr body"
  shows "sha256 D body = rc_hash r \<and> length body = rc_length r"
proof -
  let ?load = "\<lambda>node. set_load D env ps (rc_hash r) (rc_group r) (rc_generation r) (rc_request r) node"
  obtain records where rec: "map (\<lambda>node. and_then (ok_or UnknownHolder (map_of (ps_replicas ps) node)) (\<lambda>dir.
        map_err unavailable_if_absent (file_load D env node (rc_hash r) (rc_group r) (rc_generation r) (rc_request r) dir)))
      (pc_holders (rc_certificate r)) = map Inr records"
      and len: "\<forall>x \<in> set records. rep_length x = rc_length r"
      and local: "reconstruct_local D env (rc_hash r) (rc_group r) (rc_generation r) (rc_request r) (rc_certificate r) ps = Inr body"
    using assms by (auto simp: set_reconstruct_def sequence_Inr list_ex_iff split: if_splits)
  have loaded: "?load node = Inr x \<Longrightarrow> node \<in> set (pc_holders (rc_certificate r)) \<Longrightarrow> rep_length x = rc_length r" for node x
  proof -
    assume x: "?load node = Inr x" and n: "node \<in> set (pc_holders (rc_certificate r))"
    have "Inr x \<in> set (map (\<lambda>node. and_then (ok_or UnknownHolder (map_of (ps_replicas ps) node)) (\<lambda>dir.
        map_err unavailable_if_absent (file_load D env node (rc_hash r) (rc_group r) (rc_generation r) (rc_request r) dir)))
      (pc_holders (rc_certificate r)))"
      using x n by (force simp: set_load_def image_iff)
    then have "Inr x \<in> set (map Inr records :: (payload_error + payload_representation) list)" unfolding rec .
    then show ?thesis using len by auto
  qed
  obtain first where f: "first \<in> set (filter_map (\<lambda>node. ok (?load node)) (pc_holders (rc_certificate r)))"
      "length body = rep_length first" "sha256 D body = rc_hash r"
    using local by (auto simp: reconstruct_local_def reconstruct_from_def Let_def split: list.splits if_splits)
  then have "rep_length first = rc_length r" using loaded by (auto simp: set_filter_map)
  then show ?thesis using f by simp
qed

interpretation file_set: authentic_store D "file_set_ops D" for D
  by unfold_locales (auto simp: file_set_ops_def run_call_Inr dest: set_reconstruct_sound)

subsection \<open>Reads of the WAL\<close>

text \<open>The bytes \<open>from\<close> to \<open>to\<close> of the WAL that a replica has committed and still retains.\<close>

definition retained_range :: "deps \<Rightarrow> state_machine \<Rightarrow> nat \<Rightarrow> nat \<Rightarrow> bytes \<Rightarrow> bool" where
  "retained_range D s from to part \<longleftrightarrow>
     (\<exists>base \<le> from. chain base (wal_ranges s) = Some (sm_wal_end s) \<and> to \<le> sm_wal_end s \<and>
        wal_exact D from to base (sm_committed s) part) \<and> length part = to - from"

lemma wal_stream_length:
  assumes "chain c (filter_map wal_range (map snd hs)) = Some d" "wal_bodies D from to f hs"
  shows "length (wal_stream f hs) = d - c"
  using assms
proof (induction hs arbitrary: c)
  case (Cons x hs)
  obtain i h where x: "x = (i, h)" by (cases x)
  have rest: "wal_bodies D from to f hs" using Cons.prems(2) by (simp add: wal_bodies_def)
  show ?case
  proof (cases "wal_range h")
    case None
    then show ?thesis using Cons.IH [OF _ rest] Cons.prems(1) by (simp add: x)
  next
    case (Some r)
    obtain b where r: "wal_range h = Some (c, b)" and step: "c \<le> b" "chain b (filter_map wal_range (map snd hs)) = Some d"
      using Cons.prems(1) Some x by (cases r) (auto split: if_splits)
    have "length (f i) = b - c" using Cons.prems(2) r x by (simp add: wal_bodies_def)
    then show ?thesis using Cons.IH [OF step(2) rest] step(1) chain_mono [OF step(2)] r by (simp add: x)
  qed
qed simp

lemma wal_exact_length:
  assumes "chain c (filter_map wal_range (map snd hs)) = Some d" "wal_exact D from to c hs part" "c \<le> from" "to \<le> d"
  shows "length part = to - from"
  using assms wal_stream_length [OF assms(1)] by (auto simp: wal_exact_def slice_def)

lemma sm_wf_chain:
  assumes "sm_wf s"
  obtains base where "base \<le> sm_archive_lsn s" "chain base (filter_map wal_range (map snd (sm_committed s))) = Some (sm_wal_end s)"
  using assms by (auto simp: sm_wf_def wal_wf_def wal_ranges_def bt_vals_def)

context authentic_store
begin

lemma after_fence_exact:
  assumes X: "sv_payloads X = ops" and wf: "sm_wf (cg_machine g)" "carries_all D (cg_machine g)"
    and read: "read_wal_after_fence X from to m g = (Inr part, g')" and range: "from < to"
  shows "retained_range D (cg_machine g') from to part"
proof -
  let ?s = "cg_machine g" and ?hs = "sm_committed (cg_machine g)"
  obtain base where base: "chain base (filter_map wal_range (map snd ?hs)) = Some (sm_wal_end ?s)" using sm_wf_chain [OF wf(1)] by blast
  have loop: "read_wal_loop X to ?hs from [] g = (Inr part, g')"
    using read by (simp add: read_wal_after_fence_def split: if_splits)
  have le: "base \<le> from" using loop_below [OF base, of "from" X to "[]" g] loop by fastforce
  have "distinct (map fst ?hs)" "\<forall>(i, h) \<in> set ?hs. header_ok h \<and> header_carries D h"
    using wf by (auto simp: sm_wf_def index_wf_def carries_all_def bt_vals_def sorted_keys_def bt_keys_def strict_sorted_iff)
  then have ex: "wal_exact D from to base ?hs part" "to \<le> sm_wal_end ?s" using loop_exact [OF X loop base le range] by auto
  have "cg_machine g' = ?s" using same_log_after_fence [of g X "from" to m] read by (simp add: same_log_def)
  then show ?thesis
    using base le ex wal_exact_length [OF base ex(1) le ex(2)] by (auto simp: retained_range_def wal_ranges_def bt_vals_def)
qed

lemma read_wal_exact:
  assumes X: "sv_payloads X = ops" "sv_deps X = D" "raft_ok D (sv_raft X) I" and wf: "group_wf D I g"
    and read: "read_wal X from to m g = (Inr part, g')"
  shows "from < to \<and> retained_range D (cg_machine g') from to part"
proof -
  obtain u g1 where r: "from < to" "ensure_linearizable X g = (Inr u, g1)" "read_wal_after_fence X from to m g1 = (Inr part, g')"
    using read by (auto simp: read_wal_def split: if_splits)
  have "group_wf D I g1" using keeps_linearizable [OF X(3,2)] wf r(2) unfolding keeps_def by (metis snd_conv)
  then show ?thesis using after_fence_exact [OF X(1) _ _ r(3,1)] r(1) by (auto simp: group_wf_def)
qed

end

end
