(* ===== verification/Group_Commit.thy ===== *)
theory Group_Commit
  imports Group_Reads
begin

section \<open>A committed body is read back\<close>

text \<open>
  The path of one body through the group: it is staged, its header is committed and applied, the
  payload is sealed, and a later fenced read fetches it. The locale \<open>durable_store\<close> is what this
  path needs of the payload store beyond authenticity.
\<close>

subsection \<open>A committed header stays\<close>

definition entry_held :: "nat \<Rightarrow> entry_header \<Rightarrow> log_id \<Rightarrow> state_machine \<Rightarrow> bool" where
  "entry_held i h lid s \<longleftrightarrow>
     map_of (sm_committed s) i = Some h \<and> map_of (sm_committed_log_ids s) i = Some lid \<and> map_of (sm_repairs s) i = None"

lemma fold_bt_remove_other: "i \<notin> set ks \<Longrightarrow> map_of (fold bt_remove ks m) i = map_of m i"
  unfolding fold_bt_remove by (induction m) (auto split: if_splits)

lemma fold_bt_remove_None: "map_of m i = None \<Longrightarrow> map_of (fold bt_remove ks m) i = None"
  unfolding fold_bt_remove by (induction m) (auto split: if_splits)

lemma release_keeps_held:
  assumes "entry_held i h lid s" "index_wf s" "\<forall>a b. eh_metadata h \<noteq> MetaWal a b"
  shows "entry_held i h lid (compact_checkpointed_wal_history t s)"
proof -
  let ?ks = "filter_map (\<lambda>(index, header). case eh_metadata header of MetaWal _ fin \<Rightarrow> if fin \<le> t then Some index else None
      | _ \<Rightarrow> None) (sm_committed s)"
  have "i \<notin> set ?ks"
  proof
    assume "i \<in> set ?ks"
    then obtain h' where "(i, h') \<in> set (sm_committed s)" "\<exists>a b. eh_metadata h' = MetaWal a b"
      by (auto simp: set_filter_map split: entry_metadata.splits if_splits)
    moreover from this have "h' = h"
      using assms(1,2) sorted_keys_distinct by (fastforce simp: entry_held_def index_wf_def)
    ultimately show False using assms(3) by blast
  qed
  then show ?thesis
    using assms(1)
    by (simp add: entry_held_def compact_checkpointed_wal_history_def drop_indices_def fold_bt_remove_other fold_bt_remove_None)
qed

lemma commit_keeps_held:
  assumes "entry_held i h lid s" "i \<noteq> li_index lid'"
  shows "entry_held i h lid (fst (apply_commit D lid' h' s))"
proof (cases rule: apply_commit_cases [of D lid' h' s])
  case (committed s1 w a c)
  then show ?thesis
    using assms apply_metadata_frame [OF committed(3)] by (auto simp: entry_held_def record_commit_def)
qed (use assms in simp)

lemma apply_entry_held:
  assumes held: "entry_held i h lid s" and wf: "sm_wf s" "entry_ok e s" and e: "\<not> is_repair e"
    and h: "\<forall>a b. eh_metadata h \<noteq> MetaWal a b"
  shows "entry_held i h lid (fst (apply_entry D e s))"
proof -
  let ?s = "touch (le_log_id e) s"
  have t: "entry_held i h lid ?s" using held by (simp add: entry_held_def)
  have "i \<in> set (bt_keys (sm_committed s))" using held unfolding entry_held_def bt_keys_def by (metis domI dom_map_of_conv_image_fst set_map)
  then have new: "i \<noteq> li_index (le_log_id e)" using touch_wf(2) [OF wf] by auto
  show ?thesis
  proof (cases "le_payload e")
    case (Normal c)
    show ?thesis
    proof (cases c)
      case (Commit h')
      then show ?thesis
        using Normal commit_keeps_held [OF t new] by (simp add: apply_entry_def Let_def split: prod.splits) (metis fst_conv)
    next
      case (Repair x y z)
      then show ?thesis using Normal e by (simp add: is_repair_def)
    next
      case (ReleaseWal x)
      have "index_wf ?s" using touch_wf(1) [OF wf] by (simp add: sm_wf_def)
      then show ?thesis
        using Normal ReleaseWal t release_keeps_held [OF t _ h] by (simp add: apply_entry_def Let_def apply_release_wal_def)
    qed
  qed (use t in \<open>simp_all add: apply_entry_def Let_def entry_held_def\<close>)
qed

lemma apply_entries_held:
  assumes "in_order D n es n'" "entry_held i h lid s" "sm_wf s" "carries_all D s" "applied_up_to n s"
    and "\<forall>e \<in> set es. \<not> is_repair e" "\<forall>a b. eh_metadata h \<noteq> MetaWal a b"
  shows "entry_held i h lid (fst (apply_entries D es s))"
  using assms
proof (induction D n es n' arbitrary: s rule: in_order.induct)
  case (2 D n e es n')
  let ?n = "li_index (le_log_id e)"
  have ok: "entry_ok e s" using entry_next(1) [of n s e D] 2 by simp
  have held: "entry_held i h lid (fst (apply_entry D e s))" using apply_entry_held [OF _ _ ok] 2 by simp
  have step: "sm_wf (fst (apply_entry D e s))" "carries_all D (fst (apply_entry D e s))" "applied_up_to ?n (fst (apply_entry D e s))"
    using log_step_entry [of n e D s] 2 by (auto simp: log_step_def)
  obtain s1 r where e: "apply_entry D e s = (s1, r)" by fastforce
  show ?case
  proof (cases r)
    case (Inr resp)
    have "fst (apply_entries D (e # es) s) = fst (apply_entries D es s1)" using e Inr by (simp split: prod.splits sum.splits)
    then show ?thesis using 2 held step e by simp
  qed (use held e in simp)
qed simp

text \<open>What committing a header leaves behind.\<close>

lemma commit_held:
  assumes wf: "sm_wf s" "entry_ok e s" and e: "e = \<lparr> le_log_id = lid, le_payload = Normal (Commit h) \<rparr>"
    and r: "apply_entry D e s = (s', Inr resp)" "rr_outcome resp = Committed"
  shows "rr_index resp = li_index lid \<and> entry_held (li_index lid) h lid s'"
proof -
  let ?s = "touch lid s"
  have new: "\<forall>i \<in> set (bt_keys (sm_committed ?s)). i < li_index lid" using touch_wf(2) [OF wf] e by simp
  have c: "apply_commit D lid h ?s = (s', resp)" using r(1) e by (simp add: apply_entry_def Let_def split: prod.splits)
  show ?thesis
  proof (cases rule: apply_commit_cases [of D lid h ?s])
    case (committed s1 w a d)
    have "index_wf ?s" using touch_wf(1) [OF wf] e by (simp add: sm_wf_def)
    then have "li_index lid \<notin> set (bt_keys (sm_repairs ?s))" using new by (auto simp: index_wf_def)
    then have "map_of (sm_repairs s1) (li_index lid) = None"
      using apply_metadata_frame [OF committed(3)] by (simp add: map_of_eq_None_iff bt_keys_def)
    then show ?thesis using committed(4) c by (auto simp: entry_held_def record_commit_def response_def)
  qed (use c r(2) in auto)
qed

lemma outcome_result_Inr: "outcome_result r = Inr r' \<longleftrightarrow> r' = r \<and> (rr_outcome r = Committed \<or> rr_outcome r = Duplicate)"
  by (cases "rr_outcome r") auto

lemma client_write_held:
  fixes X :: "('p, 'r) services"
  assumes R: "raft_ok D (sv_raft X) I" "sv_deps X = D" and h: "header_ok h" "header_carries D h" and wf: "group_wf D I g"
    and w: "client_write X on_error (Commit h) g = (Inr resp, g')" "rr_outcome resp = Committed"
  shows "\<exists>lid. rr_index resp = li_index lid \<and> entry_held (li_index lid) h lid (cg_machine g') \<and>
    cg_payloads g' = cg_payloads g \<and> cg_factory g' = cg_factory g \<and> cg_group g' = cg_group g"
proof -
  obtain n where n: "I n (cg_raft g)" "applied_up_to n (cg_machine g)" using wf by (auto simp: group_wf_def)
  obtain es out r where c: "rf_client_write (sv_raft X) (Commit h) (cg_raft g) = (es, out, r)" by (metis prod_cases3)
  obtain lid u g1 where a: "advance D es (g\<lparr>cg_raft := r\<rparr>) = (Inr u, g1)" "out = Inr lid" "apply_own D lid (Commit h) g1 = (Inr resp, g')"
    using w(1) c R(2) by (auto simp: client_write_def)
  have "command_ok D (Normal (Commit h))" using h by (simp add: command_ok_def)
  then obtain n' where n': "in_order D n es n'" "n' < li_index lid"
    using R(1) n(1) c a(2) by (fastforce simp: raft_ok_def)
  let ?s = "fst (apply_entries D es (cg_machine g))" and ?e = "\<lparr> le_log_id = lid, le_payload = Normal (Commit h) \<rparr>"
  have g1: "g1 = g\<lparr>cg_raft := r, cg_machine := ?s\<rparr>" using snd_advance [of D es "g\<lparr>cg_raft := r\<rparr>"] a(1) by simp
  have s: "sm_wf ?s" "applied_up_to n' ?s" using log_step_entries [OF n'(1), of "cg_machine g"] wf n(2) by (auto simp: log_step_def group_wf_def)
  have own: "apply_entry D ?e ?s = (cg_machine g', Inr resp)" "g' = g1\<lparr>cg_machine := cg_machine g'\<rparr>"
    using a(3) g1 by (auto simp: apply_own_def split: prod.splits sum.splits)
  have "entry_ok ?e ?s" by (rule entry_next(1) [OF s(2), of _ D]) (use n'(2) h in \<open>simp_all add: command_ok_def\<close>)
  then have "rr_index resp = li_index lid \<and> entry_held (li_index lid) h lid (cg_machine g')"
    using commit_held [OF s(1) _ refl own(1) w(2)] by simp
  moreover have "cg_payloads g' = cg_payloads g" "cg_factory g' = cg_factory g" "cg_group g' = cg_group g"
    by (subst own(2), simp add: g1)+
  ultimately show ?thesis by blast
qed

text \<open>The payload store a group uses from now on.\<close>

definition store_of :: "('p, 'r) consensus_group \<Rightarrow> payload_error + 'p" where
  "store_of g = (case cg_payloads g of None \<Rightarrow> cg_factory g | Some r \<Rightarrow> r)"

text \<open>Entries without repairs, as a fence may deliver them.\<close>

definition fence_quiet :: "('p, 'r) services \<Rightarrow> ('p, 'r) consensus_group \<Rightarrow> bool" where
  "fence_quiet X g \<longleftrightarrow> (\<forall>e \<in> set (fst (rf_ensure_linearizable (sv_raft X) (cg_raft g))). \<not> is_repair e)"

lemma fence_held:
  fixes X :: "('p, 'r) services"
  assumes R: "raft_ok D (sv_raft X) I" "sv_deps X = D" and wf: "group_wf D I g"
    and held: "entry_held i h lid (cg_machine g)" "\<forall>a b. eh_metadata h \<noteq> MetaWal a b"
    and fence: "ensure_linearizable X g = (Inr (), g')" "fence_quiet X g"
  shows "entry_held i h lid (cg_machine g') \<and> cg_payloads g' = cg_payloads g \<and> cg_group g' = cg_group g"
proof -
  obtain n where n: "I n (cg_raft g)" "applied_up_to n (cg_machine g)" using wf by (auto simp: group_wf_def)
  obtain es out r where w: "rf_ensure_linearizable (sv_raft X) (cg_raft g) = (es, out, r)" by (metis prod_cases3)
  obtain n' where n': "in_order D n es n'" using R(1) n(1) w by (fastforce simp: raft_ok_def)
  have "snd (ensure_linearizable X g) = snd (advance D es (g\<lparr>cg_raft := r\<rparr>))"
    using w R(2) by (simp add: ensure_linearizable_def await_def return_def split: prod.splits sum.splits)
  then have g': "g' = g\<lparr>cg_raft := r, cg_machine := fst (apply_entries D es (cg_machine g))\<rparr>"
    using fence(1) by (simp add: snd_advance)
  have "\<forall>e \<in> set es. \<not> is_repair e" using fence(2) w by (simp add: fence_quiet_def)
  then show ?thesis
    using apply_entries_held [OF n' held(1) _ _ n(2) _ held(2)] wf g' by (simp add: group_wf_def)
qed

subsection \<open>The contract of a durable payload store\<close>

locale durable_store = authentic_store D ops for D :: deps and ops :: "'p payload_store" +
  fixes stageable :: "string \<Rightarrow> nat \<Rightarrow> request_id \<Rightarrow> bytes \<Rightarrow> 'p \<Rightarrow> bool"
    and kept :: "payload_certificate \<Rightarrow> string \<Rightarrow> nat \<Rightarrow> request_id \<Rightarrow> bytes \<Rightarrow> nat \<times> nat \<Rightarrow> 'p \<Rightarrow> bool"
    and readable :: "payload_certificate \<Rightarrow> string \<Rightarrow> nat \<Rightarrow> request_id \<Rightarrow> bytes \<Rightarrow> nat \<times> nat \<Rightarrow> 'p \<Rightarrow> bool"
  assumes stage_kept: "stageable grp gen req body p \<Longrightarrow> pst_stage ops req grp gen mode body candidates p = (Inr staged, p') \<Longrightarrow>
      sp_hash staged = sha256 D body \<and> sp_length staged = length body \<and> kept (sp_certificate staged) grp gen req body (t, i) p'"
    and seal_kept: "kept c grp gen req body (t, i) p \<Longrightarrow>
      pst_seal ops \<lparr> sl_hash = sha256 D body, sl_group = grp, sl_generation = gen, sl_request = req, sl_term = t, sl_index = i,
        sl_certificate = c \<rparr> p = (res, p') \<Longrightarrow> kept c grp gen req body (t, i) p'"
    and read_back: "kept c grp gen req body (t, i) p \<Longrightarrow> readable c grp gen req body (t, i) p \<Longrightarrow>
      \<exists>p1 p2. pst_seal ops \<lparr> sl_hash = sha256 D body, sl_group = grp, sl_generation = gen, sl_request = req, sl_term = t, sl_index = i,
          sl_certificate = c \<rparr> p = (Inr (), p1) \<and>
        pst_reconstruct ops \<lparr> rc_hash = sha256 D body, rc_group = grp, rc_generation = gen, rc_request = req, rc_length = length body,
          rc_term = t, rc_index = i, rc_certificate = c \<rparr> p1 = (Inr body, p2)"
begin

text \<open>The header of a committed body, and where its payload is.\<close>

definition header_for :: "string \<Rightarrow> nat \<Rightarrow> request_id \<Rightarrow> bytes \<Rightarrow> entry_header \<Rightarrow> bool" where
  "header_for grp gen req body h \<longleftrightarrow> eh_group h = grp \<and> eh_generation h = gen \<and> eh_request h = req \<and>
     eh_payload_hash h = sha256 D body \<and> eh_payload_len h = length body \<and>
     (if length body \<le> inline_payload_threshold then eh_inline h = Some body
      else eh_inline h = None \<and> eh_certificate h \<noteq> None)"

lemma fetch_held:
  assumes X: "sv_payloads X = ops" and h: "header_for grp gen req body h" "inline_payload_threshold < length body"
    and held: "entry_held i h lid (cg_machine g)" and p: "cg_payloads g = Some (Inr p)"
    and kept: "kept (the (eh_certificate h)) grp gen req body (li_term lid, li_index lid) p"
      "readable (the (eh_certificate h)) grp gen req body (li_term lid, li_index lid) p"
  shows "\<exists>g'. fetch_body X i h g = (Inr body, g')"
proof -
  obtain c where c: "eh_certificate h = Some c" using h by (auto simp: header_for_def)
  have res: "resolve_payloads g' = (Inr p', g')" if "cg_payloads g' = Some (Inr p')" for g' :: "('p, 'c) consensus_group" and p'
    using that by (cases g') (simp add: resolve_payloads_def)
  obtain p1 p2 where "pst_seal ops (seal_of h (c, gen, lid)) p = (Inr (), p1)"
      "pst_reconstruct ops (reconstruct_of h (c, gen, lid)) p1 = (Inr body, p2)"
    using read_back [OF kept] c h(1) by (auto simp: header_for_def)
  then show ?thesis
    using held c h(1) p X
    by (auto simp: fetch_body_def on_payloads_Inr res gets_def allocation_of_def entry_held_def committed_log_id_def
        header_for_def)
qed

lemma base_header_for:
  assumes X: "sv_payloads X = ops" "sv_deps X = D"
    and stage: "\<And>p. inline_payload_threshold < length body \<Longrightarrow> store_of g = Inr p \<Longrightarrow> stageable (cg_group g) gen req body p"
    and base: "base_header X req kind mode body epoch holders gen g = (Inr (h, staged), g')"
  shows "header_for (cg_group g) gen req body h \<and> eh_metadata h = MetaNone \<and> same_log g g' \<and>
    (if length body \<le> inline_payload_threshold then staged = None
     else \<exists>c p. eh_certificate h = Some c \<and> staged = Some (sha256 D body, c) \<and> cg_payloads g' = Some (Inr p) \<and>
       (\<forall>t i. kept c (cg_group g) gen req body (t, i) p))"
proof (cases "length body \<le> inline_payload_threshold")
  case True
  then show ?thesis using base X(2) by (auto simp: base_header_def header_new_inline_def header_for_def split: if_splits)
next
  case False
  obtain sp g1 where st: "on_payloads (pst_stage ops req (cg_group g) gen mode body holders) g = (Inr sp, g1)"
      and h: "header_new (cg_group g) gen kind req (sp_length sp) (sp_hash sp) epoch (sp_certificate sp) = Inr h"
      and eq: "staged = Some (sp_hash sp, sp_certificate sp)" "g' = g1"
    using base False X(1) by (auto simp: base_header_def)
  obtain p0 p1 ga where p: "resolve_payloads g = (Inr p0, ga)" "pst_stage ops req (cg_group g) gen mode body holders p0 = (Inr sp, p1)"
      "cg_payloads g1 = Some (Inr p1)"
    using st by (auto simp: on_payloads_Inr)
  have "store_of g = Inr p0" using p(1) by (auto simp: resolve_payloads_def store_of_def Let_def)
  then have k: "sp_hash sp = sha256 D body" "sp_length sp = length body" "\<forall>t i. kept (sp_certificate sp) (cg_group g) gen req body (t, i) p1"
    using stage_kept [OF stage p(2)] False by auto
  have "same_log g g1" using same_log_on_payloads [of g] st by (metis snd_conv)
  then show ?thesis using False h eq k p(3) by (auto simp: header_new_def header_for_def split: if_splits)
qed

text \<open>What an acknowledged commit leaves: the header, and the payload under its committed position.\<close>

definition committed_body :: "string \<Rightarrow> nat \<Rightarrow> request_id \<Rightarrow> bytes \<Rightarrow> entry_header \<Rightarrow> log_id \<Rightarrow> ('p, 'r) consensus_group \<Rightarrow> bool" where
  "committed_body grp gen req body h lid g \<longleftrightarrow>
     header_for grp gen req body h \<and> eh_metadata h = MetaNone \<and> entry_held (li_index lid) h lid (cg_machine g) \<and> cg_group g = grp \<and>
     (inline_payload_threshold < length body \<longrightarrow> (\<exists>p. cg_payloads g = Some (Inr p) \<and>
        kept (the (eh_certificate h)) grp gen req body (li_term lid, li_index lid) p))"

lemma seal_committed_body:
  assumes X: "sv_payloads X = ops" and body: "committed_body grp gen req body h lid g"
    and staged: "if length body \<le> inline_payload_threshold then staged = None
      else staged = Some (sha256 D body, the (eh_certificate h))"
    and seal: "seal_committed X req gen resp staged g = (res, g')" "rr_index resp = li_index lid"
  shows "committed_body grp gen req body h lid g'"
proof -
  have log: "same_log g g'"
    using seal(1) by (auto simp: seal_committed_def await_def return_def split: option.splits if_splits prod.splits sum.splits)
      (metis same_log_on_payloads snd_conv)+
  have "\<exists>p. cg_payloads g' = Some (Inr p) \<and> kept (the (eh_certificate h)) grp gen req body (li_term lid, li_index lid) p"
    if ext: "inline_payload_threshold < length body"
  proof -
    let ?q = "\<lparr> sl_hash = sha256 D body, sl_group = grp, sl_generation = gen, sl_request = req,
        sl_term = li_term lid, sl_index = li_index lid, sl_certificate = the (eh_certificate h) \<rparr>"
    obtain p where p: "cg_payloads g = Some (Inr p)" "kept (the (eh_certificate h)) grp gen req body (li_term lid, li_index lid) p"
      using body ext by (auto simp: committed_body_def)
    have st: "staged = Some (sha256 D body, the (eh_certificate h))" using staged ext by simp
    show ?thesis
    proof (cases "rr_outcome resp \<in> {Committed, Duplicate}")
      case True
      have "committed_log_id (li_index lid) (cg_machine g) = Some lid"
        using body by (simp add: committed_body_def entry_held_def committed_log_id_def)
      then have "on_payloads (pst_seal ops ?q) g = (res, g')"
        using seal st X True body unfolding seal_committed_def committed_body_def by simp
      then obtain r p1 where "pst_seal ops ?q p = (r, p1)" "cg_payloads g' = Some (Inr p1)"
        using p(1) by (auto simp: on_payloads_def await_def resolve_payloads_def Let_def split: prod.splits)
      then show ?thesis using seal_kept [OF p(2)] by auto
    next
      case False
      then show ?thesis using seal(1) st p by (simp add: seal_committed_def)
    qed
  qed
  then show ?thesis using body log by (simp add: committed_body_def same_log_def)
qed

lemma commit_leaves:
  fixes X :: "('p, 'r) services"
  assumes X: "sv_payloads X = ops" "sv_deps X = D" and R: "raft_ok D (sv_raft X) I" and wf: "group_wf D I g"
    and stage: "\<And>p. inline_payload_threshold < length body \<Longrightarrow> store_of g = Inr p \<Longrightarrow>
      stageable (cg_group g) (cg_generation g) req body p"
    and commit: "commit X req kind mode body epoch holders g = (Inr resp, g1)" "rr_outcome resp = Committed"
  shows "\<exists>h lid. rr_index resp = li_index lid \<and> committed_body (cg_group g) (cg_generation g) req body h lid g1 \<and> group_wf D I g1"
proof -
  let ?gen = "cg_generation g"
  obtain h staged ga gb u where base: "base_header X req kind mode body epoch holders ?gen g = (Inr (h, staged), ga)"
      and wr: "client_write X (client_write_error (sv_raft X)) (Commit h) ga = (Inr resp, gb)"
      and seal: "seal_committed X req ?gen resp staged gb = (Inr u, g1)"
    using commit by (auto simp: commit_def commit_header_def Let_def outcome_result_Inr simp del: outcome_result.simps)
  note b = base_header_for [OF X stage base]
  have hk: "header_ok h" "header_carries D h" using base_header_ok [OF base X(2)] by auto
  have wfa: "group_wf D I ga" using keeps_base_header wf base unfolding keeps_def by (metis snd_conv)
  obtain lid where lid: "rr_index resp = li_index lid" "entry_held (li_index lid) h lid (cg_machine gb)"
      "cg_payloads gb = cg_payloads ga" "cg_group gb = cg_group ga"
    using client_write_held [OF R X(2) hk wfa wr commit(2)] by blast
  have "command_ok D (Normal (Commit h))" using hk by (simp add: command_ok_def)
  then have wfb: "group_wf D I gb" using keeps_client_write [OF R X(2)] wfa wr unfolding keeps_def by (metis snd_conv)
  have wf1: "group_wf D I g1" using keeps_seal_committed wfb seal unfolding keeps_def by (metis snd_conv)
  have "committed_body (cg_group g) ?gen req body h lid gb"
    using b lid by (auto simp: committed_body_def same_log_def split: if_splits)
  moreover have "if length body \<le> inline_payload_threshold then staged = None else staged = Some (sha256 D body, the (eh_certificate h))"
    using b by (auto split: if_splits)
  ultimately show ?thesis using seal_committed_body [OF X(1) _ _ seal lid(1)] lid(1) wf1 by blast
qed

lemma commit_reads_back:
  fixes X :: "('p, 'r) services"
  assumes X: "sv_payloads X = ops" "sv_deps X = D" and R: "raft_ok D (sv_raft X) I" and wf: "group_wf D I g"
    and stage: "\<And>p. inline_payload_threshold < length body \<Longrightarrow> store_of g = Inr p \<Longrightarrow>
      stageable (cg_group g) (cg_generation g) req body p"
    and commit: "commit X req kind mode body epoch holders g = (Inr resp, g1)" "rr_outcome resp = Committed"
    and fence: "ensure_linearizable X g1 = (Inr (), g2)" "fence_quiet X g1"
    and ready: "\<And>c p lid. inline_payload_threshold < length body \<Longrightarrow> store_of g1 = Inr p \<Longrightarrow>
      committed_log_id (rr_index resp) (cg_machine g1) = Some lid \<Longrightarrow>
      readable c (cg_group g) (cg_generation g) req body (li_term lid, li_index lid) p"
  shows "\<exists>g3. read X (rr_index resp) g1 = (Inr body, g3)"
proof -
  let ?gen = "cg_generation g" and ?grp = "cg_group g"
  obtain h lid where lid: "rr_index resp = li_index lid" and b: "committed_body ?grp ?gen req body h lid g1" and wf1: "group_wf D I g1"
    using commit_leaves [OF X R wf stage commit] by blast
  have hf: "header_for ?grp ?gen req body h" and held1: "entry_held (li_index lid) h lid (cg_machine g1)"
      "\<forall>a b. eh_metadata h \<noteq> MetaWal a b" and grp: "cg_group g1 = ?grp"
    using b by (simp_all add: committed_body_def)
  have f: "entry_held (li_index lid) h lid (cg_machine g2)" "cg_payloads g2 = cg_payloads g1" "cg_group g2 = ?grp"
    using fence_held [OF R X(2) wf1 held1 fence] grp by auto
  have read: "read X (rr_index resp) g1 = (case eh_inline h of Some body \<Rightarrow> return (Inr body) | None \<Rightarrow> fetch_body X (rr_index resp) h) g2"
    using fence(1) f(1,3) lid hf by (cases "eh_inline h") (simp_all add: read_def await_def return_def entry_held_def committed_header_def header_for_def)
  show ?thesis
  proof (cases "length body \<le> inline_payload_threshold")
    case True
    then show ?thesis using read hf by (simp add: header_for_def)
  next
    case False
    then obtain p where p: "cg_payloads g1 = Some (Inr p)" "kept (the (eh_certificate h)) ?grp ?gen req body (li_term lid, li_index lid) p"
      using b by (auto simp: committed_body_def)
    have "committed_log_id (rr_index resp) (cg_machine g1) = Some lid" using held1(1) lid by (simp add: entry_held_def committed_log_id_def)
    then have "readable (the (eh_certificate h)) ?grp ?gen req body (li_term lid, li_index lid) p"
      using ready False p(1) by (simp add: store_of_def)
    then have "\<exists>g'. fetch_body X (rr_index resp) h g2 = (Inr body, g')"
      using fetch_held [OF X(1) hf _ f(1) _ p(2)] False f(2) p(1) lid by simp
    then show ?thesis using read hf False by (simp add: header_for_def)
  qed
qed

end

end
