(* ===== verification/Fragments.thy ===== *)
theory Fragments
  imports Coding "HOL-Library.AList"
begin

section \<open>The local fragment store\<close>

text \<open>
  \<open>crates/verglas-cluster/src/fragments.rs\<close>: the fsynced files in which a node keeps the
  fragments and consensus representations placed on it. A store is the map from path to file
  contents together with the byte accounting (\<open>used\<close> against \<open>ceiling\<close>); a streaming writer
  is a value with its temporary file. What the file system does is an argument of each operation
  (\<open>fragment_io\<close>). The compare-and-swap loop of \<open>reserve\<close> is one atomic step;
  \<open>store_fragment\<close> is split where its accounting and its file write separate, so that two
  concurrent stores are interleavings of the two halves. The lemmas show that paths name fragments
  uniquely, that the accounting is exact under every interleaving of the other operations and never
  passes the highest ceiling, and that listing returns exactly the stored keys.
\<close>

subsection \<open>Keys, records and paths\<close>

type_synonym path = "string list"

record fragment_key =
  fk_object :: string
  fk_index :: nat

record fragment_record =
  fr_key :: fragment_key
  fr_bytes :: bytes
  fr_checksum :: nat

record loaded_fragment =
  lf_bytes :: bytes
  lf_checksum :: nat

datatype fragment_health = Healthy | Corrupt | Missing

datatype fragment_error = FragmentIo | Full nat nat

definition fragment_record_new :: "deps \<Rightarrow> fragment_key \<Rightarrow> bytes \<Rightarrow> fragment_record" where
  "fragment_record_new D key data = \<lparr> fr_key = key, fr_bytes = data, fr_checksum = crc32c D data \<rparr>"

definition is_healthy :: "deps \<Rightarrow> loaded_fragment \<Rightarrow> bool" where
  "is_healthy D l \<longleftrightarrow> crc32c D (lf_bytes l) = lf_checksum l"

definition hex_component :: "string \<Rightarrow> string" where
  "hex_component input = hex_bytes (as_bytes input)"

function component_chunks :: "string \<Rightarrow> string list" where
  "component_chunks encoded = (if encoded = [] then [] else take 120 encoded # component_chunks (drop 120 encoded))"
  by pat_completeness auto
termination
  by (relation "measure length") auto

declare component_chunks.simps [simp del]

definition object_dir :: "string \<Rightarrow> path" where
  "object_dir object_id = component_chunks (hex_component object_id)"

definition fragment_name :: "nat \<Rightarrow> string" where
  "fragment_name index =
     ''fragment-'' @ replicate (5 - length (dec_string index)) (CHR ''0'') @ dec_string index @ ''.bin''"

definition fragment_path :: "fragment_key \<Rightarrow> path" where
  "fragment_path key = object_dir (fk_object key) @ [fragment_name (fk_index key)]"

definition nibble :: "char \<Rightarrow> nat option" where
  "nibble c =
     (let n = of_char c in
      if 48 \<le> n \<and> n \<le> 57 then Some (n - 48)
      else if 97 \<le> n \<and> n \<le> 102 then Some (n - 87)
      else None)"

fun decode_pairs :: "string \<Rightarrow> bytes option" where
  "decode_pairs (c # d # rest) =
     (case (nibble c, nibble d) of
        (Some hi, Some lo) \<Rightarrow> map_option ((#) (word_of_nat (hi * 16 + lo))) (decode_pairs rest)
      | _ \<Rightarrow> None)"
| "decode_pairs _ = Some []"

definition hex_component_decode :: "string \<Rightarrow> string option" where
  "hex_component_decode input =
     (if odd (length input) then None
      else case decode_pairs input of None \<Rightarrow> None | Some out \<Rightarrow> from_utf8 out)"

subsection \<open>The store\<close>

record fragment_store =
  fs_ceiling :: nat
  fs_used :: nat
  fs_files :: "(path \<times> bytes) list"

text \<open>
  The file system's part in one operation: whether the parent directory could be prepared, what
  became of the write, whether a file could be read or removed (an absent one counts as removed),
  which files a failed recursive removal had removed, and how many bytes of a failed append reached
  the file (none, when it succeeded).
\<close>

record fragment_io =
  fi_parent :: bool
  fi_write :: write_outcome
  fi_readable :: bool
  fi_removed :: bool
  fi_partial :: "path \<Rightarrow> bool"
  fi_torn :: "nat option"

definition payload_len :: "nat \<Rightarrow> nat" where
  "payload_len file_len = file_len - 4"

definition dir_bytes :: "path \<Rightarrow> (path \<times> bytes) list \<Rightarrow> nat" where
  "dir_bytes dir files =
     sum_list (map (\<lambda>(p, raw). payload_len (length raw)) (filter (\<lambda>(p, raw). take (length dir) p = dir) files))"

definition with_dynamic_ceiling :: "nat \<Rightarrow> (path \<times> bytes) list \<Rightarrow> fragment_store" where
  "with_dynamic_ceiling ceiling files = \<lparr> fs_ceiling = ceiling, fs_used = dir_bytes [] files, fs_files = files \<rparr>"

definition fragment_len_by_path :: "path \<Rightarrow> fragment_store \<Rightarrow> nat" where
  "fragment_len_by_path path st =
     (case map_of (fs_files st) path of None \<Rightarrow> 0 | Some raw \<Rightarrow> payload_len (length raw))"

definition has_headroom :: "nat \<Rightarrow> fragment_store \<Rightarrow> bool" where
  "has_headroom len st \<longleftrightarrow> saturating_add (fs_used st) len \<le> fs_ceiling st"

definition reserve :: "nat \<Rightarrow> fragment_store \<Rightarrow> (fragment_error + unit) \<times> fragment_store" where
  "reserve len st =
     (let next_used = saturating_add (fs_used st) len in
      if next_used > fs_ceiling st then (Inl (Full len (fs_ceiling st - fs_used st)), st)
      else (Inr (), st\<lparr>fs_used := next_used\<rparr>))"

definition release :: "nat \<Rightarrow> fragment_store \<Rightarrow> fragment_store" where
  "release len st = (if len > 0 then st\<lparr>fs_used := fetch_sub (fs_used st) len\<rparr> else st)"

definition file_image :: "bytes \<Rightarrow> nat \<Rightarrow> bytes" where
  "file_image data checksum = data @ le_bytes 4 checksum"

text \<open>The first half of \<open>store_fragment\<close>: the accounting, which returns the replaced length.\<close>

definition store_begin :: "fragment_io \<Rightarrow> fragment_record \<Rightarrow> fragment_store \<Rightarrow> (fragment_error + nat) \<times> fragment_store" where
  "store_begin io r st =
     (if \<not> fi_parent io then (Inl FragmentIo, st)
      else
        (let existing = fragment_len_by_path (fragment_path (fr_key r)) st;
             freed = (if existing > 0 then st\<lparr>fs_used := fetch_sub (fs_used st) existing\<rparr> else st)
         in case reserve (length (fr_bytes r)) freed of
              (Inl e, st') \<Rightarrow> (Inl e, st'\<lparr>fs_used := fetch_add (fs_used st') existing\<rparr>)
            | (Inr _, st') \<Rightarrow> (Inr existing, st')))"

text \<open>The second half: the file write, and what a failure undoes.\<close>

definition store_finish :: "fragment_io \<Rightarrow> fragment_record \<Rightarrow> nat \<Rightarrow> fragment_store \<Rightarrow> (fragment_error + unit) \<times> fragment_store" where
  "store_finish io r existing st =
     (let written = st\<lparr>fs_files := AList.update (fragment_path (fr_key r)) (file_image (fr_bytes r) (fr_checksum r)) (fs_files st)\<rparr>;
          undo = (\<lambda>s. s\<lparr>fs_used := fetch_add (fetch_sub (fs_used s) (length (fr_bytes r))) existing\<rparr>)
      in case fi_write io of
           Written \<Rightarrow> (Inr (), written)
         | Unwritten \<Rightarrow> (Inl FragmentIo, undo st)
         | WrittenUnsynced \<Rightarrow> (Inl FragmentIo, undo written))"

definition store_fragment :: "fragment_io \<Rightarrow> fragment_record \<Rightarrow> fragment_store \<Rightarrow> (fragment_error + unit) \<times> fragment_store" where
  "store_fragment io r st =
     (case store_begin io r st of
        (Inl e, st') \<Rightarrow> (Inl e, st')
      | (Inr existing, st') \<Rightarrow> store_finish io r existing st')"

definition split_trailer :: "bytes \<Rightarrow> fragment_error + loaded_fragment" where
  "split_trailer raw =
     (if length raw < 4 then Inl FragmentIo
      else Inr \<lparr> lf_bytes = take (length raw - 4) raw, lf_checksum = of_le (drop (length raw - 4) raw) \<rparr>)"

definition load_fragment :: "fragment_io \<Rightarrow> fragment_key \<Rightarrow> fragment_store \<Rightarrow> fragment_error + loaded_fragment option" where
  "load_fragment io key st =
     (case map_of (fs_files st) (fragment_path key) of
        None \<Rightarrow> Inr None
      | Some raw \<Rightarrow> if fi_readable io then and_then (split_trailer raw) (\<lambda>l. Inr (Some l)) else Inl FragmentIo)"

definition verify_fragment :: "deps \<Rightarrow> fragment_io \<Rightarrow> fragment_key \<Rightarrow> fragment_store \<Rightarrow> fragment_error + fragment_health" where
  "verify_fragment D io key st =
     and_then (load_fragment io key st) (\<lambda>loaded.
       case loaded of
         None \<Rightarrow> Inr Missing
       | Some l \<Rightarrow> if is_healthy D l then Inr Healthy else Inr Corrupt)"

text \<open>\<open>delete_fragment\<close> returns the bytes it reports to the release handler.\<close>

definition delete_fragment :: "fragment_io \<Rightarrow> fragment_key \<Rightarrow> fragment_store \<Rightarrow> (fragment_error + nat) \<times> fragment_store" where
  "delete_fragment io key st =
     (let path = fragment_path key; len = fragment_len_by_path path st in
      if map_of (fs_files st) path = None then (Inr 0, st)
      else if fi_removed io then
        (Inr len, st\<lparr>fs_files := AList.delete path (fs_files st), fs_used := fetch_sub (fs_used st) len\<rparr>)
      else (Inl FragmentIo, st))"

definition delete_object :: "fragment_io \<Rightarrow> string \<Rightarrow> fragment_store \<Rightarrow> (fragment_error + nat) \<times> fragment_store" where
  "delete_object io object_id st =
     (let dir = object_dir object_id; freed = dir_bytes dir (fs_files st) in
      if fi_removed io then
        (Inr freed, st\<lparr>fs_files := filter (\<lambda>(p, raw). take (length dir) p \<noteq> dir) (fs_files st),
                       fs_used := fetch_sub (fs_used st) freed\<rparr>)
      else
        (Inl FragmentIo, st\<lparr>fs_files := filter (\<lambda>(p, raw). \<not> (take (length dir) p = dir \<and> fi_partial io p)) (fs_files st)\<rparr>))"

subsection \<open>Listing\<close>

definition strip_prefix :: "string \<Rightarrow> string \<Rightarrow> string option" where
  "strip_prefix p s = (if take (length p) s = p then Some (drop (length p) s) else None)"

definition strip_suffix :: "string \<Rightarrow> string \<Rightarrow> string option" where
  "strip_suffix p s =
     (if length p \<le> length s \<and> drop (length s - length p) s = p then Some (take (length s - length p) s) else None)"

definition hex_dir :: "string \<Rightarrow> bool" where
  "hex_dir name \<longleftrightarrow> even (length name) \<and> list_all (\<lambda>c. digit_of c \<noteq> None) name"

definition list_key :: "path \<Rightarrow> fragment_key option" where
  "list_key path =
     (case rev path of
        [] \<Rightarrow> None
      | name # dirs \<Rightarrow>
          if \<not> list_all hex_dir dirs then None
          else
            (case Option.bind (Option.bind (strip_prefix ''fragment-'' name) (strip_suffix ''.bin'')) from_str_usize of
               None \<Rightarrow> None
             | Some index \<Rightarrow>
                 (case hex_component_decode (concat (rev dirs)) of
                    None \<Rightarrow> None
                  | Some object_id \<Rightarrow> Some \<lparr> fk_object = object_id, fk_index = index \<rparr>)))"

definition list_fragment_keys :: "fragment_store \<Rightarrow> fragment_key list" where
  "list_fragment_keys st = filter_map (\<lambda>(p, raw). list_key p) (fs_files st)"

subsection \<open>The streaming writer\<close>

record fragment_writer =
  fw_path :: path
  fw_tmp :: bytes
  fw_data :: bytes
  fw_written :: nat

definition open_fragment :: "fragment_io \<Rightarrow> fragment_key \<Rightarrow> fragment_error + fragment_writer" where
  "open_fragment io key =
     (if fi_parent io then Inr \<lparr> fw_path = fragment_path key, fw_tmp = [], fw_data = [], fw_written = 0 \<rparr>
      else Inl FragmentIo)"

definition writer_append :: "fragment_io \<Rightarrow> bytes \<Rightarrow> fragment_writer \<Rightarrow> fragment_store
    \<Rightarrow> (fragment_error + unit) \<times> fragment_writer \<times> fragment_store" where
  "writer_append io shard w st =
     (case reserve (length shard) st of
        (Inl e, st') \<Rightarrow> (Inl e, w, st')
      | (Inr _, st') \<Rightarrow>
          (case fi_torn io of
             None \<Rightarrow> (Inr (), w\<lparr>fw_tmp := fw_tmp w @ shard, fw_data := fw_data w @ shard,
                                 fw_written := fw_written w + length shard\<rparr>, st')
           | Some n \<Rightarrow> (Inl FragmentIo, w\<lparr>fw_tmp := fw_tmp w @ take n shard\<rparr>, release (length shard) st')))"

text \<open>\<open>Drop\<close> of a writer that never committed.\<close>

definition writer_drop :: "fragment_writer \<Rightarrow> fragment_store \<Rightarrow> fragment_store" where
  "writer_drop w st = release (fw_written w) st"

definition writer_commit :: "deps \<Rightarrow> fragment_io \<Rightarrow> fragment_writer \<Rightarrow> fragment_store \<Rightarrow> (fragment_error + unit) \<times> fragment_store" where
  "writer_commit D io w st =
     (let replaced = fragment_len_by_path (fw_path w) st;
          renamed = st\<lparr>fs_files := AList.update (fw_path w) (file_image (fw_tmp w) (crc32c D (fw_data w))) (fs_files st)\<rparr>
      in case fi_write io of
           Unwritten \<Rightarrow> (Inl FragmentIo, writer_drop w st)
         | WrittenUnsynced \<Rightarrow> (Inl FragmentIo, writer_drop w renamed)
         | Written \<Rightarrow> (Inr (), renamed\<lparr>fs_used := fetch_sub (fs_used renamed) replaced\<rparr>))"

subsection \<open>Paths name fragments\<close>

definition key_ok :: "fragment_key \<Rightarrow> bool" where
  "key_ok key \<longleftrightarrow> is_str (fk_object key) \<and> fk_index key < u64_bound"

lemma concat_component_chunks: "concat (component_chunks s) = s"
proof (induction s rule: component_chunks.induct)
  case (1 s)
  then show ?case by (subst component_chunks.simps) auto
qed

lemma component_chunks_hex:
  assumes "even (length s)" "list_all (\<lambda>c. digit_of c \<noteq> None) s"
  shows "list_all hex_dir (component_chunks s)"
  using assms
proof (induction s rule: component_chunks.induct)
  case (1 s)
  have "list_all (\<lambda>c. digit_of c \<noteq> None) (take 120 s)" "list_all (\<lambda>c. digit_of c \<noteq> None) (drop 120 s)"
    using 1(3) by (auto simp: list_all_iff dest: in_set_takeD in_set_dropD)
  moreover have "even (length (take 120 s))" "even (length (drop 120 s))" using 1(2) by (auto simp: min_def)
  ultimately have "hex_dir (take 120 s) \<and> (s \<noteq> [] \<longrightarrow> list_all hex_dir (component_chunks (drop 120 s)))"
    using 1(1) by (intro conjI impI) (simp only: hex_dir_def, blast)+
  then show ?case by (subst component_chunks.simps) simp
qed

lemma nibble_hex_digit [simp]: "n < 16 \<Longrightarrow> nibble (hex_digit n) = Some n"
  by (drule less_16_cases) (auto simp: hex_digit_def nibble_def)

lemma hex_bytes_Cons: "hex_bytes (b # bs) = hex_digit (unat b div 16) # hex_digit (unat b mod 16) # hex_bytes bs"
  using unat_byte [of b] by (simp add: hex_bytes_def numeral_2_eq_2)

lemma decode_pairs_hex_bytes: "decode_pairs (hex_bytes bs) = Some bs"
proof (induction bs)
  case (Cons b bs)
  have "unat b div 16 < 16" using unat_byte [of b] by simp
  then show ?case using Cons by (simp add: hex_bytes_Cons)
qed (simp add: hex_bytes_def)

lemma hex_bytes_digits: "list_all (\<lambda>c. digit_of c \<noteq> None) (hex_bytes bs)"
proof (induction bs)
  case (Cons b bs)
  have "unat b div 16 < 16" using unat_byte [of b] by simp
  then show ?case using Cons by (simp add: hex_bytes_Cons)
qed (simp add: hex_bytes_def)

lemma hex_component_roundtrip: "is_str s \<Longrightarrow> hex_component_decode (hex_component s) = Some s"
  by (simp add: hex_component_decode_def hex_component_def decode_pairs_hex_bytes)

lemma fragment_name_index:
  assumes "n < u64_bound"
  shows "Option.bind (Option.bind (strip_prefix ''fragment-'' (fragment_name n)) (strip_suffix ''.bin'')) from_str_usize = Some n"
proof -
  let ?z = "replicate (5 - length (dec_string n)) (CHR ''0'') @ dec_string n"
  have "strip_prefix ''fragment-'' (fragment_name n) = Some (?z @ ''.bin'')"
    by (simp add: strip_prefix_def fragment_name_def)
  moreover have "strip_suffix ''.bin'' (?z @ ''.bin'') = Some ?z" by (simp add: strip_suffix_def)
  moreover have "from_str_usize ?z = Some n"
  proof -
    obtain c cs where z: "?z = c # cs" by (cases ?z) auto
    have "c \<in> set ?z" by (simp only: z) simp
    then have "c \<noteq> CHR ''+''" using dec_string_plain [of c n] by auto
    moreover have "parse_decimal 0 ?z = Some n"
      using assms by (simp add: parse_decimal_zeros parse_decimal_dec_string)
    ultimately show ?thesis unfolding from_str_usize_def z by simp
  qed
  ultimately show ?thesis by simp
qed

lemma list_key_fragment_path:
  assumes "key_ok key"
  shows "list_key (fragment_path key) = Some key"
proof -
  have name: "Option.bind (Option.bind (strip_prefix ''fragment-'' (fragment_name (fk_index key))) (strip_suffix ''.bin''))
      from_str_usize = Some (fk_index key)"
    using assms by (intro fragment_name_index) (simp add: key_ok_def)
  have "list_all hex_dir (object_dir (fk_object key))"
    unfolding object_dir_def hex_component_def by (intro component_chunks_hex hex_bytes_digits) simp
  moreover have "hex_component_decode (concat (object_dir (fk_object key))) = Some (fk_object key)"
    using assms by (simp add: object_dir_def concat_component_chunks hex_component_roundtrip key_ok_def)
  ultimately show ?thesis
    using name by (simp add: list_key_def fragment_path_def list_all_iff del: bind_eq_Some_conv)
qed

lemma fragment_path_inj: "key_ok a \<Longrightarrow> key_ok b \<Longrightarrow> fragment_path a = fragment_path b \<longleftrightarrow> a = b"
  using list_key_fragment_path by (metis option.inject)

subsection \<open>Live bytes\<close>

abbreviation live_bytes :: "(path \<times> bytes) list \<Rightarrow> nat" where
  "live_bytes files \<equiv> dir_bytes [] files"

definition file_len :: "(path \<times> bytes) list \<Rightarrow> path \<Rightarrow> nat" where
  "file_len files p = (case map_of files p of None \<Rightarrow> 0 | Some raw \<Rightarrow> payload_len (length raw))"

lemma live_bytes_Nil [simp]: "live_bytes [] = 0"
  by (simp add: dir_bytes_def)

lemma live_bytes_Cons [simp]: "live_bytes (f # fs) = payload_len (length (snd f)) + live_bytes fs"
  by (cases f) (simp add: dir_bytes_def)

lemma live_bytes_update: "live_bytes (AList.update p raw fs) + file_len fs p = live_bytes fs + payload_len (length raw)"
  by (induction fs) (auto simp: file_len_def)

lemma file_len_le: "file_len fs p \<le> live_bytes fs"
  by (induction fs) (auto simp: file_len_def)

lemma live_bytes_delete: "distinct (map fst fs) \<Longrightarrow> live_bytes (AList.delete p fs) + file_len fs p = live_bytes fs"
proof (induction fs)
  case (Cons f fs)
  have "fst f = p \<Longrightarrow> AList.delete p fs = fs" using Cons.prems by (auto intro!: delete_idem)
  moreover have "fst f = p \<Longrightarrow> file_len (f # fs) p = payload_len (length (snd f))" by (simp add: file_len_def)
  moreover have "fst f \<noteq> p \<Longrightarrow> file_len (f # fs) p = file_len fs p" by (simp add: file_len_def)
  ultimately show ?case using Cons by (cases "fst f = p") auto
qed (simp add: file_len_def)

lemma live_bytes_split: "live_bytes (filter (\<lambda>(p, raw). take (length dir) p \<noteq> dir) fs) + dir_bytes dir fs = live_bytes fs"
  by (induction fs) (auto simp: dir_bytes_def)

lemma fragment_len_by_path_eq: "fragment_len_by_path p st = file_len (fs_files st) p"
  by (simp add: fragment_len_by_path_def file_len_def)

lemma payload_len_image [simp]: "payload_len (length (file_image data c)) = length data"
  by (simp add: payload_len_def file_image_def)

subsection \<open>Interleaved operations\<close>

text \<open>
  One node's store with the writers open on it; \<open>sys_peak\<close> is the highest ceiling the disk poll
  has set so far. Every operation of the store is one step, so that runs are the interleavings of
  any number of placements. A writer whose append fails is dropped, as \<open>place_stream\<close> in
  \<open>crates/verglas-writeback/src/transport.rs\<close> does. Excluded are directory syncs that fail
  after the rename and recursive removals that stop half-way; for the former see
  \<open>unsynced_store_wraps_budget\<close>.
\<close>

record frag_sys =
  sys_store :: fragment_store
  sys_writers :: "fragment_writer list"
  sys_peak :: nat

inductive frag_step :: "deps \<Rightarrow> frag_sys \<Rightarrow> frag_sys \<Rightarrow> bool" for D where
  step_store:
    "\<lbrakk> key_ok key; fi_write io \<noteq> WrittenUnsynced; store_fragment io (fragment_record_new D key data) st = (res, st') \<rbrakk>
      \<Longrightarrow> frag_step D \<lparr> sys_store = st, sys_writers = ws, sys_peak = pk \<rparr> \<lparr> sys_store = st', sys_writers = ws, sys_peak = pk \<rparr>"
| step_delete:
    "\<lbrakk> delete_fragment io key st = (res2, st') \<rbrakk>
      \<Longrightarrow> frag_step D \<lparr> sys_store = st, sys_writers = ws, sys_peak = pk \<rparr> \<lparr> sys_store = st', sys_writers = ws, sys_peak = pk \<rparr>"
| step_delete_object:
    "\<lbrakk> fi_removed io; delete_object io object_id st = (res2, st') \<rbrakk>
      \<Longrightarrow> frag_step D \<lparr> sys_store = st, sys_writers = ws, sys_peak = pk \<rparr> \<lparr> sys_store = st', sys_writers = ws, sys_peak = pk \<rparr>"
| step_open:
    "\<lbrakk> key_ok key; open_fragment io key = Inr w \<rbrakk>
      \<Longrightarrow> frag_step D \<lparr> sys_store = st, sys_writers = ws, sys_peak = pk \<rparr> \<lparr> sys_store = st, sys_writers = w # ws, sys_peak = pk \<rparr>"
| step_append:
    "\<lbrakk> writer_append io shard w st = (Inr (), w', st') \<rbrakk>
      \<Longrightarrow> frag_step D \<lparr> sys_store = st, sys_writers = xs @ w # ys, sys_peak = pk \<rparr>
            \<lparr> sys_store = st', sys_writers = xs @ w' # ys, sys_peak = pk \<rparr>"
| step_append_failed:
    "\<lbrakk> writer_append io shard w st = (Inl e, w', st') \<rbrakk>
      \<Longrightarrow> frag_step D \<lparr> sys_store = st, sys_writers = xs @ w # ys, sys_peak = pk \<rparr>
            \<lparr> sys_store = writer_drop w' st', sys_writers = xs @ ys, sys_peak = pk \<rparr>"
| step_commit:
    "\<lbrakk> fi_write io \<noteq> WrittenUnsynced; writer_commit D io w st = (res, st') \<rbrakk>
      \<Longrightarrow> frag_step D \<lparr> sys_store = st, sys_writers = xs @ w # ys, sys_peak = pk \<rparr>
            \<lparr> sys_store = st', sys_writers = xs @ ys, sys_peak = pk \<rparr>"
| step_drop:
    "frag_step D \<lparr> sys_store = st, sys_writers = xs @ w # ys, sys_peak = pk \<rparr>
       \<lparr> sys_store = writer_drop w st, sys_writers = xs @ ys, sys_peak = pk \<rparr>"
| step_ceiling:
    "\<lbrakk> c < u64_bound - 1 \<rbrakk>
      \<Longrightarrow> frag_step D \<lparr> sys_store = st, sys_writers = ws, sys_peak = pk \<rparr>
            \<lparr> sys_store = st\<lparr>fs_ceiling := c\<rparr>, sys_writers = ws, sys_peak = max pk c \<rparr>"

definition pending_bytes :: "fragment_writer list \<Rightarrow> nat" where
  "pending_bytes ws = sum_list (map fw_written ws)"

definition writer_ok :: "fragment_writer \<Rightarrow> bool" where
  "writer_ok w \<longleftrightarrow> (\<exists>key. key_ok key \<and> fw_path w = fragment_path key) \<and> fw_tmp w = fw_data w \<and> fw_written w = length (fw_data w)"

definition file_ok :: "deps \<Rightarrow> path \<times> bytes \<Rightarrow> bool" where
  "file_ok D f \<longleftrightarrow> (\<exists>key. key_ok key \<and> fst f = fragment_path key) \<and> (\<exists>data. snd f = file_image data (crc32c D data))"

definition files_ok :: "deps \<Rightarrow> (path \<times> bytes) list \<Rightarrow> bool" where
  "files_ok D files \<longleftrightarrow> distinct (map fst files) \<and> list_all (file_ok D) files"

definition charged :: "nat \<Rightarrow> nat \<Rightarrow> fragment_store \<Rightarrow> bool" where
  "charged pk pending st \<longleftrightarrow> fs_used st = live_bytes (fs_files st) + pending \<and> fs_used st \<le> pk \<and> fs_ceiling st \<le> pk \<and> pk < u64_bound - 1"

definition frag_inv :: "deps \<Rightarrow> frag_sys \<Rightarrow> bool" where
  "frag_inv D s \<longleftrightarrow> files_ok D (fs_files (sys_store s)) \<and> list_all writer_ok (sys_writers s) \<and>
     charged (sys_peak s) (pending_bytes (sys_writers s)) (sys_store s)"

definition frag_start :: "deps \<Rightarrow> frag_sys \<Rightarrow> bool" where
  "frag_start D s \<longleftrightarrow> (\<exists>ceiling files. files_ok D files \<and> live_bytes files < u64_bound - 1 \<and> ceiling < u64_bound - 1 \<and>
     s = \<lparr> sys_store = with_dynamic_ceiling ceiling files, sys_writers = [], sys_peak = max ceiling (live_bytes files) \<rparr>)"

definition peak_grows :: "frag_sys \<Rightarrow> frag_sys \<Rightarrow> bool" where
  "peak_grows s t \<longleftrightarrow> sys_peak s \<le> sys_peak t"

lemma files_ok_update:
  assumes "files_ok D files" "key_ok key"
  shows "files_ok D (AList.update (fragment_path key) (file_image data (crc32c D data)) files)"
proof -
  have "set (AList.update (fragment_path key) (file_image data (crc32c D data)) files)
      \<subseteq> insert (fragment_path key, file_image data (crc32c D data)) (set files)"
    by (induction files) auto
  moreover have "file_ok D (fragment_path key, file_image data (crc32c D data))"
    using assms(2) by (auto simp: file_ok_def)
  ultimately show ?thesis using assms(1) distinct_update [of files] unfolding files_ok_def list_all_iff by blast
qed

lemma files_ok_filter: "files_ok D files \<Longrightarrow> files_ok D (filter P files)"
  unfolding files_ok_def by (auto simp: distinct_map_filter list_all_iff)

lemma files_ok_delete: "files_ok D files \<Longrightarrow> files_ok D (AList.delete p files)"
  unfolding AList.delete_eq by (rule files_ok_filter)

lemma reserve_charged:
  assumes "charged pk pending st"
  shows "reserve len st = (Inr (), st') \<Longrightarrow> charged pk (pending + len) st' \<and> fs_files st' = fs_files st"
    and "reserve len st = (Inl e, st') \<Longrightarrow> st' = st"
  using assms by (auto simp: reserve_def charged_def saturating_add_def Let_def min_def split: if_splits)

lemma release_charged:
  assumes "charged pk (pending + len) st"
  shows "charged pk pending (release len st) \<and> fs_files (release len st) = fs_files st"
proof -
  have "fs_used st < u64_bound" "len \<le> fs_used st" using assms by (auto simp: charged_def)
  then show ?thesis using assms by (auto simp: release_def charged_def fetch_sub_exact)
qed

lemma store_begin_cases:
  assumes "charged pk pending st"
  shows "(\<exists>e. store_begin io r st = (Inl e, st)) \<or>
    (let ex = file_len (fs_files st) (fragment_path (fr_key r)); used = fs_used st - ex + length (fr_bytes r) in
     store_begin io r st = (Inr ex, st\<lparr>fs_used := used\<rparr>) \<and> used \<le> fs_ceiling st \<and> ex \<le> fs_used st)"
proof -
  let ?ex = "file_len (fs_files st) (fragment_path (fr_key r))"
  have ex: "?ex \<le> fs_used st" and u: "fs_used st < u64_bound" "fs_ceiling st < u64_bound - 1"
    using assms file_len_le [of "fs_files st" "fragment_path (fr_key r)"] by (auto simp: charged_def)
  have sub: "fetch_sub (fs_used st) ?ex = fs_used st - ?ex" using ex u by (simp add: fetch_sub_exact)
  have restored: "fetch_add (fs_used st - ?ex) ?ex = fs_used st" using ex u by (simp add: fetch_add_exact)
  have freed: "(if ?ex > 0 then st\<lparr>fs_used := fetch_sub (fs_used st) ?ex\<rparr> else st) = st\<lparr>fs_used := fs_used st - ?ex\<rparr>"
    by (simp add: sub)
  show ?thesis
    using u ex restored unfolding store_begin_def fragment_len_by_path_eq Let_def freed
    by (auto simp: reserve_def Let_def saturating_add_def min_def split: if_splits)
qed

lemma store_fragment_charged:
  assumes "charged pk pending st" "fi_write io \<noteq> WrittenUnsynced" "store_fragment io r st = (res, st')"
  shows "charged pk pending st' \<and>
    (st' = st \<or> fs_files st' = AList.update (fragment_path (fr_key r)) (file_image (fr_bytes r) (fr_checksum r)) (fs_files st))"
proof -
  let ?p = "fragment_path (fr_key r)" and ?len = "length (fr_bytes r)"
  let ?ex = "file_len (fs_files st) ?p" and ?raw = "file_image (fr_bytes r) (fr_checksum r)"
  consider (err) e where "store_begin io r st = (Inl e, st)"
    | (ok) "store_begin io r st = (Inr ?ex, st\<lparr>fs_used := fs_used st - ?ex + ?len\<rparr>)" "fs_used st - ?ex + ?len \<le> fs_ceiling st"
        "?ex \<le> fs_used st"
    using store_begin_cases [OF assms(1), of io r] by (auto simp: Let_def)
  then show ?thesis
  proof cases
    case err
    then show ?thesis using assms by (simp add: store_fragment_def)
  next
    case ok
    have u: "fs_used st < u64_bound" "fs_used st - ?ex + ?len < u64_bound" using ok assms(1) by (auto simp: charged_def)
    have undo: "fetch_add (fetch_sub (fs_used st - ?ex + ?len) ?len) ?ex = fs_used st"
      using u ok(3) by (simp add: fetch_sub_exact fetch_add_exact)
    have live: "live_bytes (AList.update ?p ?raw (fs_files st)) + ?ex = live_bytes (fs_files st) + ?len"
      using live_bytes_update [of ?p ?raw "fs_files st"] by simp
    show ?thesis
      using assms ok undo live by (cases "fi_write io") (auto simp: store_fragment_def store_finish_def Let_def charged_def)
  qed
qed

lemma delete_fragment_charged:
  assumes "charged pk pending st" "distinct (map fst (fs_files st))" "delete_fragment io key st = (res, st')"
  shows "charged pk pending st' \<and> (st' = st \<or> fs_files st' = AList.delete (fragment_path key) (fs_files st))"
proof -
  let ?ex = "file_len (fs_files st) (fragment_path key)"
  have "?ex \<le> fs_used st" "fs_used st < u64_bound"
    using assms(1) file_len_le [of "fs_files st" "fragment_path key"] by (auto simp: charged_def)
  then have "fetch_sub (fs_used st) ?ex = fs_used st - ?ex" by (simp add: fetch_sub_exact)
  then show ?thesis
    using assms live_bytes_delete [OF assms(2), of "fragment_path key"]
    by (auto simp: delete_fragment_def Let_def fragment_len_by_path_eq charged_def split: if_splits)
qed

lemma delete_object_charged:
  assumes "charged pk pending st" "fi_removed io" "delete_object io object_id st = (res, st')"
  shows "charged pk pending st' \<and> (\<exists>P. fs_files st' = filter P (fs_files st))"
proof -
  let ?freed = "dir_bytes (object_dir object_id) (fs_files st)"
  have parts: "live_bytes (filter (\<lambda>(p, raw). take (length (object_dir object_id)) p \<noteq> object_dir object_id) (fs_files st)) + ?freed
      = live_bytes (fs_files st)"
    by (rule live_bytes_split)
  then have "?freed \<le> fs_used st" "fs_used st < u64_bound" using assms(1) by (auto simp: charged_def)
  then have "fetch_sub (fs_used st) ?freed = fs_used st - ?freed" by (simp add: fetch_sub_exact)
  then show ?thesis using assms parts by (auto simp: delete_object_def Let_def charged_def)
qed

lemma writer_append_charged:
  assumes "charged pk (pending + fw_written w) st" "writer_ok w" "writer_append io shard w st = (res, w', st')"
  shows "fs_files st' = fs_files st \<and> charged pk (pending + fw_written w') st' \<and> (res = Inr () \<longrightarrow> writer_ok w')"
proof (cases "reserve (length shard) st")
  case (Pair r st1)
  show ?thesis
  proof (cases r)
    case (Inl e)
    then show ?thesis using assms Pair reserve_charged(2) [OF assms(1)] by (auto simp: writer_append_def)
  next
    case (Inr u)
    then have r: "charged pk (pending + fw_written w + length shard) st1" "fs_files st1 = fs_files st"
      using Pair reserve_charged(1) [OF assms(1), of "length shard" st1] by auto
    show ?thesis
      using assms Pair Inr r release_charged [OF r(1)]
      by (cases "fi_torn io") (auto simp: writer_append_def writer_ok_def add.assoc)
  qed
qed

lemma writer_commit_charged:
  assumes "charged pk (pending + fw_written w) st" "writer_ok w" "fi_write io \<noteq> WrittenUnsynced"
    "writer_commit D io w st = (res, st')"
  shows "charged pk pending st' \<and>
    (fs_files st' = fs_files st \<or> fs_files st' = AList.update (fw_path w) (file_image (fw_data w) (crc32c D (fw_data w))) (fs_files st))"
proof (cases "fi_write io")
  case Unwritten
  then show ?thesis using assms release_charged [OF assms(1)] by (auto simp: writer_commit_def writer_drop_def Let_def)
next
  case Written
  let ?ex = "file_len (fs_files st) (fw_path w)" and ?raw = "file_image (fw_data w) (crc32c D (fw_data w))"
  have live: "live_bytes (AList.update (fw_path w) ?raw (fs_files st)) + ?ex = live_bytes (fs_files st) + fw_written w"
    using live_bytes_update [of "fw_path w" ?raw "fs_files st"] assms(2) by (simp add: writer_ok_def)
  have "?ex \<le> fs_used st" "fs_used st < u64_bound"
    using assms(1) file_len_le [of "fs_files st" "fw_path w"] by (auto simp: charged_def)
  then have "fetch_sub (fs_used st) ?ex = fs_used st - ?ex" by (simp add: fetch_sub_exact)
  then show ?thesis
    using assms live Written by (auto simp: writer_commit_def Let_def fragment_len_by_path_eq charged_def writer_ok_def)
next
  case WrittenUnsynced
  then show ?thesis using assms(3) by simp
qed

lemma pending_bytes_simps [simp]:
  "pending_bytes [] = 0" "pending_bytes (w # ws) = pending_bytes ws + fw_written w"
  "pending_bytes (xs @ ys) = pending_bytes xs + pending_bytes ys"
  by (simp_all add: pending_bytes_def)

lemma frag_step_inv: "frag_step D s t \<Longrightarrow> frag_inv D s \<Longrightarrow> frag_inv D t"
proof (induction rule: frag_step.induct)
  case (step_store key io data st res st' ws pk)
  then have c: "charged pk (pending_bytes ws) st" "files_ok D (fs_files st)" by (simp_all add: frag_inv_def)
  show ?case
    using step_store store_fragment_charged [OF c(1) step_store(2,3)] files_ok_update [OF c(2) step_store(1)]
    by (auto simp: frag_inv_def fragment_record_new_def)
next
  case (step_delete io key st res2 st' ws pk)
  then have c: "charged pk (pending_bytes ws) st" "files_ok D (fs_files st)" "distinct (map fst (fs_files st))"
    by (simp_all add: frag_inv_def files_ok_def)
  show ?case
    using step_delete delete_fragment_charged [OF c(1,3) step_delete(1)] files_ok_delete [OF c(2)]
    by (auto simp: frag_inv_def)
next
  case (step_delete_object io object_id st res2 st' ws pk)
  then have c: "charged pk (pending_bytes ws) st" "files_ok D (fs_files st)" by (simp_all add: frag_inv_def)
  show ?case
    using step_delete_object delete_object_charged [OF c(1) step_delete_object(1,2)] files_ok_filter [OF c(2)]
    by (auto simp: frag_inv_def)
next
  case (step_open key io w st ws pk)
  then show ?case by (auto simp: frag_inv_def open_fragment_def writer_ok_def split: if_splits)
next
  case (step_append io shard w st w' st' xs ys pk)
  then have "charged pk (pending_bytes xs + pending_bytes ys + fw_written w) st" "writer_ok w"
    by (simp_all add: frag_inv_def add.assoc)
  then show ?case using step_append writer_append_charged by (fastforce simp: frag_inv_def add.assoc)
next
  case (step_append_failed io shard w st e w' st' xs ys pk)
  then have "charged pk (pending_bytes xs + pending_bytes ys + fw_written w) st" "writer_ok w"
    by (simp_all add: frag_inv_def add.assoc)
  then have "fs_files st' = fs_files st \<and> charged pk (pending_bytes xs + pending_bytes ys + fw_written w') st'"
    using step_append_failed(1) writer_append_charged by blast
  then show ?case
    using step_append_failed(2) release_charged [of pk "pending_bytes xs + pending_bytes ys" "fw_written w'" st']
    by (auto simp: frag_inv_def writer_drop_def)
next
  case (step_commit io w st res st' xs ys pk)
  then have c: "charged pk (pending_bytes xs + pending_bytes ys + fw_written w) st" "writer_ok w" "files_ok D (fs_files st)"
    by (simp_all add: frag_inv_def add.assoc)
  obtain key where "key_ok key" "fw_path w = fragment_path key" using c(2) by (auto simp: writer_ok_def)
  then show ?case
    using step_commit writer_commit_charged [OF c(1,2) step_commit(1,2)] files_ok_update [OF c(3)]
    by (auto simp: frag_inv_def)
next
  case (step_drop st xs w ys pk)
  then show ?case
    using release_charged [of pk "pending_bytes xs + pending_bytes ys" "fw_written w" st]
    by (auto simp: frag_inv_def writer_drop_def add.assoc)
next
  case (step_ceiling c st ws pk)
  then show ?case by (auto simp: frag_inv_def charged_def)
qed

interpretation frag: step_system "frag_start D" "frag_step D" "frag_inv D" peak_grows for D
proof unfold_locales
  show "frag_inv D s" if "frag_start D s" for s
    using that by (auto simp: frag_start_def frag_inv_def with_dynamic_ceiling_def charged_def)
  show "frag_inv D t" if "frag_inv D s" "frag_step D s t" for s t
    using that frag_step_inv by blast
  show "peak_grows s t" if "frag_inv D s" "frag_step D s t" for s t
    using that(2) by (cases rule: frag_step.cases) (auto simp: peak_grows_def)
qed (auto simp: peak_grows_def)

subsection \<open>Properties\<close>


lemma verify_file_ok:
  assumes "files_ok D files" "digest_ok D" "map_of files (fragment_path key) = Some raw" "fs_files st = files" "fi_readable io"
  shows "verify_fragment D io key st = Inr Healthy"
proof -
  have "(fragment_path key, raw) \<in> set files" using assms(3) by (rule map_of_SomeD)
  then obtain data where raw: "raw = file_image data (crc32c D data)"
    using assms(1) by (auto simp: files_ok_def list_all_iff file_ok_def)
  have "crc32c D data < 256 ^ 4" using assms(2) by (simp add: digest_ok_def)
  then show ?thesis
    using assms(3-5) raw
    by (simp add: verify_fragment_def load_fragment_def split_trailer_def file_image_def is_healthy_def)
qed


text \<open>C32: Placing and loading. After an acknowledged placement the fragment loads with exactly its
  bytes and checksum and passes the integrity check, while every other fragment loads as before.\<close>

theorem fragment_store_load:
  assumes "store_fragment io (fragment_record_new D key data) st = (Inr (), st')" "key_ok key" "digest_ok D" "fi_readable io'"
  shows "load_fragment io' key st' = Inr (Some \<lparr> lf_bytes = data, lf_checksum = crc32c D data \<rparr>) \<and>
    verify_fragment D io' key st' = Inr Healthy \<and>
    (\<forall>other. key_ok other \<and> other \<noteq> key \<longrightarrow> load_fragment io' other st' = load_fragment io' other st)"
proof -
  have files: "fs_files st' = AList.update (fragment_path key) (file_image data (crc32c D data)) (fs_files st)"
    using assms(1)
    by (auto simp: store_fragment_def store_begin_def store_finish_def reserve_def fragment_record_new_def Let_def
        split: if_splits write_outcome.splits)
  have crc: "crc32c D data < 256 ^ 4" using assms(3) by (simp add: digest_ok_def)
  then have "load_fragment io' key st' = Inr (Some \<lparr> lf_bytes = data, lf_checksum = crc32c D data \<rparr>)"
    using assms(4) by (simp add: load_fragment_def files update_conv split_trailer_def file_image_def)
  moreover have "load_fragment io' other st' = load_fragment io' other st" if "key_ok other" "other \<noteq> key" for other
    using that assms(2) fragment_path_inj by (simp add: load_fragment_def files update_conv)
  ultimately show ?thesis by (auto simp: verify_fragment_def is_healthy_def)
qed

definition ex_io :: fragment_io where
  "ex_io = \<lparr> fi_parent = True, fi_write = Written, fi_readable = True, fi_removed = True, fi_partial = (\<lambda>_. False), fi_torn = None \<rparr>"

definition ex_key :: fragment_key where
  "ex_key = \<lparr> fk_object = ''o'', fk_index = 1 \<rparr>"

definition ex_record :: fragment_record where
  "ex_record = fragment_record_new xor_deps ex_key [1, 2, 3]"

definition ex_stored :: fragment_store where
  "ex_stored = \<lparr> fs_ceiling = 100, fs_used = 3, fs_files = [(fragment_path ex_key, file_image [1, 2, 3] 3)] \<rparr>"

lemma ex_key_ok: "key_ok ex_key"
  by (simp add: key_ok_def ex_key_def is_str_def as_bytes_def)

lemma ex_store: "store_fragment ex_io ex_record (with_dynamic_ceiling 100 []) = (Inr (), ex_stored)"
  by (simp add: store_fragment_def store_begin_def store_finish_def reserve_def with_dynamic_ceiling_def ex_io_def
      ex_record_def fragment_record_new_def fragment_len_by_path_eq file_len_def saturating_add_def xor_deps_crc ex_stored_def)

definition ex_frag_start :: frag_sys where
  "ex_frag_start = \<lparr> sys_store = with_dynamic_ceiling 100 [], sys_writers = [], sys_peak = 100 \<rparr>"

lemma ex_frag_start: "frag_start xor_deps ex_frag_start"
  unfolding frag_start_def by (intro exI [of _ 100] exI [of _ "[]"]) (simp add: ex_frag_start_def files_ok_def)

lemma ex_frag_run:
  "(frag_step xor_deps)\<^sup>*\<^sup>* ex_frag_start \<lparr> sys_store = ex_stored, sys_writers = [], sys_peak = 100 \<rparr>"
  unfolding ex_frag_start_def
  by (rule r_into_rtranclp, rule step_store [OF ex_key_ok _ ex_store [unfolded ex_record_def]]) (simp add: ex_io_def)



theorem fragment_store_load_witness: "load_fragment ex_io ex_key ex_stored = Inr (Some \<lparr> lf_bytes = [1, 2, 3], lf_checksum = 3 \<rparr>)"
  using fragment_store_load [OF ex_store [unfolded ex_record_def] ex_key_ok xor_digest_ok, of ex_io]
  by (simp add: ex_io_def xor_deps_crc)

subsection \<open>Limits of the accounting\<close>

text \<open>
  A store whose directory sync fails after the rename returns an error and takes its charge back,
  but its file is live: deleting it later takes the charge a second time, the counter wraps below
  zero, and every further placement on the node is refused.
\<close>

lemma unsynced_store_wraps_budget:
  "let st = snd (store_fragment (ex_io\<lparr>fi_write := WrittenUnsynced\<rparr>) ex_record (with_dynamic_ceiling 100 []));
       st' = snd (delete_fragment ex_io ex_key st)
   in fs_files st' = [] \<and> fs_used st' = u64_bound - 3 \<and> \<not> has_headroom 1 st'"
  by (simp add: store_fragment_def store_begin_def store_finish_def reserve_def with_dynamic_ceiling_def ex_io_def
      ex_record_def fragment_record_new_def fragment_len_by_path_eq file_len_def saturating_add_def delete_fragment_def
      has_headroom_def fetch_sub_def fetch_add_def Let_def)

text \<open>
  Two concurrent placements of one new fragment: both measure the absent file before either renames,
  both charge it, and the second charge stays after the fragment is deleted.
\<close>

lemma concurrent_stores_leak:
  "let st1 = snd (store_begin ex_io ex_record (with_dynamic_ceiling 100 []));
       st2 = snd (store_begin ex_io ex_record st1);
       st3 = snd (store_finish ex_io ex_record 0 st2);
       st4 = snd (store_finish ex_io ex_record 0 st3);
       st5 = snd (delete_fragment ex_io ex_key st4)
   in fst (store_begin ex_io ex_record (with_dynamic_ceiling 100 [])) = Inr 0 \<and> fst (store_begin ex_io ex_record st1) = Inr 0 \<and>
      fs_files st5 = [] \<and> fs_used st5 = 3"
  by (simp add: store_begin_def store_finish_def reserve_def with_dynamic_ceiling_def ex_io_def ex_record_def
      fragment_record_new_def fragment_len_by_path_eq file_len_def saturating_add_def delete_fragment_def fetch_sub_def Let_def)

text \<open>
  The directory of an object whose encoded id fills its last path component is an ancestor of the
  directory of every object whose id extends it: deleting the first object deletes the fragments of
  the second.
\<close>

lemma delete_object_reaches_extensions:
  assumes "length object_id = 60" "fk_object key = object_id @ suffix"
  shows "take (length (object_dir object_id)) (fragment_path key) = object_dir object_id"
proof -
  have len: "length (hex_component object_id) = 120" using assms(1) by (simp add: hex_component_def)
  have key: "hex_component (object_id @ suffix) = hex_component object_id @ hex_component suffix"
    by (simp add: hex_component_def as_bytes_def hex_bytes_def)
  have "hex_component object_id \<noteq> []" using len by auto
  then have one: "object_dir object_id = [hex_component object_id]"
    using len unfolding object_dir_def
    by (subst component_chunks.simps) (simp add: component_chunks.simps [of "[]"])
  have "object_dir (object_id @ suffix) = hex_component object_id # component_chunks (hex_component suffix)"
    using len \<open>hex_component object_id \<noteq> []\<close> unfolding object_dir_def key by (subst component_chunks.simps) simp
  then show ?thesis by (simp add: one fragment_path_def assms(2))
qed

end
