(* ===== verification/Ring_Transport.thy ===== *)
theory Ring_Transport
  imports Payload_Store Fragments
begin

section \<open>Consensus payloads on the fragment ring\<close>

text \<open>
  \<open>bins/cache-node/src/ring.rs\<close>, \<open>RingPayloadTransport\<close> over the fragment transport of
  \<open>crates/verglas-writeback/src/transport.rs\<close>: the record format of a consensus representation
  inside a fragment, its fragment key, the voter numbering, and store, load and delete on the
  fragment stores of the nodes. A node reaches its own store directly and a peer's through the
  fragment RPC, whose request or answer can get lost; the peer streams the body into its store in
  whatever chunks arrive. The interpretation at the end shows that this transport keeps the contract
  of the distributed payload store.
\<close>

subsection \<open>Voters and slots\<close>

definition numeric_node_id :: "string \<Rightarrow> nat" where
  "numeric_node_id node =
     unat (fold (\<lambda>b h. (h XOR ucast b) * 0x100000001b3) (as_bytes node) (0xcbf29ce484222325 :: 64 word))"

record payload_peers =
  pp_nodes :: "node_id \<rightharpoonup> string"
  pp_slots :: "node_id \<rightharpoonup> nat"

definition canonical_voter_ids :: "string list \<Rightarrow> node_id list" where
  "canonical_voter_ids nodes = sort (map numeric_node_id nodes)"

text \<open>Collecting into a hash map: a later entry replaces an earlier one.\<close>

definition canonical_payload_peers :: "string list \<Rightarrow> payload_peers" where
  "canonical_payload_peers peers =
     \<lparr> pp_nodes = map_of (rev (map (\<lambda>node. (numeric_node_id node, node)) peers)),
       pp_slots = map_of (rev (map (\<lambda>(slot, voter). (voter, slot)) (enumerate 0 (canonical_voter_ids peers)))) \<rparr>"

subsection \<open>The record inside a fragment\<close>

definition ring_rep_bytes :: "payload_representation \<Rightarrow> bytes" where
  "ring_rep_bytes r =
     be_bytes 4 (length (rep_group r)) @ as_bytes (rep_group r) @ rep_hash r @ be_bytes 8 (rep_generation r) @
     [rep_mode_byte (rep_mode r)] @ be_bytes 8 (rep_term r) @ be_bytes 8 (rep_index r) @ be_bytes 16 (rep_request r) @
     be_bytes 8 (rep_length r) @ be_bytes 8 (rep_slot r) @ rep_bytes r"

definition consensus_fragment_key :: "deps \<Rightarrow> hash \<Rightarrow> string \<Rightarrow> nat \<Rightarrow> request_id \<Rightarrow> nat \<Rightarrow> fragment_key" where
  "consensus_fragment_key D digest grp generation request slot =
     \<lparr> fk_object = ''consensus/'' @ hex_encode D digest @ ''/'' @ hex_encode D (sha256 D (as_bytes grp)) @ ''/'' @
         dec_string generation @ ''/'' @ hex_fixed 32 request,
       fk_index = slot \<rparr>"

definition decode_representation :: "deps \<Rightarrow> hash \<Rightarrow> loaded_fragment \<Rightarrow> payload_error + payload_representation" where
  "decode_representation D digest loaded =
     (let data = lf_bytes loaded in
      if \<not> is_healthy D loaded \<or> length data < 69 then Inl CorruptRepresentation
      else
        (let group_len = of_be (slice 0 4 data); base = 4 + group_len; fixed = base + 32 + 8 + 1 + 8 + 8 in
         if length data < fixed + 32 then Inl CorruptRepresentation
         else
           and_then (ok_or CorruptRepresentation (from_utf8 (slice 4 (4 + group_len) data))) (\<lambda>grp.
           if slice base (base + 32) data \<noteq> digest then Inl CorruptRepresentation
           else
             and_then (rep_byte_mode (data ! (base + 40))) (\<lambda>mode.
             Inr \<lparr> rep_term = of_be (slice (base + 41) (base + 49) data),
                   rep_index = of_be (slice (base + 49) (base + 57) data),
                   rep_group = grp,
                   rep_generation = of_be (slice (base + 32) (base + 40) data),
                   rep_mode = mode,
                   rep_hash = digest,
                   rep_request = of_be (slice fixed (fixed + 16) data),
                   rep_length = of_be (slice (fixed + 16) (fixed + 24) data),
                   rep_slot = of_be (slice (fixed + 24) (fixed + 32) data),
                   rep_bytes = drop (fixed + 32) data \<rparr>))))"

subsection \<open>The fragment transport\<close>

text \<open>What becomes of a request to a peer: answered, lost on the way, or carried out with its answer lost.\<close>

datatype delivery = Answered | Lost | Unanswered

record ring_faults =
  rf_place :: "string \<Rightarrow> delivery"
  rf_load :: "string \<Rightarrow> bool"
  rf_delete :: "string \<Rightarrow> delivery"
  rf_io :: "string \<Rightarrow> fragment_io"
  rf_cuts :: "string \<Rightarrow> nat list"

type_synonym ring_net = "string \<Rightarrow> fragment_store"

fun body_chunks :: "nat list \<Rightarrow> bytes \<Rightarrow> bytes list" where
  "body_chunks [] body = [body]"
| "body_chunks (n # cuts) body = take n body # body_chunks cuts (drop n body)"

fun append_shards :: "fragment_io \<Rightarrow> bytes list \<Rightarrow> fragment_writer \<Rightarrow> fragment_store
    \<Rightarrow> (fragment_error + fragment_writer) \<times> fragment_store" where
  "append_shards io [] w st = (Inr w, st)"
| "append_shards io (shard # shards) w st =
     (case writer_append io shard w st of
        (Inl e, w', st') \<Rightarrow> (Inl e, writer_drop w' st')
      | (Inr _, w', st') \<Rightarrow> append_shards io shards w' st')"

definition stream_into_store :: "deps \<Rightarrow> fragment_io \<Rightarrow> fragment_key \<Rightarrow> bytes list \<Rightarrow> fragment_store
    \<Rightarrow> (fragment_error + unit) \<times> fragment_store" where
  "stream_into_store D io key shards st =
     (case open_fragment io key of
        Inl e \<Rightarrow> (Inl e, st)
      | Inr w \<Rightarrow>
          (case append_shards io shards w st of
             (Inl e, st') \<Rightarrow> (Inl e, st')
           | (Inr w', st') \<Rightarrow> writer_commit D io w' st'))"

definition peer_place :: "deps \<Rightarrow> string \<Rightarrow> ring_faults \<Rightarrow> string \<Rightarrow> fragment_record \<Rightarrow> ring_net \<Rightarrow> (unit + unit) \<times> ring_net" where
  "peer_place D self_id f node record net =
     (if node = self_id then
        (case store_fragment (rf_io f node) record (net node) of
           (result, st) \<Rightarrow> (map_err (\<lambda>_. ()) result, net(node := st)))
      else
        (case rf_place f node of
           Lost \<Rightarrow> (Inl (), net)
         | delivered \<Rightarrow>
             (case stream_into_store D (rf_io f node) (fr_key record) (body_chunks (rf_cuts f node) (fr_bytes record)) (net node) of
                (result, st) \<Rightarrow> (if delivered = Answered then map_err (\<lambda>_. ()) result else Inl (), net(node := st)))))"

definition peer_load :: "string \<Rightarrow> ring_faults \<Rightarrow> string \<Rightarrow> fragment_key \<Rightarrow> ring_net \<Rightarrow> unit + loaded_fragment option" where
  "peer_load self_id f node key net =
     (if node = self_id \<or> rf_load f node then map_err (\<lambda>_. ()) (load_fragment (rf_io f node) key (net node)) else Inl ())"

definition peer_delete :: "string \<Rightarrow> ring_faults \<Rightarrow> string \<Rightarrow> fragment_key \<Rightarrow> ring_net \<Rightarrow> (unit + unit) \<times> ring_net" where
  "peer_delete self_id f node key net =
     (let delivered = (if node = self_id then Answered else rf_delete f node) in
      if delivered = Lost then (Inl (), net)
      else
        (case delete_fragment (rf_io f node) key (net node) of
           (Inr freed, st) \<Rightarrow> (if delivered = Answered then Inr () else Inl (), net(node := st))
         | (Inl e, st) \<Rightarrow> (Inl (), net(node := st))))"

subsection \<open>The payload transport\<close>

definition ring_store :: "deps \<Rightarrow> string \<Rightarrow> payload_peers \<Rightarrow> ring_faults \<Rightarrow> node_id \<Rightarrow> payload_representation \<Rightarrow> ring_net
    \<Rightarrow> (payload_error + unit) \<times> ring_net" where
  "ring_store D self_id peers f voter r net =
     (case pp_nodes peers voter of
        None \<Rightarrow> (Inl UnknownHolder, net)
      | Some node \<Rightarrow>
          (case peer_place D self_id f node
                  (fragment_record_new D
                    (consensus_fragment_key D (rep_hash r) (rep_group r) (rep_generation r) (rep_request r) (rep_slot r))
                    (ring_rep_bytes r)) net of
             (result, net') \<Rightarrow> (map_err (\<lambda>_. Transport ''place'') result, net')))"

definition ring_load :: "deps \<Rightarrow> string \<Rightarrow> payload_peers \<Rightarrow> ring_faults \<Rightarrow> node_id \<Rightarrow> hash \<Rightarrow> string \<Rightarrow> nat \<Rightarrow> request_id \<Rightarrow> ring_net
    \<Rightarrow> payload_error + payload_representation option" where
  "ring_load D self_id peers f voter digest grp generation request net =
     and_then (ok_or UnknownHolder (pp_nodes peers voter)) (\<lambda>node.
     and_then (ok_or UnknownHolder (pp_slots peers voter)) (\<lambda>slot.
     and_then (map_err (\<lambda>_. Transport ''load'')
         (peer_load self_id f node (consensus_fragment_key D digest grp generation request slot) net)) (\<lambda>loaded.
     case loaded of
       None \<Rightarrow> Inr None
     | Some l \<Rightarrow> and_then (decode_representation D digest l) (\<lambda>r. Inr (Some r)))))"

definition ring_delete :: "deps \<Rightarrow> string \<Rightarrow> payload_peers \<Rightarrow> ring_faults \<Rightarrow> node_id \<Rightarrow> hash \<Rightarrow> string \<Rightarrow> nat \<Rightarrow> request_id \<Rightarrow> nat \<Rightarrow> ring_net
    \<Rightarrow> (payload_error + unit) \<times> ring_net" where
  "ring_delete D self_id peers f voter digest grp generation request slot net =
     (case pp_nodes peers voter of
        None \<Rightarrow> (Inl UnknownHolder, net)
      | Some node \<Rightarrow>
          (case peer_delete self_id f node (consensus_fragment_key D digest grp generation request slot) net of
             (result, net') \<Rightarrow> (map_err (\<lambda>_. Transport ''delete'') result, net')))"

definition ring_transport :: "deps \<Rightarrow> string \<Rightarrow> payload_peers \<Rightarrow> (ring_net, ring_faults) transport" where
  "ring_transport D self_id peers =
     \<lparr> tr_store = ring_store D self_id peers, tr_load = ring_load D self_id peers, tr_delete = ring_delete D self_id peers \<rparr>"

subsection \<open>The record format round-trips\<close>

definition ring_fixed :: "payload_representation \<Rightarrow> bytes" where
  "ring_fixed r = rep_hash r @ be_bytes 8 (rep_generation r) @ [rep_mode_byte (rep_mode r)] @ be_bytes 8 (rep_term r) @
     be_bytes 8 (rep_index r) @ be_bytes 16 (rep_request r) @ be_bytes 8 (rep_length r) @ be_bytes 8 (rep_slot r)"

lemma ring_rep_bytes_eq:
  "ring_rep_bytes r = be_bytes 4 (length (rep_group r)) @ as_bytes (rep_group r) @ ring_fixed r @ rep_bytes r"
  by (simp add: ring_rep_bytes_def ring_fixed_def)

lemma ring_fixed_slices:
  assumes "length (rep_hash r) = 32"
  shows "slice 0 32 (ring_fixed r @ rest) = rep_hash r"
    and "slice 32 40 (ring_fixed r @ rest) = be_bytes 8 (rep_generation r)"
    and "(ring_fixed r @ rest) ! 40 = rep_mode_byte (rep_mode r)"
    and "slice 41 49 (ring_fixed r @ rest) = be_bytes 8 (rep_term r)"
    and "slice 49 57 (ring_fixed r @ rest) = be_bytes 8 (rep_index r)"
    and "slice 57 73 (ring_fixed r @ rest) = be_bytes 16 (rep_request r)"
    and "slice 73 81 (ring_fixed r @ rest) = be_bytes 8 (rep_length r)"
    and "slice 81 89 (ring_fixed r @ rest) = be_bytes 8 (rep_slot r)"
    and "drop 89 (ring_fixed r @ rest) = rest" and "length (ring_fixed r) = 89"
  using assms by (simp_all add: ring_fixed_def slice_def nth_append drop_Cons' take_Cons')

lemma decode_representation_bytes:
  assumes "rep_wf r"
  shows "decode_representation D (rep_hash r) \<lparr> lf_bytes = ring_rep_bytes r, lf_checksum = crc32c D (ring_rep_bytes r) \<rparr> = Inr r"
proof -
  have wf: "length (rep_hash r) = 32" "rep_term r < 256 ^ 8" "rep_index r < 256 ^ 8" "rep_generation r < 256 ^ 8"
      "rep_request r < 256 ^ 16" "rep_length r < 256 ^ 8" "rep_slot r < 256 ^ 8"
      "length (rep_group r) < 256 ^ 4" "is_str (rep_group r)"
    using assms by (simp_all add: rep_wf_def)
  let ?n = "4 + length (rep_group r)" and ?rec = "ring_rep_bytes r" and ?tail = "ring_fixed r @ rep_bytes r"
  have tail: "drop ?n ?rec = ?tail" by (simp add: ring_rep_bytes_eq)
  have len: "length ?rec = ?n + 89 + length (rep_bytes r)" by (simp add: ring_rep_bytes_eq ring_fixed_slices(10) [OF wf(1)])
  have grp: "slice 0 4 ?rec = be_bytes 4 (length (rep_group r))" "slice 4 ?n ?rec = as_bytes (rep_group r)"
    by (simp_all add: ring_rep_bytes_eq slice_def)
  have at: "slice (?n + a) (?n + b) ?rec = slice a b ?tail" for a b
    using slice_shift [of ?n a b ?rec] tail by simp
  have at0: "slice ?n (?n + b) ?rec = slice 0 b ?tail" for b using at [of 0 b] by simp
  have mode: "?rec ! (?n + 40) = rep_mode_byte (rep_mode r)"
    using nth_drop [of ?n ?rec 40] len tail ring_fixed_slices(3) [OF wf(1)] by simp
  have payload: "drop (?n + 89) ?rec = rep_bytes r"
    using tail ring_fixed_slices(9) [OF wf(1), of "rep_bytes r"] by (metis add.commute drop_drop)
  have ints: "of_be (be_bytes 8 (rep_term r)) = rep_term r" "of_be (be_bytes 8 (rep_index r)) = rep_index r"
      "of_be (be_bytes 8 (rep_generation r)) = rep_generation r" "of_be (be_bytes 16 (rep_request r)) = rep_request r"
      "of_be (be_bytes 8 (rep_length r)) = rep_length r" "of_be (be_bytes 8 (rep_slot r)) = rep_slot r"
      "of_be (be_bytes 4 (length (rep_group r))) = length (rep_group r)"
    using wf by (simp_all only: of_be_be_bytes_id)
  have fixed: "?n + 32 + 8 + 1 + 8 + 8 = ?n + 57" by simp
  have sums: "?n + 57 + 16 = ?n + 73" "?n + 57 + 24 = ?n + 81" "?n + 57 + 32 = ?n + 89" by simp_all
  have big: "\<not> length ?rec < 69" "\<not> length ?rec < ?n + 89" using len by simp_all
  show ?thesis
    unfolding decode_representation_def Let_def is_healthy_def loaded_fragment.simps grp(1) ints(7) fixed sums
    by (simp only: big grp(2) from_utf8_as_bytes [OF wf(9)] ok_or.simps and_then.simps at at0 mode rep_byte_mode_mode payload
        ring_fixed_slices [OF wf(1)] ints) simp
qed

lemma decode_representation_wf: "decode_representation D digest loaded = Inr r \<Longrightarrow> rep_wf r \<and> rep_hash r = digest"
proof -
  assume dec: "decode_representation D digest loaded = Inr r"
  let ?data = "lf_bytes loaded"
  let ?n = "of_be (slice 0 4 ?data)"
  have len: "4 + ?n + 32 + 8 + 1 + 8 + 8 + 32 \<le> length ?data"
    and utf: "from_utf8 (slice 4 (4 + ?n) ?data) = Some (rep_group r)"
    and hash: "slice (4 + ?n) (4 + ?n + 32) ?data = digest" "rep_hash r = digest"
    and ints: "rep_term r = of_be (slice (4 + ?n + 41) (4 + ?n + 49) ?data)" "rep_index r = of_be (slice (4 + ?n + 49) (4 + ?n + 57) ?data)"
      "rep_generation r = of_be (slice (4 + ?n + 32) (4 + ?n + 40) ?data)"
      "rep_request r = of_be (slice (4 + ?n + 32 + 8 + 1 + 8 + 8) (4 + ?n + 32 + 8 + 1 + 8 + 8 + 16) ?data)"
      "rep_length r = of_be (slice (4 + ?n + 32 + 8 + 1 + 8 + 8 + 16) (4 + ?n + 32 + 8 + 1 + 8 + 8 + 24) ?data)"
      "rep_slot r = of_be (slice (4 + ?n + 32 + 8 + 1 + 8 + 8 + 24) (4 + ?n + 32 + 8 + 1 + 8 + 8 + 32) ?data)"
    using dec by (auto simp: decode_representation_def Let_def not_less split: if_splits)
  have width: "of_be (slice a (a + w) bs) < 256 ^ w" for a w bs
    using of_be_bound [of "slice a (a + w) bs"] by (rule less_le_trans) (simp add: slice_def power_increasing)
  have "utf8_valid (slice 4 (4 + ?n) ?data)" "rep_group r = of_bytes (slice 4 (4 + ?n) ?data)"
    using utf by (auto simp: from_utf8_def split: if_splits)
  then have grp: "is_str (rep_group r)" "length (rep_group r) = ?n"
    using len by (simp_all add: is_str_def) (simp add: of_bytes_def slice_def)
  have "?n < 256 ^ 4" using width [of 0 4 ?data] by simp
  moreover have "length digest = 32" using hash(1) len by (auto simp: slice_def)
  moreover have "rep_term r < 256 ^ 8" "rep_index r < 256 ^ 8" "rep_generation r < 256 ^ 8" "rep_request r < 256 ^ 16"
      "rep_length r < 256 ^ 8" "rep_slot r < 256 ^ 8"
    unfolding ints
    using width [of "4 + ?n + 41" 8 ?data] width [of "4 + ?n + 49" 8 ?data] width [of "4 + ?n + 32" 8 ?data]
      width [of "4 + ?n + 32 + 8 + 1 + 8 + 8" 16 ?data] width [of "4 + ?n + 32 + 8 + 1 + 8 + 8 + 16" 8 ?data]
      width [of "4 + ?n + 32 + 8 + 1 + 8 + 8 + 24" 8 ?data]
    by (simp_all add: add.assoc)
  ultimately show ?thesis using grp hash(2) by (simp add: rep_wf_def)
qed

subsection \<open>Fragment keys\<close>

lemma ascii_string: "(\<And>c. c \<in> set s \<Longrightarrow> (of_char c :: nat) < 128) \<Longrightarrow> is_str s"
proof -
  assume a: "\<And>c. c \<in> set s \<Longrightarrow> (of_char c :: nat) < 128"
  have "(word_of_nat (of_char c) :: byte) < 0x80" if "c \<in> set s" for c
    using a [OF that] unat_of_char [of c] by (simp add: word_less_nat_alt)
  then show ?thesis unfolding is_str_def by (intro ascii_is_str) (auto simp: as_bytes_def)
qed

lemma hex_digit_ascii: "n < 16 \<Longrightarrow> (of_char (hex_digit n) :: nat) < 128"
  by (drule less_16_cases) (auto simp: hex_digit_def)

lemma hex_fixed_ascii: "c \<in> set (hex_fixed w n) \<Longrightarrow> (of_char c :: nat) < 128"
  by (induction w arbitrary: n) (auto simp: hex_digit_ascii)

lemma hex_bytes_ascii: "c \<in> set (hex_bytes bs) \<Longrightarrow> (of_char c :: nat) < 128"
  unfolding hex_bytes_def using hex_fixed_ascii by fastforce

lemma dec_string_ascii: "c \<in> set (dec_string n) \<Longrightarrow> (of_char c :: nat) < 128"
proof (induction n rule: dec_string.induct)
  case (1 n)
  then show ?case using dec_string.simps [of n] hex_digit_ascii [of "n mod 10"] hex_digit_ascii [of n]
    by (auto split: if_splits)
qed

lemma consensus_key_ok: "hex_ok D \<Longrightarrow> slot < u64_bound \<Longrightarrow> key_ok (consensus_fragment_key D digest grp gen req slot)"
  unfolding key_ok_def consensus_fragment_key_def
  by (auto intro!: ascii_string dest: hex_bytes_ascii dec_string_ascii hex_fixed_ascii simp: hex_ok_def)

lemma consensus_key_inj:
  assumes "hex_ok D" "length digest = 32" "length digest' = 32" "gen < u64_bound" "gen' < u64_bound" "req < u128_bound" "req' < u128_bound"
    "consensus_fragment_key D digest grp gen req slot = consensus_fragment_key D digest' grp gen' req' slot"
  shows "(digest, gen, req) = (digest', gen', req')"
proof -
  let ?h = "hex_bytes (sha256 D (as_bytes grp))"
  have eq: "hex_bytes digest @ ''/'' @ ?h @ ''/'' @ dec_string gen @ ''/'' @ hex_fixed 32 req =
      hex_bytes digest' @ ''/'' @ ?h @ ''/'' @ dec_string gen' @ ''/'' @ hex_fixed 32 req'"
    using assms(1,8) by (simp add: consensus_fragment_key_def hex_ok_def)
  have "hex_bytes digest = hex_bytes digest' \<and>
      ''/'' @ ?h @ ''/'' @ dec_string gen @ ''/'' @ hex_fixed 32 req = ''/'' @ ?h @ ''/'' @ dec_string gen' @ ''/'' @ hex_fixed 32 req'"
    using eq assms(2,3) by (subst (asm) append_eq_append_conv) auto
  then have d: "digest = digest'" and rest: "dec_string gen @ (''/'' @ hex_fixed 32 req) = dec_string gen' @ (''/'' @ hex_fixed 32 req')"
    by auto
  have "dec_string gen = dec_string gen' \<and> ''/'' @ hex_fixed 32 req = ''/'' @ hex_fixed 32 req'"
    using rest by (subst (asm) append_eq_append_conv) auto
  then have "gen = gen'" "hex_fixed 32 req = hex_fixed 32 req'" using dec_string_inj [OF assms(4,5)] by auto
  then show ?thesis using d hex_fixed_inj [of req 32 req'] assms(6,7) by simp
qed

subsection \<open>Placements\<close>

text \<open>What a placement leaves in a store: the old files, or the files with the new fragment.\<close>

definition placed :: "deps \<Rightarrow> fragment_key \<Rightarrow> bytes \<Rightarrow> fragment_store \<Rightarrow> fragment_store \<Rightarrow> bool" where
  "placed D key data st st' \<longleftrightarrow>
     fs_files st' = AList.update (fragment_path key) (file_image data (crc32c D data)) (fs_files st)"

lemma store_fragment_placed:
  assumes "store_fragment io (fragment_record_new D key data) st = (res, st')"
  shows "placed D key data st st' \<or> (res \<noteq> Inr () \<and> fs_files st' = fs_files st)"
  using assms unfolding placed_def
  by (auto simp: store_fragment_def store_begin_def store_finish_def reserve_def fragment_record_new_def Let_def
      split: if_splits write_outcome.splits)

lemma concat_body_chunks: "concat (body_chunks cuts body) = body"
  by (induction cuts body rule: body_chunks.induct) auto

lemma writer_append_files:
  "writer_append io shard w st = (res, w', st') \<Longrightarrow> fs_files st' = fs_files st \<and> fw_path w' = fw_path w \<and>
     (res = Inr () \<longrightarrow> fw_tmp w' = fw_tmp w @ shard \<and> fw_data w' = fw_data w @ shard)"
  by (auto simp: writer_append_def reserve_def release_def Let_def split: if_splits option.splits)

lemma append_shards_files:
  "append_shards io shards w st = (res, st') \<Longrightarrow> fs_files st' = fs_files st \<and>
     (\<forall>w'. res = Inr w' \<longrightarrow> fw_path w' = fw_path w \<and> fw_tmp w' = fw_tmp w @ concat shards \<and> fw_data w' = fw_data w @ concat shards)"
proof (induction shards arbitrary: w st)
  case (Cons shard shards)
  obtain x w1 st1 where a: "writer_append io shard w st = (x, w1, st1)" by (cases "writer_append io shard w st") auto
  note f = writer_append_files [OF a]
  show ?case
  proof (cases "\<exists>e. x = Inl e")
    case True
    then show ?thesis using Cons.prems a f by (auto simp: writer_drop_def release_def)
  next
    case False
    then have "x = Inr ()" by (cases x) auto
    then have rest: "append_shards io shards w1 st1 = (res, st')" using Cons.prems a by simp
    have f': "fs_files st1 = fs_files st" "fw_path w1 = fw_path w" "fw_tmp w1 = fw_tmp w @ shard" "fw_data w1 = fw_data w @ shard"
      using f \<open>x = Inr ()\<close> by blast+
    note ih = Cons.IH [OF rest]
    show ?thesis
    proof (intro conjI allI impI)
      show "fs_files st' = fs_files st" using conjunct1 [OF ih] f'(1) by (rule trans)
      fix w' assume "res = Inr w'"
      then have "fw_path w' = fw_path w1 \<and> fw_tmp w' = fw_tmp w1 @ concat shards \<and> fw_data w' = fw_data w1 @ concat shards"
        using ih by blast
      then show "fw_path w' = fw_path w" "fw_tmp w' = fw_tmp w @ concat (shard # shards)" "fw_data w' = fw_data w @ concat (shard # shards)"
        unfolding f' by simp_all
    qed
  qed
qed auto

lemma stream_placed:
  assumes "stream_into_store D io key shards st = (res, st')" "concat shards = data"
  shows "placed D key data st st' \<or> (res \<noteq> Inr () \<and> fs_files st' = fs_files st)"
proof (cases "open_fragment io key")
  case (Inl e)
  then show ?thesis using assms by (auto simp: stream_into_store_def)
next
  case (Inr w)
  then have w: "fw_path w = fragment_path key" "fw_tmp w = []" "fw_data w = []"
    by (auto simp: open_fragment_def split: if_splits)
  obtain x st1 where a: "append_shards io shards w st = (x, st1)" by (cases "append_shards io shards w st")
  note f = append_shards_files [OF a]
  show ?thesis
  proof (cases x)
    case (Inl e)
    then show ?thesis using assms Inr a f by (auto simp: stream_into_store_def)
  next
    case x: (Inr w')
    then have "writer_commit D io w' st1 = (res, st')" using assms Inr a by (simp add: stream_into_store_def)
    then show ?thesis
      using f x w assms(2)
      by (auto simp: writer_commit_def placed_def writer_drop_def release_def Let_def split: write_outcome.splits)
  qed
qed

lemma peer_place_effect:
  assumes "peer_place D self_id f node (fragment_record_new D key data) net = (res, net')"
  shows "(\<forall>n. n \<noteq> node \<longrightarrow> net' n = net n) \<and>
    (placed D key data (net node) (net' node) \<or> (res \<noteq> Inr () \<and> fs_files (net' node) = fs_files (net node)))"
proof (cases "node = self_id")
  case True
  obtain x st where x: "store_fragment (rf_io f node) (fragment_record_new D key data) (net node) = (x, st)" by fastforce
  then show ?thesis using assms True store_fragment_placed [OF x] by (cases x) (auto simp: peer_place_def)
next
  case False
  obtain x st where x: "stream_into_store D (rf_io f node) key (body_chunks (rf_cuts f node) data) (net node) = (x, st)" by fastforce
  show ?thesis
  proof (cases "rf_place f node = Lost")
    case True
    then show ?thesis using assms False by (auto simp: peer_place_def)
  next
    case lost: False
    then have "net' = net(node := st)" "res = (if rf_place f node = Answered then map_err (\<lambda>_. ()) x else Inl ())"
      using assms False x by (cases "rf_place f node"; simp add: peer_place_def fragment_record_new_def)+
    then show ?thesis using stream_placed [OF x concat_body_chunks] by (cases x) (auto split: if_splits)
  qed
qed

lemma placed_load:
  assumes "placed D key data st st'" "digest_ok D" "fi_readable io"
  shows "load_fragment io key st' = Inr (Some \<lparr> lf_bytes = data, lf_checksum = crc32c D data \<rparr>)"
proof -
  have "crc32c D data < 256 ^ 4" using assms(2) by (simp add: digest_ok_def)
  then show ?thesis
    using assms by (simp add: load_fragment_def placed_def update_conv split_trailer_def file_image_def)
qed

lemma placed_frame:
  assumes "placed D key data st st' \<or> fs_files st' = fs_files st" "key_ok key" "key_ok other" "other \<noteq> key"
  shows "load_fragment io other st' = load_fragment io other st"
  using assms fragment_path_inj by (auto simp: load_fragment_def placed_def update_conv)

subsection \<open>The ring keeps the transport contract\<close>

definition ring_ok :: "deps \<Rightarrow> payload_peers \<Rightarrow> bool" where
  "ring_ok D peers \<longleftrightarrow> digest_ok D \<and> hex_ok D \<and> dom (pp_slots peers) \<subseteq> dom (pp_nodes peers) \<and> inj_on (pp_nodes peers) (dom (pp_nodes peers))
     \<and> (\<forall>v slot. pp_slots peers v = Some slot \<longrightarrow> slot < u64_bound)"

definition ring_slot :: "deps \<Rightarrow> payload_peers \<Rightarrow> node_id \<Rightarrow> nat option" where
  "ring_slot D peers v = (if ring_ok D peers then pp_slots peers v else None)"

definition ring_up :: "string \<Rightarrow> payload_peers \<Rightarrow> ring_faults \<Rightarrow> node_id \<Rightarrow> bool" where
  "ring_up self_id peers f v \<longleftrightarrow>
     (case pp_nodes peers v of None \<Rightarrow> False | Some node \<Rightarrow> (node = self_id \<or> rf_load f node) \<and> fi_readable (rf_io f node))"

definition readable_io :: fragment_io where
  "readable_io = \<lparr> fi_parent = True, fi_write = Written, fi_readable = True, fi_removed = True, fi_partial = (\<lambda>_. False), fi_torn = None \<rparr>"

definition ring_content :: "deps \<Rightarrow> payload_peers \<Rightarrow> string \<Rightarrow> ring_net \<Rightarrow> node_id \<Rightarrow> allocation \<Rightarrow> payload_error + payload_representation option" where
  "ring_content D peers grp net v a =
     (case (pp_nodes peers v, pp_slots peers v, a) of
        (Some node, Some slot, (digest, gen, req)) \<Rightarrow>
          and_then (map_err (\<lambda>_. Transport ''load'') (load_fragment readable_io (consensus_fragment_key D digest grp gen req slot) (net node)))
            (\<lambda>loaded. case loaded of None \<Rightarrow> Inr None | Some l \<Rightarrow> and_then (decode_representation D digest l) (\<lambda>r. Inr (Some r)))
      | _ \<Rightarrow> Inr None)"

text \<open>A placement succeeds when its request and its file operations do and the ceiling leaves room.\<close>

definition ring_room :: "string \<Rightarrow> payload_peers \<Rightarrow> ring_faults \<Rightarrow> ring_net \<Rightarrow> node_id \<Rightarrow> payload_representation \<Rightarrow> bool" where
  "ring_room self_id peers f net v r \<longleftrightarrow>
     (case pp_nodes peers v of
        None \<Rightarrow> False
      | Some node \<Rightarrow>
          (node = self_id \<or> rf_place f node = Answered) \<and> fi_parent (rf_io f node) \<and> fi_torn (rf_io f node) = None \<and>
          fi_write (rf_io f node) = Written \<and> live_bytes (fs_files (net node)) \<le> fs_used (net node) \<and>
          fs_used (net node) + length (ring_rep_bytes r) \<le> fs_ceiling (net node) \<and> fs_ceiling (net node) < u64_bound)"

lemma map_err_map_err [simp]: "map_err f (map_err g m) = map_err (\<lambda>e. f (g e)) m"
  by (cases m) auto

lemma load_fragment_readable: "fi_readable io \<Longrightarrow> fi_readable io' \<Longrightarrow> load_fragment io key st = load_fragment io' key st"
  by (simp add: load_fragment_def split: option.splits)

lemma ring_load_up:
  assumes "ring_slot D peers v \<noteq> None" "ring_up self_id peers f v"
  shows "ring_load D self_id peers f v digest grp gen req net = ring_content D peers grp net v (digest, gen, req)"
proof -
  obtain node slot where n: "pp_nodes peers v = Some node" "pp_slots peers v = Some slot"
    using assms by (auto simp: ring_slot_def ring_up_def split: if_splits option.splits)
  then have up: "node = self_id \<or> rf_load f node" "fi_readable (rf_io f node)" using assms(2) by (auto simp: ring_up_def)
  have "load_fragment (rf_io f node) key (net node) = load_fragment readable_io key (net node)" for key
    using up(2) by (intro load_fragment_readable) (simp_all add: readable_io_def)
  then show ?thesis using up(1) n by (simp add: ring_load_def ring_content_def peer_load_def)
qed

lemma ring_load_down:
  assumes "ring_slot D peers v \<noteq> None" "\<not> ring_up self_id peers f v"
  shows "missing (ring_load D self_id peers f v digest grp gen req net)"
proof -
  obtain node slot where n: "pp_nodes peers v = Some node" "pp_slots peers v = Some slot"
    using assms(1) by (fastforce simp: ring_slot_def ring_ok_def split: if_splits)
  then show ?thesis
    using assms(2)
    by (auto simp: ring_load_def ring_up_def peer_load_def load_fragment_def missing_def is_transport_def split: option.splits)
qed

lemma ring_store_place:
  assumes "ring_slot D peers v \<noteq> None" "ring_store D self_id peers f v r net = (res, net')"
  obtains node x where "pp_nodes peers v = Some node" "res = map_err (\<lambda>_. Transport ''place'') x"
    "peer_place D self_id f node (fragment_record_new D
       (consensus_fragment_key D (rep_hash r) (rep_group r) (rep_generation r) (rep_request r) (rep_slot r)) (ring_rep_bytes r)) net = (x, net')"
proof -
  obtain node where "pp_nodes peers v = Some node"
    using assms(1) by (fastforce simp: ring_slot_def ring_ok_def split: if_splits)
  then show ?thesis using that assms(2) by (auto simp: ring_store_def split: prod.splits)
qed

lemma ring_store_effect:
  assumes "ring_slot D peers v = Some (rep_slot r)" "rep_wf r" "rep_group r = grp" "ring_store D self_id peers f v r net = (res, net')"
  shows "ring_content D peers grp net' v (alloc r) = Inr (Some r) \<or>
    (res \<noteq> Inr () \<and> ring_content D peers grp net' v (alloc r) = ring_content D peers grp net v (alloc r))"
proof -
  have ok: "digest_ok D" "pp_slots peers v = Some (rep_slot r)"
    using assms(1) by (auto simp: ring_slot_def ring_ok_def split: if_splits)
  obtain node x where n: "pp_nodes peers v = Some node" "res = map_err (\<lambda>_. Transport ''place'') x"
    and p: "peer_place D self_id f node (fragment_record_new D
       (consensus_fragment_key D (rep_hash r) (rep_group r) (rep_generation r) (rep_request r) (rep_slot r)) (ring_rep_bytes r)) net = (x, net')"
    by (rule ring_store_place [OF _ assms(4)]) (use assms(1) in simp)
  from peer_place_effect [OF p] show ?thesis
  proof (elim conjE disjE)
    assume "placed D (consensus_fragment_key D (rep_hash r) (rep_group r) (rep_generation r) (rep_request r) (rep_slot r))
        (ring_rep_bytes r) (net node) (net' node)"
    from placed_load [OF this ok(1), of readable_io]
    show ?thesis
      using n(1) ok(2) assms(3) decode_representation_bytes [OF assms(2), of D]
      by (simp add: ring_content_def alloc_def readable_io_def)
  next
    assume "x \<noteq> Inr ()" "fs_files (net' node) = fs_files (net node)"
    then show ?thesis
      using n ok(2) by (cases x) (simp_all add: ring_content_def alloc_def load_fragment_def)
  qed
qed

lemma ring_store_frame:
  assumes "ring_slot D peers v = Some (rep_slot r)" "rep_wf r" "rep_group r = grp" "ring_store D self_id peers f v r net = (res, net')"
    "ring_slot D peers v' \<noteq> None" "alloc_ok a" "(v', a) \<noteq> (v, alloc r)"
  shows "ring_content D peers grp net' v' a = ring_content D peers grp net v' a"
proof -
  have ok: "hex_ok D" "pp_slots peers v = Some (rep_slot r)" "inj_on (pp_nodes peers) (dom (pp_nodes peers))"
    using assms(1) by (auto simp: ring_slot_def ring_ok_def split: if_splits)
  obtain node x where n: "pp_nodes peers v = Some node" and res: "res = map_err (\<lambda>_. Transport ''place'') x"
    and p: "peer_place D self_id f node (fragment_record_new D
       (consensus_fragment_key D (rep_hash r) (rep_group r) (rep_generation r) (rep_request r) (rep_slot r)) (ring_rep_bytes r)) net = (x, net')"
    by (rule ring_store_place [OF _ assms(4)]) (use assms(1) in simp)
  obtain node' slot' where n': "pp_nodes peers v' = Some node'" "pp_slots peers v' = Some slot'" "slot' < u64_bound"
    using assms(5) by (fastforce simp: ring_slot_def ring_ok_def split: if_splits)
  obtain digest gen req where a: "a = (digest, gen, req)" by (cases a)
  note e = peer_place_effect [OF p]
  have "load_fragment readable_io (consensus_fragment_key D digest grp gen req slot') (net' node') =
      load_fragment readable_io (consensus_fragment_key D digest grp gen req slot') (net node')"
  proof (cases "v' = v")
    case True
    then have same: "node' = node" "slot' = rep_slot r" using n n' ok(2) by simp_all
    have other: "(digest, gen, req) \<noteq> (rep_hash r, rep_generation r, rep_request r)" using assms(7) True a by (simp add: alloc_def)
    have "consensus_fragment_key D digest grp gen req slot' \<noteq>
        consensus_fragment_key D (rep_hash r) grp (rep_generation r) (rep_request r) slot'"
    proof
      assume eq: "consensus_fragment_key D digest grp gen req slot' = consensus_fragment_key D (rep_hash r) grp (rep_generation r) (rep_request r) slot'"
      have "(digest, gen, req) = (rep_hash r, rep_generation r, rep_request r)"
        by (rule consensus_key_inj [OF ok(1) _ _ _ _ _ _ eq]) (use assms(2,6) in \<open>simp_all add: a alloc_ok_def rep_wf_def\<close>)
      then show False using other by simp
    qed
    then show ?thesis
      using placed_frame e consensus_key_ok [OF ok(1) n'(3)] assms(3) unfolding same by blast
  next
    case False
    then have "node' \<noteq> node" using ok(3) n n' by (metis domI inj_onD)
    then show ?thesis using e by simp
  qed
  then show ?thesis using n' by (simp add: ring_content_def a)
qed

lemma ring_content_wf: "ring_content D peers grp net v a = Inr (Some r) \<Longrightarrow> rep_wf r"
  by (auto simp: ring_content_def dest: decode_representation_wf split: option.splits prod.splits)

text \<open>A placement for which there is room succeeds.\<close>

lemma store_fragment_room:
  assumes "fi_parent io" "fi_write io = Written" "live_bytes (fs_files st) \<le> fs_used st"
    "fs_used st + length data \<le> fs_ceiling st" "fs_ceiling st < u64_bound"
  shows "fst (store_fragment io (fragment_record_new D key data) st) = Inr ()"
proof -
  let ?ex = "file_len (fs_files st) (fragment_path key)"
  have ex: "?ex \<le> fs_used st" using file_len_le [of "fs_files st" "fragment_path key"] assms(3) by simp
  have "fetch_sub (fs_used st) ?ex = fs_used st - ?ex" using ex assms by (intro fetch_sub_exact) auto
  then show ?thesis
    using assms ex
    by (simp add: store_fragment_def store_begin_def store_finish_def reserve_def fragment_record_new_def Let_def
        fragment_len_by_path_eq saturating_add_def min_def) linarith
qed

lemma append_shards_room:
  assumes "fi_torn io = None" "fs_used st + length (concat shards) \<le> fs_ceiling st" "fs_ceiling st < u64_bound"
  shows "\<exists>w' st'. append_shards io shards w st = (Inr w', st')"
  using assms
proof (induction shards arbitrary: w st)
  case (Cons shard shards)
  let ?w = "w\<lparr>fw_tmp := fw_tmp w @ shard, fw_data := fw_data w @ shard, fw_written := fw_written w + length shard\<rparr>"
  let ?st = "st\<lparr>fs_used := fs_used st + length shard\<rparr>"
  have "writer_append io shard w st = (Inr (), ?w, ?st)"
    using Cons.prems by (simp add: writer_append_def reserve_def Let_def saturating_add_def min_def)
  moreover have "\<exists>w' st'. append_shards io shards ?w ?st = (Inr w', st')"
    using Cons.prems by (intro Cons.IH) auto
  ultimately show ?case by simp
qed simp

lemma stream_room:
  assumes "fi_parent io" "fi_torn io = None" "fi_write io = Written" "fs_used st + length (concat shards) \<le> fs_ceiling st"
    "fs_ceiling st < u64_bound"
  shows "fst (stream_into_store D io key shards st) = Inr ()"
proof -
  obtain w where w: "open_fragment io key = Inr w" using assms(1) by (simp add: open_fragment_def)
  obtain w' st' where "append_shards io shards w st = (Inr w', st')" using append_shards_room [OF assms(2,4,5)] by blast
  then show ?thesis using w assms(3) by (simp add: stream_into_store_def writer_commit_def Let_def)
qed

lemma ring_store_room:
  assumes "ring_room self_id peers f net v r"
  shows "\<exists>net'. ring_store D self_id peers f v r net = (Inr (), net')"
proof -
  obtain node where n: "pp_nodes peers v = Some node" and io: "node = self_id \<or> rf_place f node = Answered"
      "fi_parent (rf_io f node)" "fi_torn (rf_io f node) = None" "fi_write (rf_io f node) = Written"
      "live_bytes (fs_files (net node)) \<le> fs_used (net node)"
      "fs_used (net node) + length (ring_rep_bytes r) \<le> fs_ceiling (net node)" "fs_ceiling (net node) < u64_bound"
    using assms by (auto simp: ring_room_def split: option.splits)
  let ?key = "consensus_fragment_key D (rep_hash r) (rep_group r) (rep_generation r) (rep_request r) (rep_slot r)"
  have "fst (peer_place D self_id f node (fragment_record_new D ?key (ring_rep_bytes r)) net) = Inr ()"
    using store_fragment_room [OF io(2,4-7), of D ?key] io(1)
      stream_room [OF io(2-4), of "net node" "body_chunks (rf_cuts f node) (ring_rep_bytes r)" D ?key] io(6,7)
    by (auto simp: peer_place_def concat_body_chunks fragment_record_new_def split: prod.splits)
  then show ?thesis using n by (auto simp: ring_store_def split: prod.splits)
qed

lemma ring_room_frame:
  assumes "ring_slot D peers v \<noteq> None" "ring_slot D peers v' \<noteq> None" "v \<noteq> v'" "ring_store D self_id peers f v r net = (res, net')"
  shows "ring_room self_id peers f net' v' r' = ring_room self_id peers f net v' r'"
proof -
  obtain node x where n: "pp_nodes peers v = Some node" and res: "res = map_err (\<lambda>_. Transport ''place'') x"
    and p: "peer_place D self_id f node (fragment_record_new D
       (consensus_fragment_key D (rep_hash r) (rep_group r) (rep_generation r) (rep_request r) (rep_slot r)) (ring_rep_bytes r)) net = (x, net')"
    by (rule ring_store_place [OF assms(1,4)])
  obtain node' where n': "pp_nodes peers v' = Some node'"
    using assms(2) by (fastforce simp: ring_slot_def ring_ok_def split: if_splits)
  have "inj_on (pp_nodes peers) (dom (pp_nodes peers))" using assms(1) by (auto simp: ring_slot_def ring_ok_def split: if_splits)
  then have "node' \<noteq> node" using n n' assms(3) by (metis domI inj_onD)
  then have "net' node' = net node'" using peer_place_effect [OF p] by simp
  then show ?thesis using n' by (simp add: ring_room_def)
qed

lemma ring_store_error:
  assumes "ring_slot D peers v \<noteq> None" "ring_store D self_id peers f v r net = (Inl e, net')"
  shows "is_transport e"
proof -
  obtain node x where "pp_nodes peers v = Some node" and res: "Inl e = map_err (\<lambda>_. Transport ''place'') x"
    and "peer_place D self_id f node (fragment_record_new D
       (consensus_fragment_key D (rep_hash r) (rep_group r) (rep_generation r) (rep_request r) (rep_slot r)) (ring_rep_bytes r)) net = (x, net')"
    by (rule ring_store_place [OF assms])
  then show ?thesis by (cases x) (simp_all add: is_transport_def)
qed

lemma ring_transport_ops [simp]:
  "tr_store (ring_transport D self_id peers) = ring_store D self_id peers"
  "tr_load (ring_transport D self_id peers) = ring_load D self_id peers"
  "tr_delete (ring_transport D self_id peers) = ring_delete D self_id peers"
  by (simp_all add: ring_transport_def)

lemmas ring_laws = ring_load_up ring_load_down ring_store_effect ring_store_frame ring_store_error ring_store_room
  ring_room_frame ring_content_wf

interpretation ring: representation_transport "ring_transport D self_id peers" "ring_up self_id peers" "ring_room self_id peers"
    "ring_content D peers grp" "ring_slot D peers" grp for D self_id peers grp
  by unfold_locales (unfold ring_transport_ops, (rule ring_laws; assumption)+)

end
