(* ===== verification/Ring_Properties.thy ===== *)
theory Ring_Properties
  imports Ring_Transport
begin

section \<open>Durability of consensus payloads on the ring\<close>

text \<open>
  What the distributed payload store of \<open>crates/verglas-consensus/src/payload.rs\<close> guarantees over
  the ring transport of \<open>bins/cache-node/src/ring.rs\<close>: staged payloads survive the loss of any
  minority, reads return only bodies with the committed digest, the slots of the peers agree with the
  voter order, and what a retry under another replication mode does to a committed payload.
\<close>

subsection \<open>Properties\<close>

lemma ring_room_seal [simp]:
  "ring_room self_id peers f net v (r\<lparr>rep_term := t, rep_index := i\<rparr>) = ring_room self_id peers f net v r"
proof -
  have "length (ring_rep_bytes (r\<lparr>rep_term := t, rep_index := i\<rparr>)) = length (ring_rep_bytes r)" by (simp add: ring_rep_bytes_def)
  then show ?thesis by (simp only: ring_room_def)
qed

text \<open>Room to rewrite a held record is room to rewrite it with a committed position.\<close>

lemma held_room:
  assumes "ring.held D peers grp D c gen req body (t, i) net" "v \<in> set (pc_holders c)" "part_of D c grp gen req body (t, i) v r"
    and "\<And>r. ring_content D peers grp net v (sha256 D body, gen, req) = Inr (Some r) \<Longrightarrow> ring_room self_id peers f net v r"
  shows "ring_room self_id peers f net v r"
proof -
  obtain r0 where r0: "ring_content D peers grp net v (sha256 D body, gen, req) = Inr (Some r0)"
      "part_of D c grp gen req body (0, 0) v r0 \<or> part_of D c grp gen req body (t, i) v r0"
    using assms(1,2) by (auto simp: ring.held_def)
  then have "ring_room self_id peers f net v r0" using assms(4) by blast
  moreover have "r = r0\<lparr>rep_term := t, rep_index := i\<rparr>" using r0(2) assms(3) by (auto simp: part_of_def dist_rep_def)
  ultimately show ?thesis by simp
qed


subsection \<open>A three-node ring\<close>

definition ex_peers :: payload_peers where
  "ex_peers = \<lparr> pp_nodes = [1 \<mapsto> ''a'', 2 \<mapsto> ''b'', 3 \<mapsto> ''c''], pp_slots = [1 \<mapsto> 0, 2 \<mapsto> 1, 3 \<mapsto> 2] \<rparr>"

definition ex_faults :: "string set \<Rightarrow> ring_faults" where
  "ex_faults down = \<lparr> rf_place = (\<lambda>n. if n \<in> down then Lost else Answered), rf_load = (\<lambda>n. n \<notin> down),
     rf_delete = (\<lambda>n. if n \<in> down then Lost else Answered), rf_io = (\<lambda>_. readable_io), rf_cuts = (\<lambda>_. [10]) \<rparr>"

definition ex_env :: "string set \<Rightarrow> ring_faults call_env" where
  "ex_env down = \<lparr> ce_faults = ex_faults down, ce_rank = (\<lambda>v. 10 - v), ce_landed = (\<lambda>_. True) \<rparr>"

definition ex_dist :: distributed_store where
  "ex_dist = \<lparr> ds_k = 2, ds_m = 1, ds_voters = [1, 2, 3] \<rparr>"

definition ex_empty :: ring_net where
  "ex_empty = (\<lambda>_. with_dynamic_ceiling 20000 [])"

definition fresh_store :: "deps \<Rightarrow> fragment_key \<Rightarrow> bytes \<Rightarrow> fragment_store" where
  "fresh_store D key data =
     \<lparr> fs_ceiling = 20000, fs_used = length data, fs_files = [(fragment_path key, file_image data (crc32c D data))] \<rparr>"

lemma stream_fresh:
  assumes "length data \<le> 20000"
  shows "stream_into_store D readable_io key (body_chunks [10] data) (with_dynamic_ceiling 20000 []) = (Inr (), fresh_store D key data)"
proof -
  have "data = take 10 data @ drop 10 data" "length data = min (length data) 10 + (length data - 10)" by auto
  then show ?thesis
    using assms
    by (simp add: stream_into_store_def open_fragment_def readable_io_def writer_append_def reserve_def with_dynamic_ceiling_def
        saturating_add_def writer_commit_def fragment_len_by_path_eq file_len_def fresh_store_def fetch_sub_def Let_def min_def)
qed

lemma local_fresh:
  assumes "length data \<le> 20000"
  shows "store_fragment readable_io (fragment_record_new D key data) (with_dynamic_ceiling 20000 []) = (Inr (), fresh_store D key data)"
  using assms
  by (simp add: store_fragment_def store_begin_def store_finish_def readable_io_def reserve_def with_dynamic_ceiling_def
      saturating_add_def fragment_len_by_path_eq file_len_def fresh_store_def fragment_record_new_def Let_def min_def)

lemma ex_ring_store:
  assumes "length (ring_rep_bytes r) \<le> 20000" "pp_nodes ex_peers v = Some node" "node \<notin> down \<or> node = ''a''"
    "net node = with_dynamic_ceiling 20000 []"
  shows "ring_store D ''a'' ex_peers (ex_faults down) v r net =
    (Inr (), net(node := fresh_store D (consensus_fragment_key D (rep_hash r) (rep_group r) (rep_generation r) (rep_request r) (rep_slot r))
       (ring_rep_bytes r)))"
  using assms local_fresh [OF assms(1)] stream_fresh [OF assms(1)]
  by (auto simp: ring_store_def peer_place_def ex_faults_def fragment_record_new_def)

definition ex_reps :: "bytes list" where
  "ex_reps = [[1, 2], [3, 0], [2, 2]]"

definition ex_rep :: "nat \<Rightarrow> payload_representation" where
  "ex_rep slot = dist_rep xor_deps 7 ''g'' 1 Coded (sha256 xor_deps [1, 2, 3]) 3 ex_reps slot"

definition ex_node_store :: "nat \<Rightarrow> fragment_store" where
  "ex_node_store slot = fresh_store xor_deps (consensus_fragment_key xor_deps (sha256 xor_deps [1, 2, 3]) ''g'' 1 7 slot) (ring_rep_bytes (ex_rep slot))"

definition ex_net :: ring_net where
  "ex_net = ex_empty(''c'' := ex_node_store 2, ''b'' := ex_node_store 1, ''a'' := ex_node_store 0)"

definition ex_staged :: staged_payload where
  "ex_staged = \<lparr> sp_hash = sha256 xor_deps [1, 2, 3], sp_length = 3,
     sp_certificate = \<lparr> pc_mode = Coded, pc_k = 2, pc_m = 1, pc_voters = [1, 2, 3], pc_holders = [1, 2, 3] \<rparr> \<rparr>"

lemma ex_rep_length: "length (ring_rep_bytes (ex_rep slot)) = 94 + length (ex_reps ! slot)"
  by (simp add: ring_rep_bytes_def ex_rep_def dist_rep_def xor_deps_sha)

lemma ex_stage: "dist_stage xor_deps (ring_transport xor_deps ''a'' ex_peers) (ex_env {}) 7 ''g'' 1 Coded [1, 2, 3] [] (ex_dist, ex_empty)
    = (Inr ex_staged, (ex_dist, ex_net))"
proof -
  let ?T = "ring_transport xor_deps ''a'' ex_peers" and ?f = "ex_faults {}"
  let ?rep = "voter_rep [1, 2, 3] (dist_rep xor_deps 7 ''g'' 1 Coded (sha256 xor_deps [1, 2, 3]) 3 ex_reps)"
  have enc: "staged_bytes xor_deps 2 1 Coded [1, 2, 3] [1, 2, 3] = Inr ex_reps"
    using ex_encode by (simp add: staged_bytes_def ex_reps_def)
  have order: "sort_key (\<lambda>v. 10 - v) (stage_order [1, 2, 3] []) = [3, 2, 1]"
    by (simp add: stage_order_def)
  have reps: "?rep 1 = Inr (ex_rep 0)" "?rep 2 = Inr (ex_rep 1)" "?rep 3 = Inr (ex_rep 2)"
    by (simp_all add: voter_rep_def ex_rep_def numeral_2_eq_2)
  have fields: "rep_hash (ex_rep n) = sha256 xor_deps [1, 2, 3]" "rep_group (ex_rep n) = ''g''" "rep_generation (ex_rep n) = 1"
      "rep_request (ex_rep n) = 7" "rep_slot (ex_rep n) = n" for n
    by (simp_all add: ex_rep_def dist_rep_def)
  have step: "store_rep ?T ?f v (Inr (ex_rep n)) net = (Inr (), net(node := ex_node_store n))"
    if "n < 3" "pp_nodes ex_peers v = Some node" "net node = with_dynamic_ceiling 20000 []" for v n node net
    using ex_ring_store [of "ex_rep n" v node "{}" net xor_deps] that ex_rep_length [of n]
    by (simp add: store_rep_def fields ex_node_store_def ex_reps_def less_Suc_eq numeral_3_eq_3) auto
  have nodes: "pp_nodes ex_peers 1 = Some ''a''" "pp_nodes ex_peers 2 = Some ''b''" "pp_nodes ex_peers 3 = Some ''c''"
    by (simp_all add: ex_peers_def)
  have faults: "ce_faults (ex_env {}) = ?f" by (simp add: ex_env_def)
  have "stage_loop ?T (ex_env {}) rep 3 [] [3, 2, 1] ex_empty = (Inr [3, 2, 1], ex_net)"
    if "rep 1 = Inr (ex_rep 0)" "rep 2 = Inr (ex_rep 1)" "rep 3 = Inr (ex_rep 2)" for rep
    using that step [OF _ nodes(3), of 2 ex_empty] step [OF _ nodes(2), of 1 "ex_empty(''c'' := ex_node_store 2)"]
      step [OF _ nodes(1), of 0 "ex_empty(''c'' := ex_node_store 2, ''b'' := ex_node_store 1)"]
    by (simp add: faults ex_net_def ex_empty_def del: One_nat_def)
  from this [OF reps] have loop: "stage_loop ?T (ex_env {}) ?rep 3 [] [3, 2, 1] ex_empty = (Inr [3, 2, 1], ex_net)" .
  have cert: "certificate_with_voters Coded 2 1 [1, 2, 3] [3, 2, 1] = Inr (sp_certificate ex_staged)"
    by (simp add: certificate_with_voters_def checked_add_def required_holders_def sort_dedup_def bs_of_list_def ex_staged_def Let_def)
  have dist: "ds_voters ex_dist = [1, 2, 3]" "ds_k ex_dist = 2" "ds_m ex_dist = 1" "length [1, 2, 3 :: byte] = 3"
      "length [1, 2, 3 :: nat] = 3" "stage_required Coded 2 3 = 3" "ce_rank (ex_env {}) = (\<lambda>v. 10 - v)"
    by (simp_all add: ex_dist_def stage_required_def ex_env_def)
  have result: "\<lparr> sp_hash = sha256 xor_deps [1, 2, 3], sp_length = 3, sp_certificate = sp_certificate ex_staged \<rparr> = ex_staged"
    by (simp add: ex_staged_def)
  show ?thesis
    by (simp only: dist_stage_def Let_def prod.case dist enc order loop cert sum.case result)
qed

lemma ex_ring_ok: "ring_ok xor_deps ex_peers"
  using xor_digest_ok xor_hex_ok
  by (auto simp: ring_ok_def ex_peers_def inj_on_def split: if_splits)

lemma ex_content:
  assumes "v \<in> {1, 2, 3}"
  shows "ring_content xor_deps ex_peers ''g'' ex_net v (sha256 xor_deps [1, 2, 3], 1, 7) = Inr (Some (ex_rep (v - 1)))"
proof -
  have rep: "rep_wf (ex_rep n)" "rep_hash (ex_rep n) = sha256 xor_deps [1, 2, 3]" if "n < 3" for n
    using that xor_digest_ok by (auto simp: ex_rep_def dist_rep_def rep_wf_def digest_ok_def is_str_def as_bytes_def)
  have "load_fragment readable_io (consensus_fragment_key xor_deps (sha256 xor_deps [1, 2, 3]) ''g'' 1 7 n) (ex_node_store n) =
      Inr (Some \<lparr> lf_bytes = ring_rep_bytes (ex_rep n), lf_checksum = crc32c xor_deps (ring_rep_bytes (ex_rep n)) \<rparr>)" for n
    by (rule placed_load [where st = "with_dynamic_ceiling 20000 []"])
      (simp_all add: placed_def ex_node_store_def fresh_store_def with_dynamic_ceiling_def xor_digest_ok readable_io_def)
  then show ?thesis
    using assms decode_representation_bytes [OF rep(1), of _ xor_deps] rep(2)
    by (auto simp: ring_content_def ex_peers_def ex_net_def)
qed


subsection \<open>Reads never return other bytes\<close>

text \<open>Whatever the peers' disks hold, and whatever the network does, a body the distributed store
  reconstructs has exactly the committed digest and length.\<close>

lemma reconstruct_authentic:
  "case dist_reconstruct D (ring_transport D self_id peers) env r s of
     Inl _ \<Rightarrow> True
   | Inr body \<Rightarrow> sha256 D body = rc_hash r \<and> length body = rc_length r"
  using dist_reconstruct_sound [of D "ring_transport D self_id peers" env r s] by (simp split: sum.splits)

subsection \<open>Voters and slots\<close>

lemma map_of_enumerate: "distinct xs \<Longrightarrow> map_of (map (\<lambda>(slot, v). (v, slot)) (enumerate n xs)) v = map_option (\<lambda>i. n + i) (position (\<lambda>x. x = v) xs)"
proof (induction xs arbitrary: n)
  case (Cons x xs)
  then show ?case by (cases "position (\<lambda>x. x = v) xs") auto
qed simp

text \<open>The slots every node derives from the peer list are the positions of the sorted voter ids,
  so all nodes agree on which shard a voter holds; and every voter is mapped to its own node, provided
  no two node names hash to one id.\<close>

lemma canonical_slots:
  assumes "distinct (map numeric_node_id peers)"
  shows "pp_slots (canonical_payload_peers peers) v = position (\<lambda>x. x = v) (canonical_voter_ids peers) \<and>
    distinct (canonical_voter_ids peers) \<and>
    (pp_nodes (canonical_payload_peers peers) v = Some node \<longleftrightarrow> node \<in> set peers \<and> numeric_node_id node = v) \<and>
    dom (pp_slots (canonical_payload_peers peers)) = dom (pp_nodes (canonical_payload_peers peers)) \<and>
    inj_on (pp_nodes (canonical_payload_peers peers)) (dom (pp_nodes (canonical_payload_peers peers)))"
proof -
  let ?P = "canonical_payload_peers peers" and ?vs = "canonical_voter_ids peers"
  have d: "distinct ?vs" using assms by (simp add: canonical_voter_ids_def)
  have "map fst (map (\<lambda>(slot, v). (v, slot)) (enumerate 0 ?vs)) = ?vs" by (simp add: comp_def case_prod_unfold)
  then have slots: "pp_slots ?P w = position (\<lambda>x. x = w) ?vs" for w
    using map_of_rev_distinct [of "map (\<lambda>(slot, v). (v, slot)) (enumerate 0 ?vs)"] map_of_enumerate [OF d, of 0 w] d
    by (simp add: canonical_payload_peers_def option.map_ident)
  have nodes: "pp_nodes ?P w = Some n \<longleftrightarrow> n \<in> set peers \<and> numeric_node_id n = w" for w n
    using assms by (auto simp: canonical_payload_peers_def comp_def rev_map [symmetric] map_of_eq_Some_iff)
  have "v \<in> dom (pp_slots ?P) \<longleftrightarrow> v \<in> set ?vs" for v using slots [of v] position_None [of "\<lambda>x. x = v" ?vs] by (auto simp: dom_def)
  moreover have "v \<in> dom (pp_nodes ?P) \<longleftrightarrow> v \<in> set ?vs" for v using nodes [of v] by (auto simp: dom_def canonical_voter_ids_def)
  ultimately have same: "dom (pp_slots ?P) = dom (pp_nodes ?P)" by blast
  have inj: "inj_on (pp_nodes ?P) (dom (pp_nodes ?P))"
  proof (rule inj_onI)
    fix a b assume "a \<in> dom (pp_nodes ?P)" "pp_nodes ?P a = pp_nodes ?P b"
    then obtain n where "pp_nodes ?P a = Some n" "pp_nodes ?P b = Some n" by (metis domD)
    then show "a = b" using nodes [of a n] nodes [of b n] by simp
  qed
  show ?thesis by (intro conjI slots d nodes same inj)
qed

lemma canonical_slots_witness:
  "pp_slots (canonical_payload_peers [''a'']) (numeric_node_id ''a'') = Some 0"
  using canonical_slots [of "[''a'']" "numeric_node_id ''a''" "''a''"] by (simp add: canonical_voter_ids_def)

subsection \<open>What blocks a read\<close>

lemma reconstruct_records_checked:
  "reconstruct_records r loaded = Inr records \<Longrightarrow> (v, Inr (Some x)) \<in> set loaded \<Longrightarrow>
     rep_mode x = pc_mode (rc_certificate r) \<and> rep_term x = rc_term r \<and> rep_index x = rc_index r"
proof (induction loaded arbitrary: records)
  case (Cons y loaded)
  obtain w result where y: "y = (w, result)" by (cases y)
  show ?case
  proof (cases "(v, Inr (Some x)) \<in> set loaded")
    case True
    then show ?thesis using Cons.IH Cons.prems(1) by (auto simp: y split: sum.splits option.splits if_splits)
  next
    case False
    then show ?thesis using Cons.prems by (auto simp: y split: if_splits)
  qed
qed simp

lemma seal_pending_checked:
  "seal_pending q loaded = Inr out \<Longrightarrow> (v, Inr (Some x)) \<in> set loaded \<Longrightarrow> rep_mode x = pc_mode (sl_certificate q)"
proof (induction loaded arbitrary: out)
  case (Cons y loaded)
  obtain w result where y: "y = (w, result)" by (cases y)
  show ?case
  proof (cases "(v, Inr (Some x)) \<in> set loaded")
    case True
    then show ?thesis using Cons.IH Cons.prems(1) by (auto simp: y split: sum.splits option.splits if_splits)
  next
    case False
    then show ?thesis using Cons.prems by (auto simp: y split: if_splits)
  qed
qed simp

lemma loaded_up:
  assumes "ring_slot D peers v \<noteq> None" "ring_up self_id peers (ce_faults env) v" "v \<in> set holders"
    "ring_content D peers grp net v (digest, gen, req) = Inr (Some x)"
  shows "(v, Inr (Some x)) \<in> set (load_holders (ring_transport D self_id peers) (ce_faults env) digest grp gen req holders net)"
  using ring_load_up [OF assms(1,2)] assms(3,4) by (force simp: load_holders_def)

text \<open>
  A retry of a committed command under the other replication mode. Staging a body again as complete
  copies, under the request identity of an entry that was committed with coded shards, replaces the
  shards under the same fragment keys. The log keeps the coded certificate, so every later attempt to
  seal or read the entry that reaches one of the new holders is refused.
\<close>

lemma complete_retry_blocks_coded_entry:
  assumes stage: "dist_stage D (ring_transport D self0 peers) env0 req grp gen Complete body candidates (st, net) = (Inr staged, (st', net1))"
    and ring: "ring_ok D peers" "\<forall>v \<in> set (ds_voters st). pp_slots peers v = position (\<lambda>x. x = v) (ds_voters st)"
    and sizes: "is_str grp" "length grp < u32_bound" "gen < u64_bound" "req < u128_bound" "length body < u64_bound"
      "length (ds_voters st) < u64_bound"
    and committed: "pc_mode c = Coded" "v \<in> set (pc_holders c)"
    and reached: "v \<in> set (pc_holders (sp_certificate staged))" "ring_up self1 peers (ce_faults env1) v"
  shows "\<exists>e. fst (dist_seal (ring_transport D self1 peers) env1
        \<lparr> sl_hash = sha256 D body, sl_group = grp, sl_generation = gen, sl_request = req, sl_term = t, sl_index = i, sl_certificate = c \<rparr>
        (st', net1)) = Inl e"
    and "\<exists>e. dist_reconstruct D (ring_transport D self1 peers) env1
        \<lparr> rc_hash = sha256 D body, rc_group = grp, rc_generation = gen, rc_request = req, rc_length = length body,
          rc_term = t, rc_index = i, rc_certificate = c \<rparr> (st', net1) = Inl e"
proof -
  let ?loaded = "load_holders (ring_transport D self1 peers) (ce_faults env1) (sha256 D body) grp gen req (pc_holders c) net1"
  have slots: "ring.slots_agree D peers (ds_voters st)" using ring by (auto simp: ring.slots_agree_def ring_slot_def)
  have "ring.sized grp D gen req body" using ring(1) sizes by (auto simp: ring.sized_def ring_ok_def)
  note staged = ring.stage_held [OF this slots sizes(6) stage, of "(0, 0)"]
  then have held: "ring.held D peers grp D (sp_certificate staged) gen req body (0, 0) net1" and mode: "pc_mode (sp_certificate staged) = Complete"
    by simp_all
  obtain x where x: "ring_content D peers grp net1 v (sha256 D body, gen, req) = Inr (Some x)"
      "part_of D (sp_certificate staged) grp gen req body (0, 0) v x"
    using held reached(1) by (auto simp: ring.held_def)
  have "ring_slot D peers v \<noteq> None" using ring.holder_slot held reached(1) by (auto simp: ring.held_def)
  then have member: "(v, Inr (Some x)) \<in> set ?loaded" using loaded_up reached(2) committed(2) x(1) by blast
  have wrong: "rep_mode x \<noteq> pc_mode c" using part_of_fields(6) [OF x(2)] mode committed(1) by simp
  have "\<nexists>out. seal_pending \<lparr> sl_hash = sha256 D body, sl_group = grp, sl_generation = gen, sl_request = req, sl_term = t, sl_index = i,
      sl_certificate = c \<rparr> ?loaded = Inr out"
    using seal_pending_checked [OF _ member] wrong by fastforce
  then show "\<exists>e. fst (dist_seal (ring_transport D self1 peers) env1
        \<lparr> sl_hash = sha256 D body, sl_group = grp, sl_generation = gen, sl_request = req, sl_term = t, sl_index = i, sl_certificate = c \<rparr>
        (st', net1)) = Inl e"
    by (auto simp: dist_seal_def Let_def split: sum.splits)
  have "\<nexists>records. reconstruct_records \<lparr> rc_hash = sha256 D body, rc_group = grp, rc_generation = gen, rc_request = req,
      rc_length = length body, rc_term = t, rc_index = i, rc_certificate = c \<rparr> ?loaded = Inr records"
    using reconstruct_records_checked [OF _ member] wrong by fastforce
  then show "\<exists>e. dist_reconstruct D (ring_transport D self1 peers) env1
        \<lparr> rc_hash = sha256 D body, rc_group = grp, rc_generation = gen, rc_request = req, rc_length = length body,
          rc_term = t, rc_index = i, rc_certificate = c \<rparr> (st', net1) = Inl e"
    by (cases "reconstruct_records \<lparr> rc_hash = sha256 D body, rc_group = grp, rc_generation = gen, rc_request = req,
      rc_length = length body, rc_term = t, rc_index = i, rc_certificate = c \<rparr> ?loaded") (auto simp: dist_reconstruct_def Let_def)
qed

text \<open>
  Sealing tolerates a holder it cannot reach, but a later read that does reach this holder finds it
  unsealed and is refused, although enough sealed records exist.
\<close>

lemma unsealed_holder_blocks_read:
  assumes "ring_slot D peers v \<noteq> None" "ring_up self_id peers (ce_faults env) v" "v \<in> set (pc_holders (rc_certificate r))"
    "ring_content D peers (rc_group r) net v (rc_hash r, rc_generation r, rc_request r) = Inr (Some x)" "rep_term x = 0" "0 < rc_term r"
  shows "\<exists>e. dist_reconstruct D (ring_transport D self_id peers) env r (st, net) = Inl e"
proof -
  let ?loaded = "load_holders (ring_transport D self_id peers) (ce_faults env) (rc_hash r) (rc_group r) (rc_generation r) (rc_request r)
    (pc_holders (rc_certificate r)) net"
  have "\<nexists>records. reconstruct_records r ?loaded = Inr records"
    using reconstruct_records_checked [OF _ loaded_up [OF assms(1-4)]] assms(5,6) by fastforce
  then show ?thesis by (cases "reconstruct_records r ?loaded") (auto simp: dist_reconstruct_def Let_def)
qed

end
