(* ===== verification/Group_Examples.thy ===== *)
theory Group_Examples
  imports Group_Commit Ring_Properties
begin

text \<open>
  A concrete group: three ring nodes, a Raft core that commits every write at the next index, and two
  runs of it. The first commits a body that is too large to be inlined, with both other nodes lost
  while it is sealed. The second binds an archive bucket, opens a timeline, takes the writer lease and
  appends twice.
\<close>

type_synonym ring_session = "(distributed_store \<times> ring_net, ring_faults call_env) session"

definition plain_env :: "string set \<Rightarrow> ring_faults call_env" where
  "plain_env down = \<lparr> ce_faults = ex_faults down, ce_rank = (\<lambda>v. v), ce_landed = (\<lambda>_. False) \<rparr>"

definition copy_rep :: "bytes \<Rightarrow> nat \<Rightarrow> payload_representation" where
  "copy_rep body slot = \<lparr> rep_term = 0, rep_index = 0, rep_group = ''g'', rep_generation = 1, rep_mode = Complete,
     rep_hash = sha256 xor_deps body, rep_request = 7, rep_length = length body, rep_slot = slot, rep_bytes = body \<rparr>"

definition copy_store :: "bytes \<Rightarrow> nat \<Rightarrow> payload_representation \<Rightarrow> fragment_store" where
  "copy_store body slot r = fresh_store xor_deps (consensus_fragment_key xor_deps (sha256 xor_deps body) ''g'' 1 7 slot) (ring_rep_bytes r)"

definition copy_net :: "bytes \<Rightarrow> ring_net" where
  "copy_net body = ex_empty(''a'' := copy_store body 0 (copy_rep body 0), ''b'' := copy_store body 1 (copy_rep body 1))"

definition copy_staged :: "bytes \<Rightarrow> staged_payload" where
  "copy_staged body = \<lparr> sp_hash = sha256 xor_deps body, sp_length = length body,
     sp_certificate = \<lparr> pc_mode = Complete, pc_k = 2, pc_m = 1, pc_voters = [1, 2, 3], pc_holders = [1, 2] \<rparr> \<rparr>"

lemma copy_length: "length (ring_rep_bytes (copy_rep body slot\<lparr>rep_term := t, rep_index := i\<rparr>)) = 94 + length body"
  by (simp add: ring_rep_bytes_def copy_rep_def xor_deps_sha)

lemma copy_length0: "length (ring_rep_bytes (copy_rep body slot)) = 94 + length body"
  by (simp add: ring_rep_bytes_def copy_rep_def xor_deps_sha)

lemma copy_stage:
  assumes "length body \<le> 9000"
  shows "dist_stage xor_deps (ring_transport xor_deps ''a'' ex_peers) (plain_env {}) 7 ''g'' 1 Complete body [] (ex_dist, ex_empty)
    = (Inr (copy_staged body), (ex_dist, copy_net body))"
proof -
  let ?T = "ring_transport xor_deps ''a'' ex_peers" and ?f = "ex_faults {}"
  let ?reps = "[body, body, body]"
  let ?rep = "voter_rep [1, 2, 3] (dist_rep xor_deps 7 ''g'' 1 Complete (sha256 xor_deps body) (length body) ?reps)"
  have enc: "staged_bytes xor_deps 2 1 Complete [1, 2, 3] body = Inr ?reps" by (simp add: staged_bytes_def)
  have order: "sort_key (\<lambda>v. v) (stage_order [1, 2, 3] []) = [1, 2, 3]" by (simp add: stage_order_def)
  have reps: "?rep 1 = Inr (copy_rep body 0)" "?rep 2 = Inr (copy_rep body 1)"
    by (simp_all add: voter_rep_def copy_rep_def dist_rep_def)
  have step: "store_rep ?T ?f v (Inr (copy_rep body n)) net = (Inr (), net(node := copy_store body n (copy_rep body n)))"
    if "pp_nodes ex_peers v = Some node" "net node = with_dynamic_ceiling 20000 []" for v n node net
    using ex_ring_store [of "copy_rep body n" v node "{}" net xor_deps] that assms
    by (simp add: store_rep_def copy_length0) (simp add: copy_store_def copy_rep_def)
  have loop: "stage_loop ?T (plain_env {}) rep 2 [] [1, 2, 3] ex_empty = (Inr [1, 2], copy_net body)"
    if "rep 1 = Inr (copy_rep body 0)" "rep 2 = Inr (copy_rep body 1)" for rep
    using that step [of 1 "''a''" ex_empty 0] step [of 2 "''b''" "ex_empty(''a'' := copy_store body 0 (copy_rep body 0))" 1]
    by (simp add: plain_env_def copy_net_def ex_peers_def) (simp add: ex_empty_def)
  have cert: "certificate_with_voters Complete 2 1 [1, 2, 3] [1, 2] = Inr (sp_certificate (copy_staged body))"
    by (simp add: certificate_with_voters_def checked_add_def required_holders_def sort_dedup_def bs_of_list_def copy_staged_def Let_def)
  have dist: "ds_voters ex_dist = [1, 2, 3]" "ds_k ex_dist = 2" "ds_m ex_dist = 1"
      "length [1, 2, 3 :: nat] = 3" "stage_required Complete 2 3 = 2" "ce_rank (plain_env {}) = (\<lambda>v. v)"
    by (simp_all add: ex_dist_def stage_required_def plain_env_def)
  have result: "\<lparr> sp_hash = sha256 xor_deps body, sp_length = length body, sp_certificate = sp_certificate (copy_staged body) \<rparr> = copy_staged body"
    by (simp add: copy_staged_def)
  show ?thesis
    by (simp only: dist_stage_def Let_def prod.case dist enc order loop [OF reps] cert sum.case result)
qed


definition copy_sealed :: "bytes \<Rightarrow> nat \<Rightarrow> ring_net" where
  "copy_sealed body index = (copy_net body)(''a'' := copy_store body 0 (copy_rep body 0\<lparr>rep_term := 1, rep_index := index\<rparr>))"

lemma copy_store_files: "fs_files (copy_store body slot r) =
    [(fragment_path (consensus_fragment_key xor_deps (sha256 xor_deps body) ''g'' 1 7 slot),
      file_image (ring_rep_bytes r) (crc32c xor_deps (ring_rep_bytes r)))]"
    "fs_used (copy_store body slot r) = length (ring_rep_bytes r)" "fs_ceiling (copy_store body slot r) = 20000"
  by (simp_all add: copy_store_def fresh_store_def)

lemma copy_content:
  assumes "rep_wf r" "rep_hash r = sha256 xor_deps body" "pp_nodes ex_peers v = Some node" "pp_slots ex_peers v = Some slot"
    "net node = copy_store body slot r"
  shows "ring_content xor_deps ex_peers ''g'' net v (sha256 xor_deps body, 1, 7) = Inr (Some r)"
proof -
  have "load_fragment readable_io (consensus_fragment_key xor_deps (sha256 xor_deps body) ''g'' 1 7 slot) (copy_store body slot r) =
      Inr (Some \<lparr> lf_bytes = ring_rep_bytes r, lf_checksum = crc32c xor_deps (ring_rep_bytes r) \<rparr>)"
    by (rule placed_load [where st = "with_dynamic_ceiling 20000 []"])
      (simp_all add: Ring_Transport.placed_def copy_store_files with_dynamic_ceiling_def xor_digest_ok readable_io_def)
  then show ?thesis
    using assms decode_representation_bytes [OF assms(1), of xor_deps] by (auto simp: ring_content_def)
qed

lemma copy_rep_wf:
  "length body \<le> 9000 \<Longrightarrow> slot < 3 \<Longrightarrow> t < u64_bound \<Longrightarrow> i < u64_bound \<Longrightarrow> rep_wf (copy_rep body slot\<lparr>rep_term := t, rep_index := i\<rparr>)"
  using xor_digest_ok by (auto simp: copy_rep_def rep_wf_def digest_ok_def is_str_def as_bytes_def)

lemma copy_rep_pending: "copy_rep body slot\<lparr>rep_term := 0, rep_index := 0\<rparr> = copy_rep body slot"
  by (simp add: copy_rep_def)

lemma copy_up: "ring_up ''a'' ex_peers (ex_faults down) v \<longleftrightarrow> v = 1 \<or> v = 2 \<and> ''b'' \<notin> down \<or> v = 3 \<and> ''c'' \<notin> down"
  by (auto simp: ring_up_def ex_peers_def ex_faults_def readable_io_def)

lemma local_replace:
  assumes "length (ring_rep_bytes r') \<le> 20000" "length (ring_rep_bytes r) \<le> 20000" "length (ring_rep_bytes r) > 0"
  shows "store_fragment readable_io (fragment_record_new xor_deps (consensus_fragment_key xor_deps (sha256 xor_deps body) ''g'' 1 7 slot)
      (ring_rep_bytes r')) (copy_store body slot r) = (Inr (), copy_store body slot r')"
  using assms
  by (simp add: store_fragment_def store_begin_def store_finish_def readable_io_def reserve_def copy_store_def fresh_store_def
      saturating_add_def fragment_len_by_path_eq file_len_def fetch_sub_def fragment_record_new_def Let_def min_def)


lemma copy_seal:
  assumes "length body \<le> 9000"
  shows "dist_seal (ring_transport xor_deps ''a'' ex_peers) (plain_env {''b'', ''c''})
      \<lparr> sl_hash = sha256 xor_deps body, sl_group = ''g'', sl_generation = 1, sl_request = 7, sl_term = 1, sl_index = 1,
        sl_certificate = sp_certificate (copy_staged body) \<rparr> (ex_dist, copy_net body) =
    (Inr (), (ex_dist, copy_sealed body 1))"
proof -
  let ?f = "ex_faults {''b'', ''c''}" and ?T = "ring_transport xor_deps ''a'' ex_peers" and ?r = "copy_rep body 0\<lparr>rep_term := 1, rep_index := 1\<rparr>"
  have slots: "ring_slot xor_deps ex_peers 1 \<noteq> None" "pp_nodes ex_peers 1 = Some ''a''" "pp_slots ex_peers 1 = Some 0"
    "pp_nodes ex_peers 2 = Some ''b''" "pp_slots ex_peers 2 = Some 1"
    using ex_ring_ok by (simp_all add: ring_slot_def ex_peers_def)
  have wf: "rep_wf (copy_rep body 0)" using copy_rep_wf [OF assms, of 0 0 0] by (simp add: copy_rep_pending)
  have l1: "tr_load ?T ?f 1 (sha256 xor_deps body) ''g'' 1 7 (copy_net body) = Inr (Some (copy_rep body 0))"
    using ring_load_up [OF slots(1), of "''a''" ?f] copy_content [OF wf _ slots(2,3), of body "copy_net body"]
    by (simp add: ring_transport_def copy_up copy_net_def) (simp add: copy_rep_def)
  have l2: "tr_load ?T ?f 2 (sha256 xor_deps body) ''g'' 1 7 (copy_net body) = Inl (Transport ''load'')"
    using slots by (simp add: ring_transport_def ring_load_def peer_load_def ex_faults_def)
  have store: "tr_store ?T ?f 1 ?r (copy_net body) = (Inr (), copy_sealed body 1)"
    using local_replace [of ?r "copy_rep body 0" body 0] assms slots
    by (simp add: ring_transport_def ring_store_def peer_place_def copy_length copy_length0 copy_net_def copy_sealed_def ex_faults_def)
      (simp add: copy_rep_def fun_upd_twist)
  show ?thesis
    using l1 l2 store
    by (simp add: dist_seal_def Let_def load_holders_def plain_env_def certified_slot_def copy_staged_def needed_records_def is_transport_def del: One_nat_def)
       (simp add: copy_rep_def)
qed


text \<open>A Raft core that commits every write at the next index of term 1.\<close>

definition ex_raft :: "nat raft" where
  "ex_raft = \<lparr> rf_client_write = (\<lambda>command n. ([], Inr \<lparr> li_term = 1, li_node = 1, li_index = n + 1 \<rparr>, n + 1)),
     rf_ensure_linearizable = (\<lambda>n. ([], Inr (), n)), rf_current_leader = (\<lambda>n. Some 1),
     rf_wait = (\<lambda>n. (Metrics (Some 1), n)), rf_message = (\<lambda>_. ''stopped'') \<rparr>"

lemma ex_raft_ok: "raft_ok xor_deps ex_raft (=)"
  by (auto simp: raft_ok_def ex_raft_def)

definition ex_services :: "(ring_session, nat) services" where
  "ex_services = \<lparr> sv_deps = xor_deps, sv_payloads = distributed_ops xor_deps (ring_transport xor_deps ''a'' ex_peers),
     sv_raft = ex_raft, sv_batch_json = (\<lambda>_. None), sv_export_json = (\<lambda>_ _. None) \<rparr>"

lemma ex_services_raft: "sv_raft ex_services = ex_raft"
  by (simp add: ex_services_def)

definition ex_calls :: "nat \<Rightarrow> ring_faults call_env" where
  "ex_calls i = (if i = 0 then plain_env {} else if i = 1 then plain_env {''b'', ''c''} else plain_env {''c''})"

definition ex_group :: "(ring_session, nat) consensus_group" where
  "ex_group = \<lparr> cg_group = ''g'', cg_generation = 1, cg_raft = 0, cg_machine = sm_default,
     cg_factory = Inr \<lparr> sn_state = (ex_dist, ex_empty), sn_calls = ex_calls \<rparr>, cg_payloads = None \<rparr>"

lemma ex_group_new: "group_new ''g'' 1 0 sm_default (Inr \<lparr> sn_state = (ex_dist, ex_empty), sn_calls = ex_calls \<rparr>) = Inr ex_group"
  by (simp add: group_new_def ex_group_def)

lemma ex_group_wf: "group_wf xor_deps (=) ex_group"
  by (simp add: group_wf_def ex_group_def sm_default_wf carries_all_def applied_up_to_def) (simp add: sm_default_def bt_vals_def)

definition copy_header :: "bytes \<Rightarrow> entry_header" where
  "copy_header body = \<lparr> eh_group = ''g'', eh_generation = 1, eh_kind = Object, eh_request = 7, eh_payload_len = length body,
     eh_payload_hash = sha256 xor_deps body, eh_writer_epoch = None, eh_certificate = Some (sp_certificate (copy_staged body)),
     eh_inline = None, eh_metadata = MetaNone \<rparr>"

definition copy_committed :: "bytes \<Rightarrow> (ring_session, nat) consensus_group" where
  "copy_committed body = ex_group\<lparr> cg_raft := 1,
     cg_machine := fst (apply_entry xor_deps \<lparr> le_log_id = \<lparr> li_term = 1, li_node = 1, li_index = 1 \<rparr>,
       le_payload = Normal (Commit (copy_header body)) \<rparr> sm_default),
     cg_payloads := Some (Inr \<lparr> sn_state = (ex_dist, copy_sealed body 1), sn_calls = (\<lambda>i. ex_calls (i + 2)) \<rparr>) \<rparr>"

definition copy_response :: raft_response where
  "copy_response = response 1 None Committed None None False"

lemma copy_apply:
  "snd (apply_entry xor_deps \<lparr> le_log_id = \<lparr> li_term = 1, li_node = 1, li_index = 1 \<rparr>, le_payload = Normal (Commit (copy_header body)) \<rparr> sm_default)
     = Inr copy_response"
  "committed_log_id 1 (cg_machine (copy_committed body)) = Some \<lparr> li_term = 1, li_node = 1, li_index = 1 \<rparr>"
  by (simp_all add: apply_entry_def apply_commit_def copy_header_def sm_default_def copy_response_def copy_committed_def
      committed_log_id_def record_commit_def install_writer_def Let_def)

lemma copy_commit:
  assumes "length body \<le> 9000" "inline_payload_threshold < length body"
  shows "execute ex_services (ReqCommitObject 7 body [] Complete) ex_group = (Inr (RespApplied copy_response), copy_committed body)"
proof -
  obtain s where s: "apply_entry xor_deps \<lparr> le_log_id = \<lparr> li_term = 1, li_node = 1, li_index = 1 \<rparr>, le_payload = Normal (Commit (copy_header body)) \<rparr>
      sm_default = (s, Inr copy_response)" using copy_apply(1) [of body] by (metis surjective_pairing)
  have lid: "committed_log_id 1 s = Some \<lparr> li_term = 1, li_node = 1, li_index = 1 \<rparr>" using copy_apply(2) [of body] s by (simp add: copy_committed_def)
  define g1 where "g1 = ex_group\<lparr>cg_payloads := Some (Inr \<lparr> sn_state = (ex_dist, copy_net body), sn_calls = (\<lambda>i. ex_calls (Suc i)) \<rparr>)\<rparr>"
  have calls: "ex_calls 0 = plain_env {}" "ex_calls 1 = plain_env {''b'', ''c''}" by (simp_all add: ex_calls_def)
  have "on_payloads (pst_stage (sv_payloads ex_services) 7 ''g'' 1 Complete body []) ex_group = (Inr (copy_staged body), g1)"
    using copy_stage [OF assms(1)] calls(1)
    by (simp add: on_payloads_def resolve_payloads_def Let_def await_def ex_services_def ex_group_def distributed_ops_def run_call_def g1_def)
  then have "base_header ex_services 7 Object Complete body None [] 1 ex_group =
      (Inr (copy_header body, Some (sha256 xor_deps body, sp_certificate (copy_staged body))), g1)"
    using assms(2) by (simp add: base_header_def await_def return_def header_new_def copy_header_def ex_group_def) (simp add: copy_staged_def)
  moreover have "client_write ex_services on_error (Commit (copy_header body)) g1 = (Inr copy_response, g1\<lparr>cg_raft := 1, cg_machine := s\<rparr>)" for on_error
    using s by (simp add: client_write_def ex_services_def ex_raft_def g1_def ex_group_def await_def advance_def return_def apply_own_def)
  moreover have "seal_committed ex_services 7 1 copy_response (Some (sha256 xor_deps body, sp_certificate (copy_staged body)))
      (g1\<lparr>cg_raft := 1, cg_machine := s\<rparr>) = (Inr (), copy_committed body)"
    using lid s copy_seal [OF assms(1)] calls(2)
    by (simp add: Let_def seal_committed_def copy_response_def response_def await_def return_def g1_def ex_group_def on_payloads_def resolve_payloads_def
        ex_services_def distributed_ops_def run_call_def copy_committed_def numeral_2_eq_2)
  moreover have "cg_generation ex_group = 1" by (simp add: ex_group_def)
  ultimately show ?thesis
    by (simp add: respond_def commit_def commit_header_def Let_def await_def return_def) (simp add: copy_response_def response_def)
qed


definition wal_requests :: "group_request list" where
  "wal_requests = [ReqBindWalArchive 1 ''bucket'' [], ReqOpenTimeline 2 100 [], ReqAcquireWriter 3 ''w'' [],
     ReqAppendWal 4 1 100 [10, 20] [] Complete, ReqAppendWal 5 1 102 [30, 40, 50] [] Complete]"

definition wal_group :: "(ring_session, nat) consensus_group" where
  "wal_group = fold (\<lambda>request g. snd (execute ex_services request g)) wal_requests ex_group"

lemma inline_commit:
  assumes "length body \<le> 4096" "cg_group g \<noteq> []" "cg_generation g = 1"
    and "deco \<lparr> eh_group = cg_group g, eh_generation = 1, eh_kind = kind, eh_request = req, eh_payload_len = length body,
      eh_payload_hash = sha256 xor_deps body, eh_writer_epoch = ep, eh_certificate = None, eh_inline = Some body, eh_metadata = MetaNone \<rparr> = Inr h"
    and "apply_entry xor_deps \<lparr> le_log_id = \<lparr> li_term = 1, li_node = 1, li_index = cg_raft g + 1 \<rparr>, le_payload = Normal (Commit h) \<rparr> (cg_machine g) = (s, Inr resp)"
    "rr_outcome resp = Committed"
  shows "commit_header ex_services req kind mode body ep hs deco g = (Inr resp, g\<lparr>cg_raft := cg_raft g + 1, cg_machine := s\<rparr>)"
  using assms
  by (simp add: commit_header_def Let_def base_header_def inline_payload_threshold_def header_new_inline_def await_def return_def ex_services_def
     client_write_def ex_raft_def advance_def apply_own_def seal_committed_def)

lemmas apply_simps = apply_entry_def apply_commit_def record_commit_def install_writer_def response_def Let_def bt_insert.simps


lemma wal_group_read: "fst (execute ex_services (ReqReadWal 101 104 0) wal_group) = Inr (RespBytes [20, 30, 40])"
proof -
  have fence: "ensure_linearizable ex_services g = (Inr (), g)" for g :: "(ring_session, nat) consensus_group"
    by (simp add: ensure_linearizable_def ex_services_def ex_raft_def advance_def await_def return_def)
  show ?thesis
  by (simp add: wal_group_def wal_requests_def respond_def bind_wal_archive_def open_timeline_def group_acquire_writer_def append_wal_mode_def
    inline_commit with_wal_archive_bucket_def with_wal_start_def with_wal_range_def apply_simps ex_group_def sm_default_def as_bytes_def
    await_def return_def checked_add_def checked_sub_def wal_read_response_def read_wal_def fence read_wal_after_fence_def applied_index_def wal_body_def get_range_def slice_def)
qed
end
