(* ===== verification/Group_Properties.thy ===== *)
theory Group_Properties
  imports Group_Examples
begin

section \<open>Properties of the consensus group\<close>

text \<open>
  What a client of \<open>ConsensusGroup\<close> can rely on, over the distributed payload store on the ring:
  an acknowledged object is read back, WAL reads return exactly the committed bytes, every request
  keeps the replicated state well formed, and answers have the form their request asks for.
\<close>

subsection \<open>The ring as a durable store\<close>

definition ring_stageable :: "deps \<Rightarrow> payload_peers \<Rightarrow> string \<Rightarrow> nat \<Rightarrow> request_id \<Rightarrow> bytes \<Rightarrow> ring_session \<Rightarrow> bool" where
  "ring_stageable D peers grp gen req body p \<longleftrightarrow>
     (case sn_state p of (st, net) \<Rightarrow>
        ring_ok D peers \<and> (\<forall>v \<in> set (ds_voters st). pp_slots peers v = position (\<lambda>x. x = v) (ds_voters st)) \<and>
        is_str grp \<and> length grp < u32_bound \<and> gen < u64_bound \<and> req < u128_bound \<and> length body < u64_bound \<and>
        length (ds_voters st) < u64_bound \<and> rs_ok D (ds_k st) (ds_m st))"

definition ring_kept :: "deps \<Rightarrow> payload_peers \<Rightarrow> payload_certificate \<Rightarrow> string \<Rightarrow> nat \<Rightarrow> request_id \<Rightarrow> bytes \<Rightarrow> nat \<times> nat \<Rightarrow> ring_session \<Rightarrow> bool" where
  "ring_kept D peers c grp gen req body at p \<longleftrightarrow>
     (fst at < u64_bound \<and> snd at < u64_bound \<longrightarrow>
       (case sn_state p of (st, net) \<Rightarrow>
          ring.held D peers grp D c gen req body at net \<and> pc_voters c = ds_voters st \<and> rs_ok D (pc_k c) (pc_m c)))"

text \<open>
  The conditions of a read, which seals in the next call and reconstructs in the one after: both
  calls reach a majority, the second reaches no voter that the first did not, and the voters of the
  first have room to rewrite what they hold.
\<close>

definition ring_readable :: "deps \<Rightarrow> string \<Rightarrow> payload_peers \<Rightarrow> string \<Rightarrow> nat \<Rightarrow> request_id \<Rightarrow> bytes \<Rightarrow> nat \<times> nat \<Rightarrow> ring_session \<Rightarrow> bool" where
  "ring_readable D self_id peers grp gen req body at p \<longleftrightarrow>
     0 < fst at \<and> fst at < u64_bound \<and> 0 < snd at \<and> snd at < u64_bound \<and>
     (case sn_state p of (st, net) \<Rightarrow>
        let up0 = ring_up self_id peers (ce_faults (sn_calls p 0)); up1 = ring_up self_id peers (ce_faults (sn_calls p 1)) in
        reaches_majority (ds_voters st) {v. up0 v} \<and> reaches_majority (ds_voters st) {v. up1 v} \<and>
        (\<forall>v \<in> set (ds_voters st). up1 v \<longrightarrow> up0 v) \<and>
        (\<forall>v \<in> set (ds_voters st). \<forall>r. up0 v \<and> ring_content D peers grp net v (sha256 D body, gen, req) = Inr (Some r) \<longrightarrow>
           ring_room self_id peers (ce_faults (sn_calls p 0)) net v r))"

lemma ring_stage_kept:
  assumes "ring_stageable D peers grp gen req body p"
    and "pst_stage (distributed_ops D (ring_transport D self_id peers)) req grp gen mode body candidates p = (Inr staged, p')"
  shows "sp_hash staged = sha256 D body \<and> sp_length staged = length body \<and>
    ring_kept D peers (sp_certificate staged) grp gen req body at p'"
proof -
  obtain st net where s: "sn_state p = (st, net)" by fastforce
  obtain st' net' where d: "dist_stage D (ring_transport D self_id peers) (sn_calls p 0) req grp gen mode body candidates (st, net) =
      (Inr staged, (st', net'))" "sn_state p' = (st', net')"
    using assms(2) s by (auto simp: distributed_ops_def run_call_Inr)
  have "ring.sized grp D gen req body" "ring.slots_agree D peers (ds_voters st)" "length (ds_voters st) < u64_bound"
    using assms(1) s by (auto simp: ring_stageable_def ring.sized_def ring.slots_agree_def ring_slot_def ring_ok_def)
  note held = ring.stage_held [OF this d(1)]
  have "st' = st" using ring.stage_changes [OF \<open>ring.sized grp D gen req body\<close> \<open>ring.slots_agree D peers (ds_voters st)\<close>
      \<open>length (ds_voters st) < u64_bound\<close> d(1)] by simp
  then show ?thesis using held [of at] d(2) assms(1) s by (auto simp: ring_kept_def ring_stageable_def)
qed

lemma dist_seal_store: "dist_seal T env q (st, net) = (res, (st', net')) \<Longrightarrow> st' = st"
  by (auto simp: dist_seal_def Let_def split: if_splits sum.splits prod.splits)

lemma ring_seal_kept:
  assumes "ring_kept D peers c grp gen req body (t, i) p"
    and "pst_seal (distributed_ops D (ring_transport D self_id peers)) \<lparr> sl_hash = sha256 D body, sl_group = grp, sl_generation = gen,
      sl_request = req, sl_term = t, sl_index = i, sl_certificate = c \<rparr> p = (res, p')"
  shows "ring_kept D peers c grp gen req body (t, i) p'"
proof -
  obtain st net where s: "sn_state p = (st, net)" by fastforce
  obtain st' net' where d: "dist_seal (ring_transport D self_id peers) (sn_calls p 0) \<lparr> sl_hash = sha256 D body, sl_group = grp,
      sl_generation = gen, sl_request = req, sl_term = t, sl_index = i, sl_certificate = c \<rparr> (st, net) = (res, (st', net'))"
      "sn_state p' = (st', net')"
    using assms(2) s by (auto simp: distributed_ops_def run_call_Inr)
  have "st' = st" by (rule dist_seal_store [OF d(1)])
  then show ?thesis
    using ring.seal_held [OF _ _ _ _ _ _ d(1)] assms(1) s d(2) by (auto simp: ring_kept_def ring.held_def)
qed

lemma ring_read_back:
  assumes kept: "ring_kept D peers c grp gen req body (t, i) p" and ready: "ring_readable D self_id peers grp gen req body (t, i) p"
  shows "\<exists>p1 p2. pst_seal (distributed_ops D (ring_transport D self_id peers)) \<lparr> sl_hash = sha256 D body, sl_group = grp,
        sl_generation = gen, sl_request = req, sl_term = t, sl_index = i, sl_certificate = c \<rparr> p = (Inr (), p1) \<and>
      pst_reconstruct (distributed_ops D (ring_transport D self_id peers)) \<lparr> rc_hash = sha256 D body, rc_group = grp,
        rc_generation = gen, rc_request = req, rc_length = length body, rc_term = t, rc_index = i, rc_certificate = c \<rparr> p1 = (Inr body, p2)"
proof -
  obtain st net where s: "sn_state p = (st, net)" by fastforce
  let ?e0 = "sn_calls p 0" and ?e1 = "sn_calls p 1" and ?T = "ring_transport D self_id peers"
  have at: "0 < t" "0 < i" "t < u64_bound" "i < u64_bound" using ready by (simp_all add: ring_readable_def)
  have held: "ring.held D peers grp D c gen req body (t, i) net" and v: "pc_voters c = ds_voters st" and rs: "rs_ok D (pc_k c) (pc_m c)"
    using kept at s by (simp_all add: ring_kept_def)
  have sub: "set (pc_holders c) \<subseteq> set (pc_voters c)" using held by (auto simp: ring.held_def certificate_wf_def)
  have q: "reaches_majority (pc_voters c) {v. ring_up self_id peers (ce_faults ?e0) v}"
      "reaches_majority (pc_voters c) {v. ring_up self_id peers (ce_faults ?e1) v}"
      "\<And>v. v \<in> set (pc_voters c) \<Longrightarrow> ring_up self_id peers (ce_faults ?e1) v \<Longrightarrow> ring_up self_id peers (ce_faults ?e0) v"
      "\<And>v r. v \<in> set (pc_voters c) \<Longrightarrow> ring_up self_id peers (ce_faults ?e0) v \<Longrightarrow>
         ring_content D peers grp net v (sha256 D body, gen, req) = Inr (Some r) \<Longrightarrow> ring_room self_id peers (ce_faults ?e0) net v r"
    using ready s v by (auto simp: ring_readable_def Let_def)
  have room: "ring_room self_id peers (ce_faults ?e0) net v r"
    if "v \<in> set (pc_holders c)" "ring_up self_id peers (ce_faults ?e0) v" "part_of D c grp gen req body (t, i) v r" for v r
    using held_room [OF held that(1,3)] q(4) that(1,2) sub by blast
  obtain net1 where seal: "dist_seal ?T ?e0 \<lparr> sl_hash = sha256 D body, sl_group = grp, sl_generation = gen, sl_request = req,
        sl_term = t, sl_index = i, sl_certificate = c \<rparr> (st, net) = (Inr (), (st, net1))"
      and after: "ring.held D peers grp D c gen req body (t, i) net1"
        "\<forall>v \<in> set (pc_holders c). ring_up self_id peers (ce_faults ?e0) v \<longrightarrow> ring.sealed D peers grp D c gen req body (t, i) net1 v"
    using ring.seal_live [OF held refl, where env = ?e0 and self_id = self_id and st = st] at q(1) room by auto
  have "dist_reconstruct D ?T ?e1 \<lparr> rc_hash = sha256 D body, rc_group = grp, rc_generation = gen, rc_request = req,
      rc_length = length body, rc_term = t, rc_index = i, rc_certificate = c \<rparr> (st, net1) = Inr body"
    using ring.reconstruct_live [OF after(1) refl, where env = ?e1 and self_id = self_id and st = st] q(2,3) after(2) sub rs by auto
  then show ?thesis using seal s by (auto simp: distributed_ops_def run_call_def)
qed

interpretation ring_group: durable_store D "distributed_ops D (ring_transport D self_id peers)" "ring_stageable D peers" "ring_kept D peers"
    "\<lambda>c. ring_readable D self_id peers" for D self_id peers
  by unfold_locales (rule ring_stage_kept ring_seal_kept ring_read_back, assumption+)+

lemma fold_execute_keeps:
  assumes "raft_ok D (sv_raft X) I" "sv_deps X = D" "group_wf D I g"
  shows "group_wf D I (fold (\<lambda>request g. snd (execute X request g)) requests g) \<and>
    sm_ext (cg_machine g) (cg_machine (fold (\<lambda>request g. snd (execute X request g)) requests g))"
  using assms(3)
proof (induction requests arbitrary: g)
  case (Cons request requests)
  have "group_wf D I (snd (execute X request g)) \<and> sm_ext (cg_machine g) (cg_machine (snd (execute X request g)))"
    using keeps_execute [OF assms(1,2)] Cons.prems by (simp add: keeps_def)
  then show ?case using Cons.IH [of "snd (execute X request g)"] sm.ext_trans by auto
qed (simp add: sm.ext_refl)

lemma wal_group_wf: "group_wf xor_deps (=) wal_group"
  using fold_execute_keeps [OF _ _ ex_group_wf, of ex_services] unfolding wal_group_def by (simp add: ex_services_def ex_raft_ok)

lemma copy_readable:
  assumes "length body \<le> 9000"
  shows "ring_readable xor_deps ''a'' ex_peers ''g'' 1 7 body (1, 1) \<lparr> sn_state = (ex_dist, copy_sealed body 1), sn_calls = (\<lambda>i. ex_calls (i + 2)) \<rparr>"
proof -
  have up: "{v. ring_up ''a'' ex_peers (ex_faults {''c''}) v} = {1, 2}" by (auto simp: copy_up)
  let ?s1 = "copy_rep body 0\<lparr>rep_term := 1, rep_index := 1\<rparr>"
  have c: "ring_content xor_deps ex_peers ''g'' (copy_sealed body 1) 1 (sha256 xor_deps body, 1, 7) = Inr (Some ?s1)"
      "ring_content xor_deps ex_peers ''g'' (copy_sealed body 1) 2 (sha256 xor_deps body, 1, 7) = Inr (Some (copy_rep body 1))"
    using copy_content [OF copy_rep_wf [OF assms, of 0 1 1], of body 1 "''a''" 0 "copy_sealed body 1"]
      copy_content [OF copy_rep_wf [OF assms, of 1 0 0], of body 2 "''b''" 1 "copy_sealed body 1"]
    by (simp_all add: copy_rep_pending copy_sealed_def copy_net_def ex_peers_def) (simp_all add: copy_rep_def)
  have "ring_room ''a'' ex_peers (ex_faults {''c''}) (copy_sealed body 1) 1 ?s1"
      "ring_room ''a'' ex_peers (ex_faults {''c''}) (copy_sealed body 1) 2 (copy_rep body 1)"
    using assms by (simp_all add: ring_room_def ex_peers_def ex_faults_def readable_io_def copy_sealed_def copy_net_def copy_store_files
      copy_length copy_length0)
  then show ?thesis
    using c up copy_up [of "{''c''}"]
    by (auto simp: ring_readable_def Let_def ex_calls_def plain_env_def ex_dist_def reaches_majority_def majority_def)
qed

subsection \<open>Properties\<close>



lemma archived_segments_chain:
  assumes "sm_wf s" "archived_wal_segments (sm_archive_lsn s) s = Inr segs"
  shows "\<exists>base. chain base (map (\<lambda>seg. (seg_start_lsn seg, seg_end_lsn seg)) segs) = Some (sm_archive_lsn s)"
proof -
  obtain base where base: "chain base (filter_map archive_range (bt_vals (sm_committed s))) = Some (sm_archive_lsn s)"
    using assms(1) by (auto simp: sm_wf_def wal_wf_def archive_ranges_def)
  show ?thesis using collect_segments_chain [OF base, of None] base assms(2) by (auto simp: archived_wal_segments_def split: if_splits)
qed

lemma plan_wal_read_Inr:
  assumes "plan_wal_read X from to m g = (Inr plan, g')"
  obtains g1 segs tail where "ensure_linearizable X g = (Inr (), g1)" "from < to" "to \<le> sm_wal_end (cg_machine g1)"
    "archived_wal_segments (sm_archive_lsn (cg_machine g1)) (cg_machine g1) = Inr segs"
    "(if max from (sm_archive_lsn (cg_machine g1)) < to
      then read_wal_after_fence X (max from (sm_archive_lsn (cg_machine g1))) to (applied_index (cg_machine g1))
      else return (Inr [])) g1 = (Inr tail, g')"
    "wp_checkpointed_end plan = sm_archive_lsn (cg_machine g1)" "wp_archived_segments plan = segs" "wp_retained_tail plan = tail"
proof -
  have lt: "from < to" using assms by (simp add: plan_wal_read_def split: if_split_asm)
  obtain g1 where f: "ensure_linearizable X g = (Inr (), g1)" and rest: "to \<le> sm_wal_end (cg_machine g1)"
      "await (return (map_err Payload (archived_wal_segments (sm_archive_lsn (cg_machine g1)) (cg_machine g1)))) (\<lambda>segments.
       await (if max from (sm_archive_lsn (cg_machine g1)) < to
         then read_wal_after_fence X (max from (sm_archive_lsn (cg_machine g1))) to (applied_index (cg_machine g1))
         else return (Inr [])) (\<lambda>tail.
       return (Inr \<lparr> wp_applied_index = applied_index (cg_machine g1), wp_committed_end = sm_wal_end (cg_machine g1),
         wp_checkpointed_end = sm_archive_lsn (cg_machine g1), wp_archived_segments = segments, wp_retained_tail = tail \<rparr>))) g1 =
       (Inr plan, g')"
    using assms lt unfolding plan_wal_read_def Let_def by (simp only: await_Inr split: if_split_asm) auto
  from rest(2) that [OF f lt rest(1)] show thesis by (simp only: await_Inr return_eq) auto
qed

lemma plan_exact:
  assumes X: "sv_payloads X = distributed_ops D T" "sv_deps X = D" "raft_ok D (sv_raft X) I" and wf: "group_wf D I g"
    and plan: "plan_wal_read X from to m g = (Inr plan, g')"
  shows "from < to \<and> to \<le> sm_wal_end (cg_machine g') \<and> wp_checkpointed_end plan = sm_archive_lsn (cg_machine g') \<and>
    sm_archive_lsn (cg_machine g) \<le> wp_checkpointed_end plan \<and>
    archived_wal_segments (sm_archive_lsn (cg_machine g')) (cg_machine g') = Inr (wp_archived_segments plan) \<and>
    (\<exists>base. chain base (map (\<lambda>seg. (seg_start_lsn seg, seg_end_lsn seg)) (wp_archived_segments plan)) = Some (wp_checkpointed_end plan)) \<and>
    (if max from (wp_checkpointed_end plan) < to
     then retained_range D (cg_machine g') (max from (wp_checkpointed_end plan)) to (wp_retained_tail plan)
     else wp_retained_tail plan = [])"
proof -
  obtain g1 segs tail where fence: "ensure_linearizable X g = (Inr (), g1)" and p: "from < to" "to \<le> sm_wal_end (cg_machine g1)"
        "archived_wal_segments (sm_archive_lsn (cg_machine g1)) (cg_machine g1) = Inr segs"
      and tail: "(if max from (sm_archive_lsn (cg_machine g1)) < to
        then read_wal_after_fence X (max from (sm_archive_lsn (cg_machine g1))) to (applied_index (cg_machine g1))
        else return (Inr [])) g1 = (Inr tail, g')"
      and eq: "wp_checkpointed_end plan = sm_archive_lsn (cg_machine g1)" "wp_archived_segments plan = segs" "wp_retained_tail plan = tail"
    by (rule plan_wal_read_Inr [OF plan])
  let ?s = "cg_machine g1" and ?start = "max from (sm_archive_lsn (cg_machine g1))"
  have k: "group_wf D I g1" "sm_ext (cg_machine g) ?s"
    using keeps_linearizable [OF X(3,2)] wf fence unfolding keeps_def by (metis snd_conv)+
  have g': "cg_machine g' = ?s"
    using tail same_log_after_fence [of g1 X ?start to "applied_index ?s"] by (auto simp: same_log_def split: if_splits)
  have s: "sm_wf ?s" "carries_all D ?s" using k(1) by (simp_all add: group_wf_def)
  have "if ?start < to then retained_range D ?s ?start to tail else tail = []"
  proof (cases "?start < to")
    case True
    then have "read_wal_after_fence X ?start to (applied_index ?s) g1 = (Inr tail, g')" using tail by (simp only: if_True)
    from dist_store.after_fence_exact [OF X(1) s this True] True g' show ?thesis by simp
  next
    case False
    then show ?thesis using tail by (simp only: if_False return_eq) simp
  qed
  moreover have "sm_archive_lsn (cg_machine g) \<le> sm_archive_lsn ?s" using k(2) by (simp add: sm_ext_def)
  moreover have "\<exists>base. chain base (map (\<lambda>seg. (seg_start_lsn seg, seg_end_lsn seg)) segs) = Some (sm_archive_lsn ?s)"
    by (rule archived_segments_chain [OF s(1) p(3)])
  ultimately show ?thesis unfolding eq g' using p by simp
qed

lemma wal_read_answer:
  assumes X: "sv_payloads X = distributed_ops D T" "sv_deps X = D" "raft_ok D (sv_raft X) I" and wf: "group_wf D I g"
    and read: "execute X (ReqReadWal from to minimum_index) g = (Inr resp, g')"
  shows "case resp of
      RespBytes part \<Rightarrow> from < to \<and> retained_range D (cg_machine g') from to part
    | RespArchivedWalReadPlan plan \<Rightarrow>
        from < to \<and> to \<le> sm_wal_end (cg_machine g') \<and> from < wp_checkpointed_end plan \<and>
        wp_checkpointed_end plan = sm_archive_lsn (cg_machine g') \<and>
        archived_wal_segments (sm_archive_lsn (cg_machine g')) (cg_machine g') = Inr (wp_archived_segments plan) \<and>
        (\<exists>base. chain base (map (\<lambda>seg. (seg_start_lsn seg, seg_end_lsn seg)) (wp_archived_segments plan)) =
           Some (wp_checkpointed_end plan)) \<and>
        (if wp_checkpointed_end plan < to
         then retained_range D (cg_machine g') (wp_checkpointed_end plan) to (wp_retained_tail plan)
         else wp_retained_tail plan = [])
    | _ \<Rightarrow> False"
proof -
  obtain r g1 where r: "read_wal X from to minimum_index g = (r, g1)" by fastforce
  show ?thesis
  proof (cases r)
    case (Inr part)
    then have "resp = RespBytes part" "g' = g1" using read r by (simp_all add: wal_read_response_def)
    then show ?thesis using dist_store.read_wal_exact [OF X wf] r Inr by simp
  next
    case (Inl e)
    then obtain plan where plan: "resp = RespArchivedWalReadPlan plan" "plan_wal_read X from to minimum_index g1 = (Inr plan, g')"
        and below: "from < sm_archive_lsn (cg_machine g1)"
      using read r by (auto simp: wal_read_response_def respond_def split: if_splits)
    have "group_wf D I g1" using keeps_read_wal [OF X(3,2)] wf r unfolding keeps_def by (metis snd_conv)
    note exact = plan_exact [OF X this plan(2)]
    then have "max from (wp_checkpointed_end plan) = wp_checkpointed_end plan" using below by simp
    then show ?thesis using exact below plan(1) by auto
  qed
qed

text \<open>C6: A WAL read serves exactly the committed bytes. Over any transport, a successful WAL read of a
  group in a well-formed state answers one of two things. Either it returns the bytes of the range in
  the concatenation of the committed WAL bodies, where each body that contributes has its committed
  length and digest. Or the range starts below the archive watermark, and the answer names the
  archive segments that the log records, which are contiguous and end exactly at the watermark, together with exactly the committed
  bytes from the watermark to the end of the range.\<close>

theorem wal_read_exact:
  assumes X: "sv_payloads X = distributed_ops D T" "sv_deps X = D" "raft_ok D (sv_raft X) I" and wf: "group_wf D I g"
    and read: "execute X (ReqReadWal from to minimum_index) g = (Inr resp, g')"
  shows "case resp of
      RespBytes part \<Rightarrow> from < to \<and> retained_range D (cg_machine g') from to part
    | RespArchivedWalReadPlan plan \<Rightarrow>
        from < to \<and> to \<le> sm_wal_end (cg_machine g') \<and> from < wp_checkpointed_end plan \<and>
        wp_checkpointed_end plan = sm_archive_lsn (cg_machine g') \<and>
        archived_wal_segments (sm_archive_lsn (cg_machine g')) (cg_machine g') = Inr (wp_archived_segments plan) \<and>
        (\<exists>base. chain base (map (\<lambda>seg. (seg_start_lsn seg, seg_end_lsn seg)) (wp_archived_segments plan)) =
           Some (wp_checkpointed_end plan)) \<and>
        (if wp_checkpointed_end plan < to
         then retained_range D (cg_machine g') (wp_checkpointed_end plan) to (wp_retained_tail plan)
         else wp_retained_tail plan = [])
    | _ \<Rightarrow> False"
  by (rule wal_read_answer [OF assms])

theorem wal_read_exact_witness:
  "\<exists>g'. execute ex_services (ReqReadWal 101 104 0) wal_group = (Inr (RespBytes [20, 30, 40]), g') \<and>
     retained_range xor_deps (cg_machine g') 101 104 [20, 30, 40]"
proof -
  obtain g' where g': "execute ex_services (ReqReadWal 101 104 0) wal_group = (Inr (RespBytes [20, 30, 40]), g')"
    using wal_group_read by (metis prod.exhaust fst_conv)
  have "sv_payloads ex_services = distributed_ops xor_deps (ring_transport xor_deps ''a'' ex_peers)" "sv_deps ex_services = xor_deps"
      "raft_ok xor_deps (sv_raft ex_services) (=)"
    by (simp_all add: ex_services_def ex_raft_ok)
  from wal_read_exact [OF this _ g'] wal_group_wf g' show ?thesis by simp
qed

text \<open>C14: Every sequence of requests keeps the replicated state well formed. Whatever the payload store
  answers and whatever Raft refuses, as long as Raft hands over the entries in log order: after any
  list of requests the log is indexed consistently, the retained WAL is one chain up to its end, the
  catalog is intact, and retry identities, the writer epoch, both WAL watermarks, the archive bucket and
  the warehouse routes only ever grow.\<close>

theorem requests_keep_invariant:
  assumes "raft_ok D (sv_raft X) I" "sv_deps X = D" "group_wf D I g"
  shows "group_wf D I (fold (\<lambda>request g. snd (execute X request g)) requests g) \<and>
    sm_ext (cg_machine g) (cg_machine (fold (\<lambda>request g. snd (execute X request g)) requests g))"
  by (rule fold_execute_keeps [OF assms])

theorem requests_keep_invariant_witness:
  "group_wf xor_deps (=) wal_group \<and> sm_ext (cg_machine ex_group) (cg_machine wal_group)"
  unfolding wal_group_def
  by (rule requests_keep_invariant [OF _ _ ex_group_wf]) (simp_all add: ex_services_def ex_raft_ok)

text \<open>The variant that answers a request.\<close>

fun answers_request :: "group_request \<Rightarrow> group_response \<Rightarrow> bool" where
  "answers_request ReqWalArchiveBinding resp = (\<exists>b. resp = RespWalArchiveBinding b)"
| "answers_request (ReqReadWal _ _ _) resp = ((\<exists>b. resp = RespBytes b) \<or> (\<exists>p. resp = RespArchivedWalReadPlan p))"
| "answers_request (ReqWalState m) resp = (\<exists>s. resp = RespWalState s \<and> m \<le> wa_applied_index s)"
| "answers_request (ReqRegisterWarehouse _ _ _ _) resp = (\<exists>r. resp = RespWarehouseGroup r)"
| "answers_request (ReqResolveWarehouse _) resp = (\<exists>r. resp = RespWarehouseGroup r)"
| "answers_request (ReqCatalogTable _) resp = (\<exists>t. resp = RespCatalogTable t)"
| "answers_request ReqCatalogNamespaces resp = (\<exists>n. resp = RespCatalogNamespaces n)"
| "answers_request ReqCatalogTables resp = (\<exists>t. resp = RespCatalogTables t)"
| "answers_request (ReqCatalogRecord _ _) resp = (\<exists>r. resp = RespCatalogRecord r)"
| "answers_request (ReqCatalogRecords _) resp = (\<exists>r. resp = RespCatalogRecords r)"
| "answers_request ReqExportCatalog resp = (\<exists>e. resp = RespCatalogExport e)"
| "answers_request _ resp = (\<exists>r. resp = RespApplied r \<and> (rr_outcome r = Committed \<or> rr_outcome r = Duplicate))"

definition settled :: "('p, 'r, raft_response) op \<Rightarrow> bool" where
  "settled m \<longleftrightarrow> (\<forall>g r g'. m g = (Inr r, g') \<longrightarrow> rr_outcome r = Committed \<or> rr_outcome r = Duplicate)"

lemma settled_commit_header: "settled (commit_header X request kind mode body epoch holders deco)"
  by (auto simp: settled_def commit_header_def Let_def outcome_result_Inr simp del: outcome_result.simps)

lemma settled_await: "(\<And>a. settled (f a)) \<Longrightarrow> settled (await m f)"
  by (auto simp: settled_def)

lemma settled_requests:
  shows "settled (bind_wal_archive X r b hs)" "settled (open_timeline X r l hs)" "settled (append_wal_mode X r e l body mode hs)"
    "settled (release_writer X r e hs)" "settled (commit_catalog X r batch hs)" "settled (commit X r kind mode body ep hs)"
    "settled (catalog_checkpoint X r i obj hs)"
  unfolding bind_wal_archive_def open_timeline_def append_wal_mode_def release_writer_def commit_catalog_def commit_def catalog_checkpoint_def
  by (intro settled_commit_header settled_await)+

lemma settled_acquire: "settled (group_acquire_writer X r w hs)"
  using settled_commit_header unfolding settled_def group_acquire_writer_def by blast

lemma settled_tail: "settled m \<Longrightarrow> settled (await m (\<lambda>resp. await a (\<lambda>_. await b (\<lambda>_. return (Inr resp)))))"
  by (auto simp: settled_def)

lemma settled_if: "settled m \<Longrightarrow> settled (if c then return (Inl e) else m)"
  by (simp add: settled_def)

lemma settled_archive: "settled (archive_checkpoint X r l obj hs)"
  unfolding archive_checkpoint_def by (intro settled_await settled_if settled_tail settled_commit_header)

lemma respond_Inr: "respond f m g = (Inr resp, g') \<longleftrightarrow> (\<exists>a. m g = (Inr a, g') \<and> resp = f a)"
  by (auto simp: respond_def)

definition replies :: "(group_response \<Rightarrow> bool) \<Rightarrow> ('p, 'r, group_response) op \<Rightarrow> bool" where
  "replies P m \<longleftrightarrow> (\<forall>g resp g'. m g = (Inr resp, g') \<longrightarrow> P resp)"

lemma replies_respond: "(\<And>a. P (f a)) \<Longrightarrow> replies P (respond f m)"
  by (auto simp: replies_def respond_Inr)

lemma replies_settled:
  "settled m \<Longrightarrow> (\<And>r. rr_outcome r = Committed \<or> rr_outcome r = Duplicate \<Longrightarrow> P (RespApplied r)) \<Longrightarrow>
    replies P (respond RespApplied m)"
  unfolding replies_def settled_def respond_Inr by metis

lemma replies_await: "(\<And>a. replies P (f a)) \<Longrightarrow> replies P (await m f)"
  by (auto simp: replies_def)

lemma replies_return: "(\<And>resp. r = Inr resp \<Longrightarrow> P resp) \<Longrightarrow> replies P (return r)"
  by (auto simp: replies_def return_def)

lemma replies_wal_read:
  assumes "\<And>b. P (RespBytes b)" "\<And>p. P (RespArchivedWalReadPlan p)"
  shows "replies P (wal_read_response X a b m)"
  using assms unfolding replies_def wal_read_response_def respond_Inr
  by (auto simp: respond_Inr split: if_split_asm prod.split_asm sum.split_asm)

lemma replies_execute: "replies (answers_request request) (execute X request)"
proof (cases request)
  case (ReqReadWal a b m)
  show ?thesis unfolding ReqReadWal execute.simps by (rule replies_wal_read) simp_all
next
  case (ReqWalState m)
  show ?thesis unfolding ReqWalState execute.simps by (rule replies_await) (simp add: replies_def)
qed ((simp only: execute.simps, rule replies_settled, rule settled_requests settled_acquire settled_archive, simp; fail) |
    (simp only: execute.simps, rule replies_respond, simp; fail))+

text \<open>C15: Answers have the type of their request. Every successful answer of the request dispatcher is the
  response variant of its request; an applied answer was committed or is the duplicate of a committed
  command, never a refusal; and a WAL state is at least as recent as the index that was asked for.\<close>

theorem execute_typed:
  "case fst (execute X request g) of Inl e \<Rightarrow> True | Inr resp \<Rightarrow> answers_request request resp"
  using replies_execute [of request X]
  by (cases "execute X request g") (auto simp: replies_def split: sum.split)

end
