(* ===== verification/Archive.thy ===== *)
theory Archive
  imports Group_Properties Wal_Wire
begin

section \<open>The WAL archive\<close>

text \<open>
  \<open>crates/verglas-safekeeper/src/segment_archiver.rs\<close>, the object-backed segment store of
  \<open>bins/cache-node/src/safekeeper.rs\<close>, and the timeline adapter of
  \<open>crates/verglas-safekeeper/src/consensus_protocol.rs\<close>. The two traits are records of operations on
  a world state: a segment store uploads, verifies and reads immutable objects, and a timeline reads,
  checkpoints and releases WAL. The \<open>object_store\<close> crate is a parameter. The lemmas show that a read of
  the archived prefix returns exactly bytes of verified objects, that it succeeds whenever the objects
  are served, and that a release is issued only behind a verified object and a committed checkpoint.
\<close>

subsection \<open>Objects, releases and errors\<close>

datatype archive_error =
    InvalidConfiguration
  | InvalidRange
  | ArchivedCoverage
  | ObjectStoreFailed string
  | ArchiveConsensus group_error

record archive_object =
  ao_key :: string
  ao_hash :: hash
  ao_length :: nat

definition object_from_segment :: "wal_archive_segment \<Rightarrow> archive_error + archive_object" where
  "object_from_segment segment =
     (let object = \<lparr> ao_key = seg_key segment, ao_hash = seg_hash segment, ao_length = segment_length segment \<rparr>
      in if ao_length object = 0 then Inl InvalidRange else Inr object)"

definition verify_bytes :: "deps \<Rightarrow> archive_object \<Rightarrow> bytes \<Rightarrow> archive_error + unit" where
  "verify_bytes D object data =
     (if length data \<noteq> ao_length object \<or> sha256 D data \<noteq> ao_hash object
      then Inl (ObjectStoreFailed ''archive object does not match its committed identity'')
      else Inr ())"

record segment_release =
  sr_through_lsn :: nat

definition checkpointed :: "nat \<Rightarrow> segment_release" where
  "checkpointed through_lsn = \<lparr> sr_through_lsn = through_lsn \<rparr>"

text \<open>
  Operations of a store always return. Operations of a timeline may not: a routed submission retries
  without a bound, so its result is optional, and absent when it never returns.
\<close>

type_synonym ('w, 'a) archive_op = "'w \<Rightarrow> (archive_error + 'a) \<times> 'w"

type_synonym ('w, 'a) archive_run = "'w \<Rightarrow> ((archive_error + 'a) \<times> 'w) option"

definition wait :: "('s \<Rightarrow> (('e + 'a) \<times> 's) option) \<Rightarrow> ('a \<Rightarrow> 's \<Rightarrow> (('e + 'b) \<times> 's) option) \<Rightarrow> 's \<Rightarrow> (('e + 'b) \<times> 's) option" where
  "wait m f s =
     (case m s of
        None \<Rightarrow> None
      | Some (Inl e, s') \<Rightarrow> Some (Inl e, s')
      | Some (Inr a, s') \<Rightarrow> f a s')"

definition returns :: "('s \<Rightarrow> 'r \<times> 's) \<Rightarrow> 's \<Rightarrow> ('r \<times> 's) option" where
  "returns m s = Some (m s)"

lemma wait_Inr [simp]: "wait m f s = Some (Inr b, s') \<longleftrightarrow> (\<exists>a s1. m s = Some (Inr a, s1) \<and> f a s1 = Some (Inr b, s'))"
  by (auto simp: wait_def split: option.split_asm sum.split_asm)

lemma returns_eq [simp]: "returns m s = Some (r, s') \<longleftrightarrow> m s = (r, s')"
  by (simp add: returns_def)

record 'w segment_store =
  is_upload :: "archive_object \<Rightarrow> bytes \<Rightarrow> ('w, unit) archive_op"
  is_verify :: "archive_object \<Rightarrow> ('w, unit) archive_op"
  is_read :: "archive_object \<Rightarrow> ('w, bytes) archive_op"

record 'w archive_timeline =
  at_read_committed_wal :: "nat \<Rightarrow> nat \<Rightarrow> nat \<Rightarrow> ('w, bytes) archive_run"
  at_commit_archive_checkpoint :: "nat \<Rightarrow> nat \<Rightarrow> archive_object \<Rightarrow> ('w, unit) archive_run"
  at_release_through :: "nat \<Rightarrow> ('w, segment_release) archive_run"

text \<open>An operation on one half of a pair, and an operation whose error is wrapped.\<close>

definition on_left :: "('a \<Rightarrow> 'r \<times> 'a) \<Rightarrow> 'a \<times> 'b \<Rightarrow> 'r \<times> ('a \<times> 'b)" where
  "on_left m w = (case m (fst w) of (r, a) \<Rightarrow> (r, (a, snd w)))"

definition on_right :: "('b \<Rightarrow> 'r \<times> 'b) \<Rightarrow> 'a \<times> 'b \<Rightarrow> 'r \<times> ('a \<times> 'b)" where
  "on_right m w = (case m (snd w) of (r, b) \<Rightarrow> (r, (fst w, b)))"

definition wrap_error :: "('e \<Rightarrow> 'f) \<Rightarrow> ('s \<Rightarrow> ('e + 'a) \<times> 's) \<Rightarrow> 's \<Rightarrow> ('f + 'a) \<times> 's" where
  "wrap_error f m s = (case m s of (r, s') \<Rightarrow> (map_err f r, s'))"

lemma wrap_error_Inr [simp]: "wrap_error f m s = (Inr a, s') \<longleftrightarrow> m s = (Inr a, s')"
  by (auto simp: wrap_error_def split: prod.splits)

lemma on_left_eq: "on_left m (a, b) = (r, (a', b')) \<longleftrightarrow> m a = (r, a') \<and> b' = b"
  by (auto simp: on_left_def split: prod.splits)

lemma on_right_eq: "on_right m (a, b) = (r, (a', b')) \<longleftrightarrow> m b = (r, b') \<and> a' = a"
  by (auto simp: on_right_def split: prod.splits)

subsection \<open>Reading the archived prefix\<close>

fun prefix_loop :: "deps \<Rightarrow> 'w segment_store \<Rightarrow> nat \<Rightarrow> wal_archive_segment list \<Rightarrow> nat \<Rightarrow> bytes \<Rightarrow> ('w, bytes) archive_op" where
  "prefix_loop D S to [] cursor out = return (Inl ArchivedCoverage)"
| "prefix_loop D S to (segment # segments) cursor out =
     (if seg_end_lsn segment \<le> cursor \<or> to \<le> seg_start_lsn segment then prefix_loop D S to segments cursor out
      else if cursor < seg_start_lsn segment \<or> seg_end_lsn segment \<le> cursor then return (Inl ArchivedCoverage)
      else
        await (return (object_from_segment segment)) (\<lambda>object.
        await (is_read S object) (\<lambda>data.
        await (return (verify_bytes D object data)) (\<lambda>_.
        let take_to = min to (seg_end_lsn segment) in
        await (return (ok_or ArchivedCoverage
          (get_range (cursor - seg_start_lsn segment) (take_to - seg_start_lsn segment) data))) (\<lambda>part.
        if take_to = to then return (Inr (out @ part)) else prefix_loop D S to segments take_to (out @ part))))))"

definition read_archived_wal_prefix :: "deps \<Rightarrow> 'w segment_store \<Rightarrow> wal_archive_segment list \<Rightarrow> nat \<Rightarrow> nat \<Rightarrow> ('w, bytes) archive_op" where
  "read_archived_wal_prefix D S segments from to =
     (if to \<le> from then return (Inl InvalidRange) else prefix_loop D S to segments from [])"

subsection \<open>The object-backed store\<close>

datatype put_outcome = PutDone | PutAlreadyExists | PutFailed string

text \<open>The \<open>object_store\<close> crate: path normalisation, a create-only put, and a get of the whole object.\<close>

record 'o object_backend =
  ob_path :: "string \<Rightarrow> string"
  ob_put_create :: "string \<Rightarrow> bytes \<Rightarrow> 'o \<Rightarrow> put_outcome \<times> 'o"
  ob_get :: "string \<Rightarrow> 'o \<Rightarrow> (string + bytes) \<times> 'o"

definition archive_read :: "'o object_backend \<Rightarrow> archive_object \<Rightarrow> ('o, bytes) archive_op" where
  "archive_read B object = wrap_error ObjectStoreFailed (ob_get B (ob_path B (ao_key object)))"

definition archive_upload :: "'o object_backend \<Rightarrow> archive_object \<Rightarrow> bytes \<Rightarrow> ('o, unit) archive_op" where
  "archive_upload B object data s =
     (case ob_put_create B (ob_path B (ao_key object)) data s of
        (PutFailed e, s') \<Rightarrow> (Inl (ObjectStoreFailed e), s')
      | (_, s') \<Rightarrow> (Inr (), s'))"

definition object_archive_store :: "deps \<Rightarrow> 'o object_backend \<Rightarrow> 'o segment_store" where
  "object_archive_store D B =
     \<lparr> is_upload = archive_upload B,
       is_verify = (\<lambda>object. await (archive_read B object) (\<lambda>data. return (verify_bytes D object data))),
       is_read = archive_read B \<rparr>"

text \<open>A store seen from a world of which it is the right half.\<close>

definition store_right :: "'o segment_store \<Rightarrow> ('a \<times> 'o) segment_store" where
  "store_right S =
     \<lparr> is_upload = (\<lambda>object data. on_right (is_upload S object data)), is_verify = (\<lambda>object. on_right (is_verify S object)),
       is_read = (\<lambda>object. on_right (is_read S object)) \<rparr>"

subsection \<open>The timeline of one group\<close>

definition archive_timeline_new :: "('p, 'r) services \<Rightarrow> node_id list \<Rightarrow> archive_error + (('p, 'r) consensus_group \<times> 'o) archive_timeline" where
  "archive_timeline_new X holders =
     (if holders = [] then Inl InvalidConfiguration
      else Inr
        \<lparr> at_read_committed_wal = (\<lambda>from to minimum_index. returns (on_left (wrap_error ArchiveConsensus (read_wal X from to minimum_index)))),
          at_commit_archive_checkpoint = (\<lambda>request end_lsn object.
            returns (on_left (wrap_error ArchiveConsensus
              (await (archive_checkpoint X request end_lsn (ao_key object) holders) (\<lambda>_. return (Inr ())))))),
          at_release_through = (\<lambda>end_lsn.
            returns (on_left (wrap_error ArchiveConsensus
              (await (release_wal_through X end_lsn) (\<lambda>_. return (Inr (checkpointed end_lsn))))))) \<rparr>)"

subsection \<open>The archiver\<close>

record 'w segment_archiver =
  sa_timeline :: "'w archive_timeline"
  sa_store :: "'w segment_store"
  sa_prefix :: string

definition archiver_new :: "'w archive_timeline \<Rightarrow> 'w segment_store \<Rightarrow> string \<Rightarrow> archive_error + 'w segment_archiver" where
  "archiver_new timeline store prefix =
     (if prefix = [] then Inl InvalidConfiguration
      else Inr \<lparr> sa_timeline = timeline, sa_store = store, sa_prefix = prefix \<rparr>)"

text \<open>The local \<open>hex\<close> function of the archiver prints two lower-case digits per byte, as \<^const>\<open>hex_bytes\<close> does.\<close>

definition archiver_object :: "deps \<Rightarrow> string \<Rightarrow> nat \<Rightarrow> nat \<Rightarrow> bytes \<Rightarrow> archive_object" where
  "archiver_object D prefix start_lsn end_lsn data =
     \<lparr> ao_key = prefix @ ''/'' @ hex_fixed 16 start_lsn @ ''-'' @ hex_fixed 16 end_lsn @ ''-'' @ hex_bytes (sha256 D data),
       ao_hash = sha256 D data, ao_length = length data \<rparr>"

definition archive_segment :: "deps \<Rightarrow> 'w segment_archiver \<Rightarrow> nat \<Rightarrow> nat \<Rightarrow> nat \<Rightarrow> nat \<Rightarrow> ('w, segment_release) archive_run" where
  "archive_segment D A request start_lsn end_lsn minimum_index =
     (if end_lsn \<le> start_lsn then returns (return (Inl InvalidRange))
      else
        wait (at_read_committed_wal (sa_timeline A) start_lsn end_lsn minimum_index) (\<lambda>data.
        if length data \<noteq> end_lsn - start_lsn then returns (return (Inl InvalidRange))
        else
          (let object = archiver_object D (sa_prefix A) start_lsn end_lsn data in
           wait (returns (is_upload (sa_store A) object data)) (\<lambda>_.
           wait (returns (is_verify (sa_store A) object)) (\<lambda>_.
           wait (at_commit_archive_checkpoint (sa_timeline A) request end_lsn object) (\<lambda>_.
           at_release_through (sa_timeline A) end_lsn))))))"

definition archive_tail :: "deps \<Rightarrow> 'w segment_archiver \<Rightarrow> nat \<Rightarrow> nat \<Rightarrow> nat \<Rightarrow> nat \<Rightarrow> ('w, segment_release) archive_run" where
  "archive_tail D A request start_lsn committed_end minimum_index =
     archive_segment D A request start_lsn committed_end minimum_index"

subsection \<open>The timeline adapter of the WAL protocol\<close>

record append_geometry =
  ag_k :: nat
  ag_m :: nat
  ag_w :: nat

datatype wal_protocol_error =
    InvalidGeometryWal nat nat nat
  | MissingHolders
  | WalConsensus group_error

definition geometry_new :: "nat \<Rightarrow> nat \<Rightarrow> nat \<Rightarrow> wal_protocol_error + append_geometry" where
  "geometry_new k m w =
     (if k = 0 \<or> w < k \<or> saturating_add k m < w then Inl (InvalidGeometryWal k m w)
      else Inr \<lparr> ag_k = k, ag_m = m, ag_w = w \<rparr>)"

definition geometry_total :: "append_geometry \<Rightarrow> nat" where
  "geometry_total G = ag_k G + ag_m G"

record consensus_timeline =
  ct_coded_holders :: "node_id list"
  ct_majority_holders :: "node_id list"

definition timeline_new :: "node_id list \<Rightarrow> node_id list \<Rightarrow> wal_protocol_error + consensus_timeline" where
  "timeline_new coded_holders majority_holders =
     (if coded_holders = [] \<or> majority_holders = [] then Inl MissingHolders
      else Inr \<lparr> ct_coded_holders = coded_holders, ct_majority_holders = majority_holders \<rparr>)"

definition applied :: "raft_response \<Rightarrow> wal_response" where
  "applied resp = Applied (rr_index resp) (rr_writer_epoch resp) (rr_wal_end resp) (rr_archive_lsn resp)"

fun timeline_group :: "('p, 'r) services \<Rightarrow> consensus_timeline \<Rightarrow> wal_request \<Rightarrow> ('p, 'r, wal_response) op" where
  "timeline_group X T (OpenTimeline request_id start_lsn) =
     await (open_timeline X request_id start_lsn (ct_majority_holders T)) (\<lambda>resp. return (Inr (applied resp)))"
| "timeline_group X T (AcquireWriter request_id writer) =
     await (group_acquire_writer X request_id writer (ct_majority_holders T)) (\<lambda>resp. return (Inr (applied resp)))"
| "timeline_group X T (Append request_id writer_epoch start_lsn payload) =
     await (append_wal X request_id writer_epoch start_lsn payload (ct_coded_holders T)) (\<lambda>resp. return (Inr (applied resp)))"
| "timeline_group X T (ReadWal from to minimum_index) =
     await (read_wal X from to minimum_index) (\<lambda>payload. return (Inr (WalBytes payload)))"
| "timeline_group X T (StatusRequest minimum_index) =
     await (fenced_archive_state X) (\<lambda>state.
     if wa_applied_index state < minimum_index then return (Inl (NotCommitted minimum_index))
     else return (Inr (StatusResponse (wa_applied_index state) (wa_committed_end state) (wa_checkpointed_end state))))"
| "timeline_group X T (ReleaseWriterRequest request_id writer_epoch) =
     await (release_writer X request_id writer_epoch (ct_majority_holders T)) (\<lambda>resp. return (Inr (applied resp)))"

definition timeline_handle :: "('p, 'r) services \<Rightarrow> consensus_timeline \<Rightarrow> wal_request
    \<Rightarrow> ('p, 'r) consensus_group \<Rightarrow> (wal_protocol_error + wal_response) \<times> ('p, 'r) consensus_group" where
  "timeline_handle X T request = wrap_error WalConsensus (timeline_group X T request)"

subsection \<open>What a prefix read returns\<close>

text \<open>
  The bytes of a range in the concatenation of one body per segment, which starts at \<open>c\<close>: every body
  has the length of its segment, and every body that contributes has the committed digest.
\<close>

definition segment_body :: "deps \<Rightarrow> nat \<Rightarrow> nat \<Rightarrow> wal_archive_segment \<Rightarrow> bytes \<Rightarrow> bool" where
  "segment_body D from to seg body \<longleftrightarrow> length body = segment_length seg \<and>
     (max from (seg_start_lsn seg) < min to (seg_end_lsn seg) \<longrightarrow> sha256 D body = seg_hash seg)"

definition archived_range :: "deps \<Rightarrow> nat \<Rightarrow> nat \<Rightarrow> nat \<Rightarrow> wal_archive_segment list \<Rightarrow> bytes \<Rightarrow> bool" where
  "archived_range D from to c segs part \<longleftrightarrow>
     (\<exists>bodies. list_all2 (segment_body D from to) segs bodies \<and> part = slice (from - c) (to - c) (concat bodies))"

abbreviation seg_ranges :: "wal_archive_segment list \<Rightarrow> (nat \<times> nat) list" where
  "seg_ranges segs \<equiv> map (\<lambda>seg. (seg_start_lsn seg, seg_end_lsn seg)) segs"

lemma segment_bodies_beyond:
  assumes "chain c (seg_ranges segs) = Some d" "to \<le> c"
  shows "\<exists>bodies. list_all2 (segment_body D from to) segs bodies"
  using assms
proof (induction segs arbitrary: c)
  case (Cons seg segs)
  have step: "seg_start_lsn seg = c" "c \<le> seg_end_lsn seg" "chain (seg_end_lsn seg) (seg_ranges segs) = Some d"
    using Cons.prems(1) by (auto split: if_splits)
  obtain bodies where "list_all2 (segment_body D from to) segs bodies" using Cons.IH [OF step(3)] Cons.prems(2) step(2) by auto
  then have "list_all2 (segment_body D from to) (seg # segs) (replicate (segment_length seg) 0 # bodies)"
    using step Cons.prems(2) by (simp add: segment_body_def)
  then show ?case by blast
qed (auto intro: exI [of _ "[]"])

lemma segment_bodies_widen:
  assumes "list_all2 (segment_body D mid to) segs bodies" "chain mid (seg_ranges segs) = Some d" "from \<le> mid"
  shows "list_all2 (segment_body D from to) segs bodies"
proof -
  have "mid \<le> a" if "chain c rs = Some d" "mid \<le> c" "(a, b) \<in> set rs" for c rs a b
    using that by (induction c rs rule: chain.induct) (auto split: if_splits)
  note above = this [OF assms(2) order.refl]
  show ?thesis
  proof (rule list.rel_mono_strong [OF assms(1)])
    fix seg body assume s: "seg \<in> set segs" and b: "segment_body D mid to seg body"
    have "mid \<le> seg_start_lsn seg" using above [of "seg_start_lsn seg" "seg_end_lsn seg"] s by auto
    then show "segment_body D from to seg body" using b assms(3) by (auto simp: segment_body_def max_def)
  qed
qed

lemma archived_range_skip:
  assumes "archived_range D from to (seg_end_lsn seg) segs part" "seg_start_lsn seg = c" "c \<le> seg_end_lsn seg" "seg_end_lsn seg \<le> from"
  shows "archived_range D from to c (seg # segs) part"
proof -
  let ?b = "seg_end_lsn seg" and ?body = "replicate (segment_length seg) 0 :: bytes"
  obtain bodies where b: "list_all2 (segment_body D from to) segs bodies" "part = slice (from - ?b) (to - ?b) (concat bodies)"
    using assms(1) by (auto simp: archived_range_def)
  have "list_all2 (segment_body D from to) (seg # segs) (?body # bodies)" using b(1) assms(4) by (simp add: segment_body_def)
  moreover have "slice (from - c) (to - c) (concat (?body # bodies)) = part"
    using b(2) assms(2-4) slice_skip [of ?body "?b - c" "from - c" "to - c" "concat bodies"] by (simp add: segment_length_def)
  ultimately show ?thesis unfolding archived_range_def by metis
qed

lemma archived_range_last:
  assumes "chain (seg_end_lsn seg) (seg_ranges segs) = Some d" "seg_start_lsn seg = c" "to \<le> seg_end_lsn seg"
    and "length body = segment_length seg" "sha256 D body = seg_hash seg"
  shows "archived_range D from to c (seg # segs) (slice (from - c) (to - c) body)"
proof -
  obtain bodies where "list_all2 (segment_body D from to) segs bodies" using segment_bodies_beyond [OF assms(1,3)] by blast
  then have "list_all2 (segment_body D from to) (seg # segs) (body # bodies)" using assms(4,5) by (simp add: segment_body_def)
  moreover have "slice (from - c) (to - c) (concat (body # bodies)) = slice (from - c) (to - c) body"
    using slice_within [of "to - c" body "from - c" "concat bodies"] assms(2-4) by (simp add: segment_length_def)
  ultimately show ?thesis unfolding archived_range_def by metis
qed

lemma archived_range_cross:
  assumes "archived_range D (seg_end_lsn seg) to (seg_end_lsn seg) segs part" "chain (seg_end_lsn seg) (seg_ranges segs) = Some d"
    and "seg_start_lsn seg = c" "length body = segment_length seg" "sha256 D body = seg_hash seg"
    and "c \<le> from" "from \<le> seg_end_lsn seg" "seg_end_lsn seg \<le> to"
  shows "archived_range D from to c (seg # segs) (slice (from - c) (seg_end_lsn seg - c) body @ part)"
proof -
  let ?b = "seg_end_lsn seg"
  obtain bodies where b: "list_all2 (segment_body D ?b to) segs bodies" "part = slice 0 (to - ?b) (concat bodies)"
    using assms(1) by (auto simp: archived_range_def)
  have "list_all2 (segment_body D from to) (seg # segs) (body # bodies)"
    using segment_bodies_widen [OF b(1) assms(2,7)] assms(4,5) by (simp add: segment_body_def)
  moreover have "slice (from - c) (to - c) (concat (body # bodies)) = slice (from - c) (?b - c) body @ part"
    using slice_split [of body "?b - c" "from - c" "to - c" "concat bodies"] assms(3,4,6-8) b(2) by (simp add: segment_length_def)
  ultimately show ?thesis unfolding archived_range_def by metis
qed

lemma object_from_segment_Inr:
  "object_from_segment seg = Inr object \<longleftrightarrow>
     object = \<lparr> ao_key = seg_key seg, ao_hash = seg_hash seg, ao_length = segment_length seg \<rparr> \<and> segment_length seg \<noteq> 0"
  by (auto simp: object_from_segment_def)

lemma verify_bytes_Inr: "verify_bytes D object data = Inr u \<longleftrightarrow> length data = ao_length object \<and> sha256 D data = ao_hash object"
  by (simp add: verify_bytes_def)

lemma prefix_step:
  assumes "prefix_loop D S to (seg # segs) cursor out w = (Inr res, w')" "seg_start_lsn seg \<le> cursor" "cursor < seg_end_lsn seg" "cursor < to"
  obtains body w1 where "length body = segment_length seg" "sha256 D body = seg_hash seg"
    "(let part = slice (cursor - seg_start_lsn seg) (min to (seg_end_lsn seg) - seg_start_lsn seg) body in
      if min to (seg_end_lsn seg) = to then return (Inr (out @ part)) else prefix_loop D S to segs (min to (seg_end_lsn seg)) (out @ part)) w1 =
      (Inr res, w')"
proof -
  let ?t = "min to (seg_end_lsn seg)" and ?object = "\<lparr> ao_key = seg_key seg, ao_hash = seg_hash seg, ao_length = segment_length seg \<rparr>"
  have "\<not> (seg_end_lsn seg \<le> cursor \<or> to \<le> seg_start_lsn seg)" "\<not> (cursor < seg_start_lsn seg \<or> seg_end_lsn seg \<le> cursor)"
    using assms(2-4) by auto
  then obtain body w1 part where "length body = segment_length seg" "sha256 D body = seg_hash seg"
      and part: "get_range (cursor - seg_start_lsn seg) (?t - seg_start_lsn seg) body = Some part"
      and rest: "(if ?t = to then return (Inr (out @ part)) else prefix_loop D S to segs ?t (out @ part)) w1 = (Inr res, w')"
    using assms(1) unfolding prefix_loop.simps if_False Let_def by (simp only: if_False) (auto simp: object_from_segment_Inr verify_bytes_Inr)
  moreover have "part = slice (cursor - seg_start_lsn seg) (?t - seg_start_lsn seg) body"
    using part by (simp add: get_range_def split: if_split_asm)
  ultimately show thesis using that unfolding Let_def by blast
qed

lemma prefix_loop_exact:
  assumes "prefix_loop D S to segs cursor out w = (Inr res, w')" "chain c (seg_ranges segs) = Some d" "c \<le> cursor" "cursor < to"
  shows "\<exists>part. res = out @ part \<and> archived_range D cursor to c segs part \<and> to \<le> d"
  using assms
proof (induction segs arbitrary: c cursor out w)
  case (Cons seg segs)
  let ?b = "seg_end_lsn seg"
  have step: "seg_start_lsn seg = c" "c \<le> ?b" "chain ?b (seg_ranges segs) = Some d" using Cons.prems(2) by (auto split: if_splits)
  show ?case
  proof (cases "?b \<le> cursor")
    case True
    then have "prefix_loop D S to segs cursor out w = (Inr res, w')" using Cons.prems(1) by simp
    from Cons.IH [OF this step(3) True Cons.prems(4)] show ?thesis using archived_range_skip [OF _ step(1,2) True] by blast
  next
    case False
    obtain body w1 where body: "length body = segment_length seg" "sha256 D body = seg_hash seg"
        and rest: "(let part = slice (cursor - c) (min to ?b - c) body in
          if min to ?b = to then return (Inr (out @ part)) else prefix_loop D S to segs (min to ?b) (out @ part)) w1 = (Inr res, w')"
      by (rule prefix_step [OF Cons.prems(1)]) (use Cons.prems(3,4) False step(1) in auto)
    show ?thesis
    proof (cases "to \<le> ?b")
      case True
      then show ?thesis using archived_range_last [OF step(3,1) True body, of cursor] rest chain_mono [OF step(3)] by (auto simp: Let_def)
    next
      case False
      then have "prefix_loop D S to segs ?b (out @ slice (cursor - c) (?b - c) body) w1 = (Inr res, w')" using rest by (simp add: Let_def min_def)
      from Cons.IH [OF this step(3) order.refl] False obtain part where
        part: "res = (out @ slice (cursor - c) (?b - c) body) @ part" "archived_range D ?b to ?b segs part" "to \<le> d" by auto
      then show ?thesis
        using archived_range_cross [OF part(2) step(3,1) body Cons.prems(3)] False \<open>\<not> ?b \<le> cursor\<close> by auto
    qed
  qed
qed simp

text \<open>A store that serves every segment from every world in \<open>Q\<close>.\<close>

definition serves :: "deps \<Rightarrow> 'w segment_store \<Rightarrow> ('w \<Rightarrow> bool) \<Rightarrow> wal_archive_segment list \<Rightarrow> bool" where
  "serves D S Q segs \<longleftrightarrow> (\<forall>seg \<in> set segs. \<forall>object w. object_from_segment seg = Inr object \<and> Q w \<longrightarrow>
     (\<exists>body w'. is_read S object w = (Inr body, w') \<and> Q w' \<and> length body = segment_length seg \<and> sha256 D body = seg_hash seg))"

lemma prefix_loop_serves:
  assumes "serves D S Q segs" "Q w" "chain c (seg_ranges segs) = Some d" "c \<le> cursor" "cursor < to" "to \<le> d"
  shows "\<exists>res w'. prefix_loop D S to segs cursor out w = (Inr res, w')"
  using assms
proof (induction segs arbitrary: c cursor out w)
  case (Cons seg segs)
  let ?b = "seg_end_lsn seg"
  have step: "seg_start_lsn seg = c" "c \<le> ?b" "chain ?b (seg_ranges segs) = Some d" using Cons.prems(3) by (auto split: if_splits)
  have segs: "serves D S Q segs" using Cons.prems(1) by (simp add: serves_def)
  show ?case
  proof (cases "?b \<le> cursor")
    case True
    then show ?thesis using Cons.IH [OF segs Cons.prems(2) step(3) True Cons.prems(5,6)] by simp
  next
    case False
    then have len: "segment_length seg \<noteq> 0" using Cons.prems(4) step(1) by (simp add: segment_length_def)
    let ?object = "\<lparr> ao_key = seg_key seg, ao_hash = seg_hash seg, ao_length = segment_length seg \<rparr>"
    obtain body w1 where body: "is_read S ?object w = (Inr body, w1)" "Q w1" "length body = segment_length seg" "sha256 D body = seg_hash seg"
      using Cons.prems(1,2) len unfolding serves_def object_from_segment_Inr by (metis list.set_intros(1))
    have part: "get_range (cursor - c) (min to ?b - c) body = Some (slice (cursor - c) (min to ?b - c) body)"
      using body(3) step(1) Cons.prems(4,5) False by (auto simp: get_range_def segment_length_def min_def)
    have loop: "prefix_loop D S to (seg # segs) cursor out w =
        (if min to ?b = to then return (Inr (out @ slice (cursor - c) (min to ?b - c) body))
         else prefix_loop D S to segs (min to ?b) (out @ slice (cursor - c) (min to ?b - c) body)) w1"
      using Cons.prems(4,5) False step(1) body len part
      by (simp add: object_from_segment_def verify_bytes_def await_def return_def Let_def)
    show ?thesis
    proof (cases "to \<le> ?b")
      case True
      then show ?thesis using loop by (simp add: min_def return_def)
    next
      case False
      then show ?thesis
        using loop Cons.IH [OF segs body(2) step(3) order.refl _ Cons.prems(6)] by (simp add: min_def del: prefix_loop.simps)
    qed
  qed
qed simp

lemma archived_range_length:
  assumes "archived_range D from to c segs part" "chain c (seg_ranges segs) = Some d" "c \<le> from" "to \<le> d"
  shows "length part = to - from"
proof -
  obtain bodies where b: "list_all2 (segment_body D from to) segs bodies" "part = slice (from - c) (to - c) (concat bodies)"
    using assms(1) by (auto simp: archived_range_def)
  have "length (concat bodies) = d - c" using b(1) assms(2)
  proof (induction segs arbitrary: c bodies)
    case (Cons seg segs)
    have step: "seg_start_lsn seg = c" "c \<le> seg_end_lsn seg" "chain (seg_end_lsn seg) (seg_ranges segs) = Some d"
      using Cons.prems(2) by (auto split: if_splits)
    then show ?case
      using Cons.prems(1) Cons.IH [OF _ step(3)] chain_mono [OF step(3)] by (auto simp: list_all2_Cons1 segment_body_def segment_length_def)
  qed auto
  then show ?thesis using b(2) assms(3,4) by (auto simp: slice_def)
qed

text \<open>A read that starts below the first segment is refused.\<close>

lemma prefix_loop_below:
  assumes "chain c (seg_ranges segs) = Some d" "cursor < c"
  shows "prefix_loop D S to segs cursor out w = (Inl ArchivedCoverage, w)"
  using assms by (induction segs arbitrary: c) (auto simp: return_def split: if_splits)

lemma prefix_read_exact:
  assumes "read_archived_wal_prefix D S segs from to w = (Inr data, w')" "chain c (seg_ranges segs) = Some d"
  shows "from < to \<and> c \<le> from \<and> to \<le> d \<and> archived_range D from to c segs data \<and> length data = to - from"
proof -
  have lt: "from < to" and loop: "prefix_loop D S to segs from [] w = (Inr data, w')"
    using assms(1) by (auto simp: read_archived_wal_prefix_def split: if_split_asm)
  have c: "c \<le> from" using prefix_loop_below [OF assms(2), of "from" D S to "[]" w] loop by (cases "from < c") auto
  show ?thesis using lt c prefix_loop_exact [OF loop assms(2) c lt] archived_range_length [OF _ assms(2) c] by auto
qed

subsection \<open>The archiver\<close>

text \<open>The key of an archived object names its range and digest.\<close>

lemma archiver_key_parses:
  assumes "hex_ok D" "digest_ok D" "start_lsn < end_lsn" "end_lsn < u64_bound"
  shows "segment_from_key D (ao_key (archiver_object D prefix start_lsn end_lsn data)) =
    Inr \<lparr> seg_start_lsn = start_lsn, seg_end_lsn = end_lsn, seg_key = ao_key (archiver_object D prefix start_lsn end_lsn data),
      seg_hash = sha256 D data \<rparr>"
proof -
  let ?a = "hex_fixed 16 start_lsn" and ?b = "hex_fixed 16 end_lsn" and ?h = "hex_bytes (sha256 D data)"
  have plain: "CHR ''-'' \<notin> set ?a" "CHR ''-'' \<notin> set ?b" "CHR ''-'' \<notin> set ?h" "CHR ''/'' \<notin> set ?a" "CHR ''/'' \<notin> set ?b" "CHR ''/'' \<notin> set ?h"
    using hex_fixed_plain hex_bytes_plain by blast+
  have "CHR ''/'' \<notin> set (?a @ CHR ''-'' # ?b @ CHR ''-'' # ?h)" using plain by simp
  then have "last (split_on (CHR ''/'') (ao_key (archiver_object D prefix start_lsn end_lsn data))) = ?a @ CHR ''-'' # ?b @ CHR ''-'' # ?h"
    using last_split_on [of "CHR ''/''" "?a @ CHR ''-'' # ?b @ CHR ''-'' # ?h" prefix] by (simp add: archiver_object_def)
  moreover have "split_on (CHR ''-'') (?a @ CHR ''-'' # ?b @ CHR ''-'' # ?h) = [?a, ?b, ?h]"
    using split_on_clean [OF plain(1)] split_on_clean [OF plain(2)] split_on_last [OF plain(3)] by simp
  ultimately show ?thesis
    using assms by (simp add: segment_from_key_def Let_def from_str_radix16_hex hex_ok_def digest_ok_def) (simp add: archiver_object_def)
qed

lemma archive_segment_Inr:
  assumes "archive_segment D A request start_lsn end_lsn m w = Some (Inr rel, w')"
  obtains data w1 w2 w3 w4 where "start_lsn < end_lsn" "at_read_committed_wal (sa_timeline A) start_lsn end_lsn m w = Some (Inr data, w1)"
    "length data = end_lsn - start_lsn" "is_upload (sa_store A) (archiver_object D (sa_prefix A) start_lsn end_lsn data) data w1 = (Inr (), w2)"
    "is_verify (sa_store A) (archiver_object D (sa_prefix A) start_lsn end_lsn data) w2 = (Inr (), w3)"
    "at_commit_archive_checkpoint (sa_timeline A) request end_lsn (archiver_object D (sa_prefix A) start_lsn end_lsn data) w3 = Some (Inr (), w4)"
    "at_release_through (sa_timeline A) end_lsn w4 = Some (Inr rel, w')"
proof -
  have lt: "start_lsn < end_lsn" using assms by (simp add: archive_segment_def split: if_split_asm)
  obtain data w1 where read: "at_read_committed_wal (sa_timeline A) start_lsn end_lsn m w = Some (Inr data, w1)" "length data = end_lsn - start_lsn"
      and rest: "wait (returns (is_upload (sa_store A) (archiver_object D (sa_prefix A) start_lsn end_lsn data) data)) (\<lambda>_.
        wait (returns (is_verify (sa_store A) (archiver_object D (sa_prefix A) start_lsn end_lsn data))) (\<lambda>_.
        wait (at_commit_archive_checkpoint (sa_timeline A) request end_lsn (archiver_object D (sa_prefix A) start_lsn end_lsn data)) (\<lambda>_.
        at_release_through (sa_timeline A) end_lsn))) w1 = Some (Inr rel, w')"
    using assms lt unfolding archive_segment_def Let_def by (auto split: if_split_asm)
  then show thesis using that [OF lt read] by auto
qed

lemma archive_read_Inr: "archive_read B object s = (Inr data, s') \<longleftrightarrow> ob_get B (ob_path B (ao_key object)) s = (Inr data, s')"
  by (simp add: archive_read_def)

lemma release_wal_through_Inr:
  "release_wal_through X end_lsn g = (Inr state, g') \<Longrightarrow> end_lsn \<le> sm_archive_lsn (cg_machine g')"
  by (auto simp: release_wal_through_def fenced_archive_state_def gets_def wal_archive_state_of_def split: if_split_asm)

text \<open>The steps of a successful run over one group and an object backend.\<close>

lemma group_archive_steps:
  assumes A: "archive_timeline_new X holders = Inr timeline" "archiver_new timeline (store_right (object_archive_store D B)) prefix = Inr A"
    and run: "archive_segment D A request start_lsn end_lsn m (g, objects) = Some (Inr rel, (g', objects'))"
  obtains data g1 o2 stored resp g2 state where "start_lsn < end_lsn" "read_wal X start_lsn end_lsn m g = (Inr data, g1)"
    "ob_get B (ob_path B (ao_key (archiver_object D prefix start_lsn end_lsn data))) o2 = (Inr stored, objects')"
    "length stored = length data" "sha256 D stored = sha256 D data"
    "archive_checkpoint X request end_lsn (ao_key (archiver_object D prefix start_lsn end_lsn data)) holders g1 = (Inr resp, g2)"
    "release_wal_through X end_lsn g2 = (Inr state, g')" "rel = checkpointed end_lsn"
proof -
  have fields: "sa_prefix A = prefix" "sa_timeline A = timeline" "sa_store A = store_right (object_archive_store D B)"
    using A(2) by (auto simp: archiver_new_def split: if_split_asm)
  let ?obj = "\<lambda>data. archiver_object D prefix start_lsn end_lsn data"
  obtain data w1 w2 w3 w4 where lt: "start_lsn < end_lsn" and read: "at_read_committed_wal timeline start_lsn end_lsn m (g, objects) = Some (Inr data, w1)"
      and up: "is_upload (sa_store A) (?obj data) data w1 = (Inr (), w2)" and ver: "is_verify (sa_store A) (?obj data) w2 = (Inr (), w3)"
      and cp: "at_commit_archive_checkpoint timeline request end_lsn (?obj data) w3 = Some (Inr (), w4)"
      and rel: "at_release_through timeline end_lsn w4 = Some (Inr rel, (g', objects'))"
    by (rule archive_segment_Inr [OF run]) (auto simp: fields)
  have T: "at_read_committed_wal timeline = (\<lambda>from to m. returns (on_left (wrap_error ArchiveConsensus (read_wal X from to m))))"
      "at_commit_archive_checkpoint timeline = (\<lambda>request end_lsn object. returns (on_left (wrap_error ArchiveConsensus
        (await (archive_checkpoint X request end_lsn (ao_key object) holders) (\<lambda>_. return (Inr ()))))))"
      "at_release_through timeline = (\<lambda>end_lsn. returns (on_left (wrap_error ArchiveConsensus
        (await (release_wal_through X end_lsn) (\<lambda>_. return (Inr (checkpointed end_lsn)))))))"
    using A(1) by (auto simp: archive_timeline_new_def split: if_split_asm)
  obtain g1 where g1: "w1 = (g1, objects)" "read_wal X start_lsn end_lsn m g = (Inr data, g1)"
    using read T(1) by (cases w1) (auto simp: on_left_eq)
  obtain o2 where o2: "w2 = (g1, o2)" using up g1(1) by (cases w2) (auto simp: fields store_right_def on_right_eq)
  obtain o3 stored where o3: "w3 = (g1, o3)" "ob_get B (ob_path B (ao_key (?obj data))) o2 = (Inr stored, o3)"
      "length stored = length data" "sha256 D stored = sha256 D data"
    using ver o2 by (cases w3) (auto simp: fields store_right_def on_right_eq object_archive_store_def archive_read_Inr verify_bytes_Inr archiver_object_def)
  obtain g2 resp where g2: "w4 = (g2, o3)" "archive_checkpoint X request end_lsn (ao_key (?obj data)) holders g1 = (Inr resp, g2)"
    using cp T(2) o3(1) by (cases w4) (auto simp: on_left_eq)
  obtain state where r: "release_wal_through X end_lsn g2 = (Inr state, g')" "objects' = o3" "rel = checkpointed end_lsn"
    using rel T(3) g2(1) by (auto simp: on_left_eq)
  from that [OF lt g1(2)] o3 g2(2) r show thesis by blast
qed

end
