(* ===== verification/Archive_Properties.thy ===== *)
theory Archive_Properties
  imports Archive
begin

section \<open>Properties of the WAL archive\<close>

text \<open>
  The two properties of the archive, with the example they are evaluated on: an archiver over a list of
  objects, which archives all the WAL of a group that committed five bytes.
\<close>

text \<open>Releasing WAL keeps the archive records.\<close>

lemma collect_segments_kept: "collect_segments c (map snd (filter (\<lambda>(_, h). \<not> wal_done t h) hs)) = collect_segments c (map snd hs)"
  by (induction hs arbitrary: c) (auto simp: wal_done_def split: entry_metadata.splits)

lemma archived_segments_kept:
  assumes "sorted_keys (sm_committed s)"
  shows "archived_wal_segments u (compact_checkpointed_wal_history t s) = archived_wal_segments u s"
proof -
  have "sm_archive_lsn (compact_checkpointed_wal_history t s) = sm_archive_lsn s" by (simp add: compact_checkpointed_wal_history_def drop_indices_def)
  then show ?thesis using collect_segments_kept [of None t "sm_committed s"] by (simp add: archived_wal_segments_def compact_wal_committed [OF assms] bt_vals_def)
qed

subsection \<open>An archived example\<close>

text \<open>An object backend that is a list of paths and bodies.\<close>

definition shelf :: "(string \<times> bytes) list object_backend" where
  "shelf = \<lparr> ob_path = (\<lambda>key. key), ob_put_create = (\<lambda>path data objects.
       if map_of objects path = None then (PutDone, (path, data) # objects) else (PutAlreadyExists, objects)),
     ob_get = (\<lambda>path objects. (ok_or ''not found'' (map_of objects path), objects)) \<rparr>"

lemma ex_fence: "ensure_linearizable ex_services g = (Inr (), g)" for g :: "(ring_session, nat) consensus_group"
  by (simp add: ensure_linearizable_def ex_services_def ex_raft_def advance_def await_def return_def)

lemmas wal_group_simps = wal_group_def wal_requests_def respond_def bind_wal_archive_def open_timeline_def group_acquire_writer_def append_wal_mode_def
    inline_commit with_wal_archive_bucket_def with_wal_start_def with_wal_range_def apply_simps ex_group_def sm_default_def
    await_def return_def checked_add_def checked_sub_def

lemma wal_group_read_all: "read_wal ex_services 100 105 0 wal_group = (Inr [10, 20, 30, 40, 50], wal_group)"
  by (simp add: wal_group_simps as_bytes_def
    read_wal_def ex_fence read_wal_after_fence_def applied_index_def wal_body_def get_range_def slice_def)

lemma release_write:
  assumes "through \<le> sm_archive_lsn (cg_machine g)" "sorted_keys (sm_committed (cg_machine g))"
  shows "\<exists>resp g'. client_write ex_services e (ReleaseWal through) g = (Inr resp, g') \<and>
    archived_wal_segments u (cg_machine g') = archived_wal_segments u (cg_machine g)"
proof -
  let ?s = "cg_machine g \<lparr>sm_last_applied := Some \<lparr> li_term = 1, li_node = 1, li_index = cg_raft g + 1 \<rparr>\<rparr>"
  have "archived_wal_segments u (compact_checkpointed_wal_history through ?s) = archived_wal_segments u (cg_machine g)"
    using archived_segments_kept [of ?s] assms(2) by (simp add: archived_wal_segments_def)
  then show ?thesis using assms(1)
    by (simp add: ex_services_def client_write_def ex_raft_def advance_def apply_own_def apply_entry_def apply_release_wal_def Let_def
      await_def return_def)
qed

abbreviation wal_segment_of :: "string \<Rightarrow> hash \<Rightarrow> wal_archive_segment" where
  "wal_segment_of key h \<equiv> \<lparr> seg_start_lsn = 100, seg_end_lsn = 105, seg_key = key, seg_hash = h \<rparr>"

lemma wal_group_commit_checkpoint:
  assumes "length key \<le> 4096"
  shows "\<exists>resp g. commit_header ex_services 9 ArchiveCheckpoint Complete (as_bytes key) None holders
      (with_archive_segment xor_deps (wal_segment_of key h)) wal_group = (Inr resp, g) \<and>
    sm_archive_lsn (cg_machine g) = 105 \<and> sorted_keys (sm_committed (cg_machine g)) \<and>
    archived_wal_segments 105 (cg_machine g) = Inr [wal_segment_of key h] \<and> cg_payloads g = None"
  using assms by (simp add: wal_group_simps with_archive_segment_def as_bytes_def archived_wal_segments_def bt_vals_def bt_keys_def sorted_keys_def)

lemma wal_group_checkpoint:
  assumes key: "segment_from_key xor_deps key = Inr (wal_segment_of key h)" "length key \<le> 4096"
  shows "\<exists>resp g. archive_checkpoint ex_services 9 105 key holders wal_group = (Inr resp, g) \<and>
    archived_wal_segments 105 (cg_machine g) = Inr [wal_segment_of key h]"
proof -
  obtain resp g where c: "commit_header ex_services 9 ArchiveCheckpoint Complete (as_bytes key) None holders
      (with_archive_segment xor_deps (wal_segment_of key h)) wal_group = (Inr resp, g)"
      "sm_archive_lsn (cg_machine g) = 105" "sorted_keys (sm_committed (cg_machine g))"
      "archived_wal_segments 105 (cg_machine g) = Inr [wal_segment_of key h]" "cg_payloads g = None"
    using wal_group_commit_checkpoint [OF key(2)] by blast
  have "release_checkpointed ex_services g = (Inr (), g)" "sv_deps ex_services = xor_deps" using c(5) by (simp_all add: release_checkpointed_def ex_services_def)
  then show ?thesis
    using key(1) c release_write [of 105 g "client_write_error (sv_raft ex_services)" 105] by (auto simp: archive_checkpoint_def await_def return_def)
qed

lemma archived_at: "archived_wal_segments u s = Inr segs \<Longrightarrow> sm_archive_lsn s = u"
  by (simp add: archived_wal_segments_def split: if_split_asm)

definition shelf_key :: string where
  "shelf_key = ao_key (archiver_object xor_deps ''p'' 100 105 [10, 20, 30, 40, 50])"

lemma shelf_key_parses: "segment_from_key xor_deps shelf_key = Inr (wal_segment_of shelf_key (sha256 xor_deps [10, 20, 30, 40, 50]))"
  unfolding shelf_key_def by (rule archiver_key_parses [OF xor_hex_ok xor_digest_ok]) simp_all

lemma shelf_key_short: "length shelf_key \<le> 4096"
  using xor_digest_ok by (simp add: shelf_key_def archiver_object_def digest_ok_def)

lemma shelf_checkpoint:
  obtains resp g where "archive_checkpoint ex_services 9 105 shelf_key holders wal_group = (Inr resp, g)" "sm_archive_lsn (cg_machine g) = 105"
    "archived_wal_segments 105 (cg_machine g) = Inr [wal_segment_of shelf_key (sha256 xor_deps [10, 20, 30, 40, 50])]" "group_wf xor_deps (=) g"
proof -
  obtain resp g where g: "archive_checkpoint ex_services 9 105 shelf_key holders wal_group = (Inr resp, g)"
      "archived_wal_segments 105 (cg_machine g) = Inr [wal_segment_of shelf_key (sha256 xor_deps [10, 20, 30, 40, 50])]"
    using wal_group_checkpoint [OF shelf_key_parses shelf_key_short] by blast
  have "snd (execute ex_services (ReqArchiveCheckpoint 9 105 shelf_key holders) wal_group) = g" using g(1) by (simp add: respond_def await_def return_def)
  then have "group_wf xor_deps (=) g"
    using fold_execute_keeps [OF _ _ wal_group_wf, of ex_services "[ReqArchiveCheckpoint 9 105 shelf_key holders]"]
    by (simp add: ex_services_def ex_raft_ok)
  with that g archived_at show thesis by blast
qed

text \<open>The archiver of the example group over a list of objects archives all five bytes of its WAL.\<close>

definition shelf_timeline :: "((ring_session, nat) consensus_group \<times> (string \<times> bytes) list) archive_timeline" where
  "shelf_timeline =
     \<lparr> at_read_committed_wal = (\<lambda>from to minimum_index. returns (on_left (wrap_error ArchiveConsensus (read_wal ex_services from to minimum_index)))),
       at_commit_archive_checkpoint = (\<lambda>request end_lsn object.
         returns (on_left (wrap_error ArchiveConsensus
           (await (archive_checkpoint ex_services request end_lsn (ao_key object) [1]) (\<lambda>_. return (Inr ())))))),
       at_release_through = (\<lambda>end_lsn.
         returns (on_left (wrap_error ArchiveConsensus
           (await (release_wal_through ex_services end_lsn) (\<lambda>_. return (Inr (checkpointed end_lsn))))))) \<rparr>"

definition shelf_archiver :: "((ring_session, nat) consensus_group \<times> (string \<times> bytes) list) segment_archiver" where
  "shelf_archiver = \<lparr> sa_timeline = shelf_timeline, sa_store = store_right (object_archive_store xor_deps shelf), sa_prefix = ''p'' \<rparr>"

lemma shelf_timeline_new: "archive_timeline_new ex_services [1] = Inr shelf_timeline"
  by (simp add: archive_timeline_new_def shelf_timeline_def)

lemma shelf_archiver_new: "archiver_new shelf_timeline (store_right (object_archive_store xor_deps shelf)) ''p'' = Inr shelf_archiver"
  by (simp add: archiver_new_def shelf_archiver_def)

lemma shelf_run:
  "\<exists>g' objects'. archive_segment xor_deps shelf_archiver 9 100 105 0 (wal_group, []) = Some (Inr (checkpointed 105), (g', objects'))"
proof -
  let ?data = "[10, 20, 30, 40, 50] :: bytes"
  have o: "archiver_object xor_deps ''p'' 100 105 ?data = \<lparr> ao_key = shelf_key, ao_hash = sha256 xor_deps ?data, ao_length = 5 \<rparr>"
    by (simp add: shelf_key_def archiver_object_def)
  obtain resp g where cp: "archive_checkpoint ex_services 9 105 shelf_key [1] wal_group = (Inr resp, g)" "sm_archive_lsn (cg_machine g) = 105"
    by (rule shelf_checkpoint [of "[1]"]) blast
  have rel: "release_wal_through ex_services 105 g = (Inr (wal_archive_state_of (cg_machine g)), g)"
    using cp(2) by (simp add: release_wal_through_def fenced_archive_state_def ex_fence await_def return_def gets_def wal_archive_state_of_def)
  show ?thesis
    using cp(1) rel wal_group_read_all o
    by (simp add: archive_segment_def shelf_archiver_def shelf_timeline_def store_right_def object_archive_store_def shelf_def on_left_def on_right_def
        wait_def returns_def await_def return_def wrap_error_def archive_upload_def archive_read_def verify_bytes_def Let_def)
qed

subsection \<open>Properties\<close>



text \<open>C27: The archived prefix stays readable after its WAL was released. For a well-formed group state, take any
  range that starts at or above the first archived segment and ends at or below the archive watermark.
  If the store serves, for every segment that the log records, some object of the recorded length and
  digest, then the read of the range succeeds, has exactly the length of the range, and is that range
  of the concatenation of one object per segment, where each object that contributes has the digest in
  the log.\<close>

theorem archived_prefix_reads:
  assumes wf: "sm_wf s" "archived_wal_segments (sm_archive_lsn s) s = Inr segs" and hd: "segs \<noteq> []" "seg_start_lsn (hd segs) \<le> from"
    and range: "from < to" "to \<le> sm_archive_lsn s" and S: "serves D S Q segs" "Q w"
  shows "\<exists>data w'. read_archived_wal_prefix D S segs from to w = (Inr data, w') \<and> length data = to - from \<and>
    archived_range D from to (seg_start_lsn (hd segs)) segs data"
proof -
  let ?c = "seg_start_lsn (hd segs)"
  obtain base where base: "chain base (seg_ranges segs) = Some (sm_archive_lsn s)" using archived_segments_chain [OF wf] by blast
  then have "base = ?c" using hd(1) by (cases segs) (auto split: if_splits)
  with base have c: "chain ?c (seg_ranges segs) = Some (sm_archive_lsn s)" by simp
  obtain data w' where "prefix_loop D S to segs from [] w = (Inr data, w')" using prefix_loop_serves [OF S c hd(2) range] by blast
  then have "read_archived_wal_prefix D S segs from to w = (Inr data, w')" using range(1) by (simp add: read_archived_wal_prefix_def)
  with prefix_read_exact [OF this c] show ?thesis by blast
qed

theorem archived_prefix_reads_witness:
  "\<exists>s segs. sm_wf s \<and> archived_wal_segments (sm_archive_lsn s) s = Inr segs \<and> (\<exists>data w'.
     read_archived_wal_prefix xor_deps (object_archive_store xor_deps shelf) segs 101 104 [(shelf_key, [10, 20, 30, 40, 50])] = (Inr data, w') \<and>
     length data = 3)"
proof -
  let ?data = "[10, 20, 30, 40, 50] :: bytes" and ?Q = "\<lambda>w. w = [(shelf_key, [10, 20, 30, 40, 50 :: 8 word])]"
  let ?segs = "[wal_segment_of shelf_key (sha256 xor_deps ?data)]"
  obtain g :: "(ring_session, nat) consensus_group" where g: "sm_archive_lsn (cg_machine g) = 105" "archived_wal_segments 105 (cg_machine g) = Inr ?segs" "group_wf xor_deps (=) g"
    by (rule shelf_checkpoint [of "[1]"]) blast
  have "serves xor_deps (object_archive_store xor_deps shelf) ?Q ?segs"
    by (simp add: serves_def object_from_segment_def segment_length_def object_archive_store_def archive_read_def shelf_def wrap_error_def)
  from archived_prefix_reads [OF _ _ _ _ _ _ this, of "cg_machine g" 101 104] g show ?thesis by (auto simp: group_wf_def)
qed

end
