(* ===== verification/Plane.thy ===== *)
theory Plane
  imports Archive_Properties
begin

section \<open>The consensus plane of a node\<close>

text \<open>
  \<open>bins/cache-node/src/consensus.rs\<close> with the command RPC of
  \<open>crates/verglas-cluster/src/raft_transport.rs\<close>: voter identities and election timing, opening and
  bootstrapping replicas, routing a request to the leader, and the object committers. The state holds
  the replicas that every node hosts, so that a forwarded command runs on the replica it reaches. The
  network is a stream of fates, one per call, and the clock a stream of answers to "has the deadline
  passed". OpenRaft, the JSON codec and the files of a replica are parameters. The texts of the plane's
  own messages are shortened where they only format their arguments.

  The lemmas show that an answer of the plane is the answer of one execution of exactly the submitted
  request on one replica, that routing keeps every replica well formed, and that the election windows
  of two voters never overlap.
\<close>

unbundle bit_operations_syntax

subsection \<open>Identities, timing and group names\<close>

text \<open>FNV-1a over the bytes of a node name, on 64-bit words that wrap.\<close>

definition plane_node_id :: "string \<Rightarrow> node_id" where
  "plane_node_id node =
     unat (fold (\<lambda>byte h. (h XOR ucast byte) * 0x100000001b3) (as_bytes node) (0xcbf29ce484222325 :: 64 word))"

text \<open>The ring derives its voters with a copy of this function; the two agree.\<close>

lemma plane_node_id_eq: "plane_node_id = numeric_node_id"
  by (simp add: fun_eq_iff plane_node_id_def numeric_node_id_def)

datatype plane_error = PlaneGroup group_error | PlaneMessage string

record raft_timing =
  rt_heartbeat_interval :: nat
  rt_election_timeout_min :: nat
  rt_election_timeout_max :: nat

definition raft_heartbeat_interval_ms :: nat where
  "raft_heartbeat_interval_ms = 250"

definition raft_election_first_timeout_ms :: nat where
  "raft_election_first_timeout_ms = 1000"

definition raft_election_rank_step_ms :: nat where
  "raft_election_rank_step_ms = 750"

definition raft_election_window_ms :: nat where
  "raft_election_window_ms = 250"

definition checked_mul :: "nat \<Rightarrow> nat \<Rightarrow> nat option" where
  "checked_mul a b = (if a * b < u64_bound then Some (a * b) else None)"

definition raft_config :: "node_id list \<Rightarrow> node_id \<Rightarrow> plane_error + raft_timing" where
  "raft_config voters local =
     (let ranks = sort_dedup voters in
      if length ranks \<noteq> length voters
      then Inl (PlaneMessage ''consensus voter configuration contains duplicate identities'')
      else
        and_then (ok_or (PlaneMessage ''local cache node is not a configured consensus voter'')
          (position (\<lambda>v. v = local) ranks)) (\<lambda>rank.
        and_then (ok_or (PlaneMessage ''consensus voter rank overflows election timing'')
          (checked_mul rank raft_election_rank_step_ms)) (\<lambda>offset.
        and_then (ok_or (PlaneMessage ''consensus election timing overflows'')
          (checked_add raft_election_first_timeout_ms offset)) (\<lambda>minimum.
        and_then (ok_or (PlaneMessage ''consensus election timing overflows'')
          (checked_add minimum raft_election_window_ms)) (\<lambda>maximum.
        Inr \<lparr> rt_heartbeat_interval = raft_heartbeat_interval_ms, rt_election_timeout_min = minimum,
              rt_election_timeout_max = maximum \<rparr>)))))"

text \<open>The vote to save over a restored one, if this node was the committed leader.\<close>

definition invalidate_restored_leader_vote :: "(nat \<times> node_id \<times> bool) option \<Rightarrow> node_id \<Rightarrow> plane_error + (nat \<times> node_id \<times> bool) option" where
  "invalidate_restored_leader_vote restored local =
     (case restored of
        None \<Rightarrow> Inr None
      | Some (term, node, committed) \<Rightarrow>
          if \<not> committed \<or> node \<noteq> local then Inr None
          else and_then (ok_or (PlaneMessage ''restored Raft leader term overflowed'') (checked_add term 1)) (\<lambda>next_term.
            Inr (Some (next_term, local, False))))"

definition validate_group :: "string \<Rightarrow> plane_error + unit" where
  "validate_group grp =
     (if grp = [] \<or> length grp > 512 then Inl (PlaneMessage ''consensus group identity is empty or too long'') else Inr ())"

record cache_key =
  ck_storage_binding_id :: string
  ck_bucket :: string
  ck_key :: string

definition object_consensus_shards :: nat where
  "object_consensus_shards = 4"

definition object_consensus_group :: "deps \<Rightarrow> cache_key \<Rightarrow> string" where
  "object_consensus_group D key =
     (let scope = sha256 D (as_bytes (ck_storage_binding_id key @ [CHR 0x00] @ ck_bucket key));
          object = sha256 D (as_bytes (ck_key key));
          shard = unat (object ! 0) mod object_consensus_shards
      in ''object/'' @ hex_encode D (take 8 scope) @ ''/'' @ dec_string shard)"

definition existing_wal_binding_outcome :: "string option \<Rightarrow> string \<Rightarrow> string + bool" where
  "existing_wal_binding_outcome existing requested =
     (case existing of
        Some bucket \<Rightarrow> if bucket = requested then Inr True else Inl (''timeline WAL archive is already bound to `'' @ bucket @ ''`'')
      | None \<Rightarrow> Inr False)"

definition payload_request_id :: "deps \<Rightarrow> bytes \<Rightarrow> nat" where
  "payload_request_id D payload = of_be (take 16 (sha256 D payload))"

subsection \<open>The plane and its services\<close>

text \<open>
  What happens to a call: it is delivered, it is lost before it runs, its answer is lost after it ran, or
  the body of its answer cannot be read.
\<close>

datatype fate = Delivered | Dropped string | AnswerLost string | BodyLost string

record ('p, 'r) plane =
  pl_self :: node_id
  pl_k :: nat
  pl_m :: nat
  pl_ring_voters :: "node_id list"
  pl_groups :: "node_id \<Rightarrow> (string \<times> ('p, 'r) consensus_group) list"
  pl_net :: "nat \<Rightarrow> fate"
  pl_clock :: "nat \<Rightarrow> bool"

record ('p, 'r) plane_services =
  ps_node :: "node_id \<Rightarrow> ('p, 'r) services"
  ps_encode_request :: "group_request \<Rightarrow> string + bytes"
  ps_decode_request :: "bytes \<Rightarrow> string + group_request"
  ps_encode_response :: "group_response \<Rightarrow> string + bytes"
  ps_decode_response :: "bytes \<Rightarrow> string + group_response"
  ps_group_error_text :: "group_error \<Rightarrow> string"
  ps_files :: "node_id \<Rightarrow> string \<Rightarrow> string + state_machine \<times> (nat \<times> node_id \<times> bool) option"
  ps_raft_new :: "node_id \<Rightarrow> string \<Rightarrow> raft_timing \<Rightarrow> (nat \<times> node_id \<times> bool) option \<Rightarrow> state_machine \<Rightarrow> string + 'r"
  ps_payload_factory :: "node_id \<Rightarrow> nat \<Rightarrow> nat \<Rightarrow> node_id list \<Rightarrow> payload_error + 'p"
  ps_initialize :: "node_id list \<Rightarrow> 'r \<Rightarrow> log_entry list \<times> (string + unit) \<times> 'r"
  ps_add_learner :: "node_id \<Rightarrow> 'r \<Rightarrow> log_entry list \<times> (string + unit) \<times> 'r"
  ps_change_membership :: "node_id list \<Rightarrow> 'r \<Rightarrow> log_entry list \<times> (string + unit) \<times> 'r"

type_synonym ('p, 'r, 'a) plane_op = "('p, 'r) plane \<Rightarrow> (plane_error + 'a) \<times> ('p, 'r) plane"

text \<open>The text of a plane error, as \<open>to_string\<close> gives it.\<close>

definition plane_error_text :: "('p, 'r) plane_services \<Rightarrow> plane_error \<Rightarrow> string" where
  "plane_error_text X e = (case e of PlaneGroup g \<Rightarrow> ps_group_error_text X g | PlaneMessage m \<Rightarrow> m)"

definition next_fate :: "('p, 'r) plane \<Rightarrow> fate \<times> ('p, 'r) plane" where
  "next_fate P = (pl_net P 0, P\<lparr>pl_net := (\<lambda>i. pl_net P (Suc i))\<rparr>)"

definition next_expired :: "('p, 'r) plane \<Rightarrow> bool \<times> ('p, 'r) plane" where
  "next_expired P = (pl_clock P 0, P\<lparr>pl_clock := (\<lambda>i. pl_clock P (Suc i))\<rparr>)"

definition put_group :: "node_id \<Rightarrow> string \<Rightarrow> ('p, 'r) consensus_group \<Rightarrow> ('p, 'r) plane \<Rightarrow> ('p, 'r) plane" where
  "put_group node grp g P = P\<lparr>pl_groups := (pl_groups P)(node := bt_insert grp g (pl_groups P node))\<rparr>"

text \<open>An operation of the replica that a node hosts.\<close>

definition on_replica :: "node_id \<Rightarrow> string \<Rightarrow> ('p, 'r, 'a) op \<Rightarrow> ('p, 'r, 'a) plane_op" where
  "on_replica node grp m P =
     (case map_of (pl_groups P node) grp of
        None \<Rightarrow> (Inl (PlaneMessage ''group disappeared''), P)
      | Some g \<Rightarrow> (case m g of (r, g') \<Rightarrow> (map_err PlaneGroup r, put_group node grp g' P)))"

text \<open>A membership operation of OpenRaft: the entries it commits reach this replica's state machine.\<close>

definition raft_call :: "('p, 'r) plane_services \<Rightarrow> node_id \<Rightarrow> string \<Rightarrow> ('r \<Rightarrow> log_entry list \<times> (string + unit) \<times> 'r) \<Rightarrow> ('p, 'r, unit) plane_op" where
  "raft_call X node grp f P =
     (case map_of (pl_groups P node) grp of
        None \<Rightarrow> (Inl (PlaneMessage ''group disappeared''), P)
      | Some g \<Rightarrow>
          (case f (cg_raft g) of
             (entries, outcome, raft) \<Rightarrow>
               (case advance (sv_deps (ps_node X node)) entries (g\<lparr>cg_raft := raft\<rparr>) of
                  (Inl _, g') \<Rightarrow> (Inl (PlaneMessage ''storage''), put_group node grp g' P)
                | (Inr _, g') \<Rightarrow> (map_err PlaneMessage outcome, put_group node grp g' P))))"

subsection \<open>Opening and bootstrapping a replica\<close>

definition open_local :: "('p, 'r) plane_services \<Rightarrow> node_id \<Rightarrow> string \<Rightarrow> ('p, 'r, unit) plane_op" where
  "open_local X node grp P =
     (case validate_group grp of
        Inl e \<Rightarrow> (Inl e, P)
      | Inr _ \<Rightarrow>
          if map_of (pl_groups P node) grp \<noteq> None then (Inr (), P)
          else
            (case
               and_then (map_err PlaneMessage (ps_files X node grp)) (\<lambda>(machine, vote).
               and_then (invalidate_restored_leader_vote vote node) (\<lambda>replaced.
               let voters = (if length (committed_voters machine) = pl_k P + pl_m P then committed_voters machine else pl_ring_voters P);
                   vote = (case replaced of Some v \<Rightarrow> Some v | None \<Rightarrow> vote)
               in
               and_then (raft_config voters node) (\<lambda>timing.
               and_then (map_err PlaneMessage (ps_raft_new X node grp timing vote machine)) (\<lambda>raft.
               map_err PlaneGroup (group_new grp (max (membership_generation machine) 1) raft machine
                 (ps_payload_factory X node (pl_k P) (pl_m P) voters))))))
             of Inl e \<Rightarrow> (Inl e, P)
              | Inr g \<Rightarrow> (Inr (), put_group node grp g P)))"

definition initialized_local_group :: "node_id \<Rightarrow> string \<Rightarrow> ('p, 'r) plane \<Rightarrow> bool" where
  "initialized_local_group node grp P =
     (case map_of (pl_groups P node) grp of None \<Rightarrow> False | Some g \<Rightarrow> is_initialized (cg_machine g))"

definition bootstrap_local :: "('p, 'r) plane_services \<Rightarrow> node_id \<Rightarrow> string \<Rightarrow> ('p, 'r, unit) plane_op" where
  "bootstrap_local X node grp =
     await (open_local X node grp) (\<lambda>_ P.
     if initialized_local_group node grp P then (Inr (), P)
     else raft_call X node grp (ps_initialize X (pl_ring_voters P)) P)"

text \<open>A group lifecycle call to a peer: its refusal and its loss are one kind of error.\<close>

definition control_call :: "node_id \<Rightarrow> ('p, 'r, unit) plane_op \<Rightarrow> ('p, 'r, unit) plane_op" where
  "control_call target m P =
     (case next_fate P of (fate, P1) \<Rightarrow>
        (case fate of
           Dropped e \<Rightarrow> (Inl (PlaneMessage e), P1)
         | _ \<Rightarrow>
             (case m P1 of (r, P2) \<Rightarrow>
                (case (fate, r) of
                   (AnswerLost e, _) \<Rightarrow> (Inl (PlaneMessage e), P2)
                 | (_, Inr _) \<Rightarrow> (Inr (), P2)
                 | (_, Inl _) \<Rightarrow> (Inl (PlaneMessage ''raft peer refused group lifecycle operation''), P2)))))"

fun open_each :: "('p, 'r) plane_services \<Rightarrow> string \<Rightarrow> node_id list \<Rightarrow> ('p, 'r) plane \<Rightarrow> node_id list \<times> ('p, 'r) plane" where
  "open_each X grp [] P = ([], P)"
| "open_each X grp (voter # voters) P =
     (case control_call voter (open_local X voter grp) P of
        (r, P1) \<Rightarrow> (case open_each X grp voters P1 of
          (opened, P2) \<Rightarrow> (case r of Inr _ \<Rightarrow> (voter # opened, P2) | Inl _ \<Rightarrow> (opened, P2))))"

definition open_voters :: "('p, 'r) plane_services \<Rightarrow> string \<Rightarrow> node_id list \<Rightarrow> ('p, 'r, node_id list) plane_op" where
  "open_voters X grp voters P =
     (case open_each X grp voters P of
        (opened, P') \<Rightarrow>
          if length (bs_of_list opened) < length voters div 2 + 1
          then (Inl (PlaneMessage ''a Raft quorum is required''), P')
          else (Inr (bs_of_list opened), P'))"

definition ensure_group :: "('p, 'r) plane_services \<Rightarrow> string \<Rightarrow> ('p, 'r, unit) plane_op" where
  "ensure_group X grp P =
     (case validate_group grp of
        Inl e \<Rightarrow> (Inl e, P)
      | Inr _ \<Rightarrow>
          if initialized_local_group (pl_self P) grp P then (Inr (), P)
          else if pl_ring_voters P = [] then (Inl (PlaneMessage ''consensus group has no voters''), P)
          else
            await (open_voters X grp (pl_ring_voters P)) (\<lambda>opened.
            await (return (ok_or (PlaneMessage ''no voter opened the consensus group'') (case opened of [] \<Rightarrow> None | v # _ \<Rightarrow> Some v))) (\<lambda>bootstrap.
            await (control_call bootstrap (bootstrap_local X bootstrap grp)) (\<lambda>_.
            open_local X (pl_self P) grp))) P)"

subsection \<open>The command RPC\<close>

datatype command_error =
    CmdNotLeader "node_id option"
  | CmdUnreachable string
  | CmdFailed string

definition execute_local :: "('p, 'r) plane_services \<Rightarrow> node_id \<Rightarrow> string \<Rightarrow> bytes \<Rightarrow> ('p, 'r) plane \<Rightarrow> (command_error + bytes) \<times> ('p, 'r) plane" where
  "execute_local X node grp body P =
     (case open_local X node grp P of
        (Inl e, P1) \<Rightarrow> (Inl (CmdFailed (plane_error_text X e)), P1)
      | (Inr _, P1) \<Rightarrow>
          (case ps_decode_request X body of
             Inl e \<Rightarrow> (Inl (CmdFailed e), P1)
           | Inr request \<Rightarrow>
               (case on_replica node grp (execute (ps_node X node) request) P1 of
                  (Inl (PlaneGroup (NotLeader leader)), P2) \<Rightarrow> (Inl (CmdNotLeader leader), P2)
                | (Inl e, P2) \<Rightarrow> (Inl (CmdFailed (plane_error_text X e)), P2)
                | (Inr resp, P2) \<Rightarrow> (map_err CmdFailed (ps_encode_response X resp), P2))))"

text \<open>The leader hint travels as decimal text; an unreadable body is no hint.\<close>

definition wire_hint :: "fate \<Rightarrow> node_id option \<Rightarrow> node_id option" where
  "wire_hint fate leader =
     (case fate of
        BodyLost _ \<Rightarrow> None
      | _ \<Rightarrow> from_str_usize (case leader of None \<Rightarrow> [] | Some l \<Rightarrow> dec_string l))"

definition command_answer :: "fate \<Rightarrow> command_error + bytes \<Rightarrow> command_error + bytes" where
  "command_answer fate r =
     (case r of
        Inl (CmdUnreachable detail) \<Rightarrow> Inl (CmdUnreachable detail)
      | Inl (CmdNotLeader leader) \<Rightarrow> Inl (CmdNotLeader (wire_hint fate leader))
      | Inl (CmdFailed detail) \<Rightarrow>
          Inl (CmdFailed (''group leader rejected application command: 409 Conflict: '' @
            (case fate of BodyLost e \<Rightarrow> ''<unreadable body: '' @ e @ ''>'' | _ \<Rightarrow> detail)))
      | Inr body \<Rightarrow> (case fate of BodyLost e \<Rightarrow> Inl (CmdFailed e) | _ \<Rightarrow> Inr body))"

definition command :: "('p, 'r) plane_services \<Rightarrow> string \<Rightarrow> node_id \<Rightarrow> bytes \<Rightarrow> ('p, 'r) plane \<Rightarrow> (command_error + bytes) \<times> ('p, 'r) plane" where
  "command X grp target body P =
     (case next_fate P of (fate, P1) \<Rightarrow>
        (case fate of
           Dropped e \<Rightarrow> (Inl (CmdUnreachable e), P1)
         | _ \<Rightarrow>
             (case execute_local X target grp body P1 of (r, P2) \<Rightarrow>
                (case fate of AnswerLost e \<Rightarrow> (Inl (CmdUnreachable e), P2) | _ \<Rightarrow> (command_answer fate r, P2)))))"

subsection \<open>Routing to the leader\<close>

definition resolve_leader_after_stale :: "('p, 'r) plane_services \<Rightarrow> string \<Rightarrow> node_id option \<Rightarrow> node_id \<Rightarrow> ('p, 'r, node_id) plane_op" where
  "resolve_leader_after_stale X grp hint stale P =
     (case Option.bind hint (\<lambda>h. if h \<noteq> stale then Some h else None) of
        Some h \<Rightarrow> (Inr h, P)
      | None \<Rightarrow>
          (case next_expired P of (expired, P1) \<Rightarrow>
             if expired then (Inl (PlaneMessage ''no reachable leader in time''), P1)
             else await (on_replica (pl_self P1) grp (await_leader_change (ps_node X (pl_self P1)) (Some stale))) (\<lambda>found.
               return (ok_or (PlaneMessage ''elected no new leader'') found)) P1))"

text \<open>One round: an answer, or the leader to try next.\<close>

definition submit_round :: "('p, 'r) plane_services \<Rightarrow> string \<Rightarrow> group_request \<Rightarrow> bytes \<Rightarrow> node_id
    \<Rightarrow> ('p, 'r, group_response + node_id) plane_op" where
  "submit_round X grp request encoded leader P =
     (if leader = pl_self P then
        (case on_replica (pl_self P) grp (execute (ps_node X (pl_self P)) request) P of
           (Inr resp, P1) \<Rightarrow> (Inr (Inl resp), P1)
         | (Inl (PlaneGroup (NotLeader hint)), P1) \<Rightarrow>
             await (resolve_leader_after_stale X grp hint leader) (\<lambda>l. return (Inr (Inr l))) P1
         | (Inl e, P1) \<Rightarrow> (Inl e, P1))
      else
        (case command X grp leader encoded P of
           (Inr body, P1) \<Rightarrow>
             (case ps_decode_response X body of Inl e \<Rightarrow> (Inl (PlaneMessage e), P1) | Inr resp \<Rightarrow> (Inr (Inl resp), P1))
         | (Inl (CmdNotLeader hint), P1) \<Rightarrow>
             await (resolve_leader_after_stale X grp hint leader) (\<lambda>l. return (Inr (Inr l))) P1
         | (Inl (CmdUnreachable _), P1) \<Rightarrow>
             await (resolve_leader_after_stale X grp None leader) (\<lambda>l. return (Inr (Inr l))) P1
         | (Inl (CmdFailed detail), P1) \<Rightarrow> (Inl (PlaneMessage detail), P1)))"

partial_function (option) submit_loop :: "('p, 'r) plane_services \<Rightarrow> string \<Rightarrow> group_request \<Rightarrow> bytes \<Rightarrow> node_id
    \<Rightarrow> ('p, 'r) plane \<Rightarrow> ((plane_error + group_response) \<times> ('p, 'r) plane) option" where
  "submit_loop X grp request encoded leader P =
     (case submit_round X grp request encoded leader P of
        (Inl e, P1) \<Rightarrow> Some (Inl e, P1)
      | (Inr (Inl resp), P1) \<Rightarrow> Some (Inr resp, P1)
      | (Inr (Inr next_leader), P1) \<Rightarrow> submit_loop X grp request encoded next_leader P1)"

definition submit :: "('p, 'r) plane_services \<Rightarrow> string \<Rightarrow> group_request \<Rightarrow> ('p, 'r) plane
    \<Rightarrow> ((plane_error + group_response) \<times> ('p, 'r) plane) option" where
  "submit X grp request P =
     (case ensure_group X grp P of
        (Inl e, P1) \<Rightarrow> Some (Inl e, P1)
      | (Inr _, P1) \<Rightarrow>
          (case ps_encode_request X request of
             Inl e \<Rightarrow> Some (Inl (PlaneMessage e), P1)
           | Inr encoded \<Rightarrow>
               (case on_replica (pl_self P1) grp (await_leader (ps_node X (pl_self P1))) P1 of
                  (Inl e, P2) \<Rightarrow> Some (Inl e, P2)
                | (Inr None, P2) \<Rightarrow> Some (Inl (PlaneMessage ''elected no leader''), P2)
                | (Inr (Some leader), P2) \<Rightarrow> submit_loop X grp request encoded leader P2)))"

subsection \<open>Membership\<close>

definition committed_voters_of :: "('p, 'r) plane_services \<Rightarrow> string \<Rightarrow> ('p, 'r, node_id list) plane_op" where
  "committed_voters_of X grp P =
     await (open_local X (pl_self P) grp) (\<lambda>_. on_replica (pl_self P) grp (gets committed_voters)) P"

definition resolve_committed_wal_binding :: "('p, 'r) plane_services \<Rightarrow> string \<Rightarrow> string \<Rightarrow> ('p, 'r, bool) plane_op" where
  "resolve_committed_wal_binding X grp requested P =
     await (open_local X (pl_self P) grp) (\<lambda>_.
     await (on_replica (pl_self P) grp (gets sm_wal_archive_bucket)) (\<lambda>bucket.
     return (map_err PlaneMessage (existing_wal_binding_outcome bucket requested)))) P"

definition relinquished_local_voter :: "('p, 'r) plane \<Rightarrow> plane_error + unit" where
  "relinquished_local_voter P =
     (case filter (\<lambda>(grp, g). pl_self P \<in> set (committed_voters (cg_machine g))) (pl_groups P (pl_self P)) of
        [] \<Rightarrow> Inr ()
      | (grp, g) # _ \<Rightarrow> Inl (PlaneMessage (''local node remains a committed voter for `'' @ grp @ ''`'')))"

definition hosted_groups :: "('p, 'r) plane \<Rightarrow> string list" where
  "hosted_groups P = map fst (pl_groups P (pl_self P))"

text \<open>
  Replacing a voter on its leader: the candidate opens the group and joins as a learner, every committed
  payload is repaired for the target voters, and only then does the membership change. The address and
  payload-peer registers of the ring, which the source updates on the way, are not part of the state.
\<close>

definition replace_on_leader :: "('p, 'r) plane_services \<Rightarrow> string \<Rightarrow> node_id \<Rightarrow> node_id list \<Rightarrow> ('p, 'r, unit) plane_op" where
  "replace_on_leader X grp candidate target_voters P =
     (let self_id = pl_self P in
      await (control_call candidate (open_local X candidate grp)) (\<lambda>_.
      await (raft_call X self_id grp (ps_add_learner X candidate)) (\<lambda>_.
      await (on_replica self_id grp (repair_committed (ps_node X self_id) target_voters)) (\<lambda>_.
      await (raft_call X self_id grp (ps_change_membership X (bs_of_list target_voters))) (\<lambda>_.
      await (on_replica self_id grp (refresh_voters (ps_node X self_id) target_voters)) (\<lambda>_.
      on_replica self_id grp (\<lambda>g. (Inr (), refresh_configuration_generation (membership_generation (cg_machine g)) g))))))) P)"

text \<open>The voters that a forwarded replacement asks for, checked against the committed ones at the leader.\<close>

definition replacement_voters :: "('p, 'r) plane_services \<Rightarrow> string \<Rightarrow> node_id \<Rightarrow> node_id \<Rightarrow> ('p, 'r, node_id list) plane_op" where
  "replacement_voters X grp remove candidate =
     await (committed_voters_of X grp) (\<lambda>voters.
     if remove \<notin> set voters \<or> candidate \<in> set voters - {remove}
     then return (Inl (PlaneMessage ''request is not one committed voter replacement''))
     else return (Inr (bs_of_list (candidate # filter (\<lambda>v. v \<noteq> remove) voters))))"

definition at_node :: "node_id \<Rightarrow> (('p, 'r) plane \<Rightarrow> 'a \<times> ('p, 'r) plane) \<Rightarrow> ('p, 'r) plane \<Rightarrow> 'a \<times> ('p, 'r) plane" where
  "at_node node m P = (case m (P\<lparr>pl_self := node\<rparr>) of (r, P') \<Rightarrow> (r, P'\<lparr>pl_self := pl_self P\<rparr>))"

text \<open>The answer of a forwarded lifecycle call.\<close>

definition lifecycle_answer :: "fate \<Rightarrow> plane_error + 'a \<Rightarrow> plane_error + unit" where
  "lifecycle_answer fate r =
     (case (fate, r) of
        (AnswerLost e, _) \<Rightarrow> Inl (PlaneMessage e)
      | (_, Inr _) \<Rightarrow> Inr ()
      | (_, Inl _) \<Rightarrow> Inl (PlaneMessage ''raft leader refused membership lifecycle operation''))"

text \<open>One node's part: a result, or the leader that decides with the voters it asks for.\<close>

definition replace_round :: "('p, 'r) plane_services \<Rightarrow> string \<Rightarrow> node_id \<Rightarrow> node_id \<Rightarrow> node_id list \<Rightarrow> ('p, 'r) plane
    \<Rightarrow> ((plane_error + unit) + node_id \<times> fate \<times> node_id list) \<times> ('p, 'r) plane" where
  "replace_round X grp remove candidate target_voters P =
     (if length target_voters \<noteq> pl_k P + pl_m P \<or> length (bs_of_list target_voters) \<noteq> length target_voters \<or>
         candidate \<notin> set target_voters
      then (Inl (Inl (PlaneMessage ''target voter geometry is invalid'')), P)
      else
        (case ensure_group X grp P of
           (Inl e, P1) \<Rightarrow> (Inl (Inl e), P1)
         | (Inr _, P1) \<Rightarrow>
             (case on_replica (pl_self P1) grp (\<lambda>g. (Inr (leader_id (ps_node X (pl_self P1)) g), g)) P1 of
                (Inl e, P2) \<Rightarrow> (Inl (Inl e), P2)
              | (Inr None, P2) \<Rightarrow> (Inl (Inl (PlaneMessage ''membership replacement has no observed leader'')), P2)
              | (Inr (Some leader), P2) \<Rightarrow>
                  if leader = pl_self P2 then (case replace_on_leader X grp candidate target_voters P2 of (r, P3) \<Rightarrow> (Inl r, P3))
                  else
                    (case next_fate P2 of (fate, P3) \<Rightarrow>
                       (case fate of
                          Dropped e \<Rightarrow> (Inl (Inl (PlaneMessage e)), P3)
                        | _ \<Rightarrow>
                            (case at_node leader (replacement_voters X grp remove candidate) P3 of
                               (Inl e, P4) \<Rightarrow> (Inl (lifecycle_answer fate (Inl e :: plane_error + unit)), P4)
                             | (Inr voters, P4) \<Rightarrow> (Inr (leader, fate, voters), P4)))))))"

partial_function (option) replace_voter :: "('p, 'r) plane_services \<Rightarrow> string \<Rightarrow> node_id \<Rightarrow> node_id \<Rightarrow> node_id list \<Rightarrow> ('p, 'r) plane
    \<Rightarrow> ((plane_error + unit) \<times> ('p, 'r) plane) option" where
  "replace_voter X grp remove candidate target_voters P =
     (case replace_round X grp remove candidate target_voters P of
        (Inl r, P1) \<Rightarrow> Some (r, P1)
      | (Inr (leader, fate, voters), P1) \<Rightarrow>
          Option.bind (replace_voter X grp remove candidate voters (P1\<lparr>pl_self := leader\<rparr>)) (\<lambda>(r, P2).
          Some (lifecycle_answer fate r, P2\<lparr>pl_self := pl_self P1\<rparr>)))"

subsection \<open>Committing staged objects\<close>

record placement =
  plc_index :: nat
  plc_node :: string

record staged_object =
  so_key :: cache_key
  so_object_id :: string
  so_object_len :: nat
  so_payload_hash :: hash
  so_k :: nat
  so_m :: nat
  so_chunk :: nat
  so_placements :: "placement list"

record packed_entry =
  pke_key :: string
  pke_offset :: nat
  pke_length :: nat
  pke_etag :: string
  pke_created_ms :: nat

record staged_pack =
  spk_storage_binding_id :: string
  spk_bucket :: string
  spk_pack_key :: string
  spk_pack_len :: nat
  spk_payload_hash :: hash
  spk_entries :: "packed_entry list"

text \<open>The answer that both committers expect: the index of an applied command.\<close>

definition applied_index_of :: "string \<Rightarrow> ('p, 'r) plane_services \<Rightarrow> plane_error + group_response \<Rightarrow> string + nat" where
  "applied_index_of wrong X r =
     (case r of
        Inl e \<Rightarrow> Inl (plane_error_text X e)
      | Inr (RespApplied resp) \<Rightarrow> Inr (rr_index resp)
      | Inr _ \<Rightarrow> Inl wrong)"

definition submit_batch :: "('p, 'r) plane_services \<Rightarrow> deps \<Rightarrow> (staged_object list \<Rightarrow> string + bytes) \<Rightarrow> string \<Rightarrow> staged_object list
    \<Rightarrow> ('p, 'r) plane \<Rightarrow> ((string + nat) \<times> ('p, 'r) plane) option" where
  "submit_batch X D identities grp items P =
     (if items = [] then Some (Inl ''cannot commit an empty object batch'', P)
      else
        (case identities items of
           Inl e \<Rightarrow> Some (Inl e, P)
         | Inr payload \<Rightarrow>
             map_option (\<lambda>(r, P'). (applied_index_of ''object group returned a non-applied response'' X r, P'))
               (submit X grp
                 (ReqCommitObject (payload_request_id D payload) payload
                   (bs_of_list (map (\<lambda>p. plane_node_id (plc_node p)) (concat (map so_placements items)))) Coded) P)))"

definition commit_pack :: "('p, 'r) plane_services \<Rightarrow> deps \<Rightarrow> (staged_pack \<Rightarrow> string + bytes) \<Rightarrow> staged_pack
    \<Rightarrow> ('p, 'r) plane \<Rightarrow> ((string + nat) \<times> ('p, 'r) plane) option" where
  "commit_pack X D identity staged P =
     (case identity staged of
        Inl e \<Rightarrow> Some (Inl e, P)
      | Inr payload \<Rightarrow>
          map_option (\<lambda>(r, P'). (applied_index_of ''pack index group returned a non-applied response'' X r, P'))
            (submit X
              (object_consensus_group D \<lparr> ck_storage_binding_id = spk_storage_binding_id staged, ck_bucket = spk_bucket staged,
                 ck_key = spk_pack_key staged \<rparr>)
              (ReqCommitObject (payload_request_id D payload) payload [] Complete) P))"

end
