(* ===== verification/Plane_Properties.thy ===== *)
theory Plane_Properties
  imports Plane
begin

section \<open>Properties of the consensus plane\<close>

text \<open>
  The invariant of the plane is that every replica of every node is well formed. It is kept by opening,
  bootstrapping, replacing voters and routing, under what OpenRaft, the files of a replica and the JSON
  codec are documented to do. The properties are that an answer of the plane is the answer of one
  execution of the submitted request, and that the election windows of two voters are disjoint.
\<close>

subsection \<open>What the parameters guarantee\<close>

definition raft_op_ok :: "deps \<Rightarrow> (nat \<Rightarrow> 'r \<Rightarrow> bool) \<Rightarrow> ('r \<Rightarrow> log_entry list \<times> (string + unit) \<times> 'r) \<Rightarrow> bool" where
  "raft_op_ok D I f \<longleftrightarrow> (\<forall>n r. I n r \<longrightarrow> (case f r of (es, outcome, r') \<Rightarrow> \<exists>n'. in_order D n es n' \<and> I n' r'))"

text \<open>OpenRaft delivers entries in log order, and a replica's files hold a well-formed state.\<close>

definition plane_ok :: "deps \<Rightarrow> (node_id \<Rightarrow> nat \<Rightarrow> 'r \<Rightarrow> bool) \<Rightarrow> ('p, 'r) plane_services \<Rightarrow> bool" where
  "plane_ok D I X \<longleftrightarrow>
     (\<forall>node. sv_deps (ps_node X node) = D \<and> raft_ok D (sv_raft (ps_node X node)) (I node) \<and>
        (\<forall>n r. I node n r \<longrightarrow> I node n (snd (rf_wait (sv_raft (ps_node X node)) r))) \<and>
        (\<forall>voters. raft_op_ok D (I node) (ps_initialize X voters) \<and> raft_op_ok D (I node) (ps_change_membership X voters)) \<and>
        (\<forall>candidate. raft_op_ok D (I node) (ps_add_learner X candidate)) \<and>
        (\<forall>grp machine vote. ps_files X node grp = Inr (machine, vote) \<longrightarrow> sm_wf machine \<and> carries_all D machine \<and>
           (\<forall>timing v r. ps_raft_new X node grp timing v machine = Inr r \<longrightarrow> (\<exists>n. I node n r \<and> applied_up_to n machine))))"

text \<open>The JSON codec reads back what it wrote.\<close>

definition wire_ok :: "('p, 'r) plane_services \<Rightarrow> bool" where
  "wire_ok X \<longleftrightarrow> (\<forall>request body. ps_encode_request X request = Inr body \<longrightarrow> ps_decode_request X body = Inr request) \<and>
     (\<forall>resp body. ps_encode_response X resp = Inr body \<longrightarrow> ps_decode_response X body = Inr resp)"

definition plane_wf :: "deps \<Rightarrow> (node_id \<Rightarrow> nat \<Rightarrow> 'r \<Rightarrow> bool) \<Rightarrow> ('p, 'r) plane \<Rightarrow> bool" where
  "plane_wf D I P \<longleftrightarrow> (\<forall>node grp g. map_of (pl_groups P node) grp = Some g \<longrightarrow> group_wf D (I node) g)"

subsection \<open>Operations that keep the invariant\<close>

definition holds :: "deps \<Rightarrow> (node_id \<Rightarrow> nat \<Rightarrow> 'r \<Rightarrow> bool) \<Rightarrow> (('p, 'r) plane \<Rightarrow> 'a \<times> ('p, 'r) plane) \<Rightarrow> bool" where
  "holds D I m \<longleftrightarrow> (\<forall>P. plane_wf D I P \<longrightarrow> plane_wf D I (snd (m P)))"

named_theorems holds_intros "operations that keep every replica well formed"

lemma holdsD: "holds D I m \<Longrightarrow> plane_wf D I P \<Longrightarrow> m P = (r, P') \<Longrightarrow> plane_wf D I P'"
  by (metis holds_def snd_conv)

lemma holds_await [holds_intros]:
  assumes "holds D I m" "\<And>a. holds D I (f a)"
  shows "holds D I (await m f)"
  using assms unfolding holds_def by (simp add: await_def split: prod.split sum.split) (metis snd_conv)

lemma holds_return [holds_intros]: "holds D I (return r)"
  by (simp add: holds_def return_def)

lemma holds_if [holds_intros]: "holds D I m \<Longrightarrow> holds D I m' \<Longrightarrow> holds D I (if b then m else m')"
  by simp

lemma put_group_wf: "plane_wf D I P \<Longrightarrow> group_wf D (I node) g \<Longrightarrow> plane_wf D I (put_group node grp g P)"
  by (auto simp: plane_wf_def put_group_def)

lemma holds_on_replica:
  fixes m :: "('p, 'r, 'a) op"
  assumes "keeps D (I node) m"
  shows "holds D I (on_replica node grp m)"
  unfolding holds_def
proof (intro allI impI)
  fix P :: "('p, 'r) plane" assume wf: "plane_wf D I P"
  show "plane_wf D I (snd (on_replica node grp m P))"
  proof (cases "map_of (pl_groups P node) grp")
    case (Some g)
    then have "group_wf D (I node) (snd (m g))" using wf assms by (simp add: plane_wf_def keeps_def)
    then show ?thesis using Some put_group_wf [OF wf] by (auto simp: on_replica_def split: prod.split)
  qed (simp add: on_replica_def wf)
qed

lemma holds_raft_call:
  fixes X :: "('p, 'r) plane_services"
  assumes "sv_deps (ps_node X node) = D" "raft_op_ok D (I node) f"
  shows "holds D I (raft_call X node grp f)"
  unfolding holds_def
proof (intro allI impI)
  fix P :: "('p, 'r) plane" assume wf: "plane_wf D I P"
  show "plane_wf D I (snd (raft_call X node grp f P))"
  proof (cases "map_of (pl_groups P node) grp")
    case (Some g)
    then have g: "group_wf D (I node) g" using wf by (simp add: plane_wf_def)
    then obtain n where n: "I node n (cg_raft g)" "applied_up_to n (cg_machine g)" by (auto simp: group_wf_def)
    obtain es out r where f: "f (cg_raft g) = (es, out, r)" by (metis prod_cases3)
    then obtain n' where n': "in_order D n es n'" "I node n' r" using assms(2) n(1) by (fastforce simp: raft_op_ok_def)
    have "group_wf D (I node) (snd (advance D es (g\<lparr>cg_raft := r\<rparr>)))"
      using group_wf_step [OF g n log_step_entries [OF n'(1)] n'(2)] by (simp add: snd_advance)
    then show ?thesis using Some f put_group_wf [OF wf] assms(1) by (auto simp: raft_call_def split: prod.split sum.split)
  qed (simp add: raft_call_def wf)
qed

lemma plane_okD:
  assumes "plane_ok D I X"
  shows "sv_deps (ps_node X node) = D" "raft_ok D (sv_raft (ps_node X node)) (I node)"
    "I node n r \<Longrightarrow> I node n (snd (rf_wait (sv_raft (ps_node X node)) r))"
    "raft_op_ok D (I node) (ps_initialize X voters)" "raft_op_ok D (I node) (ps_change_membership X voters)"
    "raft_op_ok D (I node) (ps_add_learner X candidate)"
    "ps_files X node grp = Inr (machine, vote) \<Longrightarrow> sm_wf machine \<and> carries_all D machine"
    "ps_files X node grp = Inr (machine, vote) \<Longrightarrow> ps_raft_new X node grp timing v machine = Inr raft \<Longrightarrow>
      \<exists>n. I node n raft \<and> applied_up_to n machine"
  using assms unfolding plane_ok_def by metis+

lemma holds_open_local [holds_intros]:
  fixes X :: "('p, 'r) plane_services"
  assumes X: "plane_ok D I X"
  shows "holds D I (open_local X node grp)"
  unfolding holds_def
proof (intro allI impI)
  fix P :: "('p, 'r) plane" assume wf: "plane_wf D I P"
  show "plane_wf D I (snd (open_local X node grp P))"
  proof (cases "open_local X node grp P")
    case (Pair r P')
    show ?thesis
    proof (cases "P' = P")
      case False
      then obtain g machine vote timing v r' factory where f: "ps_files X node grp = Inr (machine, vote)"
          "ps_raft_new X node grp timing v machine = Inr r'" "group_new grp (max (membership_generation machine) 1) r' machine factory = Inr g"
          "P' = put_group node grp g P"
        using Pair by (auto simp: open_local_def Let_def split: sum.split_asm if_split_asm option.split_asm)
      then have "group_wf D (I node) g"
        using plane_okD(7,8) [OF X f(1)] f(2) by (auto simp: group_new_def group_wf_def split: if_split_asm)
      then show ?thesis using put_group_wf [OF wf] f(4) Pair by simp
    qed (simp add: Pair wf)
  qed
qed

lemma holds_next_fate: "plane_wf D I P \<Longrightarrow> plane_wf D I (snd (next_fate P))"
  by (simp add: next_fate_def plane_wf_def)

lemma holds_next_expired: "plane_wf D I P \<Longrightarrow> plane_wf D I (snd (next_expired P))"
  by (simp add: next_expired_def plane_wf_def)

lemma holds_control_call [holds_intros]:
  assumes "holds D I m"
  shows "holds D I (control_call target m)"
  using assms holds_next_fate unfolding holds_def
  by (fastforce simp: control_call_def split: prod.split fate.split sum.split)

lemma holds_bootstrap_local [holds_intros]:
  assumes "plane_ok D I X"
  shows "holds D I (bootstrap_local X node grp)"
proof -
  have "holds D I (\<lambda>P. if initialized_local_group node grp P then (Inr (), P) else raft_call X node grp (ps_initialize X (pl_ring_voters P)) P)"
    using holds_raft_call [OF plane_okD(1) [OF assms] plane_okD(4) [OF assms]] by (simp add: holds_def)
  then show ?thesis unfolding bootstrap_local_def by (intro holds_await holds_open_local [OF assms])
qed

lemma open_each_wf:
  assumes "plane_ok D I X" "plane_wf D I P"
  shows "plane_wf D I (snd (open_each X grp voters P))"
  using assms(2)
proof (induction voters arbitrary: P)
  case (Cons voter voters)
  obtain r P1 where c: "control_call voter (open_local X voter grp) P = (r, P1)" by fastforce
  have "plane_wf D I P1" by (rule holdsD [OF holds_control_call [OF holds_open_local [OF assms(1)]] Cons.prems c])
  from Cons.IH [OF this] show ?case by (simp add: c split: prod.split sum.split) (metis snd_conv)
qed simp

lemma holds_open_voters [holds_intros]: "plane_ok D I X \<Longrightarrow> holds D I (open_voters X grp voters)"
  using open_each_wf [of D I X] by (simp add: holds_def open_voters_def split: prod.split) (metis snd_conv)

lemma holds_ensure_group [holds_intros]:
  assumes "plane_ok D I X"
  shows "holds D I (ensure_group X grp)"
proof -
  have "holds D I (await (open_voters X grp voters) (\<lambda>opened.
      await (return (ok_or e (case opened of [] \<Rightarrow> None | v # _ \<Rightarrow> Some v))) (\<lambda>bootstrap.
      await (control_call bootstrap (bootstrap_local X bootstrap grp)) (\<lambda>_. open_local X node grp))))" for voters node e
    by (intro holds_intros assms)
  then show ?thesis by (simp add: holds_def ensure_group_def split: sum.split)
qed

lemma keeps_await_leader:
  assumes "plane_ok D I X"
  shows "keeps D (I node) (await_leader (ps_node X node))" "keeps D (I node) (await_leader_change (ps_node X node) stale)"
  using plane_okD(3) [OF assms, of node]
  by (auto simp: keeps_def await_leader_def await_leader_change_def group_wf_def sm.ext_refl split: option.split prod.split) (metis snd_conv)+

lemma holds_resolve_leader [holds_intros]:
  assumes "plane_ok D I X"
  shows "holds D I (resolve_leader_after_stale X grp hint stale)"
proof -
  have "holds D I (await (on_replica node grp (await_leader_change (ps_node X node) (Some stale))) (\<lambda>found. return (ok_or e found)))" for node e
    by (intro holds_intros holds_on_replica keeps_await_leader [OF assms])
  then show ?thesis
    using holds_next_expired unfolding holds_def resolve_leader_after_stale_def by (fastforce split: prod.split option.split)
qed

lemma holds_execute:
  assumes "plane_ok D I X"
  shows "holds D I (on_replica node grp (execute (ps_node X node) request))"
  by (rule holds_on_replica, rule keeps_execute) (rule plane_okD [OF assms])+

text \<open>An execution of a request on some replica, which the plane still holds.\<close>

definition executed :: "deps \<Rightarrow> (node_id \<Rightarrow> nat \<Rightarrow> 'r \<Rightarrow> bool) \<Rightarrow> ('p, 'r) plane_services \<Rightarrow> string \<Rightarrow> group_request \<Rightarrow> group_response \<Rightarrow> ('p, 'r) plane \<Rightarrow> bool" where
  "executed D I X grp request resp P \<longleftrightarrow>
     (\<exists>node g g'. group_wf D (I node) g \<and> execute (ps_node X node) request g = (Inr resp, g') \<and> map_of (pl_groups P node) grp = Some g')"

lemma on_replica_executed:
  assumes "plane_wf D I P" "on_replica node grp (execute (ps_node X node) request) P = (Inr resp, P')"
  shows "executed D I X grp request resp P'"
proof -
  obtain g g' where "map_of (pl_groups P node) grp = Some g" "execute (ps_node X node) request g = (Inr resp, g')" "P' = put_group node grp g' P"
    using assms(2) by (auto simp: on_replica_def split: option.split_asm prod.split_asm)
  then show ?thesis
    using assms(1) unfolding executed_def plane_wf_def
    by (intro exI [of _ node] exI [of _ g] exI [of _ g']) (auto simp: put_group_def)
qed

lemma execute_local_wf:
  assumes X: "plane_ok D I X" and wf: "plane_wf D I P" and r: "execute_local X node grp body P = (r, P')"
  shows "plane_wf D I P'"
proof -
  obtain o1 P1 where o: "open_local X node grp P = (o1, P1)" by fastforce
  have P1: "plane_wf D I P1" by (rule holdsD [OF holds_open_local [OF X] wf o])
  have "plane_wf D I (snd (on_replica node grp (execute (ps_node X node) request) P1))" for request
    using holds_execute [OF X] P1 by (simp add: holds_def)
  then show ?thesis
    using r o P1 unfolding execute_local_def
    by (auto split: sum.split_asm prod.split_asm plane_error.split_asm group_error.split_asm) (metis snd_conv)+
qed

lemma execute_local_Inr:
  assumes X: "plane_ok D I X" "wire_ok X" and wf: "plane_wf D I P" and e: "ps_encode_request X request = Inr encoded"
    and r: "execute_local X node grp encoded P = (Inr body, P')"
  shows "\<exists>resp. ps_decode_response X body = Inr resp \<and> executed D I X grp request resp P'"
proof -
  have d: "ps_decode_request X encoded = Inr request" using X(2) e by (simp add: wire_ok_def)
  obtain o1 P1 where o: "open_local X node grp P = (o1, P1)" by fastforce
  have P1: "plane_wf D I P1" by (rule holdsD [OF holds_open_local [OF X(1)] wf o])
  obtain resp where resp: "on_replica node grp (execute (ps_node X node) request) P1 = (Inr resp, P')" "ps_encode_response X resp = Inr body"
    using r o d unfolding execute_local_def
    by (auto split: sum.split_asm prod.split_asm plane_error.split_asm group_error.split_asm)
  have "ps_decode_response X body = Inr resp" using X(2) resp(2) by (simp add: wire_ok_def)
  then show ?thesis using on_replica_executed [OF P1 resp(1)] by blast
qed

lemma command_wf:
  assumes "plane_ok D I X" "plane_wf D I P" "command X grp target body P = (r, P')"
  shows "plane_wf D I P'"
proof -
  have P1: "plane_wf D I (snd (next_fate P))" by (rule holds_next_fate [OF assms(2)])
  have "plane_wf D I (snd (execute_local X target grp body (snd (next_fate P))))"
    using execute_local_wf [OF assms(1) P1] by (metis surjective_pairing)
  then show ?thesis
    using assms(3) P1 by (auto simp: command_def split: prod.split_asm fate.split_asm)
qed

lemma command_Inr:
  assumes "command X grp target body P = (Inr answer, P')"
  shows "execute_local X target grp body (snd (next_fate P)) = (Inr answer, P')"
  using assms by (auto simp: command_def command_answer_def split: prod.split_asm fate.split_asm sum.split_asm command_error.split_asm)

lemma submit_round_wf:
  fixes X :: "('p, 'r) plane_services"
  assumes X: "plane_ok D I X" and wf: "plane_wf D I P" and r: "submit_round X grp request encoded leader P = (res, P')"
  shows "plane_wf D I P'"
proof -
  have resolve: "plane_wf D I (snd (await (resolve_leader_after_stale X grp hint stale) f Q))"
    if "plane_wf D I Q" "\<And>l. holds D I (f l)" for hint stale Q and f :: "node_id \<Rightarrow> ('p, 'r, group_response + node_id) plane_op"
    using holds_await [OF holds_resolve_leader [OF X] that(2)] that(1) by (simp add: holds_def)
  have e: "plane_wf D I Q" if "on_replica (pl_self P) grp (execute (ps_node X (pl_self P)) request) P = (o1, Q)" for o1 Q
    by (rule holdsD [OF holds_execute [OF X] wf that])
  have c: "plane_wf D I Q" if "command X grp leader encoded P = (c1, Q)" for c1 Q by (rule command_wf [OF X wf that])
  show ?thesis
  proof (cases "leader = pl_self P")
    case True
    obtain o1 Q where o: "on_replica (pl_self P) grp (execute (ps_node X (pl_self P)) request) P = (o1, Q)" by fastforce
    from r True o e [OF o] resolve [OF e [OF o], of "\<lambda>l. return (Inr (Inr l))"] show ?thesis
      unfolding submit_round_def
      by (auto intro: holds_return split: sum.split_asm plane_error.split_asm group_error.split_asm) (metis holds_return snd_conv)+
  next
    case False
    obtain c1 Q where o: "command X grp leader encoded P = (c1, Q)" by fastforce
    from r False o c [OF o] resolve [OF c [OF o], of "\<lambda>l. return (Inr (Inr l))"] show ?thesis
      unfolding submit_round_def
      by (auto intro: holds_return split: sum.split_asm command_error.split_asm) (metis holds_return snd_conv)+
  qed
qed

lemma submit_round_answer:
  assumes X: "plane_ok D I X" "wire_ok X" and wf: "plane_wf D I P" and e: "ps_encode_request X request = Inr encoded"
    and r: "submit_round X grp request encoded leader P = (Inr (Inl resp), P')"
  shows "executed D I X grp request resp P'"
proof (cases "leader = pl_self P")
  case True
  then have "on_replica (pl_self P) grp (execute (ps_node X (pl_self P)) request) P = (Inr resp, P')"
    using r by (auto simp: submit_round_def split: prod.split_asm sum.split_asm plane_error.split_asm group_error.split_asm)
  then show ?thesis by (rule on_replica_executed [OF wf])
next
  case False
  then obtain body where "command X grp leader encoded P = (Inr body, P')" "ps_decode_response X body = Inr resp"
    using r by (auto simp: submit_round_def split: prod.split_asm sum.split_asm command_error.split_asm)
  then show ?thesis using execute_local_Inr [OF X holds_next_fate [OF wf] e command_Inr] by fastforce
qed

definition sound_answer :: "deps \<Rightarrow> (node_id \<Rightarrow> nat \<Rightarrow> 'r \<Rightarrow> bool) \<Rightarrow> ('p, 'r) plane_services \<Rightarrow> string \<Rightarrow> group_request \<Rightarrow> bytes
    \<Rightarrow> ('p, 'r) plane \<Rightarrow> (plane_error + group_response) \<times> ('p, 'r) plane \<Rightarrow> bool" where
  "sound_answer D I X grp request encoded P out \<longleftrightarrow>
     (plane_ok D I X \<and> wire_ok X \<and> plane_wf D I P \<and> ps_encode_request X request = Inr encoded \<longrightarrow>
      plane_wf D I (snd out) \<and> (\<forall>resp. fst out = Inr resp \<longrightarrow> executed D I X grp request resp (snd out)))"

lemma submit_loop_sound:
  fixes X :: "('p, 'r) plane_services"
  assumes "submit_loop X grp request encoded leader P = Some out"
  shows "sound_answer D I X grp request encoded P out"
proof -
  let ?Q = "\<lambda>(((((X, grp), request), encoded), leader), P) out. sound_answer D I X grp request encoded P out"
  have "?Q (((((X, grp), request), encoded), leader), P) out"
  proof (rule submit_loop.raw_induct [OF _ assms, of ?Q], unfold prod.case)
    fix loop :: "('p, 'r) plane_services \<Rightarrow> string \<Rightarrow> group_request \<Rightarrow> bytes \<Rightarrow> node_id \<Rightarrow> ('p, 'r) plane \<Rightarrow>
        ((plane_error + group_response) \<times> ('p, 'r) plane) option" and X grp request encoded leader P out
    assume IH: "\<And>X grp request encoded leader P out. loop X grp request encoded leader P = Some out \<Longrightarrow> sound_answer D I X grp request encoded P out"
      and out: "(case submit_round X grp request encoded leader P of
        (Inl e, P1) \<Rightarrow> Some (Inl e, P1)
      | (Inr (Inl resp), P1) \<Rightarrow> Some (Inr resp, P1)
      | (Inr (Inr next_leader), P1) \<Rightarrow> loop X grp request encoded next_leader P1) = Some out"
    obtain res P1 where r: "submit_round X grp request encoded leader P = (res, P1)" by fastforce
    consider (failed) e where "res = Inl e" | (answered) resp where "res = Inr (Inl resp)" | (moved) l where "res = Inr (Inr l)"
      by (metis sumE)
    then show "sound_answer D I X grp request encoded P out"
    proof cases
      case failed
      then show ?thesis using out r submit_round_wf [OF _ _ r] by (auto simp: sound_answer_def)
    next
      case answered
      then show ?thesis using out r submit_round_wf [OF _ _ r] submit_round_answer by (auto simp: sound_answer_def)
    next
      case moved
      then have "sound_answer D I X grp request encoded P1 out" using IH out r by simp
      then show ?thesis using submit_round_wf [OF _ _ r] by (auto simp: sound_answer_def)
    qed
  qed
  then show ?thesis by simp
qed

lemma submit_executes:
  assumes X: "plane_ok D I X" "wire_ok X" and wf: "plane_wf D I P" and r: "submit X grp request P = Some (r, P')"
  shows "plane_wf D I P' \<and> (\<forall>resp. r = Inr resp \<longrightarrow> executed D I X grp request resp P')"
proof -
  obtain e P1 where en: "ensure_group X grp P = (e, P1)" by fastforce
  have P1: "plane_wf D I P1" by (rule holdsD [OF holds_ensure_group [OF X(1)] wf en])
  obtain a P2 where aw: "on_replica (pl_self P1) grp (await_leader (ps_node X (pl_self P1))) P1 = (a, P2)" by fastforce
  have P2: "plane_wf D I P2" by (rule holdsD [OF holds_on_replica [OF keeps_await_leader(1) [OF X(1)]] P1 aw])
  have loop: "plane_wf D I P' \<and> (\<forall>resp. r = Inr resp \<longrightarrow> executed D I X grp request resp P')"
    if "ps_encode_request X request = Inr encoded" "submit_loop X grp request encoded leader P2 = Some (r, P')" for encoded leader
    using submit_loop_sound [OF that(2), of D I] X P2 that(1) by (simp add: sound_answer_def)
  show ?thesis
    using r en aw P1 P2 loop unfolding submit_def by (auto split: sum.split_asm option.split_asm)
qed

subsection \<open>Replacing a voter\<close>

lemma holds_committed_voters_of [holds_intros]:
  assumes "plane_ok D I X"
  shows "holds D I (committed_voters_of X grp)"
proof -
  have "holds D I (await (open_local X node grp) (\<lambda>_. on_replica node grp (gets committed_voters)))" for node
    by (intro holds_intros holds_on_replica keeps_gets assms)
  then show ?thesis by (simp add: holds_def committed_voters_of_def)
qed

lemma holds_replacement_voters [holds_intros]: "plane_ok D I X \<Longrightarrow> holds D I (replacement_voters X grp remove candidate)"
  unfolding replacement_voters_def by (intro holds_intros)

lemma keeps_refresh_voters: "keeps D I (refresh_voters X voters)"
  unfolding refresh_voters_def by (rule keeps_on_payloads)

lemma keeps_observe: "keeps D I (\<lambda>g. (Inr (), refresh_configuration_generation (f g) g))" "keeps D I (\<lambda>g. (Inr (h g), g))"
  by (auto simp: refresh_configuration_generation_def keeps_def group_wf_def sm.ext_refl)

lemma holds_replace_on_leader [holds_intros]:
  fixes X :: "('p, 'r) plane_services"
  assumes "plane_ok D I X"
  shows "holds D I (replace_on_leader X grp candidate target_voters)"
proof -
  note X = plane_okD [OF assms]
  have "holds D I (await (control_call candidate (open_local X candidate grp)) (\<lambda>_.
      await (raft_call X node grp (ps_add_learner X candidate)) (\<lambda>_.
      await (on_replica node grp (repair_committed (ps_node X node) target_voters)) (\<lambda>_.
      await (raft_call X node grp (ps_change_membership X (bs_of_list target_voters))) (\<lambda>_.
      await (on_replica node grp (refresh_voters (ps_node X node) target_voters)) (\<lambda>_.
      on_replica node grp (\<lambda>g. (Inr (), refresh_configuration_generation (membership_generation (cg_machine g)) g))))))))" for node
    by (intro holds_intros holds_on_replica holds_raft_call keeps_refresh_voters keeps_observe keeps_repair X assms)
  then show ?thesis by (simp add: holds_def replace_on_leader_def Let_def)
qed

lemma plane_wf_self [simp]: "plane_wf D I (P\<lparr>pl_self := node\<rparr>) = plane_wf D I P"
  by (simp add: plane_wf_def)

lemma holds_at_node [holds_intros]: "holds D I m \<Longrightarrow> holds D I (at_node node m)"
  unfolding holds_def at_node_def by (simp split: prod.split) (metis plane_wf_self snd_conv)

lemma replace_round_wf:
  assumes X: "plane_ok D I X" and wf: "plane_wf D I P"
  shows "plane_wf D I (snd (replace_round X grp remove candidate target_voters P))"
proof -
  obtain e P1 where en: "ensure_group X grp P = (e, P1)" by fastforce
  have P1: "plane_wf D I P1" by (rule holdsD [OF holds_ensure_group [OF X] wf en])
  obtain a P2 where le: "on_replica (pl_self P1) grp (\<lambda>g. (Inr (leader_id (ps_node X (pl_self P1)) g), g)) P1 = (a, P2)" by fastforce
  have P2: "plane_wf D I P2" by (rule holdsD [OF holds_on_replica [OF keeps_observe(2)] P1 le])
  have lead: "plane_wf D I (snd (replace_on_leader X grp candidate target_voters P2))"
    using holds_replace_on_leader [OF X] P2 by (simp add: holds_def)
  obtain fate P3 where fa: "next_fate P2 = (fate, P3)" by fastforce
  have P3: "plane_wf D I P3" using holds_next_fate [OF P2] fa by simp
  have P4: "plane_wf D I (snd (at_node leader (replacement_voters X grp remove candidate) P3))" for leader
    using holds_at_node [OF holds_replacement_voters [OF X]] P3 by (simp add: holds_def)
  show ?thesis
    using en le fa lead P1 P2 P3 wf P4
    by (auto simp: replace_round_def split: sum.split option.split fate.split prod.split) (metis snd_conv)+
qed

lemma replace_voter_wf:
  fixes X :: "('p, 'r) plane_services"
  assumes "replace_voter X grp remove candidate target_voters P = Some out" "plane_ok D I X" "plane_wf D I P"
  shows "plane_wf D I (snd out)"
proof -
  let ?Q = "\<lambda>(((((X, grp), remove), candidate), target_voters), P) (out :: (plane_error + unit) \<times> ('p, 'r) plane).
    plane_ok D I X \<longrightarrow> plane_wf D I P \<longrightarrow> plane_wf D I (snd out)"
  have "?Q (((((X, grp), remove), candidate), target_voters), P) out"
  proof (rule replace_voter.raw_induct [OF _ assms(1), of ?Q], unfold prod.case, intro impI, goal_cases)
    case (1 rep X grp remove candidate target_voters P out)
    obtain r P1 where r: "replace_round X grp remove candidate target_voters P = (r, P1)" by fastforce
    have "plane_wf D I P1" using replace_round_wf [OF 1(3,4)] r by (metis snd_conv)
    then show ?case using 1(1) [OF _ ] 1(2,3) r
      by (auto split: sum.split_asm prod.split_asm bind_split_asm)
  qed
  then show ?thesis using assms(2,3) by simp
qed

subsection \<open>A plane of three nodes\<close>

text \<open>
  Every node starts with no replica. The Raft core of node 1 leads and commits at the next index; the
  codec knows one request and its answer.
\<close>

definition ex_request :: group_request where
  "ex_request = ReqCommitObject 7 [1, 2, 3] [] Complete"

definition ex_answer :: group_response where
  "ex_answer = RespApplied (response 2 None Committed None None False)"

definition ex_plane_services :: "(ring_session, nat) plane_services" where
  "ex_plane_services = \<lparr> ps_node = (\<lambda>_. ex_services),
     ps_encode_request = (\<lambda>request. if request = ex_request then Inr [1] else Inl ''unsupported''), ps_decode_request = (\<lambda>_. Inr ex_request),
     ps_encode_response = (\<lambda>resp. if resp = ex_answer then Inr [2] else Inl ''unsupported''), ps_decode_response = (\<lambda>_. Inr ex_answer),
     ps_group_error_text = (\<lambda>_. ''refused''),
     ps_files = (\<lambda>_ _. Inr (sm_default, None)), ps_raft_new = (\<lambda>_ _ _ _ _. Inr 0),
     ps_payload_factory = (\<lambda>_ _ _ _. Inr \<lparr> sn_state = (ex_dist, ex_empty), sn_calls = ex_calls \<rparr>),
     ps_initialize = (\<lambda>voters n. ([\<lparr> le_log_id = \<lparr> li_term = 1, li_node = 1, li_index = n + 1 \<rparr>, le_payload = Membership voters \<rparr>], Inr (), n + 1)),
     ps_add_learner = (\<lambda>_ n. ([], Inr (), n)), ps_change_membership = (\<lambda>_ n. ([], Inr (), n)) \<rparr>"

definition ex_plane :: "(ring_session, nat) plane" where
  "ex_plane = \<lparr> pl_self = 2, pl_k = 2, pl_m = 1, pl_ring_voters = [1, 2, 3], pl_groups = (\<lambda>_. []),
     pl_net = (\<lambda>i. if i = 2 then Dropped ''node 3 is down'' else Delivered), pl_clock = (\<lambda>_. False) \<rparr>"

lemma ex_plane_ok: "plane_ok xor_deps (\<lambda>_. (=)) ex_plane_services"
  by (auto simp: plane_ok_def ex_plane_services_def ex_services_def ex_raft_ok raft_op_ok_def command_ok_def sm_default_wf applied_up_to_def)
     (auto simp: ex_raft_def carries_all_def sm_default_def bt_vals_def)

lemma ex_plane_wire: "wire_ok ex_plane_services"
  by (auto simp: wire_ok_def ex_plane_services_def split: if_split_asm)

lemma ex_plane_wf: "plane_wf xor_deps (\<lambda>_. (=)) ex_plane"
  by (simp add: plane_wf_def ex_plane_def)

definition ex_plane_at :: "(node_id \<Rightarrow> (string \<times> (ring_session, nat) consensus_group) list) \<Rightarrow> nat \<Rightarrow> (ring_session, nat) plane" where
  "ex_plane_at groups k = ex_plane\<lparr>pl_groups := groups, pl_net := (\<lambda>i. pl_net ex_plane (i + k))\<rparr>"

lemma ex_at_simps [simp]:
  "next_fate (ex_plane_at groups k) = (if k = 2 then Dropped ''node 3 is down'' else Delivered, ex_plane_at groups (Suc k))"
  "pl_groups (ex_plane_at groups k) = groups" "pl_self (ex_plane_at groups k) = 2" "pl_ring_voters (ex_plane_at groups k) = [1, 2, 3]"
  "pl_k (ex_plane_at groups k) = 2" "pl_m (ex_plane_at groups k) = 1"
  "put_group node grp g (ex_plane_at groups k) = ex_plane_at (groups(node := bt_insert grp g (groups node))) k"
  by (simp_all add: ex_plane_at_def next_fate_def ex_plane_def put_group_def)

lemma ex_open:
  assumes "map_of (groups node) ''g'' = None" "node \<in> {1, 2, 3}"
  shows "open_local ex_plane_services node ''g'' (ex_plane_at groups k) = (Inr (), ex_plane_at (groups(node := bt_insert ''g'' ex_group (groups node))) k)"
proof -
  have "\<exists>t. raft_config [1, 2, 3] node = Inr t"
    using assms(2) by (auto simp: raft_config_def Let_def sort_dedup_def checked_mul_def checked_add_def raft_election_rank_step_ms_def
      raft_election_first_timeout_ms_def raft_election_window_ms_def)
  then show ?thesis
    using assms by (auto simp: open_local_def validate_group_def ex_plane_services_def invalidate_restored_leader_vote_def Let_def
      committed_voters_def sm_default_def bs_of_list_def membership_generation_def group_new_def ex_group_def)
qed

lemma ex_reopen: "groups node = [(''g'', g)] \<Longrightarrow> open_local ex_plane_services node ''g'' (ex_plane_at groups k) = (Inr (), ex_plane_at groups k)"
  by (simp add: open_local_def validate_group_def)

definition plane_opened :: "node_id \<Rightarrow> (string \<times> (ring_session, nat) consensus_group) list" where
  "plane_opened = (\<lambda>_. [])(1 := [(''g'', ex_group)], 2 := [(''g'', ex_group)])"

lemma ex_ensure: "\<exists>g. ensure_group ex_plane_services ''g'' (ex_plane_at (\<lambda>_. []) 0) = (Inr (), ex_plane_at (plane_opened(1 := [(''g'', g)])) 4) \<and>
    g = ex_group\<lparr>cg_raft := 1, cg_machine := fst (apply_entry xor_deps \<lparr> le_log_id = \<lparr> li_term = 1, li_node = 1, li_index = 1 \<rparr>, le_payload = Membership [1, 2, 3] \<rparr> sm_default)\<rparr>"
proof -
  have open3: "open_each ex_plane_services ''g'' [1, 2, 3] (ex_plane_at (\<lambda>_. []) 0) = ([1, 2], ex_plane_at plane_opened 3)"
    by (simp add: control_call_def ex_open plane_opened_def fun_upd_def numeral_3_eq_3)
  have voters: "open_voters ex_plane_services ''g'' [1, 2, 3] (ex_plane_at (\<lambda>_. []) 0) = (Inr [1, 2], ex_plane_at plane_opened 3)"
    unfolding open_voters_def open3 by (simp add: bs_of_list_def)
  have boot: "bootstrap_local ex_plane_services 1 ''g'' (ex_plane_at plane_opened 4) = 
    (Inr (), ex_plane_at (plane_opened(1 := [(''g'', ex_group\<lparr>cg_raft := 1, cg_machine := fst (apply_entry xor_deps \<lparr> le_log_id = \<lparr> li_term = 1, li_node = 1, li_index = 1 \<rparr>, le_payload = Membership [1, 2, 3] \<rparr> sm_default)\<rparr>)])) 4)"
    by (simp add: bootstrap_local_def await_def ex_reopen plane_opened_def initialized_local_group_def raft_call_def)
       (simp add: ex_group_def is_initialized_def ex_plane_services_def ex_services_def advance_def apply_entry_def Let_def sm_default_def)
  show ?thesis
    using voters boot
    by (simp add: ensure_group_def validate_group_def initialized_local_group_def await_def return_def control_call_def ex_reopen)
       (simp add: ex_reopen plane_opened_def)
qed

lemma ex_plane_fields: "ps_node ex_plane_services node = ex_services" "ps_decode_request ex_plane_services [1] = Inr ex_request"
    "ps_encode_response ex_plane_services ex_answer = Inr [2]" "ps_decode_response ex_plane_services [2] = Inr ex_answer"
  by (simp_all add: ex_plane_services_def)

lemma ex_submit: "\<exists>P'. submit ex_plane_services ''g'' ex_request ex_plane = Some (Inr ex_answer, P')"
proof -
  have start: "ex_plane = ex_plane_at (\<lambda>_. []) 0" by (simp add: ex_plane_at_def ex_plane_def)
  obtain g where ens: "ensure_group ex_plane_services ''g'' (ex_plane_at (\<lambda>_. []) 0) = (Inr (), ex_plane_at (plane_opened(1 := [(''g'', g)])) 4)"
     and g: "g = ex_group\<lparr>cg_raft := 1, cg_machine := fst (apply_entry xor_deps \<lparr> le_log_id = \<lparr> li_term = 1, li_node = 1, li_index = 1 \<rparr>, le_payload = Membership [1, 2, 3] \<rparr> sm_default)\<rparr>"
    using ex_ensure by blast
  let ?P = "ex_plane_at (plane_opened(1 := [(''g'', g)])) 4"
  have lead: "on_replica 2 ''g'' (await_leader (ps_node ex_plane_services 2)) ?P = (Inr (Some 1), ?P)"
    by (simp add: on_replica_def plane_opened_def await_leader_def leader_id_def ex_plane_services_def ex_services_def ex_raft_def)
      (simp add: fun_upd_twist fun_upd_idem)
  obtain g' where ex: "execute ex_services ex_request g = (Inr ex_answer, g')"
    using inline_commit [of "[1, 2, 3]" g Inr Object 7 None]
    by (simp add: ex_request_def g ex_group_def commit_def respond_def await_def return_def ex_answer_def apply_simps sm_default_def)
  have on: "on_replica 1 ''g'' (execute ex_services ex_request) (ex_plane_at (plane_opened(1 := [(''g'', g)])) 5) =
      (Inr ex_answer, ex_plane_at (plane_opened(1 := [(''g'', g')])) 5)"
    using ex by (simp add: on_replica_def)
  have "execute_local ex_plane_services 1 ''g'' [1] (ex_plane_at (plane_opened(1 := [(''g'', g)])) 5) =
      (Inr [2], ex_plane_at (plane_opened(1 := [(''g'', g')])) 5)"
    using on ex_reopen [of "plane_opened(1 := [(''g'', g)])" 1 g 5] by (simp add: execute_local_def ex_plane_fields del: One_nat_def)
  then have "command ex_plane_services ''g'' 1 [1] ?P = (Inr [2], ex_plane_at (plane_opened(1 := [(''g'', g')])) 5)"
    by (simp add: command_def command_answer_def)
  then have "submit_round ex_plane_services ''g'' ex_request [1] 1 ?P = (Inr (Inl ex_answer), ex_plane_at (plane_opened(1 := [(''g'', g')])) 5)"
    by (simp add: submit_round_def) (simp add: ex_plane_services_def)
  then have "submit_loop ex_plane_services ''g'' ex_request [1] 1 ?P = Some (Inr ex_answer, ex_plane_at (plane_opened(1 := [(''g'', g')])) 5)"
    by (subst submit_loop.simps) simp
  then show ?thesis using ens lead unfolding start by (simp add: submit_def) (simp add: ex_plane_services_def)
qed

text \<open>
  A submission without end: the replicas of nodes 1 and 2 each name the other as leader. Every refusal
  carries a hint that differs from the node that refused, so the deadline is never looked at, although it
  has passed.
\<close>

definition rival_raft :: "node_id \<Rightarrow> nat raft" where
  "rival_raft node = ex_raft\<lparr>rf_client_write := (\<lambda>command n. ([], Inl (ForwardToLeader (Some (3 - node))), n))\<rparr>"

definition rival_services :: "(ring_session, nat) plane_services" where
  "rival_services = ex_plane_services\<lparr>ps_node := (\<lambda>node. ex_services\<lparr>sv_raft := rival_raft node\<rparr>)\<rparr>"

definition rival_plane :: "(ring_session, nat) plane" where
  "rival_plane = ex_plane\<lparr>pl_self := 3, pl_groups := (\<lambda>_. [(''g'', ex_group)]), pl_net := (\<lambda>_. Delivered), pl_clock := (\<lambda>_. True)\<rparr>"

lemma rival_round:
  assumes "leader \<in> {1, 2}"
  shows "submit_round rival_services ''g'' ex_request [1] leader rival_plane = (Inr (Inr (3 - leader)), rival_plane)"
proof -
  have ex: "execute (ex_services\<lparr>sv_raft := rival_raft node\<rparr>) ex_request ex_group = (Inl (NotLeader (Some (3 - node))), ex_group)" for node
    by (simp add: ex_request_def respond_def commit_def commit_header_def Let_def base_header_def inline_payload_threshold_def header_new_inline_def
        ex_group_def ex_services_def rival_raft_def client_write_def client_write_error_def await_def return_def advance_def)
  have fate: "next_fate rival_plane = (Delivered, rival_plane)" by (simp add: next_fate_def rival_plane_def)
  have put: "put_group leader ''g'' ex_group rival_plane = rival_plane" by (simp add: put_group_def rival_plane_def fun_upd_idem)
  have reopen: "open_local rival_services leader ''g'' rival_plane = (Inr (), rival_plane)"
    by (simp add: open_local_def validate_group_def rival_plane_def)
  have fields: "ps_node rival_services leader = ex_services\<lparr>sv_raft := rival_raft leader\<rparr>" "ps_decode_request rival_services [1] = Inr ex_request"
      "map_of (pl_groups rival_plane leader) ''g'' = Some ex_group"
    by (simp_all add: rival_services_def ex_plane_services_def rival_plane_def)
  have on: "on_replica leader ''g'' (execute (ex_services\<lparr>sv_raft := rival_raft leader\<rparr>) ex_request) rival_plane =
      (Inl (PlaneGroup (NotLeader (Some (3 - leader)))), rival_plane)"
    using ex [of leader] put fields(3) by (simp add: on_replica_def)
  have hint: "from_str_usize (dec_string (3 - leader)) = Some (3 - leader)" using assms by (auto simp: from_str_usize_def dec_string.simps dec_digit_of_def hex_digit_def)
  have "execute_local rival_services leader ''g'' [1] rival_plane = (Inl (CmdNotLeader (Some (3 - leader))), rival_plane)"
    using on reopen fields by (simp add: execute_local_def)
  then have "command rival_services ''g'' leader [1] rival_plane = (Inl (CmdNotLeader (Some (3 - leader))), rival_plane)"
    using fate hint by (simp add: command_def command_answer_def wire_hint_def)
  then show ?thesis
    using assms by (auto simp: submit_round_def resolve_leader_after_stale_def await_def return_def) (auto simp: rival_plane_def)
qed

lemma submit_without_end: "submit_loop rival_services ''g'' ex_request [1] 1 rival_plane = None"
proof (rule ccontr)
  assume "submit_loop rival_services ''g'' ex_request [1] 1 rival_plane \<noteq> None"
  then obtain out where out: "submit_loop rival_services ''g'' ex_request [1] 1 rival_plane = Some out" by blast
  let ?Q = "\<lambda>(((((X, grp), request), encoded), leader), P) (out :: (plane_error + group_response) \<times> (ring_session, nat) plane).
    \<not> (X = rival_services \<and> grp = ''g'' \<and> request = ex_request \<and> encoded = ([1] :: bytes) \<and> leader \<in> {1, 2 :: node_id} \<and> P = rival_plane)"
  have "?Q (((((rival_services, ''g''), ex_request), [1]), 1), rival_plane) out"
  proof (rule submit_loop.raw_induct [OF _ out, of ?Q], unfold prod.case, goal_cases)
    case (1 loop X grp request encoded leader P out)
    have "3 - leader \<in> {1, 2}" if "leader \<in> {1, 2}" using that by auto
    then show ?case using 1(1) [of rival_services "''g''" ex_request "[1]" "3 - leader" rival_plane out] 1(2) rival_round [of leader] by auto
  qed
  then show False by simp
qed

subsection \<open>Properties\<close>

text \<open>C8: An answer of the plane is one execution of the submitted request. Whatever the network loses, delays
  or misroutes, and whichever replicas refuse because they do not lead: when a submission returns an
  answer, some replica of the group, in a well-formed state, executed exactly that request with exactly
  that answer; and every replica of every node stays well formed, answered or not.\<close>

theorem submit_sound:
  assumes "plane_ok D I X" "wire_ok X" "plane_wf D I P" "submit X grp request P = Some (r, P')"
  shows "plane_wf D I P' \<and> (\<forall>resp. r = Inr resp \<longrightarrow>
    (\<exists>node g g'. group_wf D (I node) g \<and> execute (ps_node X node) request g = (Inr resp, g') \<and> map_of (pl_groups P' node) grp = Some g'))"
  using submit_executes [OF assms] by (simp add: executed_def)

theorem submit_sound_witness:
  "\<exists>P'. submit ex_plane_services ''g'' ex_request ex_plane = Some (Inr ex_answer, P') \<and> plane_wf xor_deps (\<lambda>_. (=)) P' \<and>
     (\<exists>node g g'. group_wf xor_deps (=) g \<and> execute (ps_node ex_plane_services node) ex_request g = (Inr ex_answer, g') \<and>
        map_of (pl_groups P' node) ''g'' = Some g')"
proof -
  obtain P' where "submit ex_plane_services ''g'' ex_request ex_plane = Some (Inr ex_answer, P')" using ex_submit by blast
  with submit_sound [OF ex_plane_ok ex_plane_wire ex_plane_wf this] show ?thesis by blast
qed

text \<open>C28: Election windows never overlap. Two different voters of one configuration get election windows of
  250 ms each, and the window of the lower rank ends at least 500 ms before the other begins; both start
  after at least four heartbeats.\<close>

theorem election_windows_disjoint:
  assumes "raft_config voters a = Inr ta" "raft_config voters b = Inr tb" "a < b"
  shows "rt_election_timeout_max ta + 500 \<le> rt_election_timeout_min tb \<and> 4 * rt_heartbeat_interval ta \<le> rt_election_timeout_min ta \<and>
    rt_election_timeout_max ta = rt_election_timeout_min ta + 250"
proof -
  let ?ranks = "sort_dedup voters"
  obtain i j where i: "position (\<lambda>v. v = a) ?ranks = Some i" "rt_election_timeout_min ta = 1000 + i * 750" "rt_election_timeout_max ta = 1250 + i * 750"
      and j: "position (\<lambda>v. v = b) ?ranks = Some j" "rt_election_timeout_min tb = 1000 + j * 750"
      and h: "rt_heartbeat_interval ta = 250"
    using assms(1,2)
    by (auto simp: raft_config_def Let_def checked_mul_def checked_add_def raft_election_rank_step_ms_def raft_election_first_timeout_ms_def
        raft_election_window_ms_def raft_heartbeat_interval_ms_def split: if_split_asm)
  have pos: "i < length ?ranks" "?ranks ! i = a" "j < length ?ranks" "?ranks ! j = b"
    using position_Some [OF i(1)] position_Some [OF j(1)] by auto
  have "sorted ?ranks" by (simp add: sort_dedup_def)
  then have "i < j" using pos assms(3) by (metis leD not_le sorted_nth_mono)
  then show ?thesis using i j h by auto
qed

theorem election_windows_disjoint_witness:
  "\<exists>ta tb. raft_config [3, 1, 2] 1 = Inr ta \<and> raft_config [3, 1, 2] 3 = Inr tb \<and>
     rt_election_timeout_max ta + 500 \<le> rt_election_timeout_min tb \<and> rt_election_timeout_min tb = 2500"
proof -
  have config: "raft_config [3, 1, 2] 1 = Inr \<lparr> rt_heartbeat_interval = 250, rt_election_timeout_min = 1000, rt_election_timeout_max = 1250 \<rparr>"
      "raft_config [3, 1, 2] 3 = Inr \<lparr> rt_heartbeat_interval = 250, rt_election_timeout_min = 2500, rt_election_timeout_max = 2750 \<rparr>"
    by (simp_all add: raft_config_def Let_def sort_dedup_def checked_mul_def checked_add_def raft_election_rank_step_ms_def
        raft_election_first_timeout_ms_def raft_election_window_ms_def raft_heartbeat_interval_ms_def)
  from election_windows_disjoint [OF this] show ?thesis unfolding config by simp
qed

end
