(* ===== verification/Ingress.thy ===== *)
theory Ingress
  imports Plane_Properties
begin

section \<open>The WAL and catalog ingress\<close>

text \<open>
  \<open>bins/cache-node/src/safekeeper.rs\<close>: the HTTP handlers for WAL and catalog requests, the read that
  composes the archived prefix with the retained tail, the background archiver of complete segments, and
  the drain of a stopping node. A handler is a function of the node's state; it returns an option, which
  is absent when a submission to the consensus plane never returns. Spawned archive tasks are recorded in
  the state, and the body of a task is a partial function of its own. The registry of storage backends,
  which resolves a bucket under the default binding, is a parameter. The delays between retries of the
  archive loop, the poisoning of its lock and the HTTP listener are not modelled.

  The lemmas show that a composed read returns exactly committed bytes, that every handler keeps every
  replica well formed, and what happens to a conflict that reaches an ingress which does not lead.
\<close>

subsection \<open>State\<close>

datatype status = BAD_REQUEST | CONFLICT | SERVICE_UNAVAILABLE | INTERNAL_SERVER_ERROR

fun as_u16 :: "status \<Rightarrow> nat" where
  "as_u16 BAD_REQUEST = 400"
| "as_u16 CONFLICT = 409"
| "as_u16 INTERNAL_SERVER_ERROR = 500"
| "as_u16 SERVICE_UNAVAILABLE = 503"

text \<open>An archive destination is a store with the prefix of its namespace.\<close>

type_synonym 'o archive_destination = "'o segment_store \<times> string"

record ('p, 'r, 'o) ingress_state =
  ig_plane :: "('p, 'r) plane"
  ig_objects :: 'o
  ig_inflight :: "string set"
  ig_tasks :: "(string \<times> nat) list"

text \<open>
  The fixed part of an ingress, \<open>WalIngress\<close>: the services of the plane, the holder sets, and the backends
  that the registry knows for a bucket. The catalog archive is the second half of \<open>AuthoritativeArchives\<close>,
  which only the drain reads.
\<close>

record ('p, 'r, 'o) wal_ingress =
  wi_services :: "('p, 'r) plane_services"
  wi_deps :: deps
  wi_coded_holders :: "node_id list"
  wi_majority_holders :: "node_id list"
  wi_store_for :: "string \<Rightarrow> string + 'o object_backend"
  wi_catalog_archive :: "'o archive_destination option"

type_synonym ('p, 'r, 'o, 'e, 'a) ingress_op =
  "('p, 'r, 'o) ingress_state \<Rightarrow> (('e + 'a) \<times> ('p, 'r, 'o) ingress_state) option"

definition wal_segment_bytes :: nat where
  "wal_segment_bytes = 16 * 1024 * 1024"

text \<open>The texts of the error types, as \<open>to_string\<close> gives them.\<close>

definition archive_error_text :: "('p, 'r, 'o) wal_ingress \<Rightarrow> archive_error \<Rightarrow> string" where
  "archive_error_text W e =
     (case e of
        InvalidConfiguration \<Rightarrow> ''invalid archive configuration or WAL range''
      | InvalidRange \<Rightarrow> ''archive WAL range is empty or reversed''
      | ArchivedCoverage \<Rightarrow> ''archive checkpoint objects do not cover the requested WAL interval''
      | ObjectStoreFailed m \<Rightarrow> ''archive object store failed: '' @ m
      | ArchiveConsensus g \<Rightarrow> ps_group_error_text (wi_services W) g)"

definition wire_error_text :: "wal_wire_error \<Rightarrow> string" where
  "wire_error_text e =
     (case e of
        Truncated \<Rightarrow> ''truncated WAL protocol frame''
      | UnknownTag t \<Rightarrow> ''unknown WAL protocol tag '' @ dec_string (unat t)
      | FieldTooLarge \<Rightarrow> ''WAL protocol field is too large''
      | InvalidUtf8 \<Rightarrow> ''WAL protocol string is not UTF-8''
      | InvalidPresence t \<Rightarrow> ''invalid WAL protocol presence marker '' @ dec_string (unat t)
      | TrailingBytes \<Rightarrow> ''trailing bytes in WAL protocol frame'')"

definition protocol_error_text :: "(group_error \<Rightarrow> string) \<Rightarrow> wal_protocol_error \<Rightarrow> string" where
  "protocol_error_text group_text e =
     (case e of
        InvalidGeometryWal k m w \<Rightarrow> ''invalid WAL geometry k='' @ dec_string k @ '', m='' @ dec_string m @ '', w='' @ dec_string w
      | MissingHolders \<Rightarrow> ''timeline has no committed holder configuration''
      | WalConsensus g \<Rightarrow> group_text g)"

definition configured_geometry :: "(group_error \<Rightarrow> string) \<Rightarrow> nat \<Rightarrow> nat \<Rightarrow> nat \<Rightarrow> nat \<Rightarrow> string + append_geometry" where
  "configured_geometry group_text nodes k m w =
     and_then (map_err (protocol_error_text group_text) (geometry_new k m w)) (\<lambda>geometry.
     if geometry_total geometry \<noteq> nodes
     then Inl (''safekeeper EC k='' @ dec_string k @ '', m='' @ dec_string m @ '' creates '' @ dec_string (geometry_total geometry)
       @ '' fragments for '' @ dec_string nodes @ '' cache nodes'')
     else Inr geometry)"

text \<open>The holder sets of an ingress, from the ring's voters.\<close>

definition ingress_coded_holders :: "append_geometry \<Rightarrow> node_id list \<Rightarrow> node_id list" where
  "ingress_coded_holders layout voters = take (ag_w layout) voters"

definition ingress_majority_holders :: "node_id list \<Rightarrow> node_id list" where
  "ingress_majority_holders voters = take (length voters div 2 + 1) voters"

definition submit_at :: "('p, 'r, 'o) wal_ingress \<Rightarrow> string \<Rightarrow> group_request \<Rightarrow> ('p, 'r, 'o, plane_error, group_response) ingress_op" where
  "submit_at W grp request s =
     (case submit (wi_services W) grp request (ig_plane s) of
        None \<Rightarrow> None
      | Some (r, P) \<Rightarrow> Some (r, s\<lparr>ig_plane := P\<rparr>))"

definition wrap_run :: "('e \<Rightarrow> 'f) \<Rightarrow> ('s \<Rightarrow> (('e + 'a) \<times> 's) option) \<Rightarrow> 's \<Rightarrow> (('f + 'a) \<times> 's) option" where
  "wrap_run f m s = map_option (\<lambda>(r, s'). (map_err f r, s')) (m s)"

definition on_objects :: "('o \<Rightarrow> 'a \<times> 'o) \<Rightarrow> ('p, 'r, 'o) ingress_state \<Rightarrow> 'a \<times> ('p, 'r, 'o) ingress_state" where
  "on_objects m s = (case m (ig_objects s) of (r, objects) \<Rightarrow> (r, s\<lparr>ig_objects := objects\<rparr>))"

definition store_on_objects :: "'o segment_store \<Rightarrow> ('p, 'r, 'o) ingress_state segment_store" where
  "store_on_objects S =
     \<lparr> is_upload = (\<lambda>object data. on_objects (is_upload S object data)), is_verify = (\<lambda>object. on_objects (is_verify S object)),
       is_read = (\<lambda>object. on_objects (is_read S object)) \<rparr>"

lemma wrap_run_Inr [simp]: "wrap_run f m s = Some (Inr a, s') \<longleftrightarrow> m s = Some (Inr a, s')"
  by (auto simp: wrap_run_def)

subsection \<open>The routed archive timeline\<close>

abbreviation store_failure :: "('p, 'r, 'o) wal_ingress \<Rightarrow> plane_error \<Rightarrow> archive_error" where
  "store_failure W e \<equiv> ObjectStoreFailed (plane_error_text (wi_services W) e)"

definition routed_read :: "('p, 'r, 'o) wal_ingress \<Rightarrow> string \<Rightarrow> nat \<Rightarrow> nat \<Rightarrow> nat \<Rightarrow> (('p, 'r, 'o) ingress_state, bytes) archive_run" where
  "routed_read W grp from to minimum_index =
     wait (wrap_run (store_failure W) (submit_at W grp (ReqReadWal from to minimum_index))) (\<lambda>resp.
     returns (return (case resp of
       RespBytes data \<Rightarrow> Inr data
     | _ \<Rightarrow> Inl (ObjectStoreFailed ''archive read returned the wrong response''))))"

definition routed_checkpoint :: "('p, 'r, 'o) wal_ingress \<Rightarrow> string \<Rightarrow> node_id list \<Rightarrow> nat \<Rightarrow> nat \<Rightarrow> archive_object
    \<Rightarrow> (('p, 'r, 'o) ingress_state, unit) archive_run" where
  "routed_checkpoint W grp holders request end_lsn object =
     wait (wrap_run (store_failure W) (submit_at W grp (ReqArchiveCheckpoint request end_lsn (ao_key object) holders))) (\<lambda>resp.
     returns (return (case resp of
       RespApplied _ \<Rightarrow> Inr ()
     | _ \<Rightarrow> Inl (ObjectStoreFailed ''archive checkpoint returned the wrong response''))))"

definition routed_release :: "('p, 'r, 'o) wal_ingress \<Rightarrow> string \<Rightarrow> nat \<Rightarrow> (('p, 'r, 'o) ingress_state, segment_release) archive_run" where
  "routed_release W grp end_lsn =
     wait (wrap_run (store_failure W) (submit_at W grp (ReqWalState 0))) (\<lambda>resp.
     returns (return (case resp of
       RespWalState state \<Rightarrow>
         if end_lsn \<le> wa_checkpointed_end state then Inr (checkpointed end_lsn)
         else Inl (ObjectStoreFailed ''WAL release is not checkpointed'')
     | _ \<Rightarrow> Inl (ObjectStoreFailed ''WAL release is not checkpointed''))))"

definition routed_timeline :: "('p, 'r, 'o) wal_ingress \<Rightarrow> string \<Rightarrow> node_id list \<Rightarrow> ('p, 'r, 'o) ingress_state archive_timeline" where
  "routed_timeline W grp holders =
     \<lparr> at_read_committed_wal = routed_read W grp, at_commit_archive_checkpoint = routed_checkpoint W grp holders,
       at_release_through = routed_release W grp \<rparr>"

definition resolve_wal_archive :: "('p, 'r, 'o) wal_ingress \<Rightarrow> string \<Rightarrow> ('p, 'r, 'o, string, 'o archive_destination) ingress_op" where
  "resolve_wal_archive W grp =
     wait (wrap_run (plane_error_text (wi_services W)) (submit_at W grp ReqWalArchiveBinding)) (\<lambda>resp.
     wait (returns (return (case resp of
       RespWalArchiveBinding (Some bucket) \<Rightarrow> Inr bucket
     | RespWalArchiveBinding None \<Rightarrow> Inl ''timeline WAL archive bucket is not consensus-bound''
     | _ \<Rightarrow> Inl ''timeline WAL archive binding returned wrong response''))) (\<lambda>bucket.
     wait (returns (return (wi_store_for W bucket))) (\<lambda>store.
     returns (return (Inr (object_archive_store (wi_deps W) store, ''_verglas/wal''))))))"

subsection \<open>WAL requests\<close>

definition response_binary :: "group_response \<Rightarrow> (status \<times> string) + bytes" where
  "response_binary resp =
     and_then (case resp of
         RespApplied r \<Rightarrow> Inr (applied r)
       | RespBytes payload \<Rightarrow> Inr (WalBytes payload)
       | RespWalState state \<Rightarrow> Inr (StatusResponse (wa_applied_index state) (wa_committed_end state) (wa_checkpointed_end state))
       | _ \<Rightarrow> Inl (INTERNAL_SERVER_ERROR, ''wrong group response'')) (\<lambda>wire.
     map_err (\<lambda>e. (INTERNAL_SERVER_ERROR, wire_error_text e)) (response_encode wire))"

definition conflict :: "('p, 'r, 'o) wal_ingress \<Rightarrow> plane_error \<Rightarrow> status \<times> string" where
  "conflict W e = (CONFLICT, plane_error_text (wi_services W) e)"

definition composed_wal_read :: "('p, 'r, 'o) wal_ingress \<Rightarrow> string \<Rightarrow> nat \<Rightarrow> nat \<Rightarrow> nat \<Rightarrow> ('p, 'r, 'o, status \<times> string, bytes) ingress_op" where
  "composed_wal_read W grp from to minimum_index =
     wait (wrap_run (conflict W) (submit_at W grp (ReqReadWal from to minimum_index))) (\<lambda>resp.
     case resp of
       RespBytes data \<Rightarrow> returns (return (response_binary (RespBytes data)))
     | RespArchivedWalReadPlan plan \<Rightarrow>
         (let archived_end = min to (wp_checkpointed_end plan) in
          wait (if from < archived_end
                then wait (wrap_run (\<lambda>e. (CONFLICT, e)) (resolve_wal_archive W grp)) (\<lambda>destination.
                     returns (wrap_error (\<lambda>e. (CONFLICT, archive_error_text W e))
                       (read_archived_wal_prefix (wi_deps W) (store_on_objects (fst destination))
                         (wp_archived_segments plan) from archived_end)))
                else returns (return (Inr []))) (\<lambda>prefix.
          returns (return (response_binary (RespBytes (prefix @ wp_retained_tail plan))))))
     | _ \<Rightarrow> returns (return (Inl (INTERNAL_SERVER_ERROR, ''WAL read returned the wrong response''))))"

text \<open>A group is archived by at most one task of a node at a time.\<close>

definition spawn_archive :: "string \<Rightarrow> nat \<Rightarrow> ('p, 'r, 'o) ingress_state \<Rightarrow> ('p, 'r, 'o) ingress_state" where
  "spawn_archive grp minimum_index s =
     (if grp \<in> ig_inflight s then s
      else s\<lparr>ig_inflight := insert grp (ig_inflight s), ig_tasks := ig_tasks s @ [(grp, minimum_index)]\<rparr>)"

definition coded_unavailable :: "plane_error \<Rightarrow> bool" where
  "coded_unavailable e =
     (case e of PlaneGroup (Payload (InsufficientDurability _ _)) \<Rightarrow> True | PlaneGroup (Payload (Transport _)) \<Rightarrow> True | _ \<Rightarrow> False)"

text \<open>The append of the ingress: coded first, and fully replicated when coding is unavailable.\<close>

definition append_submit :: "('p, 'r, 'o) wal_ingress \<Rightarrow> string \<Rightarrow> nat \<Rightarrow> nat \<Rightarrow> nat \<Rightarrow> bytes
    \<Rightarrow> ('p, 'r, 'o, status \<times> string, group_response) ingress_op" where
  "append_submit W grp request_id writer_epoch start_lsn payload s =
     (case submit_at W grp (ReqAppendWal request_id writer_epoch start_lsn payload (wi_coded_holders W) Coded) s of
        None \<Rightarrow> None
      | Some (Inr resp, s1) \<Rightarrow> Some (Inr resp, s1)
      | Some (Inl e, s1) \<Rightarrow>
          if \<not> coded_unavailable e then Some (Inl (conflict W e), s1)
          else wrap_run (conflict W)
            (submit_at W grp (ReqAppendWal request_id writer_epoch start_lsn payload (wi_majority_holders W) Complete)) s1)"

definition after_wal_response :: "string \<Rightarrow> group_response \<Rightarrow> ('p, 'r, 'o) ingress_state \<Rightarrow> ('p, 'r, 'o) ingress_state" where
  "after_wal_response grp resp s =
     (case resp of
        RespApplied r \<Rightarrow> if rr_wal_end r \<noteq> None then spawn_archive grp (rr_index r) s else s
      | RespWalState state \<Rightarrow> spawn_archive grp (wa_applied_index state) s
      | _ \<Rightarrow> s)"

definition after_append_response :: "string \<Rightarrow> group_response \<Rightarrow> ('p, 'r, 'o) ingress_state \<Rightarrow> ('p, 'r, 'o) ingress_state" where
  "after_append_response grp resp s =
     (case resp of
        RespApplied r \<Rightarrow> if rr_wal_end r \<noteq> None then spawn_archive grp (rr_index r) s else s
      | _ \<Rightarrow> s)"

text \<open>The command of a request that is not an append; the conversion of an append panics.\<close>

fun wal_command :: "node_id list \<Rightarrow> wal_request \<Rightarrow> group_request option" where
  "wal_command holders (OpenTimeline request_id start_lsn) = Some (ReqOpenTimeline request_id start_lsn holders)"
| "wal_command holders (AcquireWriter request_id writer) = Some (ReqAcquireWriter request_id writer holders)"
| "wal_command holders (ReadWal from to minimum_index) = Some (ReqReadWal from to minimum_index)"
| "wal_command holders (StatusRequest minimum_index) = Some (ReqWalState minimum_index)"
| "wal_command holders (ReleaseWriterRequest request_id writer_epoch) = Some (ReqReleaseWriter request_id writer_epoch holders)"
| "wal_command holders (Append request_id writer_epoch start_lsn payload) = None"

definition wal_request_handler :: "('p, 'r, 'o) wal_ingress \<Rightarrow> string \<Rightarrow> string \<Rightarrow> bytes \<Rightarrow> ('p, 'r, 'o, status \<times> string, bytes) ingress_op" where
  "wal_request_handler W tenant timeline body =
     (let grp = ''timeline/'' @ tenant @ ''/'' @ timeline in
      wait (returns (return (map_err (\<lambda>e. (BAD_REQUEST, wire_error_text e)) (request_decode body)))) (\<lambda>request.
      case request of
        ReadWal from to minimum_index \<Rightarrow> composed_wal_read W grp from to minimum_index
      | Append request_id writer_epoch start_lsn payload \<Rightarrow>
          wait (append_submit W grp request_id writer_epoch start_lsn payload) (\<lambda>resp s.
          returns (return (response_binary resp)) (after_append_response grp resp s))
      | _ \<Rightarrow>
          (case wal_command (wi_majority_holders W) request of
             None \<Rightarrow> (\<lambda>s. None)
           | Some cmd \<Rightarrow>
               wait (wrap_run (conflict W) (submit_at W grp cmd)) (\<lambda>resp s.
               returns (return (response_binary resp)) (after_wal_response grp resp s)))))"

subsection \<open>Archiving complete segments\<close>

text \<open>The end of the 16 MiB segment that a position lies in.\<close>

definition segment_end :: "nat \<Rightarrow> nat" where
  "segment_end start =
     (if start mod wal_segment_bytes = 0 then saturating_add start wal_segment_bytes
      else saturating_add start (wal_segment_bytes - start mod wal_segment_bytes))"

definition segment_request_id :: "deps \<Rightarrow> string \<Rightarrow> nat \<Rightarrow> nat \<Rightarrow> nat" where
  "segment_request_id D grp start fin =
     of_be (take 16 (sha256 D (as_bytes (grp @ [CHR 0x00] @ dec_string start @ [CHR 0x00] @ dec_string fin))))"

datatype task_step = TaskDone | TaskRetry | TaskNext nat

text \<open>One round of the archive loop behind a fence: stop, sleep and retry, or go on behind a newer fence.\<close>

definition archive_round :: "('p, 'r, 'o) wal_ingress \<Rightarrow> string \<Rightarrow> ('p, 'r, 'o) ingress_state segment_archiver \<Rightarrow> nat
    \<Rightarrow> ('p, 'r, 'o) ingress_state \<Rightarrow> (task_step \<times> ('p, 'r, 'o) ingress_state) option" where
  "archive_round W grp A fence s =
     (case submit_at W grp (ReqWalState fence) s of
        None \<Rightarrow> None
      | Some (Inl _, s1) \<Rightarrow> Some (TaskRetry, s1)
      | Some (Inr (RespWalState state), s1) \<Rightarrow>
          (let start = wa_checkpointed_end state; fin = segment_end start in
           if wa_committed_end state < fin \<or> fin \<le> start then Some (TaskDone, s1)
           else
             (case archive_segment (wi_deps W) A (segment_request_id (wi_deps W) grp start fin) start fin (wa_applied_index state) s1 of
                None \<Rightarrow> None
              | Some (Inl _, s2) \<Rightarrow> Some (TaskRetry, s2)
              | Some (Inr _, s2) \<Rightarrow> Some (TaskNext (wa_applied_index state), s2)))
      | Some (Inr _, s1) \<Rightarrow> Some (TaskDone, s1))"

partial_function (option) archive_loop :: "('p, 'r, 'o) wal_ingress \<Rightarrow> string \<Rightarrow> ('p, 'r, 'o) ingress_state segment_archiver \<Rightarrow> nat
    \<Rightarrow> ('p, 'r, 'o) ingress_state \<Rightarrow> ('p, 'r, 'o) ingress_state option" where
  "archive_loop W grp A fence s =
     (case archive_round W grp A fence s of
        None \<Rightarrow> None
      | Some (TaskDone, s1) \<Rightarrow> Some s1
      | Some (TaskRetry, s1) \<Rightarrow> archive_loop W grp A fence s1
      | Some (TaskNext fence', s1) \<Rightarrow> archive_loop W grp A fence' s1)"

text \<open>The body of a spawned task; the guard drops the group from the in-flight set on every exit.\<close>

definition archive_task :: "('p, 'r, 'o) wal_ingress \<Rightarrow> string \<Rightarrow> nat \<Rightarrow> ('p, 'r, 'o) ingress_state \<Rightarrow> ('p, 'r, 'o) ingress_state option" where
  "archive_task W grp minimum_index s =
     (let finish = (\<lambda>s. s\<lparr>ig_inflight := ig_inflight s - {grp}\<rparr>) in
      case resolve_wal_archive W grp s of
        None \<Rightarrow> None
      | Some (Inl _, s1) \<Rightarrow> Some (finish s1)
      | Some (Inr (store, prefix), s1) \<Rightarrow>
          (case archiver_new (routed_timeline W grp (wi_majority_holders W)) (store_on_objects store)
                  (prefix @ ''/'' @ grp) of
             Inl _ \<Rightarrow> Some (finish s1)
           | Inr A \<Rightarrow> map_option finish (archive_loop W grp A minimum_index s1)))"

subsection \<open>Draining a stopping node\<close>

definition stop_request_id :: "deps \<Rightarrow> string \<Rightarrow> nat \<Rightarrow> nat" where
  "stop_request_id D grp committed_end =
     of_be (take 16 (sha256 D (as_bytes (''stop'' @ [CHR 0x00] @ grp @ [CHR 0x00] @ dec_string committed_end))))"

definition flush_timeline_tail :: "('p, 'r, 'o) wal_ingress \<Rightarrow> 'o archive_destination \<Rightarrow> node_id list \<Rightarrow> string
    \<Rightarrow> (('p, 'r, 'o) ingress_state, unit) archive_run" where
  "flush_timeline_tail W destination holders grp =
     wait (wrap_run (store_failure W) (submit_at W grp (ReqWalState 0))) (\<lambda>resp.
     case resp of
       RespWalState state \<Rightarrow>
         if wa_checkpointed_end state = wa_committed_end state then returns (return (Inr ()))
         else
           wait (returns (return (archiver_new (routed_timeline W grp holders)
             (store_on_objects (fst destination)) (snd destination @ ''/'' @ grp)))) (\<lambda>A.
           wait (archive_tail (wi_deps W) A (stop_request_id (wi_deps W) grp (wa_committed_end state))
             (wa_checkpointed_end state) (wa_committed_end state) (wa_applied_index state)) (\<lambda>_.
           returns (return (Inr ()))))
     | _ \<Rightarrow> returns (return (Inl (ObjectStoreFailed ''timeline status returned wrong response''))))"

definition catalog_export_object :: "deps \<Rightarrow> string \<Rightarrow> string \<Rightarrow> catalog_export \<Rightarrow> archive_object" where
  "catalog_export_object D prefix grp export =
     \<lparr> ao_key = prefix @ ''/'' @ grp @ ''/catalog-'' @ hex_fixed 16 (ce_applied_index export) @ ''-'' @ hex_encode D (sha256 D (ce_bytes export)),
       ao_hash = sha256 D (ce_bytes export), ao_length = length (ce_bytes export) \<rparr>"

definition persist_catalog_export :: "deps \<Rightarrow> 'o archive_destination \<Rightarrow> string \<Rightarrow> catalog_export \<Rightarrow> ('o, nat \<times> string) archive_op" where
  "persist_catalog_export D destination grp export =
     (let object = catalog_export_object D (snd destination) grp export; store = fst destination in
      await (is_upload store object (ce_bytes export)) (\<lambda>_.
      await (is_verify store object) (\<lambda>_.
      return (Inr (of_be (take 16 (ao_hash object)), ao_key object)))))"

definition drain_warehouse :: "('p, 'r, 'o) wal_ingress \<Rightarrow> node_id list \<Rightarrow> string \<Rightarrow> ('p, 'r, 'o, string, unit) ingress_op" where
  "drain_warehouse W holders grp =
     wait (wrap_run (plane_error_text (wi_services W)) (submit_at W grp ReqExportCatalog)) (\<lambda>resp.
     case resp of
       RespCatalogExport export \<Rightarrow>
         wait (returns (return (ok_or (''group '' @ grp @ '' needs a catalog archive, which is not configured'') (wi_catalog_archive W)))) (\<lambda>destination.
         wait (returns (wrap_error (archive_error_text W) (on_objects (persist_catalog_export (wi_deps W) destination grp export)))) (\<lambda>(request, object).
         wait (wrap_run (plane_error_text (wi_services W))
           (submit_at W grp (ReqCatalogCheckpoint request (ce_applied_index export) object holders))) (\<lambda>resp.
         returns (return (case resp of
           RespApplied _ \<Rightarrow> Inr ()
         | _ \<Rightarrow> Inl ''catalog checkpoint returned wrong response'')))))
     | _ \<Rightarrow> returns (return (Inl ''catalog export returned wrong response'')))"

definition drain_timeline :: "('p, 'r, 'o) wal_ingress \<Rightarrow> node_id list \<Rightarrow> string \<Rightarrow> ('p, 'r, 'o, string, unit) ingress_op" where
  "drain_timeline W holders grp =
     wait (resolve_wal_archive W grp) (\<lambda>destination.
     wrap_run (archive_error_text W) (flush_timeline_tail W destination holders grp))"

fun drain_groups :: "('p, 'r, 'o) wal_ingress \<Rightarrow> node_id list \<Rightarrow> string list \<Rightarrow> ('p, 'r, 'o, string, unit) ingress_op" where
  "drain_groups W holders [] = returns (return (Inr ()))"
| "drain_groups W holders (grp # grps) =
     (if starts_with grp ''timeline/'' then wait (drain_timeline W holders grp) (\<lambda>_. drain_groups W holders grps)
      else if starts_with grp ''warehouse/'' then wait (drain_warehouse W holders grp) (\<lambda>_. drain_groups W holders grps)
      else drain_groups W holders grps)"

definition drain_authoritative_groups :: "('p, 'r, 'o) wal_ingress \<Rightarrow> node_id list \<Rightarrow> ('p, 'r, 'o, string, unit) ingress_op" where
  "drain_authoritative_groups W holders s = drain_groups W holders (hosted_groups (ig_plane s)) s"

subsection \<open>Catalog requests\<close>

datatype managed_request =
    MCommit nat catalog_batch
  | MTable string
  | MNamespaces
  | MTables
  | MRecord catalog_entity string
  | MRecords catalog_entity

datatype managed_response =
    MApplied raft_response
  | MTableAt "string option"
  | MNamespaceList "string list"
  | MTableList "(string \<times> string) list"
  | MRecordAt "string option"
  | MRecordList "(string \<times> string) list"

datatype managed_error = MConflict | MRejected nat

fun catalog_command :: "node_id list \<Rightarrow> managed_request \<Rightarrow> group_request" where
  "catalog_command holders (MCommit request_id batch) = ReqCommitCatalog request_id batch holders"
| "catalog_command holders (MTable table) = ReqCatalogTable table"
| "catalog_command holders MNamespaces = ReqCatalogNamespaces"
| "catalog_command holders MTables = ReqCatalogTables"
| "catalog_command holders (MRecord entity name) = ReqCatalogRecord entity name"
| "catalog_command holders (MRecords entity) = ReqCatalogRecords entity"

definition catalog_submission_error :: "('p, 'r, 'o) wal_ingress \<Rightarrow> plane_error \<Rightarrow> status \<times> string" where
  "catalog_submission_error W e =
     ((case e of PlaneGroup GCatalogConflict \<Rightarrow> CONFLICT | PlaneGroup GConflictingRetry \<Rightarrow> CONFLICT | _ \<Rightarrow> SERVICE_UNAVAILABLE),
      plane_error_text (wi_services W) e)"

fun catalog_response :: "group_response \<Rightarrow> (status \<times> string) + managed_response" where
  "catalog_response (RespApplied r) = Inr (MApplied r)"
| "catalog_response (RespCatalogTable t) = Inr (MTableAt t)"
| "catalog_response (RespCatalogNamespaces n) = Inr (MNamespaceList n)"
| "catalog_response (RespCatalogTables t) = Inr (MTableList t)"
| "catalog_response (RespCatalogRecord r) = Inr (MRecordAt r)"
| "catalog_response (RespCatalogRecords r) = Inr (MRecordList r)"
| "catalog_response (RespCatalogExport _) = Inl (INTERNAL_SERVER_ERROR, ''wrong warehouse response'')"
| "catalog_response (RespWalArchiveBinding _) = Inl (INTERNAL_SERVER_ERROR, ''wrong warehouse response'')"
| "catalog_response (RespWarehouseGroup _) = Inl (INTERNAL_SERVER_ERROR, ''wrong warehouse response'')"
| "catalog_response _ = Inl (INTERNAL_SERVER_ERROR, ''wrong group response'')"

definition execute_catalog_request :: "('p, 'r, 'o) wal_ingress \<Rightarrow> string \<Rightarrow> string \<Rightarrow> managed_request
    \<Rightarrow> ('p, 'r, 'o, status \<times> string, managed_response) ingress_op" where
  "execute_catalog_request W tenant warehouse request =
     (if tenant = [] \<or> warehouse = [] then returns (return (Inl (BAD_REQUEST, ''tenant and warehouse are required'')))
      else
        (let root = ''tenant/'' @ tenant; warehouse_group = ''warehouse/'' @ tenant @ ''/'' @ warehouse;
             request_id = of_be (take 16 (sha256 (wi_deps W) (as_bytes (tenant @ [CHR 0x00] @ warehouse))))
         in
         wait (wrap_run (catalog_submission_error W)
           (submit_at W root (ReqRegisterWarehouse request_id warehouse warehouse_group (wi_majority_holders W)))) (\<lambda>root_response.
         if root_response \<noteq> RespWarehouseGroup (Some warehouse_group)
         then returns (return (Inl (CONFLICT, ''tenant root rejected warehouse route'')))
         else
           wait (wrap_run (catalog_submission_error W)
             (submit_at W warehouse_group (catalog_command (wi_majority_holders W) request))) (\<lambda>resp.
           returns (return (catalog_response resp))))))"

text \<open>The in-process transport of an embedded catalog: a conflict is final, everything else keeps its status.\<close>

definition local_catalog_execute :: "('p, 'r, 'o) wal_ingress \<Rightarrow> string \<Rightarrow> string \<Rightarrow> managed_request
    \<Rightarrow> ('p, 'r, 'o, managed_error, managed_response) ingress_op" where
  "local_catalog_execute W tenant warehouse request =
     wrap_run (\<lambda>(status, detail). if status = CONFLICT then MConflict else MRejected (as_u16 status))
       (execute_catalog_request W tenant warehouse request)"

end
