(* ===== verification/Ingress_Properties.thy ===== *)
theory Ingress_Properties
  imports Ingress
begin

section \<open>Properties of the ingress\<close>

text \<open>
  Every handler keeps every replica of every node well formed, a composed WAL read returns exactly
  committed bytes, and a flushed timeline is archived up to its committed end. The lemmas rest on the
  soundness of a submission: an answer is one execution of the submitted request on one replica.
\<close>

subsection \<open>Operations that keep the invariant\<close>

text \<open>What the plane of an ingress guarantees.\<close>

definition ingress_ok :: "deps \<Rightarrow> (node_id \<Rightarrow> nat \<Rightarrow> 'r \<Rightarrow> bool) \<Rightarrow> ('p, 'r, 'o) wal_ingress \<Rightarrow> bool" where
  "ingress_ok D I W \<longleftrightarrow> plane_ok D I (wi_services W) \<and> wire_ok (wi_services W) \<and> wi_deps W = D"

definition stays :: "deps \<Rightarrow> (node_id \<Rightarrow> nat \<Rightarrow> 'r \<Rightarrow> bool) \<Rightarrow> (('p, 'r, 'o) ingress_state \<Rightarrow> ('a \<times> ('p, 'r, 'o) ingress_state) option) \<Rightarrow> bool" where
  "stays D I m \<longleftrightarrow> (\<forall>s r s'. plane_wf D I (ig_plane s) \<and> m s = Some (r, s') \<longrightarrow> plane_wf D I (ig_plane s'))"

named_theorems stays_intros "operations of the ingress that keep every replica well formed"

lemma staysD: "stays D I m \<Longrightarrow> plane_wf D I (ig_plane s) \<Longrightarrow> m s = Some (r, s') \<Longrightarrow> plane_wf D I (ig_plane s')"
  unfolding stays_def by blast

lemma stays_wait [stays_intros]:
  assumes "stays D I m" "\<And>a. stays D I (f a)"
  shows "stays D I (wait m f)"
  unfolding stays_def
proof (intro allI impI, elim conjE)
  fix s r s' assume wf: "plane_wf D I (ig_plane s)" and run: "wait m f s = Some (r, s')"
  obtain q s1 where m: "m s = Some (q, s1)" using run by (cases "m s") (auto simp: wait_def)
  have s1: "plane_wf D I (ig_plane s1)" by (rule staysD [OF assms(1) wf m])
  show "plane_wf D I (ig_plane s')"
  proof (cases q)
    case (Inr a)
    then have "f a s1 = Some (r, s')" using run m by (simp add: wait_def)
    then show ?thesis by (rule staysD [OF assms(2) s1])
  qed (use run m s1 in \<open>simp add: wait_def\<close>)
qed

lemma stays_wrap_run [stays_intros]: "stays D I m \<Longrightarrow> stays D I (wrap_run f m)"
  unfolding stays_def wrap_run_def by auto

lemma stays_return [stays_intros]: "stays D I (returns (return r))"
  by (auto simp: stays_def return_def)

lemma stays_if [stays_intros]: "stays D I m \<Longrightarrow> stays D I m' \<Longrightarrow> stays D I (if b then m else m')"
  by simp

lemma stays_on_objects [stays_intros]: "stays D I (returns (on_objects m))"
  by (auto simp: stays_def on_objects_def split: prod.split_asm)

lemma stays_wrap_error [stays_intros]: "stays D I (returns m) \<Longrightarrow> stays D I (returns (wrap_error f m))"
  by (auto simp: stays_def wrap_error_def split: prod.split_asm)

lemma stays_store [stays_intros]:
  "stays D I (returns (is_upload (store_on_objects S) object data))" "stays D I (returns (is_verify (store_on_objects S) object))"
  "stays D I (returns (is_read (store_on_objects S) object))"
  by (simp_all add: store_on_objects_def stays_on_objects)

lemma submit_at_executes:
  assumes "ingress_ok D I W" "plane_wf D I (ig_plane s)" "submit_at W grp request s = Some (r, s')"
  shows "plane_wf D I (ig_plane s') \<and> (\<forall>resp. r = Inr resp \<longrightarrow> executed D I (wi_services W) grp request resp (ig_plane s'))"
proof -
  obtain P where "submit (wi_services W) grp request (ig_plane s) = Some (r, P)" "s' = s\<lparr>ig_plane := P\<rparr>"
    using assms(3) by (auto simp: submit_at_def split: option.split_asm)
  then show ?thesis using submit_executes [of D I "wi_services W" "ig_plane s" grp request r P] assms(1,2) by (simp add: ingress_ok_def)
qed

lemma stays_submit [stays_intros]: "ingress_ok D I W \<Longrightarrow> stays D I (submit_at W grp request)"
  unfolding stays_def by (blast dest: submit_at_executes)

text \<open>Operations that do not touch the plane.\<close>

definition off_plane :: "(('p, 'r, 'o) ingress_state \<Rightarrow> 'a \<times> ('p, 'r, 'o) ingress_state) \<Rightarrow> bool" where
  "off_plane m \<longleftrightarrow> (\<forall>s. ig_plane (snd (m s)) = ig_plane s)"

lemma off_plane_return: "off_plane (return r)"
  by (simp add: off_plane_def return_def)

lemma off_plane_await:
  assumes "off_plane m" "\<And>a. off_plane (f a)"
  shows "off_plane (await m f)"
proof -
  have "ig_plane (snd (await m f s)) = ig_plane s" for s
    using assms(1) [unfolded off_plane_def, rule_format, of s] assms(2) by (cases "m s") (auto simp: off_plane_def await_def split: sum.split)
  then show ?thesis by (simp add: off_plane_def)
qed

lemma off_plane_if: "off_plane m \<Longrightarrow> off_plane m' \<Longrightarrow> off_plane (if b then m else m')"
  by simp

lemma off_plane_objects: "off_plane (on_objects m)"
  by (simp add: off_plane_def on_objects_def split: prod.split)

lemma off_plane_read: "off_plane (is_read (store_on_objects S) object)"
  by (simp add: store_on_objects_def off_plane_objects)

lemma off_plane_prefix: "off_plane (prefix_loop D (store_on_objects S) to segs cursor out)"
proof (induction segs arbitrary: cursor out)
  case (Cons seg segs)
  show ?case
    unfolding prefix_loop.simps Let_def by (intro off_plane_return off_plane_await off_plane_if off_plane_read Cons.IH)
qed (simp add: off_plane_return)

lemma stays_off_plane: "off_plane m \<Longrightarrow> stays D I (returns m)"
  unfolding stays_def off_plane_def returns_def by (metis option.inject snd_conv)

lemma stays_prefix [stays_intros]: "stays D I (returns (read_archived_wal_prefix E (store_on_objects S) segs from to))"
  unfolding read_archived_wal_prefix_def by (intro stays_off_plane off_plane_if off_plane_return off_plane_prefix)

lemma stays_resolve [stays_intros]: "ingress_ok D I W \<Longrightarrow> stays D I (resolve_wal_archive W grp)"
  unfolding resolve_wal_archive_def by (intro stays_intros)

text \<open>Reading the answer of a read, and answering after spawning a task.\<close>

lemma stays_composed [stays_intros]:
  assumes "ingress_ok D I W"
  shows "stays D I (composed_wal_read W grp from to m)"
proof -
  have "stays D I (case resp of
       RespBytes data \<Rightarrow> returns (return (response_binary (RespBytes data)))
     | RespArchivedWalReadPlan plan \<Rightarrow>
         (let archived_end = min to (wp_checkpointed_end plan) in
          wait (if from < archived_end
                then wait (wrap_run (\<lambda>e. (CONFLICT, e)) (resolve_wal_archive W grp)) (\<lambda>destination.
                     returns (wrap_error (\<lambda>e. (CONFLICT, archive_error_text W e))
                       (read_archived_wal_prefix (wi_deps W) (store_on_objects (fst destination))
                         (wp_archived_segments plan) from archived_end)))
                else returns (return (Inr []))) (\<lambda>prefix.
          returns (return (response_binary (RespBytes (prefix @ wp_retained_tail plan))))))
     | _ \<Rightarrow> returns (return (Inl (INTERNAL_SERVER_ERROR, ''WAL read returned the wrong response''))))" for resp
    using assms by (cases resp) (simp_all only: group_response.case Let_def, (intro stays_intros | assumption)+)
  then show ?thesis unfolding composed_wal_read_def by (intro stays_intros assms)
qed

lemma after_responses_plane:
  "ig_plane (after_wal_response grp resp s) = ig_plane s" "ig_plane (after_append_response grp resp s) = ig_plane s"
  by (auto simp: after_wal_response_def after_append_response_def spawn_archive_def split: group_response.split)

lemma stays_after: "(\<And>s. ig_plane (g s) = ig_plane s) \<Longrightarrow> stays D I (\<lambda>s. returns (return r) (g s))"
  by (auto simp: stays_def return_def)

lemma stays_append [stays_intros]:
  assumes "ingress_ok D I W"
  shows "stays D I (append_submit W grp request_id writer_epoch start_lsn payload)"
  unfolding stays_def
proof (intro allI impI, elim conjE)
  fix s r s' assume wf: "plane_wf D I (ig_plane s)" and run: "append_submit W grp request_id writer_epoch start_lsn payload s = Some (r, s')"
  obtain q s1 where m: "submit_at W grp (ReqAppendWal request_id writer_epoch start_lsn payload (wi_coded_holders W) Coded) s = Some (q, s1)"
    using run by (auto simp: append_submit_def split: option.split_asm)
  have s1: "plane_wf D I (ig_plane s1)" by (rule staysD [OF stays_submit [OF assms] wf m])
  have second: "stays D I (wrap_run (conflict W) (submit_at W grp request))" for request by (intro stays_intros assms)
  show "plane_wf D I (ig_plane s')"
    using run m s1 staysD [OF second s1] by (auto simp: append_submit_def split: sum.split_asm if_split_asm)
qed

lemma stays_wal_request:
  assumes "ingress_ok D I W"
  shows "stays D I (wal_request_handler W tenant timeline body)"
proof -
  have after: "stays D I (wait (wrap_run (conflict W) (submit_at W grp request)) (\<lambda>resp s. returns (return (response_binary resp)) (after_wal_response grp resp s)))"
      "stays D I (wait (append_submit W grp a b c d) (\<lambda>resp s. returns (return (response_binary resp)) (after_append_response grp resp s)))"
    for grp request a b c d
    by (intro stays_intros stays_after after_responses_plane assms)+
  have "stays D I (case request of
        ReadWal from to minimum_index \<Rightarrow> composed_wal_read W grp from to minimum_index
      | Append request_id writer_epoch start_lsn payload \<Rightarrow>
          wait (append_submit W grp request_id writer_epoch start_lsn payload) (\<lambda>resp s.
          returns (return (response_binary resp)) (after_append_response grp resp s))
      | _ \<Rightarrow>
          (case wal_command (wi_majority_holders W) request of
             None \<Rightarrow> (\<lambda>s. None)
           | Some cmd \<Rightarrow>
               wait (wrap_run (conflict W) (submit_at W grp cmd)) (\<lambda>resp s.
               returns (return (response_binary resp)) (after_wal_response grp resp s))))" for request grp
    using after stays_composed [OF assms] by (cases request) (simp_all)
  then show ?thesis unfolding wal_request_handler_def Let_def by (intro stays_intros)
qed

lemma stays_routed [stays_intros]:
  assumes "ingress_ok D I W"
  shows "stays D I (at_read_committed_wal (routed_timeline W grp holders) a b c)"
    "stays D I (at_commit_archive_checkpoint (routed_timeline W grp holders) q b object)"
    "stays D I (at_release_through (routed_timeline W grp holders) b)"
  unfolding routed_timeline_def routed_read_def routed_checkpoint_def routed_release_def archive_timeline.simps
  by (intro stays_intros assms)+

lemma stays_archive_segment:
  assumes "ingress_ok D I W" "sa_timeline A = routed_timeline W grp holders" "sa_store A = store_on_objects S"
  shows "stays D I (archive_segment E A q a b m)"
  unfolding archive_segment_def assms(2,3) Let_def by (intro stays_intros assms(1))

lemma archiver_new_Inr:
  "archiver_new timeline store prefix = Inr A \<longleftrightarrow> A = \<lparr> sa_timeline = timeline, sa_store = store, sa_prefix = prefix \<rparr> \<and> prefix \<noteq> []"
  by (auto simp: archiver_new_def)

lemma archive_round_wf:
  assumes W: "ingress_ok D I W" and A: "sa_timeline A = routed_timeline W grp holders" "sa_store A = store_on_objects S"
    and wf: "plane_wf D I (ig_plane s)" and run: "archive_round W grp A fence s = Some (step, s')"
  shows "plane_wf D I (ig_plane s')"
proof -
  obtain q s1 where m: "submit_at W grp (ReqWalState fence) s = Some (q, s1)" using run by (auto simp: archive_round_def split: option.split_asm)
  have s1: "plane_wf D I (ig_plane s1)" by (rule staysD [OF stays_submit [OF W] wf m])
  have seg: "plane_wf D I (ig_plane s2)" if "archive_segment (wi_deps W) A a b c d s1 = Some (r, s2)" for a b c d r s2
    by (rule staysD [OF stays_archive_segment [OF W A] s1 that])
  show ?thesis
    using run m s1 seg by (auto simp: archive_round_def Let_def split: sum.split_asm group_response.split_asm if_split_asm option.split_asm)
qed

lemma archive_loop_wf:
  fixes W :: "('p, 'r, 'o) wal_ingress"
  assumes "archive_loop W grp A fence s = Some s'"
    and "ingress_ok D I W" "sa_timeline A = routed_timeline W grp holders" "sa_store A = store_on_objects S" "plane_wf D I (ig_plane s)"
  shows "plane_wf D I (ig_plane s')"
proof -
  let ?Q = "\<lambda>(W :: ('p, 'r, 'o) wal_ingress) grp A (fence :: nat) s s'. ingress_ok D I W \<and> sa_timeline A = routed_timeline W grp holders \<and>
    sa_store A = store_on_objects S \<and> plane_wf D I (ig_plane s) \<longrightarrow> plane_wf D I (ig_plane s')"
  have "?Q W grp A fence s s'"
  proof (rule archive_loop.raw_induct [OF _ assms(1), of ?Q])
    fix loop :: "('p, 'r, 'o) wal_ingress \<Rightarrow> string \<Rightarrow> ('p, 'r, 'o) ingress_state segment_archiver \<Rightarrow> nat \<Rightarrow> ('p, 'r, 'o) ingress_state \<Rightarrow> ('p, 'r, 'o) ingress_state option"
      and W grp A fence s s'
    assume IH: "\<And>W grp A fence s s'. loop W grp A fence s = Some s' \<Longrightarrow> ingress_ok D I W \<and> sa_timeline A = routed_timeline W grp holders \<and>
        sa_store A = store_on_objects S \<and> plane_wf D I (ig_plane s) \<longrightarrow> plane_wf D I (ig_plane s')"
      and run: "(case archive_round W grp A fence s of
        None \<Rightarrow> None
      | Some (TaskDone, s1) \<Rightarrow> Some s1
      | Some (TaskRetry, s1) \<Rightarrow> loop W grp A fence s1
      | Some (TaskNext fence', s1) \<Rightarrow> loop W grp A fence' s1) = Some s'"
    show "ingress_ok D I W \<and> sa_timeline A = routed_timeline W grp holders \<and> sa_store A = store_on_objects S \<and> plane_wf D I (ig_plane s) \<longrightarrow>
        plane_wf D I (ig_plane s')"
      using run archive_round_wf [of D I W A grp holders S s fence] IH
      by (auto split: option.split_asm task_step.split_asm prod.split_asm)
  qed
  with assms show ?thesis by simp
qed

lemma archive_task_wf:
  assumes W: "ingress_ok D I W" and wf: "plane_wf D I (ig_plane s)" and run: "archive_task W grp m s = Some s'"
  shows "plane_wf D I (ig_plane s')"
proof -
  obtain q s1 where r: "resolve_wal_archive W grp s = Some (q, s1)" using run by (auto simp: archive_task_def Let_def split: option.split_asm)
  have s1: "plane_wf D I (ig_plane s1)" by (rule staysD [OF stays_resolve [OF W] wf r])
  have loop: "plane_wf D I (ig_plane s2)"
    if "archive_loop W grp \<lparr> sa_timeline = routed_timeline W grp (wi_majority_holders W), sa_store = store_on_objects store, sa_prefix = prefix \<rparr> m s1 = Some s2"
    for s2 store prefix
    by (rule archive_loop_wf [OF that W _ _ s1]) simp_all
  show ?thesis
    using run r s1 loop by (auto simp: archive_task_def Let_def archiver_new_def split: sum.split_asm if_split_asm)
qed

lemma stays_flush [stays_intros]:
  assumes W: "ingress_ok D I W"
  shows "stays D I (flush_timeline_tail W destination holders grp)"
proof -
  have tail: "stays D I (wait (returns (return (archiver_new (routed_timeline W grp holders) (store_on_objects S) prefix))) (\<lambda>A.
      wait (archive_tail (wi_deps W) A a b c d) (\<lambda>_. returns (return (Inr ())))))" for S prefix a b c d
  proof (cases "prefix = []")
    case True
    then show ?thesis by (auto simp: stays_def wait_def returns_def return_def archiver_new_def)
  next
    case False
    have "stays D I (wait (archive_tail (wi_deps W) \<lparr> sa_timeline = routed_timeline W grp holders, sa_store = store_on_objects S, sa_prefix = prefix \<rparr> a b c d)
        (\<lambda>_. returns (return (Inr ()))))"
      unfolding archive_tail_def by (intro stays_intros stays_archive_segment [OF W]) simp_all
    then show ?thesis using False by (auto simp: stays_def wait_def returns_def return_def archiver_new_def)
  qed
  have "stays D I (case resp of
       RespWalState state \<Rightarrow>
         if wa_checkpointed_end state = wa_committed_end state then returns (return (Inr ()))
         else
           wait (returns (return (archiver_new (routed_timeline W grp holders)
             (store_on_objects (fst destination)) (snd destination @ ''/'' @ grp)))) (\<lambda>A.
           wait (archive_tail (wi_deps W) A (stop_request_id (wi_deps W) grp (wa_committed_end state))
             (wa_checkpointed_end state) (wa_committed_end state) (wa_applied_index state)) (\<lambda>_.
           returns (return (Inr ()))))
     | _ \<Rightarrow> returns (return (Inl (ObjectStoreFailed ''timeline status returned wrong response''))))" for resp
    using tail by (cases resp) (simp_all only: group_response.case, (intro stays_intros tail)+)
  then show ?thesis unfolding flush_timeline_tail_def by (intro stays_intros W)
qed

lemma stays_drain_timeline [stays_intros]: "ingress_ok D I W \<Longrightarrow> stays D I (drain_timeline W holders grp)"
  unfolding drain_timeline_def by (intro stays_intros)

lemma stays_drain_warehouse [stays_intros]:
  assumes W: "ingress_ok D I W"
  shows "stays D I (drain_warehouse W holders grp)"
proof -
  have step: "stays D I (case p of (request, object) \<Rightarrow> f request object)" if "\<And>a b. stays D I (f a b)" for p and f :: "nat \<Rightarrow> string \<Rightarrow> _"
    using that by (cases p) simp
  have "stays D I (case resp of
       RespCatalogExport export \<Rightarrow>
         wait (returns (return (ok_or (''group '' @ grp @ '' needs a catalog archive, which is not configured'') (wi_catalog_archive W)))) (\<lambda>destination.
         wait (returns (wrap_error (archive_error_text W) (on_objects (persist_catalog_export (wi_deps W) destination grp export)))) (\<lambda>(request, object).
         wait (wrap_run (plane_error_text (wi_services W))
           (submit_at W grp (ReqCatalogCheckpoint request (ce_applied_index export) object holders))) (\<lambda>resp.
         returns (return (case resp of
           RespApplied _ \<Rightarrow> Inr ()
         | _ \<Rightarrow> Inl ''catalog checkpoint returned wrong response'')))))
     | _ \<Rightarrow> returns (return (Inl ''catalog export returned wrong response'')))" for resp
    by (cases resp) (simp_all only: group_response.case, (intro stays_intros step W)+)
  then show ?thesis unfolding drain_warehouse_def by (intro stays_intros W)
qed

lemma stays_drain_groups:
  assumes "ingress_ok D I W"
  shows "stays D I (drain_groups W holders grps)"
proof (induction grps)
  case (Cons grp grps)
  show ?case unfolding drain_groups.simps by (intro stays_intros assms Cons.IH)
qed (simp add: stays_return)

lemma stays_drain: "ingress_ok D I W \<Longrightarrow> stays D I (drain_authoritative_groups W holders)"
  using stays_drain_groups unfolding stays_def drain_authoritative_groups_def by blast

lemma stays_catalog:
  assumes "ingress_ok D I W"
  shows "stays D I (execute_catalog_request W tenant warehouse request)" "stays D I (local_catalog_execute W tenant warehouse request)"
proof -
  show "stays D I (execute_catalog_request W tenant warehouse request)"
    unfolding execute_catalog_request_def Let_def by (intro stays_intros assms)
  then show "stays D I (local_catalog_execute W tenant warehouse request)"
    unfolding local_catalog_execute_def by (rule stays_wrap_run)
qed

subsection \<open>Composed reads\<close>

text \<open>
  The bytes \<open>from\<close> to \<open>to\<close> of the WAL that a replica has committed: retained bytes, or a range of the
  archived objects that the log records followed by the retained bytes above the archive watermark.
\<close>

definition committed_range :: "deps \<Rightarrow> state_machine \<Rightarrow> nat \<Rightarrow> nat \<Rightarrow> bytes \<Rightarrow> bool" where
  "committed_range D s from to data \<longleftrightarrow> retained_range D s from to data \<or>
     (\<exists>segs base prefix tail. archived_wal_segments (sm_archive_lsn s) s = Inr segs \<and> base \<le> from \<and> from < sm_archive_lsn s \<and>
        chain base (seg_ranges segs) = Some (sm_archive_lsn s) \<and> archived_range D from (min to (sm_archive_lsn s)) base segs prefix \<and>
        data = prefix @ tail \<and> (if sm_archive_lsn s < to then retained_range D s (sm_archive_lsn s) to tail else tail = []))"

lemma response_binary_bytes:
  assumes "response_binary (RespBytes data) = Inr body"
  shows "response_encode (WalBytes data) = Inr body \<and> length data < u32_bound"
  using assms by (auto simp: response_binary_def response_encode_def put_bytes_def split: if_split_asm)

lemma plane_node:
  assumes "ingress_ok D I W"
  shows "sv_deps (ps_node (wi_services W) node) = D" "raft_ok D (sv_raft (ps_node (wi_services W) node)) (I node)"
  using assms by (simp_all add: ingress_ok_def plane_ok_def)

text \<open>What a successful composed read did: one read on one replica, and the archive for what lies below.\<close>

definition read_prefix_of :: "('p, 'r, 'o) wal_ingress \<Rightarrow> wal_read_plan \<Rightarrow> nat \<Rightarrow> nat \<Rightarrow> bytes \<Rightarrow> bool" where
  "read_prefix_of W plan from archived_end prefix \<longleftrightarrow>
     (if from < archived_end
      then \<exists>(S :: 'o segment_store) (s :: ('p, 'r, 'o) ingress_state) s'.
        read_archived_wal_prefix (wi_deps W) (store_on_objects S) (wp_archived_segments plan) from archived_end s = (Inr prefix, s')
      else prefix = [])"

lemma composed_steps:
  assumes "composed_wal_read W grp from to m s = Some (Inr body, s')"
  shows "\<exists>resp s1. submit_at W grp (ReqReadWal from to m) s = Some (Inr resp, s1) \<and>
    (case resp of
       RespBytes data \<Rightarrow> response_binary (RespBytes data) = Inr body
     | RespArchivedWalReadPlan plan \<Rightarrow> \<exists>prefix. response_binary (RespBytes (prefix @ wp_retained_tail plan)) = Inr body \<and>
         read_prefix_of W plan from (min to (wp_checkpointed_end plan)) prefix
     | _ \<Rightarrow> False)"
proof -
  obtain resp s1 where r: "submit_at W grp (ReqReadWal from to m) s = Some (Inr resp, s1)"
    using assms unfolding composed_wal_read_def by (auto simp only: wait_Inr wrap_run_Inr)
  show ?thesis
  proof (cases resp)
    case (RespArchivedWalReadPlan plan)
    let ?e = "min to (wp_checkpointed_end plan)"
    obtain prefix s2 where run: "(if from < ?e
         then wait (wrap_run (\<lambda>e. (CONFLICT, e)) (resolve_wal_archive W grp)) (\<lambda>destination.
              returns (wrap_error (\<lambda>e. (CONFLICT, archive_error_text W e))
                (read_archived_wal_prefix (wi_deps W) (store_on_objects (fst destination)) (wp_archived_segments plan) from ?e)))
         else returns (return (Inr []))) s1 = Some (Inr prefix, s2)"
        and body: "response_binary (RespBytes (prefix @ wp_retained_tail plan)) = Inr body"
      using assms r RespArchivedWalReadPlan unfolding composed_wal_read_def Let_def by (simp only: wait_Inr wrap_run_Inr) (auto simp: return_def)
    have "read_prefix_of W plan from ?e prefix"
    proof (cases "from < ?e")
      case True
      then show ?thesis using run by (simp only: if_True read_prefix_of_def wait_Inr wrap_run_Inr returns_eq wrap_error_Inr) blast
    qed (use run in \<open>simp only: if_False read_prefix_of_def returns_eq, simp add: return_def\<close>)
    then show ?thesis using r RespArchivedWalReadPlan body by auto
  qed (use assms r in \<open>auto simp: composed_wal_read_def return_def\<close>)
qed

lemma composed_committed:
  fixes W :: "((distributed_store \<times> 'n, 'f call_env) session, 'r, 'o) wal_ingress"
  assumes W: "ingress_ok D I W" "\<forall>node. sv_payloads (ps_node (wi_services W) node) = distributed_ops D (T node)"
    and wf: "plane_wf D I (ig_plane s)" and run: "composed_wal_read W grp from to m s = Some (Inr body, s')"
  obtains data node g g' resp where "response_encode (WalBytes data) = Inr body" "length data < u32_bound" "group_wf D (I node) g"
    "execute (ps_node (wi_services W) node) (ReqReadWal from to m) g = (Inr resp, g')" "from < to" "length data = to - from"
    "committed_range D (cg_machine g') from to data"
proof -
  let ?X = "wi_services W" and ?read = "ReqReadWal from to m"
  obtain resp s1 where r: "submit_at W grp ?read s = Some (Inr resp, s1)" and
      steps: "case resp of
       RespBytes data \<Rightarrow> response_binary (RespBytes data) = Inr body
     | RespArchivedWalReadPlan plan \<Rightarrow> \<exists>prefix. response_binary (RespBytes (prefix @ wp_retained_tail plan)) = Inr body \<and>
         read_prefix_of W plan from (min to (wp_checkpointed_end plan)) prefix
     | _ \<Rightarrow> False"
    using composed_steps [OF run] by blast
  obtain node g g' where ex: "group_wf D (I node) g" "execute (ps_node ?X node) ?read g = (Inr resp, g')"
    using submit_at_executes [OF W(1) wf r] by (auto simp: executed_def)
  note answer = wal_read_answer [OF W(2) [rule_format] plane_node [OF W(1)] ex]
  show thesis
  proof (cases resp)
    case (RespBytes data)
    then have "from < to" "retained_range D (cg_machine g') from to data" "response_binary (RespBytes data) = Inr body" using answer steps by simp_all
    moreover from this(2) have "committed_range D (cg_machine g') from to data" "length data = to - from"
      by (simp_all add: committed_range_def retained_range_def)
    ultimately show thesis using that [OF _ _ ex] response_binary_bytes by blast
  next
    case (RespArchivedWalReadPlan plan)
    let ?s = "cg_machine g'" and ?w = "wp_checkpointed_end plan" and ?tail = "wp_retained_tail plan"
    obtain base where a: "from < to" "from < ?w" "?w = sm_archive_lsn ?s" "archived_wal_segments (sm_archive_lsn ?s) ?s = Inr (wp_archived_segments plan)"
        "chain base (seg_ranges (wp_archived_segments plan)) = Some ?w" and tail: "if ?w < to then retained_range D ?s ?w to ?tail else ?tail = []"
      using answer RespArchivedWalReadPlan by auto
    obtain prefix where body: "response_binary (RespBytes (prefix @ ?tail)) = Inr body" and "read_prefix_of W plan from (min to ?w) prefix"
      using steps RespArchivedWalReadPlan by auto
    then obtain S :: "'o segment_store" and s2 s3 :: "((distributed_store \<times> 'n, 'f call_env) session, 'r, 'o) ingress_state" where
      read: "read_archived_wal_prefix (wi_deps W) (store_on_objects S) (wp_archived_segments plan) from (min to ?w) s2 = (Inr prefix, s3)"
      using a(1,2) by (auto simp: read_prefix_of_def)
    have D: "wi_deps W = D" using W(1) by (simp add: ingress_ok_def)
    note p = prefix_read_exact [OF read a(5), unfolded D]
    have "length (prefix @ ?tail) = to - from" using p tail a(1,2) by (auto simp: retained_range_def min_def split: if_split_asm)
    moreover have "committed_range D ?s from to (prefix @ ?tail)"
      unfolding committed_range_def
      by (rule disjI2, rule exI [of _ "wp_archived_segments plan"], rule exI [of _ base], rule exI [of _ prefix], rule exI [of _ ?tail])
        (use p tail a in \<open>simp split: if_split_asm\<close>)
    ultimately show thesis using that [OF _ _ ex] response_binary_bytes [OF body] a(1) by blast
  qed (use steps in simp_all)
qed

subsection \<open>Draining\<close>

text \<open>Some replica, in a well-formed state, executed a request with an answer.\<close>

definition ran :: "deps \<Rightarrow> (node_id \<Rightarrow> nat \<Rightarrow> 'r \<Rightarrow> bool) \<Rightarrow> ('p, 'r, 'o) wal_ingress \<Rightarrow> group_request \<Rightarrow> group_response \<Rightarrow> bool" where
  "ran D I W request resp \<longleftrightarrow> (\<exists>node g g'. group_wf D (I node) g \<and> execute (ps_node (wi_services W) node) request g = (Inr resp, g'))"

text \<open>The backend served an object under a key, with the length and digest of a body.\<close>

definition holds_object :: "deps \<Rightarrow> 'o object_backend \<Rightarrow> string \<Rightarrow> bytes \<Rightarrow> bool" where
  "holds_object D B key data \<longleftrightarrow>
     (\<exists>objects objects' stored. ob_get B (ob_path B key) objects = (Inr stored, objects') \<and> length stored = length data \<and> sha256 D stored = sha256 D data)"

text \<open>
  A timeline is archived up to the committed end that it reported: nothing was left, or the missing WAL
  was read, its object verified, the checkpoint applied and the watermark seen at that end.
\<close>

definition tail_archived :: "deps \<Rightarrow> (node_id \<Rightarrow> nat \<Rightarrow> 'r \<Rightarrow> bool) \<Rightarrow> ('p, 'r, 'o) wal_ingress \<Rightarrow> node_id list \<Rightarrow> string \<Rightarrow> bool" where
  "tail_archived D I W holders grp \<longleftrightarrow>
     (\<exists>state. ran D I W (ReqWalState 0) (RespWalState state) \<and>
        (wa_checkpointed_end state = wa_committed_end state \<or>
         (\<exists>(B :: 'o object_backend) prefix data resp state'.
            let start = wa_checkpointed_end state; fin = wa_committed_end state; key = ao_key (archiver_object D prefix start fin data) in
            start < fin \<and> ran D I W (ReqReadWal start fin (wa_applied_index state)) (RespBytes data) \<and> length data = fin - start \<and>
            holds_object D B key data \<and> ran D I W (ReqArchiveCheckpoint (stop_request_id D grp fin) fin key holders) (RespApplied resp) \<and>
            ran D I W (ReqWalState 0) (RespWalState state') \<and> fin \<le> wa_checkpointed_end state')))"

text \<open>A warehouse is archived: its export was stored and verified, and the checkpoint that names it applied.\<close>

definition catalog_archived :: "deps \<Rightarrow> (node_id \<Rightarrow> nat \<Rightarrow> 'r \<Rightarrow> bool) \<Rightarrow> ('p, 'r, 'o) wal_ingress \<Rightarrow> node_id list \<Rightarrow> string \<Rightarrow> bool" where
  "catalog_archived D I W holders grp \<longleftrightarrow>
     (\<exists>export (B :: 'o object_backend) prefix request resp.
        let key = ao_key (catalog_export_object D prefix grp export) in
        ran D I W ReqExportCatalog (RespCatalogExport export) \<and> holds_object D B key (ce_bytes export) \<and>
        ran D I W (ReqCatalogCheckpoint request (ce_applied_index export) key holders) (RespApplied resp))"

lemma submit_ran:
  assumes "ingress_ok D I W" "plane_wf D I (ig_plane s)" "submit_at W grp request s = Some (Inr resp, s')"
  shows "ran D I W request resp" "plane_wf D I (ig_plane s')"
  using submit_at_executes [OF assms] by (auto simp: ran_def executed_def)

lemma routed_read_Inr:
  "at_read_committed_wal (routed_timeline W grp holders) a b m s = Some (Inr data, s') \<longleftrightarrow>
     submit_at W grp (ReqReadWal a b m) s = Some (Inr (RespBytes data), s')"
  by (auto simp: routed_timeline_def routed_read_def return_def split: group_response.split_asm)

lemma routed_checkpoint_Inr:
  "at_commit_archive_checkpoint (routed_timeline W grp holders) q fin object s = Some (Inr (), s') \<longleftrightarrow>
     (\<exists>resp. submit_at W grp (ReqArchiveCheckpoint q fin (ao_key object) holders) s = Some (Inr (RespApplied resp), s'))"
  by (auto simp: routed_timeline_def routed_checkpoint_def return_def split: group_response.split_asm)

lemma routed_release_Inr:
  "at_release_through (routed_timeline W grp holders) fin s = Some (Inr rel, s') \<longleftrightarrow>
     (\<exists>state. submit_at W grp (ReqWalState 0) s = Some (Inr (RespWalState state), s') \<and> fin \<le> wa_checkpointed_end state \<and> rel = checkpointed fin)"
  by (auto simp: routed_timeline_def routed_release_def return_def split: group_response.split_asm if_split_asm)

lemma verified_object:
  assumes "is_verify (store_on_objects (object_archive_store D B)) object s = (Inr (), s')" "ao_hash object = sha256 D data" "ao_length object = length data"
  shows "holds_object D B (ao_key object) data"
  using assms
  by (auto simp: store_on_objects_def on_objects_def object_archive_store_def archive_read_Inr verify_bytes_Inr holds_object_def split: prod.split_asm)

lemma flush_archives:
  assumes W: "ingress_ok D I W" and wf: "plane_wf D I (ig_plane s)" and store: "fst destination = object_archive_store D B"
    and run: "flush_timeline_tail W destination holders grp s = Some (Inr (), s')"
  shows "tail_archived D I W holders grp"
proof -
  have D: "wi_deps W = D" using W by (simp add: ingress_ok_def)
  obtain resp0 s1 where r0: "submit_at W grp (ReqWalState 0) s = Some (Inr resp0, s1)"
    using run unfolding flush_timeline_tail_def by (auto simp only: wait_Inr wrap_run_Inr)
  obtain state where st: "submit_at W grp (ReqWalState 0) s = Some (Inr (RespWalState state), s1)"
    using run r0 unfolding flush_timeline_tail_def by (cases resp0) (auto simp: return_def)
  note st' = submit_ran [OF W wf st]
  show ?thesis
  proof (cases "wa_checkpointed_end state = wa_committed_end state")
    case True
    then show ?thesis using st' by (auto simp: tail_archived_def)
  next
    case False
    let ?start = "wa_checkpointed_end state" and ?fin = "wa_committed_end state" and ?prefix = "snd destination @ ''/'' @ grp"
    let ?A = "\<lparr> sa_timeline = routed_timeline W grp holders, sa_store = store_on_objects (object_archive_store D B), sa_prefix = ?prefix \<rparr>"
    have "archiver_new (routed_timeline W grp holders) (store_on_objects (object_archive_store D B)) ?prefix = Inr ?A" by (simp add: archiver_new_def)
    then obtain rel s2 where "archive_segment D ?A (stop_request_id D grp ?fin) ?start ?fin (wa_applied_index state) s1 = Some (Inr rel, s2)"
      using run st False store unfolding flush_timeline_tail_def by (auto simp: return_def D archive_tail_def)
    then obtain data t1 t2 t3 t4 where lt: "?start < ?fin"
        and read: "submit_at W grp (ReqReadWal ?start ?fin (wa_applied_index state)) s1 = Some (Inr (RespBytes data), t1)" "length data = ?fin - ?start"
        and up: "is_upload (store_on_objects (object_archive_store D B)) (archiver_object D ?prefix ?start ?fin data) data t1 = (Inr (), t2)"
        and ver: "is_verify (store_on_objects (object_archive_store D B)) (archiver_object D ?prefix ?start ?fin data) t2 = (Inr (), t3)"
        and cp: "at_commit_archive_checkpoint (routed_timeline W grp holders) (stop_request_id D grp ?fin) ?fin (archiver_object D ?prefix ?start ?fin data) t3 = Some (Inr (), t4)"
        and rel: "at_release_through (routed_timeline W grp holders) ?fin t4 = Some (Inr rel, s2)"
      by (rule archive_segment_Inr) (simp add: routed_read_Inr)
    note t1 = submit_ran [OF W st'(2) read(1)]
    have t2: "plane_wf D I (ig_plane t2)" using staysD [OF stays_store(1) t1(2)] up by (simp add: returns_def)
    have t3: "plane_wf D I (ig_plane t3)" using staysD [OF stays_store(2) t2] ver by (simp add: returns_def)
    obtain resp where r: "submit_at W grp (ReqArchiveCheckpoint (stop_request_id D grp ?fin) ?fin (ao_key (archiver_object D ?prefix ?start ?fin data)) holders) t3 = Some (Inr (RespApplied resp), t4)"
      using cp by (auto simp: routed_checkpoint_Inr)
    note t4 = submit_ran [OF W t3 r]
    obtain state' where s': "submit_at W grp (ReqWalState 0) t4 = Some (Inr (RespWalState state'), s2)" "?fin \<le> wa_checkpointed_end state'"
      using rel by (auto simp: routed_release_Inr)
    have "holds_object D B (ao_key (archiver_object D ?prefix ?start ?fin data)) data"
      by (rule verified_object [OF ver]) (simp_all add: archiver_object_def)
    then show ?thesis
      unfolding tail_archived_def Let_def
      using st'(1) lt t1(1) read(2) t4(1) submit_ran(1) [OF W t4(2) s'(1)] s'(2) by blast
  qed
qed

lemma persist_holds:
  assumes "on_objects (persist_catalog_export D (object_archive_store D B, prefix) grp export) s = (Inr (request, key), s')"
  shows "key = ao_key (catalog_export_object D prefix grp export)" "holds_object D B key (ce_bytes export)"
  using assms
  by (auto simp: on_objects_def persist_catalog_export_def Let_def object_archive_store_def archive_read_Inr verify_bytes_Inr holds_object_def
      catalog_export_object_def split: prod.split_asm)

lemma drain_warehouse_archives:
  assumes W: "ingress_ok D I W" "\<forall>destination. wi_catalog_archive W = Some destination \<longrightarrow> (\<exists>B. fst destination = object_archive_store D B)"
    and wf: "plane_wf D I (ig_plane s)" and run: "drain_warehouse W holders grp s = Some (Inr (), s')"
  shows "catalog_archived D I W holders grp"
proof -
  have D: "wi_deps W = D" using W(1) by (simp add: ingress_ok_def)
  obtain resp0 s1 where r0: "submit_at W grp ReqExportCatalog s = Some (Inr resp0, s1)"
    using run unfolding drain_warehouse_def by (auto simp only: wait_Inr wrap_run_Inr)
  obtain export where resp0: "resp0 = RespCatalogExport export" using run r0 unfolding drain_warehouse_def by (cases resp0) (auto simp: return_def)
  note s1 = submit_ran [OF W(1) wf r0]
  obtain store prefix request key resp s2 s3 where d: "wi_catalog_archive W = Some (store, prefix)"
      and p: "on_objects (persist_catalog_export D (store, prefix) grp export) s1 = (Inr (request, key), s2)"
      and cp: "submit_at W grp (ReqCatalogCheckpoint request (ce_applied_index export) key holders) s2 = Some (Inr resp, s3)"
      and applied: "(case resp of RespApplied _ \<Rightarrow> Inr () | _ \<Rightarrow> Inl ''catalog checkpoint returned wrong response'') = Inr ()"
    using run r0 unfolding drain_warehouse_def resp0
    by (cases "wi_catalog_archive W") (auto simp: return_def D)
  obtain B where B: "store = object_archive_store D B" using W(2) d by auto
  have s2: "plane_wf D I (ig_plane s2)" using staysD [OF stays_on_objects s1(2)] p by (simp add: returns_def)
  obtain r where "resp = RespApplied r" using applied by (cases resp) auto
  then show ?thesis
    unfolding catalog_archived_def Let_def
    using s1(1) persist_holds [OF p [unfolded B]] submit_ran(1) [OF W(1) s2 cp] unfolding resp0 by blast
qed

lemma drain_timeline_archives:
  assumes W: "ingress_ok D I W" and wf: "plane_wf D I (ig_plane s)" and run: "drain_timeline W holders grp s = Some (Inr (), s')"
  shows "tail_archived D I W holders grp"
proof -
  have D: "wi_deps W = D" using W by (simp add: ingress_ok_def)
  obtain destination s1 where r: "resolve_wal_archive W grp s = Some (Inr destination, s1)" and
      flush: "flush_timeline_tail W destination holders grp s1 = Some (Inr (), s')"
    using run unfolding drain_timeline_def by (auto simp only: wait_Inr wrap_run_Inr)
  obtain B where "fst destination = object_archive_store D B" using r unfolding resolve_wal_archive_def by (auto simp: return_def D)
  from flush_archives [OF W staysD [OF stays_resolve [OF W] wf r] this flush] show ?thesis .
qed

lemma drain_groups_archive:
  assumes W: "ingress_ok D I W" "\<forall>destination. wi_catalog_archive W = Some destination \<longrightarrow> (\<exists>B. fst destination = object_archive_store D B)"
    and "plane_wf D I (ig_plane s)" "drain_groups W holders grps s = Some (Inr (), s')" "grp \<in> set grps"
  shows "if starts_with grp ''timeline/'' then tail_archived D I W holders grp
    else starts_with grp ''warehouse/'' \<longrightarrow> catalog_archived D I W holders grp"
  using assms(3-5)
proof (induction grps arbitrary: s)
  case (Cons first grps)
  let ?step = "if starts_with first ''timeline/'' then drain_timeline W holders first
    else if starts_with first ''warehouse/'' then drain_warehouse W holders first else returns (return (Inr ()))"
  obtain s1 where step: "?step s = Some (Inr (), s1)" and rest: "drain_groups W holders grps s1 = Some (Inr (), s')"
    using Cons.prems(2) by (auto simp: return_def split: if_split_asm)
  have "stays D I ?step" by (intro stays_intros W(1))
  then have s1: "plane_wf D I (ig_plane s1)" using Cons.prems(1) step by (rule staysD)
  show ?case
  proof (cases "grp = first")
    case True
    then show ?thesis
      using step drain_timeline_archives [OF W(1) Cons.prems(1)] drain_warehouse_archives [OF W Cons.prems(1)] by (auto split: if_split_asm)
  qed (use Cons.IH [OF s1 rest] Cons.prems(3) in simp)
qed simp

end
