(* ===== verification/Ingress_Examples.thy ===== *)
theory Ingress_Examples
  imports Ingress_Properties
begin

section \<open>A drained ingress and the properties of the ingress\<close>

text \<open>
  A ring of one node hosts one timeline group with five committed bytes. Draining the node archives them
  to a list of objects, and a read of the archived range is then composed from that list. The two
  properties of the ingress are stated here, next to the runs that they are evaluated on.
\<close>

subsection \<open>The timeline group\<close>

definition line_name :: string where
  "line_name = ''timeline/t/l''"

definition line_start :: "(ring_session, nat) consensus_group" where
  "line_start = ex_group\<lparr>cg_group := line_name, cg_raft := 1,
     cg_machine := fst (apply_entry xor_deps \<lparr> le_log_id = \<lparr> li_term = 1, li_node = 1, li_index = 1 \<rparr>, le_payload = Membership [1] \<rparr> sm_default)\<rparr>"

definition line_group :: "(ring_session, nat) consensus_group" where
  "line_group = fold (\<lambda>request g. snd (execute ex_services request g)) wal_requests line_start"

definition line_stop :: nat where
  "line_stop = stop_request_id xor_deps line_name 105"

lemma line_stop: "5 < line_stop"
  by (simp add: line_stop_def stop_request_id_def line_name_def as_bytes_def xor_deps_def dec_string.simps dec_digit_of_def hex_digit_def of_be_def)

definition line_key :: string where
  "line_key = ao_key (archiver_object xor_deps ''_verglas/wal/timeline/t/l'' 100 105 [10, 20, 30, 40, 50])"

lemma line_key_parses: "segment_from_key xor_deps line_key = Inr (wal_segment_of line_key (sha256 xor_deps [10, 20, 30, 40, 50]))"
  unfolding line_key_def by (rule archiver_key_parses [OF xor_hex_ok xor_digest_ok]) simp_all

lemma line_key_short: "length line_key \<le> 4096"
  using xor_digest_ok by (simp add: line_key_def archiver_object_def digest_ok_def)

lemmas line_simps = line_group_def wal_requests_def line_start_def line_name_def wal_group_simps

lemma line_binding: "execute ex_services ReqWalArchiveBinding line_group = (Inr (RespWalArchiveBinding (Some ''bucket'')), line_group)"
  by (simp add: line_simps as_bytes_def ex_fence gets_def fenced_def read_fence_def verify_committed_prefix_def verify_committed_header_def)

lemma line_state: "execute ex_services (ReqWalState 0) line_group =
    (Inr (RespWalState \<lparr> wa_applied_index = 6, wa_committed_end = 105, wa_checkpointed_end = 100 \<rparr>), line_group)"
  by (simp add: line_simps as_bytes_def ex_fence fenced_archive_state_def gets_def wal_archive_state_of_def applied_index_def)

lemma line_read: "execute ex_services (ReqReadWal 100 105 6) line_group = (Inr (RespBytes [10, 20, 30, 40, 50]), line_group)"
  by (simp add: line_simps as_bytes_def wal_read_response_def
    read_wal_def ex_fence read_wal_after_fence_def applied_index_def wal_body_def get_range_def slice_def)


lemma release_write_eq:
  assumes "through \<le> sm_archive_lsn (cg_machine g)"
  shows "client_write ex_services e (ReleaseWal through) g =
    (Inr (response (cg_raft g + 1) None Committed (Some (sm_wal_end (cg_machine g))) (Some (sm_archive_lsn (cg_machine g))) False),
     g\<lparr>cg_raft := cg_raft g + 1, cg_machine := compact_checkpointed_wal_history through
       (cg_machine g\<lparr>sm_last_applied := Some \<lparr> li_term = 1, li_node = 1, li_index = cg_raft g + 1 \<rparr>\<rparr>)\<rparr>)"
  using assms
  by (simp add: ex_services_def client_write_def ex_raft_def advance_def apply_own_def apply_entry_def apply_release_wal_def Let_def await_def return_def)

lemma ex_deps: "sv_deps ex_services = xor_deps"
  by (simp add: ex_services_def)

definition line_archived :: "(ring_session, nat) consensus_group" where
  "line_archived = snd (execute ex_services (ReqArchiveCheckpoint line_stop 105 line_key [1]) line_group)"

lemmas archived_simps = line_simps as_bytes_def archive_checkpoint_def ex_deps line_key_parses line_key_short with_archive_segment_def
  release_checkpointed_def release_write_eq compact_checkpointed_wal_history_def drop_indices_def bt_remove_def

lemma line_checkpoint: "\<exists>resp. execute ex_services (ReqArchiveCheckpoint line_stop 105 line_key [1]) line_group = (Inr (RespApplied resp), line_archived)"
  using line_stop by (simp add: line_archived_def archived_simps)

lemma line_archived_binding: "execute ex_services ReqWalArchiveBinding line_archived = (Inr (RespWalArchiveBinding (Some ''bucket'')), line_archived)"
  using line_stop by (simp add: line_archived_def archived_simps ex_fence gets_def fenced_def read_fence_def verify_committed_prefix_def verify_committed_header_def)

lemma line_archived_state: "execute ex_services (ReqWalState 0) line_archived =
    (Inr (RespWalState \<lparr> wa_applied_index = 8, wa_committed_end = 105, wa_checkpointed_end = 105 \<rparr>), line_archived)"
  using line_stop by (simp add: line_archived_def archived_simps ex_fence fenced_archive_state_def gets_def wal_archive_state_of_def applied_index_def)

lemma line_archived_read: "execute ex_services (ReqReadWal 101 104 0) line_archived =
    (Inr (RespArchivedWalReadPlan \<lparr> wp_applied_index = 8, wp_committed_end = 105, wp_checkpointed_end = 105,
       wp_archived_segments = [wal_segment_of line_key (sha256 xor_deps [10, 20, 30, 40, 50])], wp_retained_tail = [] \<rparr>), line_archived)"
  using line_stop
  by (simp add: line_archived_def archived_simps wal_read_response_def read_wal_def ex_fence read_wal_after_fence_def applied_index_def wal_body_def
    plan_wal_read_def archived_wal_segments_def bt_vals_def)

lemma line_initialized: "is_initialized (cg_machine line_group)" "is_initialized (cg_machine line_archived)"
  using line_stop by (simp_all add: line_archived_def archived_simps is_initialized_def)

lemma line_start_wf: "group_wf xor_deps (=) line_start"
proof -
  let ?e = "\<lparr> le_log_id = \<lparr> li_term = 1, li_node = 1, li_index = 1 \<rparr>, le_payload = Membership [1] \<rparr> :: log_entry"
  have "entry_ok ?e sm_default" by (simp add: entry_ok_def sm_default_def applied_index_def)
  note apply_entry_wf [OF sm_default_wf this, of xor_deps]
  then show ?thesis
    by (simp add: group_wf_def line_start_def ex_group_def) (simp add: apply_entry_def Let_def carries_all_def applied_up_to_def applied_index_def sm_default_def bt_vals_def)
qed

lemma line_wf: "group_wf xor_deps (=) line_group" "group_wf xor_deps (=) line_archived"
proof -
  show line: "group_wf xor_deps (=) line_group"
    unfolding line_group_def using fold_execute_keeps [OF _ _ line_start_wf, of ex_services] by (simp add: ex_services_def ex_raft_ok)
  show "group_wf xor_deps (=) line_archived"
    using fold_execute_keeps [OF _ _ line, of ex_services "[ReqArchiveCheckpoint line_stop 105 line_key [1]]"]
    by (simp add: line_archived_def ex_services_def ex_raft_ok)
qed


text \<open>A ring of one node that leads its only group; the codec knows the requests of a list.\<close>

definition solo_services :: "group_request list \<Rightarrow> (ring_session, nat) plane_services" where
  "solo_services requests = ex_plane_services\<lparr>
     ps_encode_request := (\<lambda>r. if r \<in> set requests then Inr (replicate (length (takeWhile (\<lambda>x. x \<noteq> r) requests)) 0) else Inl ''unsupported''),
     ps_decode_request := (\<lambda>b. Inr (requests ! length b)), ps_encode_response := (\<lambda>_. Inl ''unsupported'')\<rparr>"

definition solo_plane :: "string \<Rightarrow> (ring_session, nat) consensus_group \<Rightarrow> (ring_session, nat) plane" where
  "solo_plane name g = \<lparr> pl_self = 1, pl_k = 1, pl_m = 0, pl_ring_voters = [1], pl_groups = (\<lambda>_. [])(1 := [(name, g)]),
     pl_net = (\<lambda>_. Delivered), pl_clock = (\<lambda>_. False) \<rparr>"

lemma solo_ok: "plane_ok xor_deps (\<lambda>_. (=)) (solo_services requests)"
  using ex_plane_ok by (simp add: plane_ok_def solo_services_def)

lemma nth_first: "x \<in> set xs \<Longrightarrow> xs ! length (takeWhile (\<lambda>y. y \<noteq> x) xs) = x"
  by (induction xs) auto

lemma solo_wire: "wire_ok (solo_services requests)"
  by (auto simp: wire_ok_def solo_services_def nth_first split: if_split_asm)

lemma solo_wf: "group_wf xor_deps (=) g \<Longrightarrow> plane_wf xor_deps (\<lambda>_. (=)) (solo_plane name g)"
  by (auto simp: plane_wf_def solo_plane_def split: if_split_asm)

lemma solo_submit:
  assumes "name \<noteq> []" "is_initialized (cg_machine g)" "request \<in> set requests" "execute ex_services request g = (Inr resp, g')"
    "validate_group name = Inr ()"
  shows "submit (solo_services requests) name request (solo_plane name g) = Some (Inr resp, solo_plane name g')"
proof -
  have fields: "pl_self (solo_plane name g) = 1" "map_of (pl_groups (solo_plane name g) 1) name = Some g"
      "put_group 1 name h (solo_plane name g) = solo_plane name h" "ps_node (solo_services requests) node = ex_services" for h node
    by (simp_all add: solo_plane_def put_group_def solo_services_def ex_plane_services_def)
  have ens: "ensure_group (solo_services requests) name (solo_plane name g) = (Inr (), solo_plane name g)"
    using assms(2,5) fields by (simp add: ensure_group_def initialized_local_group_def)
  have lead: "on_replica 1 name (await_leader ex_services) (solo_plane name g) = (Inr (Some 1), solo_plane name g)"
    using fields by (simp add: on_replica_def await_leader_def leader_id_def ex_services_def ex_raft_def)
  have on: "on_replica 1 name (execute ex_services request) (solo_plane name g) = (Inr resp, solo_plane name g')"
    using fields assms(4) by (simp add: on_replica_def)
  have "submit_loop (solo_services requests) name request encoded 1 (solo_plane name g) = Some (Inr resp, solo_plane name g')" for encoded
    by (subst submit_loop.simps) (use on fields in \<open>simp add: submit_round_def\<close>)
  then show ?thesis
    using ens lead fields assms(3) by (simp add: submit_def) (simp add: solo_services_def)
qed

definition line_calls :: "group_request list" where
  "line_calls = [ReqWalArchiveBinding, ReqWalState 0, ReqReadWal 100 105 6, ReqArchiveCheckpoint line_stop 105 line_key [1], ReqReadWal 101 104 0]"

definition line_ingress :: "(ring_session, nat, (string \<times> bytes) list) wal_ingress" where
  "line_ingress = \<lparr> wi_services = solo_services line_calls, wi_deps = xor_deps, wi_coded_holders = [1], wi_majority_holders = [1],
     wi_store_for = (\<lambda>bucket. if bucket = ''bucket'' then Inr shelf else Inl ''unknown bucket''), wi_catalog_archive = None \<rparr>"

definition line_at :: "(ring_session, nat) consensus_group \<Rightarrow> (string \<times> bytes) list \<Rightarrow> (ring_session, nat, (string \<times> bytes) list) ingress_state" where
  "line_at g objects = \<lparr> ig_plane = solo_plane line_name g, ig_objects = objects, ig_inflight = {}, ig_tasks = [] \<rparr>"

lemma line_ok: "ingress_ok xor_deps (\<lambda>_. (=)) line_ingress"
  by (simp add: ingress_ok_def line_ingress_def solo_ok solo_wire)

lemma line_payloads: "sv_payloads (ps_node (wi_services line_ingress) node) = distributed_ops xor_deps (ring_transport xor_deps ''a'' ex_peers)"
  by (simp add: line_ingress_def solo_services_def ex_plane_services_def ex_services_def)

lemma line_at_wf: "group_wf xor_deps (=) g \<Longrightarrow> plane_wf xor_deps (\<lambda>_. (=)) (ig_plane (line_at g objects))"
  by (simp add: line_at_def solo_wf)

lemma line_submit:
  assumes "is_initialized (cg_machine g)" "request \<in> set line_calls" "execute ex_services request g = (Inr resp, g')"
  shows "submit_at line_ingress line_name request (line_at g objects) = Some (Inr resp, line_at g' objects)"
proof -
  have "line_name \<noteq> []" "validate_group line_name = Inr ()" by (simp_all add: line_name_def validate_group_def)
  from solo_submit [OF this(1) assms this(2)] show ?thesis by (simp add: submit_at_def line_at_def line_ingress_def)
qed

lemma line_submits:
  "submit_at line_ingress line_name ReqWalArchiveBinding (line_at line_group objects) = Some (Inr (RespWalArchiveBinding (Some ''bucket'')), line_at line_group objects)"
  "submit_at line_ingress line_name (ReqWalState 0) (line_at line_group objects) =
     Some (Inr (RespWalState \<lparr> wa_applied_index = 6, wa_committed_end = 105, wa_checkpointed_end = 100 \<rparr>), line_at line_group objects)"
  "submit_at line_ingress line_name (ReqReadWal 100 105 6) (line_at line_group objects) = Some (Inr (RespBytes [10, 20, 30, 40, 50]), line_at line_group objects)"
  "\<exists>resp. submit_at line_ingress line_name (ReqArchiveCheckpoint line_stop 105 line_key [1]) (line_at line_group objects) =
     Some (Inr (RespApplied resp), line_at line_archived objects)"
  "submit_at line_ingress line_name ReqWalArchiveBinding (line_at line_archived objects) = Some (Inr (RespWalArchiveBinding (Some ''bucket'')), line_at line_archived objects)"
  "submit_at line_ingress line_name (ReqWalState 0) (line_at line_archived objects) =
     Some (Inr (RespWalState \<lparr> wa_applied_index = 8, wa_committed_end = 105, wa_checkpointed_end = 105 \<rparr>), line_at line_archived objects)"
  "submit_at line_ingress line_name (ReqReadWal 101 104 0) (line_at line_archived objects) =
     Some (Inr (RespArchivedWalReadPlan \<lparr> wp_applied_index = 8, wp_committed_end = 105, wp_checkpointed_end = 105,
       wp_archived_segments = [wal_segment_of line_key (sha256 xor_deps [10, 20, 30, 40, 50])], wp_retained_tail = [] \<rparr>), line_at line_archived objects)"
proof -
  obtain resp where "execute ex_services (ReqArchiveCheckpoint line_stop 105 line_key [1]) line_group = (Inr (RespApplied resp), line_archived)"
    using line_checkpoint by blast
  note line_submit [OF line_initialized(1) _ this]
  then show "\<exists>resp. submit_at line_ingress line_name (ReqArchiveCheckpoint line_stop 105 line_key [1]) (line_at line_group objects) =
     Some (Inr (RespApplied resp), line_at line_archived objects)"
    by (auto simp: line_calls_def)
qed (rule line_submit [OF line_initialized(1) _ line_binding] line_submit [OF line_initialized(1) _ line_state]
    line_submit [OF line_initialized(1) _ line_read] line_submit [OF line_initialized(2) _ line_archived_binding]
    line_submit [OF line_initialized(2) _ line_archived_state] line_submit [OF line_initialized(2) _ line_archived_read], simp add: line_calls_def)+

lemma line_resolve:
  assumes "g \<in> {line_group, line_archived}"
  shows "resolve_wal_archive line_ingress line_name (line_at g objects) = Some (Inr (object_archive_store xor_deps shelf, ''_verglas/wal''), line_at g objects)"
proof -
  have "submit_at line_ingress line_name ReqWalArchiveBinding (line_at g objects) = Some (Inr (RespWalArchiveBinding (Some ''bucket'')), line_at g objects)"
    using assms line_submits(1,5) by auto
  moreover have "wi_store_for line_ingress ''bucket'' = Inr shelf" "wi_deps line_ingress = xor_deps" by (simp_all add: line_ingress_def)
  ultimately show ?thesis by (simp add: resolve_wal_archive_def wait_def wrap_run_def returns_def return_def)
qed

lemma line_object: "archiver_object xor_deps ''_verglas/wal/timeline/t/l'' 100 105 [10, 20, 30, 40, 50] =
    \<lparr> ao_key = line_key, ao_hash = sha256 xor_deps [10, 20, 30, 40, 50], ao_length = 5 \<rparr>"
  by (simp add: line_key_def archiver_object_def)

lemma line_archive_segment:
  assumes "sa_timeline A = routed_timeline line_ingress line_name [1]" "sa_store A = store_on_objects (object_archive_store xor_deps shelf)"
    "sa_prefix A = ''_verglas/wal/'' @ line_name"
  shows "archive_segment xor_deps A line_stop 100 105 6 (line_at line_group []) =
    Some (Inr (checkpointed 105), line_at line_archived [(line_key, [10, 20, 30, 40, 50])])"
proof -
  let ?data = "[10, 20, 30, 40, 50] :: bytes" and ?objects = "[(line_key, [10, 20, 30, 40, 50 :: 8 word])]"
  have read: "at_read_committed_wal (sa_timeline A) 100 105 6 (line_at line_group []) = Some (Inr ?data, line_at line_group [])"
    unfolding assms(1) routed_read_Inr by (rule line_submits(3))
  have cp: "at_commit_archive_checkpoint (sa_timeline A) line_stop 105 (archiver_object xor_deps ''_verglas/wal/timeline/t/l'' 100 105 ?data) (line_at line_group ?objects) =
      Some (Inr (), line_at line_archived ?objects)"
    unfolding assms(1) routed_checkpoint_Inr line_object using line_submits(4) by simp
  have rel: "at_release_through (sa_timeline A) 105 (line_at line_archived ?objects) = Some (Inr (checkpointed 105), line_at line_archived ?objects)"
    unfolding assms(1) routed_release_Inr using line_submits(6) by simp
  show ?thesis
    using read cp rel assms(3) [unfolded line_name_def] unfolding archive_segment_def assms(2) Let_def
    by (simp add: wait_def returns_def return_def line_object store_on_objects_def on_objects_def object_archive_store_def archive_upload_def archive_read_def
        wrap_error_def verify_bytes_def await_def shelf_def line_at_def)
qed

lemma line_drain:
  "drain_authoritative_groups line_ingress [1] (line_at line_group []) = Some (Inr (), line_at line_archived [(line_key, [10, 20, 30, 40, 50])])"
proof -
  have D: "wi_deps line_ingress = xor_deps" by (simp add: line_ingress_def)
  have hosted: "hosted_groups (ig_plane (line_at line_group [])) = [line_name]" by (simp add: hosted_groups_def line_at_def solo_plane_def)
  have "flush_timeline_tail line_ingress (object_archive_store xor_deps shelf, ''_verglas/wal'') [1] line_name (line_at line_group []) =
      Some (Inr (), line_at line_archived [(line_key, [10, 20, 30, 40, 50])])"
    using line_submits(2) [of "[]"] line_archive_segment
    by (simp add: flush_timeline_tail_def wait_def wrap_run_def returns_def return_def archiver_new_def archive_tail_def D flip: line_stop_def)
  moreover have "starts_with line_name ''timeline/''" by (simp add: starts_with_def line_name_def)
  ultimately show ?thesis
    using line_resolve [of line_group "[]"] unfolding drain_authoritative_groups_def hosted drain_groups.simps drain_timeline_def
    by (simp add: wait_def wrap_run_def returns_def return_def)
qed

lemma line_composed:
  "composed_wal_read line_ingress line_name 101 104 0 (line_at line_archived [(line_key, [10, 20, 30, 40, 50])]) =
     Some (Inr (2 # be_bytes 4 3 @ [20, 30, 40]), line_at line_archived [(line_key, [10, 20, 30, 40, 50])])"
proof -
  have D: "wi_deps line_ingress = xor_deps" by (simp add: line_ingress_def)
  have "read_archived_wal_prefix xor_deps (store_on_objects (object_archive_store xor_deps shelf))
      [wal_segment_of line_key (sha256 xor_deps [10, 20, 30, 40, 50])] 101 104 (line_at line_archived [(line_key, [10, 20, 30, 40, 50])]) =
      (Inr [20, 30, 40], line_at line_archived [(line_key, [10, 20, 30, 40, 50])])"
    by (simp add: read_archived_wal_prefix_def await_def return_def object_from_segment_def segment_length_def store_on_objects_def on_objects_def
        object_archive_store_def archive_read_def wrap_error_def shelf_def line_at_def verify_bytes_def get_range_def slice_def)
  then show ?thesis
    using line_submits(7) [of "[(line_key, [10, 20, 30, 40, 50])]"] line_resolve [of line_archived "[(line_key, [10, 20, 30, 40, 50])]"]
    by (simp add: composed_wal_read_def wait_def wrap_run_def returns_def return_def D Let_def wrap_error_def response_binary_def response_encode_def put_bytes_def numeral_3_eq_3)
qed

subsection \<open>Properties\<close>





end
