(* ===== verification/Object_Batch.thy ===== *)
theory Object_Batch
  imports Plane "HOL-Library.Sublist"
begin

section \<open>Group commit of object headers\<close>

text \<open>
  \<open>bins/cache-node/src/object_batch.rs\<close>: concurrent commits of one consensus group are coalesced into as
  few log entries as the latency of the group allows. The critical sections under the lock of the group
  table are functions; callers, drain tasks and the submitter run concurrently, so the whole batcher is
  a step relation in which any of them may move. A caller's reply channel is a ticket. The outcome of a
  submission is any value. A panic inside the submitter is not modelled.

  The lemmas show that no commit is lost, duplicated, reordered or left without a drain, that a caller
  gets the result of exactly the entry that carries its object, and that the drains finish.
\<close>

subsection \<open>The critical sections\<close>

record pending_commit =
  pc_staged :: staged_object
  pc_reply :: nat

record group_batch =
  gb_items :: "pending_commit list"
  gb_draining :: bool

definition group_batch_default :: group_batch where
  "group_batch_default = \<lparr> gb_items = [], gb_draining = False \<rparr>"

definition batcher_max :: "nat \<Rightarrow> nat" where
  "batcher_max max_batch = max max_batch 1"

type_synonym group_table = "string \<rightharpoonup> group_batch"

text \<open>The section of \<open>commit\<close>: push, and take the group if it is idle.\<close>

definition enqueue :: "string \<Rightarrow> pending_commit \<Rightarrow> group_table \<Rightarrow> bool \<times> group_table" where
  "enqueue grp item groups =
     (let batch = (case groups grp of None \<Rightarrow> group_batch_default | Some b \<Rightarrow> b);
          batch = batch\<lparr>gb_items := gb_items batch @ [item]\<rparr>
      in (\<not> gb_draining batch, groups(grp \<mapsto> batch\<lparr>gb_draining := True\<rparr>)))"

text \<open>The section of \<open>drain_group\<close>: take the next batch, or release the group and stop.\<close>

definition take_batch :: "nat \<Rightarrow> string \<Rightarrow> group_table \<Rightarrow> pending_commit list option \<times> group_table" where
  "take_batch max_batch grp groups =
     (case groups grp of
        None \<Rightarrow> (None, groups)
      | Some batch \<Rightarrow>
          if gb_items batch = [] then (None, groups(grp \<mapsto> batch\<lparr>gb_draining := False\<rparr>))
          else
            (let n = min (length (gb_items batch)) max_batch
             in (Some (take n (gb_items batch)), groups(grp \<mapsto> batch\<lparr>gb_items := drop n (gb_items batch)\<rparr>))))"

definition fan_out :: "string + nat \<Rightarrow> pending_commit list \<Rightarrow> (nat \<times> (string + nat)) list" where
  "fan_out result items = map (\<lambda>item. (pc_reply item, result)) items"

subsection \<open>The batcher as a step relation\<close>

datatype drain_phase = AtLock | InFlight "pending_commit list"

text \<open>
  Besides the group table and the drain tasks, the state keeps the history: what arrived, what was
  submitted with which result, and what was answered.
\<close>

record batch_system =
  bs_groups :: group_table
  bs_tasks :: "(string \<times> drain_phase) list"
  bs_arrived :: "(string \<times> pending_commit) list"
  bs_entries :: "(string \<times> pending_commit list \<times> (string + nat)) list"
  bs_answers :: "(nat \<times> (string + nat)) list"

definition batch_start :: batch_system where
  "batch_start = \<lparr> bs_groups = (\<lambda>_. None), bs_tasks = [], bs_arrived = [], bs_entries = [], bs_answers = [] \<rparr>"

definition arrive :: "string \<Rightarrow> pending_commit \<Rightarrow> batch_system \<Rightarrow> batch_system" where
  "arrive grp item s =
     (case enqueue grp item (bs_groups s) of
        (start_drain, groups) \<Rightarrow>
          s\<lparr>bs_groups := groups, bs_arrived := bs_arrived s @ [(grp, item)],
            bs_tasks := bs_tasks s @ (if start_drain then [(grp, AtLock)] else [])\<rparr>)"

text \<open>A task at the lock: it takes a batch and submits it, or ends.\<close>

definition drain_lock :: "nat \<Rightarrow> nat \<Rightarrow> string \<Rightarrow> batch_system \<Rightarrow> batch_system" where
  "drain_lock max_batch i grp s =
     (case take_batch max_batch grp (bs_groups s) of
        (None, groups) \<Rightarrow> s\<lparr>bs_groups := groups, bs_tasks := take i (bs_tasks s) @ drop (Suc i) (bs_tasks s)\<rparr>
      | (Some items, groups) \<Rightarrow> s\<lparr>bs_groups := groups, bs_tasks := (bs_tasks s)[i := (grp, InFlight items)]\<rparr>)"

text \<open>The submission of a task returns: every caller of the batch is answered.\<close>

definition drain_reply :: "nat \<Rightarrow> string \<Rightarrow> pending_commit list \<Rightarrow> string + nat \<Rightarrow> batch_system \<Rightarrow> batch_system" where
  "drain_reply i grp items result s =
     s\<lparr>bs_tasks := (bs_tasks s)[i := (grp, AtLock)], bs_entries := bs_entries s @ [(grp, items, result)],
       bs_answers := bs_answers s @ fan_out result items\<rparr>"

inductive batch_step :: "nat \<Rightarrow> batch_system \<Rightarrow> batch_system \<Rightarrow> bool" for max_batch where
  caller: "pc_reply item \<notin> pc_reply ` snd ` set (bs_arrived s) \<Longrightarrow> batch_step max_batch s (arrive grp item s)"
| lock: "i < length (bs_tasks s) \<Longrightarrow> bs_tasks s ! i = (grp, AtLock) \<Longrightarrow> batch_step max_batch s (drain_lock (batcher_max max_batch) i grp s)"
| reply: "i < length (bs_tasks s) \<Longrightarrow> bs_tasks s ! i = (grp, InFlight items) \<Longrightarrow> batch_step max_batch s (drain_reply i grp items result s)"

subsection \<open>The invariant\<close>

text \<open>The commits of a group, by how far they got.\<close>

definition arrivals :: "batch_system \<Rightarrow> string \<Rightarrow> pending_commit list" where
  "arrivals s grp = map snd (filter (\<lambda>(g, _). g = grp) (bs_arrived s))"

definition submitted :: "batch_system \<Rightarrow> string \<Rightarrow> pending_commit list" where
  "submitted s grp = concat (map (fst \<circ> snd) (filter (\<lambda>entry. fst entry = grp) (bs_entries s)))"

definition queued :: "batch_system \<Rightarrow> string \<Rightarrow> pending_commit list" where
  "queued s grp = (case bs_groups s grp of None \<Rightarrow> [] | Some batch \<Rightarrow> gb_items batch)"

fun phase_items :: "drain_phase \<Rightarrow> pending_commit list" where
  "phase_items AtLock = []"
| "phase_items (InFlight items) = items"

definition in_flight :: "batch_system \<Rightarrow> string \<Rightarrow> pending_commit list" where
  "in_flight s grp = (case map_of (bs_tasks s) grp of None \<Rightarrow> [] | Some phase \<Rightarrow> phase_items phase)"

definition busy :: "batch_system \<Rightarrow> string \<Rightarrow> bool" where
  "busy s grp \<longleftrightarrow> (case bs_groups s grp of None \<Rightarrow> False | Some batch \<Rightarrow> gb_draining batch)"

definition batch_sized :: "nat \<Rightarrow> pending_commit list \<Rightarrow> bool" where
  "batch_sized max_batch items \<longleftrightarrow> items \<noteq> [] \<and> length items \<le> batcher_max max_batch"

definition tasks_inv :: "nat \<Rightarrow> batch_system \<Rightarrow> bool" where
  "tasks_inv max_batch s \<longleftrightarrow>
     distinct (map fst (bs_tasks s)) \<and> (\<forall>grp. map_of (bs_tasks s) grp \<noteq> None \<longleftrightarrow> busy s grp) \<and>
     (\<forall>grp. queued s grp \<noteq> [] \<longrightarrow> busy s grp) \<and>
     (\<forall>grp items. map_of (bs_tasks s) grp = Some (InFlight items) \<longrightarrow> batch_sized max_batch items)"

definition history_inv :: "nat \<Rightarrow> batch_system \<Rightarrow> bool" where
  "history_inv max_batch s \<longleftrightarrow>
     (\<forall>grp. arrivals s grp = submitted s grp @ in_flight s grp @ queued s grp) \<and>
     (\<forall>entry \<in> set (bs_entries s). batch_sized max_batch (fst (snd entry))) \<and>
     bs_answers s = concat (map (\<lambda>(_, items, result). fan_out result items) (bs_entries s)) \<and>
     distinct (map (pc_reply \<circ> snd) (bs_arrived s))"

definition batch_inv :: "nat \<Rightarrow> batch_system \<Rightarrow> bool" where
  "batch_inv max_batch s \<longleftrightarrow> tasks_inv max_batch s \<and> history_inv max_batch s"

text \<open>The histories only grow.\<close>

definition history_grows :: "batch_system \<Rightarrow> batch_system \<Rightarrow> bool" where
  "history_grows s t \<longleftrightarrow> prefix (bs_arrived s) (bs_arrived t) \<and> prefix (bs_entries s) (bs_entries t) \<and> prefix (bs_answers s) (bs_answers t)"

lemma map_of_update_at:
  "distinct (map fst xs) \<Longrightarrow> i < length xs \<Longrightarrow> fst (xs ! i) = k \<Longrightarrow> map_of (xs[i := (k, v)]) = (map_of xs)(k \<mapsto> v)"
  by (induction xs arbitrary: i) (auto simp: fun_eq_iff split: nat.splits)

lemma split_at:
  assumes "i < length xs" "fst (xs ! i) = k"
  obtains ys v zs where "xs = ys @ (k, v) # zs" "length ys = i"
  using assms id_take_nth_drop [of i xs] by (metis length_take min.absorb4 prod.collapse)

lemma map_of_remove_at:
  "distinct (map fst xs) \<Longrightarrow> i < length xs \<Longrightarrow> fst (xs ! i) = k \<Longrightarrow> map_of (take i xs @ drop (Suc i) xs) = (map_of xs)(k := None)"
  by (erule (1) split_at) (auto simp: fun_eq_iff map_of_eq_None_iff image_iff map_add_def split: option.splits)

lemma map_fst_update_at: "i < length xs \<Longrightarrow> fst (xs ! i) = k \<Longrightarrow> map fst (xs[i := (k, v)]) = map fst xs"
  by (erule (1) split_at) (auto simp: list_update_append)

lemma distinct_remove_at:
  "distinct (map fst xs) \<Longrightarrow> i < length xs \<Longrightarrow> fst (xs ! i) = k \<Longrightarrow> distinct (map fst (take i xs @ drop (Suc i) xs))"
  by (erule (1) split_at) auto

lemma batcher_max_pos [simp]: "batcher_max n \<noteq> 0"
  by (simp add: batcher_max_def)

lemmas batch_views = arrivals_def submitted_def queued_def in_flight_def busy_def

subsection \<open>Every step keeps it\<close>

text \<open>What a step does to the views of each group.\<close>

lemma arrive_views:
  assumes "tasks_inv max_batch s"
  shows "bs_entries (arrive grp item s) = bs_entries s" "bs_answers (arrive grp item s) = bs_answers s"
    "bs_arrived (arrive grp item s) = bs_arrived s @ [(grp, item)]"
    "queued (arrive grp item s) g = queued s g @ (if g = grp then [item] else [])"
    "busy (arrive grp item s) g \<longleftrightarrow> g = grp \<or> busy s g"
    "bs_tasks (arrive grp item s) = bs_tasks s @ (if busy s grp then [] else [(grp, AtLock)])"
  using assms
  by (auto simp: arrive_def enqueue_def queued_def busy_def group_batch_default_def Let_def split: option.splits)

lemma take_views:
  assumes "bs_tasks s ! i = (grp, AtLock)" "queued s grp \<noteq> []"
  shows "bs_entries (drain_lock n i grp s) = bs_entries s" "bs_answers (drain_lock n i grp s) = bs_answers s"
    "bs_arrived (drain_lock n i grp s) = bs_arrived s"
    "queued (drain_lock n i grp s) g = (if g = grp then drop n (queued s grp) else queued s g)"
    "busy (drain_lock n i grp s) g \<longleftrightarrow> busy s g"
    "bs_tasks (drain_lock n i grp s) = (bs_tasks s)[i := (grp, InFlight (take n (queued s grp)))]"
  using assms
  by (auto simp: drain_lock_def take_batch_def queued_def busy_def Let_def min_def split: option.splits)

lemma stop_views:
  assumes "bs_tasks s ! i = (grp, AtLock)" "queued s grp = []"
  shows "bs_entries (drain_lock n i grp s) = bs_entries s" "bs_answers (drain_lock n i grp s) = bs_answers s"
    "bs_arrived (drain_lock n i grp s) = bs_arrived s"
    "queued (drain_lock n i grp s) g = queued s g" "busy (drain_lock n i grp s) g \<longleftrightarrow> g \<noteq> grp \<and> busy s g"
    "bs_tasks (drain_lock n i grp s) = take i (bs_tasks s) @ drop (Suc i) (bs_tasks s)"
  using assms
  by (auto simp: drain_lock_def take_batch_def queued_def busy_def Let_def split: option.splits)

lemma reply_views:
  shows "bs_entries (drain_reply i grp items result s) = bs_entries s @ [(grp, items, result)]"
    "bs_answers (drain_reply i grp items result s) = bs_answers s @ fan_out result items"
    "bs_arrived (drain_reply i grp items result s) = bs_arrived s"
    "queued (drain_reply i grp items result s) g = queued s g" "busy (drain_reply i grp items result s) g \<longleftrightarrow> busy s g"
    "bs_tasks (drain_reply i grp items result s) = (bs_tasks s)[i := (grp, AtLock)]"
  by (auto simp: drain_reply_def queued_def busy_def)

lemma task_at:
  "tasks_inv max_batch s \<Longrightarrow> i < length (bs_tasks s) \<Longrightarrow> bs_tasks s ! i = (grp, phase) \<Longrightarrow> map_of (bs_tasks s) grp = Some phase"
  by (metis tasks_inv_def map_of_is_SomeI nth_mem)

lemma arrive_inv:
  assumes inv: "batch_inv max_batch s" and fresh: "pc_reply item \<notin> pc_reply ` snd ` set (bs_arrived s)"
  shows "batch_inv max_batch (arrive grp item s)"
proof -
  have t: "tasks_inv max_batch s" and h: "history_inv max_batch s"
    using inv by (auto simp: batch_inv_def)
  note views = arrive_views [OF t]
  have idle: "\<not> busy s grp \<Longrightarrow> map_of (bs_tasks s) grp = None"
    using t unfolding tasks_inv_def by blast
  have tasks: "map_of (bs_tasks (arrive grp item s)) = (if busy s grp then map_of (bs_tasks s) else (map_of (bs_tasks s))(grp \<mapsto> AtLock))"
    using idle by (auto simp: views fun_eq_iff map_add_def split: option.splits)
  have "tasks_inv max_batch (arrive grp item s)"
    unfolding tasks_inv_def
  proof (intro conjI allI impI)
    show "distinct (map fst (bs_tasks (arrive grp item s)))"
      using t idle by (auto simp: views tasks_inv_def map_of_eq_None_iff)
  next
    fix g
    show "map_of (bs_tasks (arrive grp item s)) g \<noteq> None \<longleftrightarrow> busy (arrive grp item s) g"
      using t unfolding tasks tasks_inv_def by (auto simp: views(5))
    show "queued (arrive grp item s) g \<noteq> [] \<Longrightarrow> busy (arrive grp item s) g"
      using t unfolding tasks_inv_def by (auto simp: views(4,5) split: if_splits)
    show "map_of (bs_tasks (arrive grp item s)) g = Some (InFlight items) \<Longrightarrow> batch_sized max_batch items" for items
      using t unfolding tasks tasks_inv_def by (auto split: if_splits)
  qed
  moreover have "in_flight (arrive grp item s) g = in_flight s g" for g
    unfolding in_flight_def tasks using idle by auto
  then have "history_inv max_batch (arrive grp item s)"
    using h fresh by (auto simp: history_inv_def arrivals_def submitted_def views)
  ultimately show ?thesis by (simp add: batch_inv_def)
qed

lemma lock_inv:
  assumes inv: "batch_inv max_batch s" and i: "i < length (bs_tasks s)" "bs_tasks s ! i = (grp, AtLock)"
  shows "batch_inv max_batch (drain_lock (batcher_max max_batch) i grp s)" (is "batch_inv _ ?t")
proof (cases "queued s grp = []")
  case True
  have t: "tasks_inv max_batch s" and h: "history_inv max_batch s"
    using inv by (auto simp: batch_inv_def)
  note views = stop_views [OF i(2) True]
  have tasks: "map_of (bs_tasks ?t) = (map_of (bs_tasks s))(grp := None)"
    using t i map_of_remove_at [of "bs_tasks s" i grp] by (simp add: views tasks_inv_def)
  have "distinct (map fst (bs_tasks ?t))"
    using t i distinct_remove_at [of "bs_tasks s" i grp] by (simp add: views tasks_inv_def)
  moreover have "map_of (bs_tasks ?t) g \<noteq> None \<longleftrightarrow> busy ?t g" "queued ?t g \<noteq> [] \<longrightarrow> busy ?t g"
      "map_of (bs_tasks ?t) g = Some (InFlight items) \<longrightarrow> batch_sized max_batch items" for g items
    using t True unfolding tasks tasks_inv_def by (auto simp: views(4,5))
  ultimately have "tasks_inv max_batch ?t" unfolding tasks_inv_def by blast
  moreover have "in_flight ?t g = in_flight s g" for g
    unfolding in_flight_def tasks using task_at [OF t i] by auto
  then have "history_inv max_batch ?t"
    using h by (simp add: history_inv_def arrivals_def submitted_def views)
  ultimately show ?thesis by (simp add: batch_inv_def)
next
  case False
  have t: "tasks_inv max_batch s" and h: "history_inv max_batch s"
    using inv by (auto simp: batch_inv_def)
  note views = take_views [OF i(2) False]
  have tasks: "map_of (bs_tasks ?t) = (map_of (bs_tasks s))(grp \<mapsto> InFlight (take (batcher_max max_batch) (queued s grp)))"
    using t i by (simp add: views tasks_inv_def map_of_update_at)
  have "distinct (map fst (bs_tasks ?t))"
    using t i by (simp add: views tasks_inv_def map_fst_update_at)
  moreover have "map_of (bs_tasks ?t) g \<noteq> None \<longleftrightarrow> busy ?t g" "queued ?t g \<noteq> [] \<longrightarrow> busy ?t g"
      "map_of (bs_tasks ?t) g = Some (InFlight items) \<longrightarrow> batch_sized max_batch items" for g items
    using t False unfolding tasks tasks_inv_def by (auto simp: views(4,5) batch_sized_def)
  ultimately have "tasks_inv max_batch ?t" unfolding tasks_inv_def by blast
  moreover have "in_flight ?t g @ queued ?t g = in_flight s g @ queued s g" for g
    unfolding in_flight_def tasks using task_at [OF t i] by (auto simp: views)
  then have "history_inv max_batch ?t"
    using h by (simp add: history_inv_def arrivals_def submitted_def views)
  ultimately show ?thesis by (simp add: batch_inv_def)
qed

lemma reply_inv:
  assumes inv: "batch_inv max_batch s" and i: "i < length (bs_tasks s)" "bs_tasks s ! i = (grp, InFlight items)"
  shows "batch_inv max_batch (drain_reply i grp items result s)" (is "batch_inv _ ?t")
proof -
  have t: "tasks_inv max_batch s" and h: "history_inv max_batch s"
    using inv by (auto simp: batch_inv_def)
  note views = reply_views [of i grp items result s]
  have at: "map_of (bs_tasks s) grp = Some (InFlight items)" by (rule task_at [OF t i])
  have tasks: "map_of (bs_tasks ?t) = (map_of (bs_tasks s))(grp \<mapsto> AtLock)"
    using t i by (simp add: views tasks_inv_def map_of_update_at)
  have "distinct (map fst (bs_tasks ?t))"
    using t i by (simp add: views tasks_inv_def map_fst_update_at)
  moreover have "map_of (bs_tasks ?t) g \<noteq> None \<longleftrightarrow> busy ?t g" "queued ?t g \<noteq> [] \<longrightarrow> busy ?t g"
      "map_of (bs_tasks ?t) g = Some (InFlight xs) \<longrightarrow> batch_sized max_batch xs" for g xs
    using t at unfolding tasks tasks_inv_def by (auto simp: views(4,5))
  ultimately have "tasks_inv max_batch ?t" unfolding tasks_inv_def by blast
  moreover have "submitted ?t g @ in_flight ?t g = submitted s g @ in_flight s g" for g
    unfolding in_flight_def tasks using at by (auto simp: views submitted_def)
  moreover have "batch_sized max_batch items" using t at unfolding tasks_inv_def by blast
  ultimately show ?thesis
    using h by (simp add: batch_inv_def history_inv_def arrivals_def views)
qed

lemma batch_step_inv: "batch_inv max_batch s \<Longrightarrow> batch_step max_batch s t \<Longrightarrow> batch_inv max_batch t"
  by (erule batch_step.cases) (auto intro: arrive_inv lock_inv reply_inv)

lemma batch_step_grows: "batch_step max_batch s t \<Longrightarrow> history_grows s t"
  by (erule batch_step.cases)
    (auto simp: history_grows_def arrive_def drain_lock_def drain_reply_def split: prod.splits option.splits)

interpretation batching: step_system "\<lambda>s. s = batch_start" "batch_step max_batch" "batch_inv max_batch" history_grows for max_batch
proof unfold_locales
  show "s = batch_start \<Longrightarrow> batch_inv max_batch s" for s
    by (simp add: batch_start_def batch_inv_def tasks_inv_def history_inv_def batch_views)
qed (auto simp: history_grows_def intro: batch_step_inv prefix_order.trans dest: batch_step_grows)

subsection \<open>Answers\<close>

lemma distinct_by_group:
  assumes "\<And>g. distinct (concat (map snd (filter (\<lambda>e. fst e = g) es)))"
    "\<And>g h x. x \<in> set (concat (map snd (filter (\<lambda>e. fst e = g) es))) \<Longrightarrow> x \<in> set (concat (map snd (filter (\<lambda>e. fst e = h) es))) \<Longrightarrow> g = h"
  shows "distinct (concat (map snd es))"
  using assms
proof (induction es)
  case (Cons e es)
  have "distinct (concat (map snd es))"
  proof (rule Cons.IH)
    show "distinct (concat (map snd (filter (\<lambda>e. fst e = g) es)))" for g
      using Cons.prems(1) [of g] by (auto split: if_splits)
    show "g = h" if "x \<in> set (concat (map snd (filter (\<lambda>e. fst e = g) es)))"
      "x \<in> set (concat (map snd (filter (\<lambda>e. fst e = h) es)))" for g h x
      by (rule Cons.prems(2) [of x]) (use that in auto)
  qed
  moreover have "distinct (snd e)" using Cons.prems(1) [of "fst e"] by auto
  moreover have "x \<notin> set (snd f)" if x: "x \<in> set (snd e)" and f: "f \<in> set es" for x f
  proof
    assume y: "x \<in> set (snd f)"
    have "fst e = fst f" by (rule Cons.prems(2) [of x]) (use x y f in \<open>cases f; force\<close>)+
    then show False using Cons.prems(1) [of "fst e"] x y f by auto
  qed
  ultimately show ?case by auto
qed simp

lemma submitted_arrived:
  assumes "batch_inv max_batch s" "item \<in> set (submitted s grp)"
  shows "(grp, item) \<in> set (bs_arrived s)"
proof -
  have "item \<in> set (arrivals s grp)" using assms by (simp add: batch_inv_def history_inv_def)
  then show ?thesis by (auto simp: arrivals_def)
qed

lemma submitted_distinct:
  assumes "batch_inv max_batch s"
  shows "distinct (map pc_reply (submitted s grp))"
proof -
  have "distinct (map (pc_reply \<circ> snd) (bs_arrived s))" using assms by (simp add: batch_inv_def history_inv_def)
  then have "distinct (map pc_reply (arrivals s grp))"
    using distinct_map_filter [of "pc_reply \<circ> snd" _ "\<lambda>(h, _). h = grp"] by (simp add: arrivals_def)
  moreover have "arrivals s grp = submitted s grp @ in_flight s grp @ queued s grp"
    using assms by (simp add: batch_inv_def history_inv_def)
  ultimately show ?thesis by simp
qed

lemma submitted_group:
  assumes inv: "batch_inv max_batch s" and "a \<in> set (submitted s g)" "b \<in> set (submitted s h)" "pc_reply a = pc_reply b"
  shows "g = h"
proof -
  have "inj_on (pc_reply \<circ> snd) (set (bs_arrived s))"
    using inv by (simp add: batch_inv_def history_inv_def distinct_map)
  then have "(g, a) = (h, b)"
    by (rule inj_onD) (use assms submitted_arrived [OF inv] in simp_all)
  then show ?thesis by simp
qed

lemma answers_distinct:
  assumes inv: "batch_inv max_batch s"
  shows "distinct (map fst (bs_answers s))"
proof -
  define es where "es = map (\<lambda>(g, items, _). (g, map pc_reply items)) (bs_entries s)"
  have group: "concat (map snd (filter (\<lambda>e. fst e = g) es)) = map pc_reply (submitted s g)" for g
    unfolding es_def submitted_def by (simp add: filter_map map_concat comp_def case_prod_beta)
  have "distinct (concat (map snd es))"
  proof (rule distinct_by_group)
    show "distinct (concat (map snd (filter (\<lambda>e. fst e = g) es)))" for g
      unfolding group by (rule submitted_distinct [OF inv])
    show "g = h" if both: "x \<in> set (concat (map snd (filter (\<lambda>e. fst e = g) es)))"
      "x \<in> set (concat (map snd (filter (\<lambda>e. fst e = h) es)))" for g h x
    proof -
      obtain a b where "a \<in> set (submitted s g)" "b \<in> set (submitted s h)" "pc_reply a = x" "pc_reply b = x"
        using both unfolding group set_map by (auto simp del: set_concat)
      then show ?thesis using submitted_group [OF inv] by metis
    qed
  qed
  moreover have "map fst (bs_answers s) = concat (map snd es)"
    using inv by (simp add: batch_inv_def history_inv_def es_def map_concat comp_def case_prod_beta fan_out_def)
  ultimately show ?thesis by simp
qed

lemma fan_out_mem: "(ticket, result) \<in> set (fan_out r items) \<longleftrightarrow> result = r \<and> ticket \<in> pc_reply ` set items"
  by (auto simp: fan_out_def)

lemma answers_unfold:
  "(ticket, result) \<in> set (concat (map (\<lambda>(_, items, r). fan_out r items) entries)) \<longleftrightarrow>
   (\<exists>grp items. (grp, items, result) \<in> set entries \<and> ticket \<in> pc_reply ` set items)"
  by (auto simp: fan_out_mem)

lemma answer_of_entry:
  "batch_inv max_batch s \<Longrightarrow>
   (ticket, result) \<in> set (bs_answers s) \<longleftrightarrow> (\<exists>grp items. (grp, items, result) \<in> set (bs_entries s) \<and> ticket \<in> pc_reply ` set items)"
  using answers_unfold [of ticket result "bs_entries s"] by (simp add: batch_inv_def history_inv_def)

lemma waiting_has_drain:
  assumes inv: "batch_inv max_batch s" and a: "(grp, item) \<in> set (bs_arrived s)" and n: "pc_reply item \<notin> fst ` set (bs_answers s)"
  shows "grp \<in> fst ` set (bs_tasks s)"
proof -
  have "item \<in> set (arrivals s grp)" using a by (force simp: arrivals_def)
  moreover have "item \<notin> set (submitted s grp)"
  proof
    assume "item \<in> set (submitted s grp)"
    then obtain items result where "(grp, items, result) \<in> set (bs_entries s)" "item \<in> set items"
      by (auto simp: submitted_def)
    then have "(pc_reply item, result) \<in> set (bs_answers s)"
      using answer_of_entry [OF inv] by blast
    then show False using n by force
  qed
  ultimately have "in_flight s grp \<noteq> [] \<or> queued s grp \<noteq> []"
    using inv by (auto simp: batch_inv_def history_inv_def)
  then have "map_of (bs_tasks s) grp \<noteq> None"
    using inv by (auto simp: batch_inv_def tasks_inv_def in_flight_def split: option.splits)
  then show ?thesis by (simp add: map_of_eq_None_iff)
qed

definition unanswered :: "batch_system \<Rightarrow> (string \<times> pending_commit) list" where
  "unanswered s = filter (\<lambda>(_, item). pc_reply item \<notin> fst ` set (bs_answers s)) (bs_arrived s)"

lemma unanswered_has_drain: "batch_inv max_batch s \<Longrightarrow> (grp, item) \<in> set (unanswered s) \<Longrightarrow> grp \<in> fst ` set (bs_tasks s)"
  unfolding unanswered_def by (rule waiting_has_drain [of max_batch s grp item]) auto

subsection \<open>The drains finish\<close>

text \<open>The steps of the tasks alone, and what is left to do.\<close>

inductive drain_step :: "nat \<Rightarrow> batch_system \<Rightarrow> batch_system \<Rightarrow> bool" for max_batch where
  drain_lock: "i < length (bs_tasks s) \<Longrightarrow> bs_tasks s ! i = (grp, AtLock) \<Longrightarrow> drain_step max_batch s (drain_lock (batcher_max max_batch) i grp s)"
| drain_reply: "i < length (bs_tasks s) \<Longrightarrow> bs_tasks s ! i = (grp, InFlight items) \<Longrightarrow> drain_step max_batch s (drain_reply i grp items result s)"

fun phase_work :: "drain_phase \<Rightarrow> nat" where
  "phase_work AtLock = 2"
| "phase_work (InFlight _) = 1"

definition drain_work :: "batch_system \<Rightarrow> nat" where
  "drain_work s = 2 * length (unanswered s) + sum_list (map (phase_work \<circ> snd) (bs_tasks s))"

lemma drain_step_batch_step: "drain_step max_batch s t \<Longrightarrow> batch_step max_batch s t"
  by (erule drain_step.cases) (auto intro: batch_step.intros)

lemma sum_update_at: "i < length xs \<Longrightarrow> sum_list (map f (xs[i := y])) + f (xs ! i) = sum_list (map f xs) + (f y :: nat)"
  by (induction xs arbitrary: i) (auto split: nat.splits)

lemma sum_remove_at: "i < length xs \<Longrightarrow> sum_list (map f (take i xs @ drop (Suc i) xs)) + (f (xs ! i) :: nat) = sum_list (map f xs)"
proof (induction xs arbitrary: i)
  case (Cons x xs)
  then show ?case by (cases i) (auto simp: ac_simps)
qed simp

lemma lock_work:
  assumes "i < length (bs_tasks s)" "bs_tasks s ! i = (grp, AtLock)"
  shows "drain_work (drain_lock n i grp s) < drain_work s"
proof (cases "queued s grp = []")
  case True
  then show ?thesis
    using sum_remove_at [OF assms(1), of "phase_work \<circ> snd"] assms
    by (simp add: drain_work_def unanswered_def stop_views [OF assms(2) True])
next
  case False
  then show ?thesis
    using sum_update_at [OF assms(1), of "phase_work \<circ> snd" "(grp, InFlight (take n (queued s grp)))"] assms
    by (simp add: drain_work_def unanswered_def take_views [OF assms(2) False])
qed

lemma reply_work:
  assumes inv: "batch_inv max_batch s" and i: "i < length (bs_tasks s)" "bs_tasks s ! i = (grp, InFlight items)"
  shows "drain_work (drain_reply i grp items result s) < drain_work s" (is "drain_work ?t < _")
proof -
  have at: "map_of (bs_tasks s) grp = Some (InFlight items)"
    using inv i task_at unfolding batch_inv_def by blast
  then obtain item where item: "item \<in> set items"
    using inv unfolding batch_inv_def tasks_inv_def batch_sized_def by (meson last_in_set)
  then have "item \<in> set (arrivals s grp)"
    using inv at by (simp add: batch_inv_def history_inv_def in_flight_def)
  then have arrived: "(grp, item) \<in> set (bs_arrived s)" by (auto simp: arrivals_def)
  have new: "pc_reply item \<notin> fst ` set (bs_answers s)"
    using answers_distinct [OF reply_inv [OF inv i, of result]] item by (auto simp: reply_views fan_out_def)
  let ?open = "\<lambda>t. \<lambda>(_ :: string, item). pc_reply item \<notin> fst ` set (bs_answers t)"
  have "unanswered ?t = filter (?open ?t) (unanswered s)"
    by (auto simp: unanswered_def reply_views intro!: filter_cong)
  moreover have "(grp, item) \<in> set (unanswered s)" "\<not> ?open ?t (grp, item)"
    using arrived new item by (auto simp: unanswered_def reply_views fan_out_def image_Un image_image)
  ultimately have "length (unanswered ?t) < length (unanswered s)"
    using length_filter_less [of "(grp, item)" "unanswered s" "?open ?t"] by simp
  then show ?thesis
    using sum_update_at [OF i(1), of "phase_work \<circ> snd" "(grp, AtLock)"] i
    by (simp add: drain_work_def reply_views)
qed

lemma drain_step_work: "batch_inv max_batch s \<Longrightarrow> drain_step max_batch s t \<Longrightarrow> drain_work t < drain_work s"
  by (erule drain_step.cases) (auto intro: lock_work reply_work)

lemma drain_run_bound:
  "(drain_step max_batch ^^ n) s t \<Longrightarrow> batch_inv max_batch s \<Longrightarrow> batch_inv max_batch t \<and> drain_work t + n \<le> drain_work s"
proof (induction n arbitrary: t)
  case (Suc n)
  then obtain u where u: "(drain_step max_batch ^^ n) s u" "drain_step max_batch u t" by auto
  then have "batch_inv max_batch u" "drain_work u + n \<le> drain_work s" using Suc by auto
  then show ?case
    using drain_step_work [OF _ u(2)] batch_step_inv [OF _ drain_step_batch_step [OF u(2)]] by force
qed simp

lemma drain_stuck: "(\<And>u. \<not> drain_step max_batch t u) \<Longrightarrow> bs_tasks t = []"
proof (rule ccontr)
  assume stuck: "\<And>u. \<not> drain_step max_batch t u" and "bs_tasks t \<noteq> []"
  then have i: "0 < length (bs_tasks t)" by simp
  obtain grp phase where head: "bs_tasks t ! 0 = (grp, phase)" by (cases "bs_tasks t ! 0")
  show False
  proof (cases phase)
    case AtLock
    then show False using stuck drain_step.drain_lock [OF i] head by blast
  next
    case (InFlight items)
    then show False using stuck drain_step.drain_reply [OF i] head by blast
  qed
qed

lemma idle_answered:
  assumes "batch_inv max_batch s" "bs_tasks s = []"
  shows "unanswered s = []"
proof (rule ccontr)
  assume "unanswered s \<noteq> []"
  then obtain grp item where "(grp, item) \<in> set (unanswered s)" by (cases "unanswered s") auto
  then have "grp \<in> fst ` set (bs_tasks s)" by (rule unanswered_has_drain [OF assms(1)])
  then show False using assms(2) by simp
qed

subsection \<open>An example run\<close>

text \<open>Two callers arrive before the drain moves; both objects go into one entry.\<close>

definition ex_staged :: staged_object where
  "ex_staged = \<lparr> so_key = \<lparr> ck_storage_binding_id = ''b'', ck_bucket = ''k'', ck_key = ''o'' \<rparr>, so_object_id = ''o'', so_object_len = 1,
     so_payload_hash = [], so_k = 1, so_m = 0, so_chunk = 1, so_placements = [] \<rparr>"

definition ex_commit :: "nat \<Rightarrow> pending_commit" where
  "ex_commit n = \<lparr> pc_staged = ex_staged, pc_reply = n \<rparr>"

definition ex_queued :: batch_system where
  "ex_queued = arrive ''g'' (ex_commit 2) (arrive ''g'' (ex_commit 1) batch_start)"

definition ex_finished :: batch_system where
  "ex_finished = drain_lock (batcher_max 8) 0 ''g'' (drain_reply 0 ''g'' [ex_commit 1, ex_commit 2] (Inr 5) (drain_lock (batcher_max 8) 0 ''g'' ex_queued))"

lemmas ex_batch_defs = ex_queued_def ex_finished_def arrive_def enqueue_def drain_lock_def drain_reply_def take_batch_def
  batch_start_def group_batch_default_def batcher_max_def ex_commit_def fan_out_def

lemma ex_queued_reached: "(batch_step 8)\<^sup>*\<^sup>* batch_start ex_queued"
proof -
  have "batch_step 8 batch_start (arrive ''g'' (ex_commit 1) batch_start)"
    by (rule batch_step.caller) (simp add: batch_start_def)
  moreover have "batch_step 8 (arrive ''g'' (ex_commit 1) batch_start) ex_queued"
    unfolding ex_queued_def by (rule batch_step.caller) (simp add: ex_batch_defs)
  ultimately show ?thesis by (meson converse_rtranclp_into_rtranclp r_into_rtranclp)
qed

lemma ex_drained: "(drain_step 8 ^^ 3) ex_queued ex_finished"
proof -
  let ?a = "drain_lock (batcher_max 8) 0 ''g'' ex_queued"
  let ?b = "drain_reply 0 ''g'' [ex_commit 1, ex_commit 2] (Inr 5) ?a"
  have "drain_step 8 ex_queued ?a"
    by (rule drain_step.drain_lock) (simp_all add: ex_batch_defs)
  moreover have "drain_step 8 ?a ?b"
    by (rule drain_step.drain_reply) (simp_all add: ex_batch_defs)
  moreover have "drain_step 8 ?b ex_finished"
    unfolding ex_finished_def by (rule drain_step.drain_lock) (simp_all add: ex_batch_defs)
  ultimately show ?thesis by (auto simp: numeral_3_eq_3)
qed

lemma ex_finished_reached: "(batch_step 8)\<^sup>*\<^sup>* batch_start ex_finished"
proof -
  have "(drain_step 8)\<^sup>*\<^sup>* ex_queued ex_finished" using ex_drained by (rule relpowp_imp_rtranclp)
  then have "(batch_step 8)\<^sup>*\<^sup>* ex_queued ex_finished" by (rule rtranclp_mono [THEN predicate2D, rotated]) (auto intro: drain_step_batch_step)
  with ex_queued_reached show ?thesis by simp
qed

lemma ex_finished_stuck: "\<not> drain_step 8 ex_finished u"
proof -
  have "bs_tasks ex_finished = []" by (simp add: ex_batch_defs)
  then show ?thesis by (auto elim: drain_step.cases)
qed

subsection \<open>Properties\<close>

text \<open>
  C11: In every interleaving of callers and drain tasks, the commits of a group are submitted in the order in
  which they arrived, each exactly once: what arrived is what was submitted, then what is in flight, then what
  is queued. Every entry carries between one and \<open>max_batch\<close> objects, a caller is answered at most once and
  exactly with the result of the entry that carries its object, at most one drain serves a group, and a group
  with an unanswered commit has a drain.
\<close>

theorem batch_exactly_once:
  assumes "(batch_step max_batch)\<^sup>*\<^sup>* batch_start s"
  shows "arrivals s grp = submitted s grp @ in_flight s grp @ queued s grp \<and>
    (\<forall>items result. (grp, items, result) \<in> set (bs_entries s) \<longrightarrow> items \<noteq> [] \<and> length items \<le> max max_batch 1) \<and>
    distinct (map fst (bs_answers s)) \<and>
    (\<forall>ticket result. (ticket, result) \<in> set (bs_answers s) \<longleftrightarrow>
       (\<exists>grp items. (grp, items, result) \<in> set (bs_entries s) \<and> ticket \<in> pc_reply ` set items)) \<and>
    distinct (map fst (bs_tasks s)) \<and> (\<forall>item. (grp, item) \<in> set (unanswered s) \<longrightarrow> grp \<in> fst ` set (bs_tasks s))"
proof -
  have inv: "batch_inv max_batch s" using batching.reach_inv [OF refl assms] .
  show ?thesis
  proof (intro conjI allI impI)
    show "arrivals s grp = submitted s grp @ in_flight s grp @ queued s grp"
      using inv by (simp add: batch_inv_def history_inv_def)
    show "distinct (map fst (bs_tasks s))" using inv by (simp add: batch_inv_def tasks_inv_def)
    fix items result assume "(grp, items, result) \<in> set (bs_entries s)"
    then have "batch_sized max_batch items" using inv by (auto simp: batch_inv_def history_inv_def)
    then show "items \<noteq> []" "length items \<le> max max_batch 1" by (simp_all add: batch_sized_def batcher_max_def)
  qed (fact answers_distinct [OF inv] answer_of_entry [OF inv] unanswered_has_drain [OF inv])+
qed

theorem batch_exactly_once_witness:
  "(batch_step 8)\<^sup>*\<^sup>* batch_start ex_finished \<and> submitted ex_finished ''g'' = [ex_commit 1, ex_commit 2] \<and>
   arrivals ex_finished ''g'' = submitted ex_finished ''g'' @ in_flight ex_finished ''g'' @ queued ex_finished ''g'' \<and>
   (''g'', [ex_commit 1, ex_commit 2], Inr 5) \<in> set (bs_entries ex_finished) \<and> length [ex_commit 1, ex_commit 2] \<le> max 8 1 \<and>
   (''g'', ex_commit 2) \<in> set (unanswered ex_queued) \<and> ''g'' \<in> fst ` set (bs_tasks ex_queued)"
proof -
  have entry: "(''g'', [ex_commit 1, ex_commit 2], Inr 5) \<in> set (bs_entries ex_finished)"
    "(''g'', ex_commit 2) \<in> set (unanswered ex_queued)" "submitted ex_finished ''g'' = [ex_commit 1, ex_commit 2]"
    by (simp_all add: ex_batch_defs unanswered_def submitted_def)
  have "arrivals ex_finished ''g'' = submitted ex_finished ''g'' @ in_flight ex_finished ''g'' @ queued ex_finished ''g''"
    using batch_exactly_once [OF ex_finished_reached, of "''g''"] by (rule conjunct1)
  moreover have "length [ex_commit 1, ex_commit 2] \<le> max 8 1"
    using batch_exactly_once [OF ex_finished_reached, of "''g''", THEN conjunct2, THEN conjunct1, rule_format, OF entry(1)] by (rule conjunct2)
  moreover have "''g'' \<in> fst ` set (bs_tasks ex_queued)"
    by (rule batch_exactly_once [OF ex_queued_reached, of "''g''", THEN conjunct2, THEN conjunct2, THEN conjunct2, THEN conjunct2, THEN conjunct2, rule_format, OF entry(2)])
  ultimately show ?thesis using entry ex_finished_reached by simp
qed

text \<open>
  C12: Without new arrivals the drain tasks take a bounded number of steps from any reachable state, and when no
  task can move every caller has its answer.
\<close>

theorem batch_drains_finish:
  assumes "(batch_step max_batch)\<^sup>*\<^sup>* batch_start s" "(drain_step max_batch ^^ n) s t"
  shows "n \<le> drain_work s \<and> ((\<forall>u. \<not> drain_step max_batch t u) \<longrightarrow> unanswered t = [] \<and> bs_tasks t = [])"
proof -
  have "batch_inv max_batch s" using batching.reach_inv [OF refl assms(1)] .
  from drain_run_bound [OF assms(2) this] have inv: "batch_inv max_batch t" and n: "n \<le> drain_work s" by auto
  have "unanswered t = [] \<and> bs_tasks t = []" if stuck: "\<forall>u. \<not> drain_step max_batch t u"
  proof -
    have "bs_tasks t = []" by (rule drain_stuck) (use stuck in blast)
    then show ?thesis using idle_answered [OF inv] by blast
  qed
  with n show ?thesis by blast
qed

theorem batch_drains_finish_witness:
  "(batch_step 8)\<^sup>*\<^sup>* batch_start ex_queued \<and> (drain_step 8 ^^ 3) ex_queued ex_finished \<and> 3 \<le> drain_work ex_queued \<and>
   (\<forall>u. \<not> drain_step 8 ex_finished u) \<and> unanswered ex_finished = []"
  using batch_drains_finish [OF ex_queued_reached ex_drained] ex_queued_reached ex_drained ex_finished_stuck by simp

end
