(* ===== verification/Block_Store.thy ===== *)
theory Block_Store
  imports Archive
begin

section \<open>Chunks, manifests and their stores\<close>

text \<open>
  \<open>crates/verglas-block/src/{chunk,backend,store,manifest}.rs\<close>: the geometry of a block device, the
  object backend behind it, the content-addressed chunk store with its NVMe copy, and the manifest of a device
  version. The trait \<open>ObjectBackend\<close> is a record of its methods over a state \<open>'b\<close>, with the promises of its
  documentation in the locale \<open>durable_backend\<close>: a successful \<open>put\<close> is durable, a failed one may or may not
  have taken effect. \<open>MemoryBackend\<close> and the adapter over an object store keep them. The NVMe directory is a
  map from file names to contents in which every call may fail and a failed write leaves a torn temporary
  file. SHA-256, hex and the JSON of a manifest are parameters.

  The lemmas are the contracts of the operations (\<open>promises\<close>): what a success yields, and that no outcome
  breaks the store or loses a chunk.
\<close>

subsection \<open>Geometry\<close>

definition chunk_size_bytes :: nat where
  "chunk_size_bytes = 2 * 1024 * 1024"

definition saturating_mul :: "nat \<Rightarrow> nat \<Rightarrow> nat" where
  "saturating_mul a b = min (a * b) (u64_bound - 1)"

record chunk_span =
  sp_index :: nat
  sp_start :: nat
  sp_end :: nat

definition span_len :: "chunk_span \<Rightarrow> nat" where
  "span_len span = sp_end span - sp_start span"

definition chunk_count :: "nat \<Rightarrow> nat" where
  "chunk_count device_size = (device_size + chunk_size_bytes - 1) div chunk_size_bytes"

definition chunk_len :: "nat \<Rightarrow> nat \<Rightarrow> nat" where
  "chunk_len index device_size =
     (let base = saturating_mul index chunk_size_bytes
      in if device_size \<le> base then 0 else min (device_size - base) chunk_size_bytes)"

definition span_at :: "nat \<Rightarrow> nat \<Rightarrow> nat \<Rightarrow> chunk_span" where
  "span_at offset fin index =
     (let chunk_base = index * chunk_size_bytes; chunk_top = chunk_base + chunk_size_bytes
      in \<lparr> sp_index = index, sp_start = max offset chunk_base - chunk_base, sp_end = min fin chunk_top - chunk_base \<rparr>)"

definition covering_spans :: "nat \<Rightarrow> nat \<Rightarrow> chunk_span list" where
  "covering_spans offset len =
     (if len = 0 then []
      else
        (let fin = offset + len; first = offset div chunk_size_bytes; last_index = (fin - 1) div chunk_size_bytes
         in map (span_at offset fin) [first..<Suc last_index]))"

definition is_zero :: "bytes \<Rightarrow> bool" where
  "is_zero bs = list_all (\<lambda>b. b = 0) bs"

subsection \<open>Chunk hashes\<close>

definition chunk_from_hex :: "deps \<Rightarrow> string \<Rightarrow> hash option" where
  "chunk_from_hex D s =
     (case hex_decode D s of
        None \<Rightarrow> None
      | Some bs \<Rightarrow> if length bs = 32 then Some bs else None)"

definition chunk_object_key :: "deps \<Rightarrow> hash \<Rightarrow> string" where
  "chunk_object_key D h = ''blocks/'' @ hex_encode D h"

subsection \<open>The object backend\<close>

datatype backend_error = BackendStore string string

record 'b object_backend =
  be_put :: "string \<Rightarrow> bytes \<Rightarrow> 'b \<Rightarrow> (backend_error + unit) \<times> 'b"
  be_get :: "string \<Rightarrow> 'b \<Rightarrow> (backend_error + bytes option) \<times> 'b"
  be_exists :: "string \<Rightarrow> 'b \<Rightarrow> (backend_error + bool) \<times> 'b"

text \<open>The calls of the \<open>object_store\<close> crate behind the adapter: a missing object is its own error.\<close>

datatype raw_error = RawNotFound | RawError string

record 's raw_store =
  raw_path :: "string \<Rightarrow> string"
  raw_put :: "string \<Rightarrow> bytes \<Rightarrow> 's \<Rightarrow> (raw_error + unit) \<times> 's"
  raw_get :: "string \<Rightarrow> 's \<Rightarrow> (raw_error + (string + bytes)) \<times> 's"
  raw_head :: "string \<Rightarrow> 's \<Rightarrow> (raw_error + unit) \<times> 's"

fun raw_text :: "raw_error \<Rightarrow> string" where
  "raw_text RawNotFound = ''not found''"
| "raw_text (RawError text) = text"

definition store_backend_put :: "'s raw_store \<Rightarrow> string \<Rightarrow> bytes \<Rightarrow> 's \<Rightarrow> (backend_error + unit) \<times> 's" where
  "store_backend_put S key data = wrap_error (\<lambda>e. BackendStore key (raw_text e)) (raw_put S (raw_path S key) data)"

definition store_backend_get :: "'s raw_store \<Rightarrow> string \<Rightarrow> 's \<Rightarrow> (backend_error + bytes option) \<times> 's" where
  "store_backend_get S key s =
     (case raw_get S (raw_path S key) s of
        (Inr body, s') \<Rightarrow> (map_err (BackendStore key) (map_sum (\<lambda>e. e) Some body), s')
      | (Inl RawNotFound, s') \<Rightarrow> (Inr None, s')
      | (Inl (RawError e), s') \<Rightarrow> (Inl (BackendStore key e), s'))"

definition store_backend_exists :: "'s raw_store \<Rightarrow> string \<Rightarrow> 's \<Rightarrow> (backend_error + bool) \<times> 's" where
  "store_backend_exists S key s =
     (case raw_head S (raw_path S key) s of
        (Inr _, s') \<Rightarrow> (Inr True, s')
      | (Inl RawNotFound, s') \<Rightarrow> (Inr False, s')
      | (Inl (RawError e), s') \<Rightarrow> (Inl (BackendStore key e), s'))"

definition object_store_backend :: "'s raw_store \<Rightarrow> 's object_backend" where
  "object_store_backend S =
     \<lparr> be_put = store_backend_put S, be_get = store_backend_get S, be_exists = store_backend_exists S \<rparr>"

text \<open>The in-memory backend of the tests, with its injected failures.\<close>

record memory_objects =
  mb_objects :: "string \<rightharpoonup> bytes"
  mb_put_order :: "string list"
  mb_fail_prefix :: "string option"

definition memory_new :: memory_objects where
  "memory_new = \<lparr> mb_objects = (\<lambda>_. None), mb_put_order = [], mb_fail_prefix = None \<rparr>"

definition memory_put :: "string \<Rightarrow> bytes \<Rightarrow> memory_objects \<Rightarrow> (backend_error + unit) \<times> memory_objects" where
  "memory_put key data m =
     (if (case mb_fail_prefix m of None \<Rightarrow> False | Some p \<Rightarrow> take (length p) key = p)
      then (Inl (BackendStore key ''injected put failure''), m)
      else (Inr (), m\<lparr>mb_put_order := mb_put_order m @ [key], mb_objects := (mb_objects m)(key \<mapsto> data)\<rparr>))"

definition memory_get :: "string \<Rightarrow> memory_objects \<Rightarrow> (backend_error + bytes option) \<times> memory_objects" where
  "memory_get key m = (Inr (mb_objects m key), m)"

definition memory_exists :: "string \<Rightarrow> memory_objects \<Rightarrow> (backend_error + bool) \<times> memory_objects" where
  "memory_exists key m = (Inr (mb_objects m key \<noteq> None), m)"

definition memory_backend :: "memory_objects object_backend" where
  "memory_backend = \<lparr> be_put = memory_put, be_get = memory_get, be_exists = memory_exists \<rparr>"

subsection \<open>The NVMe directory\<close>

text \<open>
  The files of the directory \<open>blocks\<close>. Whether the call number \<open>nv_tick\<close> fails, and how much of the data a
  failed write leaves, is up to the functions \<open>nv_fails\<close> and \<open>nv_torn\<close>.
\<close>

record nvme =
  nv_files :: "string \<rightharpoonup> bytes"
  nv_fails :: "nat \<Rightarrow> bool"
  nv_torn :: "nat \<Rightarrow> nat"
  nv_tick :: nat

datatype io_error = IoNotFound | IoOther

definition fs_try_exists :: "string \<Rightarrow> nvme \<Rightarrow> (io_error + bool) \<times> nvme" where
  "fs_try_exists path n =
     (if nv_fails n (nv_tick n) then Inl IoOther else Inr (nv_files n path \<noteq> None), n\<lparr>nv_tick := Suc (nv_tick n)\<rparr>)"

definition fs_write :: "string \<Rightarrow> bytes \<Rightarrow> nvme \<Rightarrow> (io_error + unit) \<times> nvme" where
  "fs_write path data n =
     (if nv_fails n (nv_tick n)
      then (Inl IoOther, n\<lparr>nv_tick := Suc (nv_tick n), nv_files := (nv_files n)(path \<mapsto> take (nv_torn n (nv_tick n)) data)\<rparr>)
      else (Inr (), n\<lparr>nv_tick := Suc (nv_tick n), nv_files := (nv_files n)(path \<mapsto> data)\<rparr>))"

definition fs_rename :: "string \<Rightarrow> string \<Rightarrow> nvme \<Rightarrow> (io_error + unit) \<times> nvme" where
  "fs_rename src dst n =
     (case nv_files n src of
        None \<Rightarrow> (Inl IoNotFound, n\<lparr>nv_tick := Suc (nv_tick n)\<rparr>)
      | Some data \<Rightarrow>
          if nv_fails n (nv_tick n) then (Inl IoOther, n\<lparr>nv_tick := Suc (nv_tick n)\<rparr>)
          else (Inr (), n\<lparr>nv_tick := Suc (nv_tick n), nv_files := (nv_files n)(src := None, dst \<mapsto> data)\<rparr>))"

definition fs_read :: "string \<Rightarrow> nvme \<Rightarrow> (io_error + bytes) \<times> nvme" where
  "fs_read path n =
     (if nv_fails n (nv_tick n) then Inl IoOther else ok_or IoNotFound (nv_files n path), n\<lparr>nv_tick := Suc (nv_tick n)\<rparr>)"

subsection \<open>The chunk store\<close>

datatype store_error = StoreIo string | StoreBackend backend_error | MissingChunk string

record 'b chunk_store =
  cs_nvme :: nvme
  cs_backend :: 'b
  cs_durable :: "hash set"

text \<open>The linked crates and the backend of a store.\<close>

record manifest =
  mf_device_id :: string
  mf_version :: nat
  mf_size_bytes :: nat
  mf_chunk_size_bytes :: nat
  mf_chunks :: "string option list"

record 'b block_env =
  bk_deps :: deps
  bk_backend :: "'b object_backend"
  bk_to_json :: "manifest \<Rightarrow> string + bytes"
  bk_from_json :: "bytes \<Rightarrow> string + manifest"

definition on_nvme :: "(nvme \<Rightarrow> 'r \<times> nvme) \<Rightarrow> 'b chunk_store \<Rightarrow> 'r \<times> 'b chunk_store" where
  "on_nvme m cs = (case m (cs_nvme cs) of (r, n) \<Rightarrow> (r, cs\<lparr>cs_nvme := n\<rparr>))"

definition on_backend :: "('b \<Rightarrow> 'r \<times> 'b) \<Rightarrow> 'b chunk_store \<Rightarrow> 'r \<times> 'b chunk_store" where
  "on_backend m cs = (case m (cs_backend cs) of (r, b) \<Rightarrow> (r, cs\<lparr>cs_backend := b\<rparr>))"

definition store_open :: "nvme \<Rightarrow> 'b \<Rightarrow> 'b chunk_store" where
  "store_open n b = \<lparr> cs_nvme = n, cs_backend = b, cs_durable = {} \<rparr>"

definition local_path :: "'b block_env \<Rightarrow> hash \<Rightarrow> string" where
  "local_path E h = hex_encode (bk_deps E) h"

definition temp_path :: "'b block_env \<Rightarrow> hash \<Rightarrow> string" where
  "temp_path E h = ''.'' @ hex_encode (bk_deps E) h @ ''.tmp''"

definition mark_durable :: "hash \<Rightarrow> 'b chunk_store \<Rightarrow> 'b chunk_store" where
  "mark_durable h cs = cs\<lparr>cs_durable := insert h (cs_durable cs)\<rparr>"

definition is_known_durable :: "hash \<Rightarrow> 'b chunk_store \<Rightarrow> bool" where
  "is_known_durable h cs = (h \<in> cs_durable cs)"

definition write_renamed :: "'b block_env \<Rightarrow> hash \<Rightarrow> bytes \<Rightarrow> 'b chunk_store \<Rightarrow> (io_error + unit) \<times> 'b chunk_store" where
  "write_renamed E h data =
     await (on_nvme (fs_write (temp_path E h) data)) (\<lambda>_. on_nvme (fs_rename (temp_path E h) (local_path E h)))"

definition stage_chunk :: "'b block_env \<Rightarrow> bytes \<Rightarrow> 'b chunk_store \<Rightarrow> (store_error + hash) \<times> 'b chunk_store" where
  "stage_chunk E data cs =
     (let h = sha256 (bk_deps E) data
      in (case on_nvme (fs_try_exists (local_path E h)) cs of
            (found, cs1) \<Rightarrow>
              if found = Inr True then (Inr h, cs1)
              else await (wrap_error (\<lambda>_. StoreIo (hex_encode (bk_deps E) h)) (write_renamed E h data)) (\<lambda>_. return (Inr h)) cs1))"

definition fill_from_backend :: "'b block_env \<Rightarrow> hash \<Rightarrow> 'b chunk_store \<Rightarrow> (store_error + bytes) \<times> 'b chunk_store" where
  "fill_from_backend E h =
     await (wrap_error StoreBackend (on_backend (be_get (bk_backend E) (chunk_object_key (bk_deps E) h))))
       (\<lambda>found cs. case found of
          None \<Rightarrow> (Inl (MissingChunk (hex_encode (bk_deps E) h)), cs)
        | Some data \<Rightarrow> (Inr data, mark_durable h (snd (write_renamed E h data cs))))"

definition read_chunk :: "'b block_env \<Rightarrow> hash \<Rightarrow> 'b chunk_store \<Rightarrow> (store_error + bytes) \<times> 'b chunk_store" where
  "read_chunk E h cs =
     (case on_nvme (fs_read (local_path E h)) cs of
        (Inr data, cs1) \<Rightarrow> (Inr data, cs1)
      | (Inl IoNotFound, cs1) \<Rightarrow> fill_from_backend E h cs1
      | (Inl IoOther, cs1) \<Rightarrow> (Inl (StoreIo (hex_encode (bk_deps E) h)), cs1))"

definition read_local :: "'b block_env \<Rightarrow> hash \<Rightarrow> 'b chunk_store \<Rightarrow> (store_error + bytes) \<times> 'b chunk_store" where
  "read_local E h = wrap_error (\<lambda>_. StoreIo (hex_encode (bk_deps E) h)) (on_nvme (fs_read (local_path E h)))"

definition upload_chunk :: "'b block_env \<Rightarrow> hash \<Rightarrow> 'b chunk_store \<Rightarrow> (store_error + unit) \<times> 'b chunk_store" where
  "upload_chunk E h =
     await (read_local E h)
       (\<lambda>data. await (wrap_error StoreBackend (on_backend (be_put (bk_backend E) (chunk_object_key (bk_deps E) h) data)))
         (\<lambda>_ cs. (Inr (), mark_durable h cs)))"

definition ensure_chunk :: "'b block_env \<Rightarrow> hash \<Rightarrow> 'b chunk_store \<Rightarrow> (store_error + unit) \<times> 'b chunk_store" where
  "ensure_chunk E h cs =
     (if is_known_durable h cs then (Inr (), cs)
      else
        await (wrap_error StoreBackend (on_backend (be_exists (bk_backend E) (chunk_object_key (bk_deps E) h))))
          (\<lambda>found cs. if found then (Inr (), mark_durable h cs) else upload_chunk E h cs) cs)"

fun ensure_durable :: "'b block_env \<Rightarrow> hash list \<Rightarrow> 'b chunk_store \<Rightarrow> (store_error + unit) \<times> 'b chunk_store" where
  "ensure_durable E [] = return (Inr ())"
| "ensure_durable E (h # hs) = await (ensure_chunk E h) (\<lambda>_. ensure_durable E hs)"

fun undurable_from :: "'b block_env \<Rightarrow> hash set \<Rightarrow> hash list \<Rightarrow> 'b chunk_store \<Rightarrow> (store_error + (hash \<times> bytes) list) \<times> 'b chunk_store" where
  "undurable_from E seen [] cs = (Inr [], cs)"
| "undurable_from E seen (h # hs) cs =
     (if is_known_durable h cs then undurable_from E seen hs cs
      else if h \<in> seen then undurable_from E seen hs cs
      else await (read_local E h) (\<lambda>data. await (undurable_from E (insert h seen) hs) (\<lambda>rest. return (Inr ((h, data) # rest)))) cs)"

definition undurable_chunks :: "'b block_env \<Rightarrow> hash list \<Rightarrow> 'b chunk_store \<Rightarrow> (store_error + (hash \<times> bytes) list) \<times> 'b chunk_store" where
  "undurable_chunks E referenced = undurable_from E {} referenced"

subsection \<open>Manifests\<close>

datatype manifest_error =
    ManifestBackend backend_error
  | ManifestDecode string string
  | MissingVersion string nat

definition manifest_blank :: "string \<Rightarrow> nat \<Rightarrow> manifest" where
  "manifest_blank device_id size_bytes =
     \<lparr> mf_device_id = device_id, mf_version = 0, mf_size_bytes = size_bytes, mf_chunk_size_bytes = chunk_size_bytes,
       mf_chunks = replicate (chunk_count size_bytes) None \<rparr>"

definition referenced_chunks :: "deps \<Rightarrow> manifest \<Rightarrow> hash list" where
  "referenced_chunks D m = filter_map (\<lambda>slot. Option.bind slot (chunk_from_hex D)) (mf_chunks m)"

text \<open>\<open>{version:020}\<close>: decimal, padded with zeros to twenty places.\<close>

definition dec_padded :: "nat \<Rightarrow> nat \<Rightarrow> string" where
  "dec_padded w n = replicate (w - length (dec_string n)) (CHR ''0'') @ dec_string n"

definition version_key :: "string \<Rightarrow> nat \<Rightarrow> string" where
  "version_key device_id version = ''manifests/'' @ device_id @ ''/'' @ dec_padded 20 version @ ''.json''"

definition latest_key :: "string \<Rightarrow> string" where
  "latest_key device_id = ''manifests/'' @ device_id @ ''/latest''"

definition manifest_commit :: "'b block_env \<Rightarrow> manifest \<Rightarrow> 'b \<Rightarrow> (manifest_error + unit) \<times> 'b" where
  "manifest_commit E m =
     (let key = version_key (mf_device_id m) (mf_version m)
      in (case bk_to_json E m of
            Inl e \<Rightarrow> return (Inl (ManifestDecode key e))
          | Inr body \<Rightarrow>
              await (wrap_error ManifestBackend (be_put (bk_backend E) key body))
                (\<lambda>_. wrap_error ManifestBackend (be_put (bk_backend E) (latest_key (mf_device_id m)) (as_bytes (dec_string (mf_version m)))))))"

text \<open>
  \<open>String::from_utf8_lossy(..).trim().parse::<u64>()\<close>. A replacement character is not a digit, so bytes that
  are not UTF-8 do not parse. The white space of Unicode is given by its UTF-8 encodings.
\<close>

definition white_space :: "bytes list" where
  "white_space = [[9], [10], [11], [12], [13], [32], [0xC2, 0x85], [0xC2, 0xA0], [0xE1, 0x9A, 0x80], [0xE2, 0x80, 0x80], [0xE2, 0x80, 0x81],
     [0xE2, 0x80, 0x82], [0xE2, 0x80, 0x83], [0xE2, 0x80, 0x84], [0xE2, 0x80, 0x85], [0xE2, 0x80, 0x86], [0xE2, 0x80, 0x87], [0xE2, 0x80, 0x88],
     [0xE2, 0x80, 0x89], [0xE2, 0x80, 0x8A], [0xE2, 0x80, 0xA8], [0xE2, 0x80, 0xA9], [0xE2, 0x80, 0xAF], [0xE2, 0x81, 0x9F], [0xE3, 0x80, 0x80]]"

fun strip_leading :: "nat \<Rightarrow> bytes list \<Rightarrow> bytes \<Rightarrow> bytes" where
  "strip_leading 0 ws bs = bs"
| "strip_leading (Suc fuel) ws bs =
     (case find (\<lambda>w. take (length w) bs = w) ws of
        None \<Rightarrow> bs
      | Some w \<Rightarrow> strip_leading fuel ws (drop (length w) bs))"

definition trim_bytes :: "bytes \<Rightarrow> bytes" where
  "trim_bytes bs =
     (let front = strip_leading (length bs) white_space bs
      in rev (strip_leading (length front) (map rev white_space) (rev front)))"

definition parse_version :: "bytes \<Rightarrow> nat option" where
  "parse_version pointer = Option.bind (from_utf8 pointer) (\<lambda>_. Option.bind (from_utf8 (trim_bytes pointer)) from_str_usize)"

definition load_latest :: "'b block_env \<Rightarrow> string \<Rightarrow> 'b \<Rightarrow> (manifest_error + manifest option) \<times> 'b" where
  "load_latest E device_id =
     await (wrap_error ManifestBackend (be_get (bk_backend E) (latest_key device_id)))
       (\<lambda>pointer. case pointer of
          None \<Rightarrow> return (Inr None)
        | Some bs \<Rightarrow>
            (case parse_version bs of
               None \<Rightarrow> return (Inl (MissingVersion device_id 0))
             | Some version \<Rightarrow>
                 await (wrap_error ManifestBackend (be_get (bk_backend E) (version_key device_id version)))
                   (\<lambda>body. case body of
                      None \<Rightarrow> return (Inl (MissingVersion device_id version))
                    | Some bs \<Rightarrow>
                        return (map_err (ManifestDecode (version_key device_id version)) (map_sum (\<lambda>e. e) Some (bk_from_json E bs))))))"

subsection \<open>What a backend promises\<close>

text \<open>The contract of \<open>ObjectBackend\<close>: \<open>view\<close> is what a later reader finds under each key.\<close>

locale durable_backend =
  fixes B :: "'b object_backend" and view :: "'b \<Rightarrow> string \<Rightarrow> bytes option"
  assumes put_effect: "be_put B key data b = (r, b') \<Longrightarrow> view b' = view b \<or> view b' = (view b)(key \<mapsto> data)"
    and put_durable: "be_put B key data b = (Inr u, b') \<Longrightarrow> view b' = (view b)(key \<mapsto> data)"
    and get_effect: "be_get B key b = (g, b') \<Longrightarrow> view b' = view b"
    and get_found: "be_get B key b = (Inr found, b') \<Longrightarrow> found = view b key"
    and exists_effect: "be_exists B key b = (x, b') \<Longrightarrow> view b' = view b"
    and exists_found: "be_exists B key b = (Inr present, b') \<Longrightarrow> present \<longleftrightarrow> view b key \<noteq> None"

interpretation memory: durable_backend memory_backend mb_objects
  by unfold_locales (auto simp: memory_backend_def memory_put_def memory_get_def memory_exists_def split: if_splits)

text \<open>The documented behaviour of an object store, and that the adapter turns it into the contract.\<close>

definition raw_ok :: "'s raw_store \<Rightarrow> ('s \<Rightarrow> string \<Rightarrow> bytes option) \<Rightarrow> bool" where
  "raw_ok S contents \<longleftrightarrow>
     (\<forall>path data s r s'. raw_put S path data s = (r, s') \<longrightarrow>
        (contents s' = contents s \<or> contents s' = (contents s)(path \<mapsto> data)) \<and> (r = Inr () \<longrightarrow> contents s' = (contents s)(path \<mapsto> data))) \<and>
     (\<forall>path s r s'. raw_get S path s = (r, s') \<longrightarrow>
        contents s' = contents s \<and> (r = Inl RawNotFound \<longrightarrow> contents s path = None) \<and> (\<forall>body. r = Inr (Inr body) \<longrightarrow> contents s path = Some body)) \<and>
     (\<forall>path s r s'. raw_head S path s = (r, s') \<longrightarrow>
        contents s' = contents s \<and> (r = Inl RawNotFound \<longrightarrow> contents s path = None) \<and> (r = Inr () \<longrightarrow> contents s path \<noteq> None))"

lemmas raw_put_law = raw_ok_def [THEN iffD1, THEN conjunct1, rule_format]
lemmas raw_get_law = raw_ok_def [THEN iffD1, THEN conjunct2, THEN conjunct1, rule_format]
lemmas raw_head_law = raw_ok_def [THEN iffD1, THEN conjunct2, THEN conjunct2, rule_format]

lemma object_store_backend_durable:
  assumes raw: "raw_ok S contents" and inj: "inj (raw_path S)"
  shows "durable_backend (object_store_backend S) (\<lambda>s key. contents s (raw_path S key))"
proof unfold_locales
  have upd: "(\<lambda>k. ((contents b)(raw_path S key \<mapsto> data)) (raw_path S k)) = (\<lambda>k. contents b (raw_path S k))(key \<mapsto> data)" for b key data
    using inj by (auto simp: inj_def fun_eq_iff)
  fix key data b r b' u g found x present
  show "be_put (object_store_backend S) key data b = (r, b') \<Longrightarrow>
      (\<lambda>key. contents b' (raw_path S key)) = (\<lambda>key. contents b (raw_path S key)) \<or>
      (\<lambda>key. contents b' (raw_path S key)) = (\<lambda>key. contents b (raw_path S key))(key \<mapsto> data)"
    using raw_put_law [OF raw, of "raw_path S key" data b _ b'] upd [of b key data]
    by (auto simp: object_store_backend_def store_backend_put_def wrap_error_def split: prod.splits)
  show "be_put (object_store_backend S) key data b = (Inr u, b') \<Longrightarrow>
      (\<lambda>key. contents b' (raw_path S key)) = (\<lambda>key. contents b (raw_path S key))(key \<mapsto> data)"
    using raw_put_law [OF raw, of "raw_path S key" data b _ b'] upd [of b key data]
    by (auto simp: object_store_backend_def store_backend_put_def)
  show "be_get (object_store_backend S) key b = (g, b') \<Longrightarrow> (\<lambda>key. contents b' (raw_path S key)) = (\<lambda>key. contents b (raw_path S key))"
    using raw_get_law [OF raw, of "raw_path S key" b _ b']
    by (auto simp: object_store_backend_def store_backend_get_def split: prod.splits sum.splits raw_error.splits)
  show "be_get (object_store_backend S) key b = (Inr found, b') \<Longrightarrow> found = contents b (raw_path S key)"
    using raw_get_law [OF raw, of "raw_path S key" b]
    by (auto simp: object_store_backend_def store_backend_get_def map_sum_def split: prod.splits sum.splits raw_error.splits)
  show "be_exists (object_store_backend S) key b = (x, b') \<Longrightarrow> (\<lambda>key. contents b' (raw_path S key)) = (\<lambda>key. contents b (raw_path S key))"
    using raw_head_law [OF raw, of "raw_path S key" b _ b']
    by (auto simp: object_store_backend_def store_backend_exists_def split: prod.splits sum.splits raw_error.splits)
  show "be_exists (object_store_backend S) key b = (Inr present, b') \<Longrightarrow> present \<longleftrightarrow> contents b (raw_path S key) \<noteq> None"
    using raw_head_law [OF raw, of "raw_path S key" b]
    by (auto simp: object_store_backend_def store_backend_exists_def split: prod.splits sum.splits raw_error.splits)
qed

subsection \<open>Contracts of fallible operations\<close>

text \<open>
  From a state with \<open>P\<close>, a success \<open>a\<close> ends in a state with \<open>Q a\<close> and a failure in one with \<open>F\<close>.
\<close>

named_theorems promise_intros "contracts of the block operations"

definition promises :: "('s \<Rightarrow> bool) \<Rightarrow> ('s \<Rightarrow> ('e + 'a) \<times> 's) \<Rightarrow> ('a \<Rightarrow> 's \<Rightarrow> bool) \<Rightarrow> ('s \<Rightarrow> bool) \<Rightarrow> bool" where
  "promises P m Q F \<longleftrightarrow> (\<forall>s r s'. P s \<longrightarrow> m s = (r, s') \<longrightarrow> (case r of Inl _ \<Rightarrow> F s' | Inr a \<Rightarrow> Q a s'))"

lemma promisesI:
  "(\<And>s a s'. P s \<Longrightarrow> m s = (Inr a, s') \<Longrightarrow> Q a s') \<Longrightarrow> (\<And>s e s'. P s \<Longrightarrow> m s = (Inl e, s') \<Longrightarrow> F s') \<Longrightarrow> promises P m Q F"
  by (auto simp: promises_def split: sum.splits)

lemma promisesD: "promises P m Q F \<Longrightarrow> P s \<Longrightarrow> m s = (Inr a, s') \<Longrightarrow> Q a s'"
  by (auto simp: promises_def split: sum.splits)

lemma promises_failD: "promises P m Q F \<Longrightarrow> P s \<Longrightarrow> m s = (Inl e, s') \<Longrightarrow> F s'"
  by (fastforce simp: promises_def split: sum.splits)

lemma promises_await:
  assumes "promises P m R F" "\<And>a. promises (R a) (f a) Q F"
  shows "promises P (await m f) Q F"
proof (rule promisesI)
  fix s b s' assume "P s" "await m f s = (Inr b, s')"
  then show "Q b s'" by (auto dest!: promisesD [OF assms(1)] promisesD [OF assms(2)])
next
  fix s e s' assume s: "P s" and run: "await m f s = (Inl e, s')"
  show "F s'"
  proof (cases "m s")
    case (Pair r s1)
    then show ?thesis
      using s run promises_failD [OF assms(1) s] promisesD [OF assms(1) s] promises_failD [OF assms(2)]
      by (cases r) (auto simp: await_def)
  qed
qed

lemma promises_wrap_error: "promises P m Q F \<Longrightarrow> promises P (wrap_error f m) Q F"
  by (fastforce simp: promises_def wrap_error_def split: prod.splits sum.splits elim: map_err.elims)

lemma promises_return: "(\<And>s. P s \<Longrightarrow> case r of Inl _ \<Rightarrow> F s | Inr a \<Rightarrow> Q a s) \<Longrightarrow> promises P (return r) Q F"
  by (auto simp: promises_def return_def)

lemma promises_done: "(\<And>s. P s \<Longrightarrow> Q a (g s)) \<Longrightarrow> promises P (\<lambda>s. (Inr a, g s)) Q F"
  by (simp add: promises_def)

lemma promises_if:
  "(b \<Longrightarrow> promises P m Q F) \<Longrightarrow> (\<not> b \<Longrightarrow> promises P n Q F) \<Longrightarrow> promises P (\<lambda>s. if b then m s else n s) Q F"
  by (cases b) simp_all

lemma promises_pre: "promises P m Q F \<Longrightarrow> (\<And>s. P' s \<Longrightarrow> P s) \<Longrightarrow> promises P' m Q F"
  unfolding promises_def by blast

lemma promises_conj:
  "promises P m Q F \<Longrightarrow> promises (\<lambda>s. P s \<and> R ()) m (\<lambda>a s. Q a s \<and> R ()) F"
  by (intro promisesI) (auto dest: promisesD promises_failD)

lemma promises_weaken:
  "promises P m Q F \<Longrightarrow> (\<And>s. P' s \<Longrightarrow> P s) \<Longrightarrow> (\<And>a s. Q a s \<Longrightarrow> Q' a s) \<Longrightarrow> (\<And>s. F s \<Longrightarrow> F' s) \<Longrightarrow> promises P' m Q' F'"
  by (fastforce simp: promises_def split: sum.splits)

subsection \<open>The state of a chunk store\<close>

definition env_ok :: "'b block_env \<Rightarrow> ('b \<Rightarrow> string \<Rightarrow> bytes option) \<Rightarrow> bool" where
  "env_ok E view \<longleftrightarrow>
     durable_backend (bk_backend E) view \<and> hex_ok (bk_deps E) \<and> digest_ok (bk_deps E) \<and>
     (\<forall>m body. bk_to_json E m = Inr body \<longrightarrow> bk_from_json E body = Inr m)"

definition local_body :: "'b block_env \<Rightarrow> 'b chunk_store \<Rightarrow> hash \<Rightarrow> bytes option" where
  "local_body E cs h = nv_files (cs_nvme cs) (local_path E h)"

definition remote_body :: "'b block_env \<Rightarrow> ('b \<Rightarrow> string \<Rightarrow> bytes option) \<Rightarrow> 'b chunk_store \<Rightarrow> hash \<Rightarrow> bytes option" where
  "remote_body E view cs h = view (cs_backend cs) (chunk_object_key (bk_deps E) h)"

definition held :: "'b block_env \<Rightarrow> ('b \<Rightarrow> string \<Rightarrow> bytes option) \<Rightarrow> 'b chunk_store \<Rightarrow> hash \<Rightarrow> bool" where
  "held E view cs h \<longleftrightarrow> local_body E cs h \<noteq> None \<or> remote_body E view cs h \<noteq> None"

text \<open>
  \<open>C\<close> is the body that stands behind each hash. That the bodies a device writes are the ones behind their
  hashes (\<open>named\<close>) says that no two of them collide.
\<close>

definition named :: "'b block_env \<Rightarrow> (hash \<Rightarrow> bytes) \<Rightarrow> bytes \<Rightarrow> bool" where
  "named E C body \<longleftrightarrow> C (sha256 (bk_deps E) body) = body"

definition store_ok :: "'b block_env \<Rightarrow> (hash \<Rightarrow> bytes) \<Rightarrow> ('b \<Rightarrow> string \<Rightarrow> bytes option) \<Rightarrow> 'b chunk_store \<Rightarrow> bool" where
  "store_ok E C view cs \<longleftrightarrow>
     (\<forall>h body. local_body E cs h = Some body \<longrightarrow> body = C h) \<and> (\<forall>h body. remote_body E view cs h = Some body \<longrightarrow> body = C h) \<and>
     (\<forall>h. h \<in> cs_durable cs \<longrightarrow> remote_body E view cs h \<noteq> None)"

definition chunk_key :: "'b block_env \<Rightarrow> string \<Rightarrow> bool" where
  "chunk_key E key \<longleftrightarrow> (\<exists>h. key = chunk_object_key (bk_deps E) h)"

text \<open>No chunk is lost, and only chunk objects were added to the backend.\<close>

definition grows :: "'b block_env \<Rightarrow> ('b \<Rightarrow> string \<Rightarrow> bytes option) \<Rightarrow> 'b chunk_store \<Rightarrow> 'b chunk_store \<Rightarrow> bool" where
  "grows E view cs cs' \<longleftrightarrow>
     (\<forall>h. held E view cs h \<longrightarrow> held E view cs' h) \<and> (\<forall>h. remote_body E view cs h \<noteq> None \<longrightarrow> remote_body E view cs' h \<noteq> None) \<and>
     (\<forall>key. \<not> chunk_key E key \<longrightarrow> view (cs_backend cs') key = view (cs_backend cs) key)"

definition safe :: "'b block_env \<Rightarrow> (hash \<Rightarrow> bytes) \<Rightarrow> ('b \<Rightarrow> string \<Rightarrow> bytes option) \<Rightarrow> 'b chunk_store \<Rightarrow> 'b chunk_store \<Rightarrow> bool" where
  "safe E C view base cs \<longleftrightarrow> store_ok E C view cs \<and> grows E view base cs"

lemma grows_refl [simp]: "grows E view cs cs"
  by (simp add: grows_def)

lemma grows_trans: "grows E view a b \<Longrightarrow> grows E view b c \<Longrightarrow> grows E view a c"
  by (simp add: grows_def)

lemma safe_held: "safe E C view base cs \<Longrightarrow> held E view base h \<Longrightarrow> held E view cs h"
  by (simp add: safe_def grows_def)

lemma dot_not_hex: "CHR ''.'' \<notin> set (hex_bytes bs)"
proof -
  have "n < 16 \<Longrightarrow> hex_digit n \<noteq> CHR ''.''" for n
    by (drule less_16_cases) (auto simp: hex_digit_def)
  then have "CHR ''.'' \<notin> set (hex_fixed w n)" for w n
    by (induction w arbitrary: n) (auto, metis mod_less_divisor zero_less_numeral)
  then show ?thesis by (auto simp: hex_bytes_def)
qed

lemma temp_not_local: "hex_ok (bk_deps E) \<Longrightarrow> temp_path E h \<noteq> local_path E h'"
  using dot_not_hex [of h'] by (auto simp: hex_ok_def temp_path_def local_path_def) (metis list.set_intros(1))

lemma local_path_inj: "hex_ok (bk_deps E) \<Longrightarrow> local_path E h = local_path E h' \<longleftrightarrow> h = h'"
  by (simp add: hex_ok_def local_path_def)

lemma chunk_key_inj: "hex_ok D \<Longrightarrow> chunk_object_key D h = chunk_object_key D h' \<longleftrightarrow> h = h'"
  by (simp add: hex_ok_def chunk_object_key_def)

text \<open>Steps that leave every chunk file and the backend as they are.\<close>

lemma safe_same:
  assumes "safe E C view base cs" "cs_backend cs' = cs_backend cs" "cs_durable cs' = cs_durable cs"
    "\<And>h. local_body E cs' h = local_body E cs h"
  shows "safe E C view base cs'"
  using assms by (simp add: safe_def store_ok_def grows_def held_def remote_body_def)

lemma safe_add_local:
  assumes "safe E C view base cs" "cs_backend cs' = cs_backend cs" "cs_durable cs' = cs_durable cs"
    "\<And>h. local_body E cs' h = (if h = g then Some (C g) else local_body E cs h)"
  shows "safe E C view base cs'"
  using assms by (simp add: safe_def store_ok_def grows_def held_def remote_body_def)

lemma write_renamed_promise:
  assumes hex: "hex_ok (bk_deps E)" and body: "C h = data"
  shows "promises (safe E C view base) (write_renamed E h data) (\<lambda>_ cs. safe E C view base cs \<and> local_body E cs h = Some data) (safe E C view base)"
proof (rule promisesI)
  fix cs u cs' assume s: "safe E C view base cs" and run: "write_renamed E h data cs = (Inr u, cs')"
  have "local_body E cs' g = (if g = h then Some (C h) else local_body E cs g)" for g
    using run body temp_not_local [OF hex, of h g] temp_not_local [OF hex, of h g, symmetric] local_path_inj [OF hex, of g h]
    by (auto simp: write_renamed_def on_nvme_def fs_write_def fs_rename_def local_body_def split: prod.splits if_splits option.splits)
  moreover have "cs_backend cs' = cs_backend cs" "cs_durable cs' = cs_durable cs"
    using run by (auto simp: write_renamed_def on_nvme_def split: prod.splits)
  ultimately show "safe E C view base cs' \<and> local_body E cs' h = Some data"
    using safe_add_local [OF s] body by simp
next
  fix cs e cs' assume s: "safe E C view base cs" and run: "write_renamed E h data cs = (Inl e, cs')"
  have "local_body E cs' g = local_body E cs g" for g
    using run temp_not_local [OF hex, of h g]
    by (auto simp: write_renamed_def await_def on_nvme_def fs_write_def fs_rename_def local_body_def split: prod.splits if_splits option.splits sum.splits)
  moreover have "cs_backend cs' = cs_backend cs" "cs_durable cs' = cs_durable cs"
    using run by (auto simp: write_renamed_def await_def on_nvme_def split: prod.splits sum.splits)
  ultimately show "safe E C view base cs'" using safe_same [OF s] by blast
qed

lemma safe_mark:
  "safe E C view base cs \<Longrightarrow> remote_body E view cs h \<noteq> None \<Longrightarrow> safe E C view base (mark_durable h cs)"
  by (auto simp: safe_def store_ok_def grows_def held_def remote_body_def local_body_def mark_durable_def)

lemma mark_bodies [simp]:
  "local_body E (mark_durable h cs) = local_body E cs" "remote_body E view (mark_durable h cs) = remote_body E view cs"
  "held E view (mark_durable h cs) = held E view cs" "cs_backend (mark_durable h cs) = cs_backend cs"
  by (auto simp: fun_eq_iff held_def remote_body_def local_body_def mark_durable_def)

lemma stage_promise [promise_intros]:
  assumes "env_ok E view" "named E C data"
  shows "promises (safe E C view base) (stage_chunk E data)
    (\<lambda>h cs. safe E C view base cs \<and> h = sha256 (bk_deps E) data \<and> held E view cs h) (safe E C view base)"
proof -
  let ?h = "sha256 (bk_deps E) data"
  have hex: "hex_ok (bk_deps E)" using assms by (simp add: env_ok_def)
  have wr: "promises (safe E C view base) (await (wrap_error (\<lambda>_. StoreIo (hex_encode (bk_deps E) ?h)) (write_renamed E ?h data)) (\<lambda>_. return (Inr ?h)))
    (\<lambda>h cs. safe E C view base cs \<and> h = ?h \<and> held E view cs h) (safe E C view base)"
    by (rule promises_await, rule promises_wrap_error, rule write_renamed_promise [OF hex])
      (use assms in \<open>auto simp: named_def held_def intro: promises_return\<close>)
  have look: "safe E C view base cs \<Longrightarrow> on_nvme (fs_try_exists (local_path E ?h)) cs = (found, cs1) \<Longrightarrow>
      safe E C view base cs1 \<and> (found = Inr True \<longrightarrow> held E view cs1 ?h)" for cs found cs1
    using safe_same [of E C view base cs cs1]
    by (auto simp: on_nvme_def fs_try_exists_def local_body_def held_def split: if_splits)
  have run: "safe E C view base cs \<Longrightarrow> stage_chunk E data cs = (r, cs') \<Longrightarrow>
      (\<exists>cs1. safe E C view base cs1 \<and>
        await (wrap_error (\<lambda>_. StoreIo (hex_encode (bk_deps E) ?h)) (write_renamed E ?h data)) (\<lambda>_. return (Inr ?h)) cs1 = (r, cs')) \<or>
      r = Inr ?h \<and> safe E C view base cs' \<and> held E view cs' ?h" for cs r cs'
    using look [of cs] by (auto simp: stage_chunk_def Let_def split: prod.splits if_splits)
  show ?thesis
  proof (rule promisesI)
    fix cs h cs' assume "safe E C view base cs" "stage_chunk E data cs = (Inr h, cs')"
    from run [OF this] show "safe E C view base cs' \<and> h = ?h \<and> held E view cs' h"
      using promisesD [OF wr] by blast
  next
    fix cs e cs' assume "safe E C view base cs" "stage_chunk E data cs = (Inl e, cs')"
    from run [OF this] show "safe E C view base cs'"
      using promises_failD [OF wr] by blast
  qed
qed

text \<open>Reads of the backend, and an upload of a chunk body.\<close>

lemma safe_view:
  assumes "safe E C view base cs" "view (cs_backend cs') = view (cs_backend cs)" "cs_nvme cs' = cs_nvme cs" "cs_durable cs' = cs_durable cs"
  shows "safe E C view base cs'"
  using assms by (simp add: safe_def store_ok_def grows_def held_def remote_body_def local_body_def)

lemma on_backend_run: "on_backend m cs = (r, cs') \<longleftrightarrow> (\<exists>b. m (cs_backend cs) = (r, b) \<and> cs' = cs\<lparr>cs_backend := b\<rparr>)"
  by (auto simp: on_backend_def split: prod.splits)

lemma backend_get_promise:
  assumes "env_ok E view"
  shows "promises (safe E C view base) (on_backend (be_get (bk_backend E) key)) (\<lambda>found cs. safe E C view base cs \<and> found = view (cs_backend cs) key) (safe E C view base)"
proof -
  have B: "durable_backend (bk_backend E) view" using assms by (simp add: env_ok_def)
  show ?thesis
  proof (rule promisesI)
    fix cs found cs' assume s: "safe E C view base cs" and "on_backend (be_get (bk_backend E) key) cs = (Inr found, cs')"
    then obtain b where b: "be_get (bk_backend E) key (cs_backend cs) = (Inr found, b)" "cs' = cs\<lparr>cs_backend := b\<rparr>"
      by (auto simp: on_backend_run)
    then show "safe E C view base cs' \<and> found = view (cs_backend cs') key"
      using safe_view [OF s, of cs'] durable_backend.get_effect [OF B b(1)] durable_backend.get_found [OF B b(1)] by simp
  next
    fix cs e cs' assume s: "safe E C view base cs" and "on_backend (be_get (bk_backend E) key) cs = (Inl e, cs')"
    then obtain b where b: "be_get (bk_backend E) key (cs_backend cs) = (Inl e, b)" "cs' = cs\<lparr>cs_backend := b\<rparr>"
      by (auto simp: on_backend_run)
    then show "safe E C view base cs'" using safe_view [OF s, of cs'] durable_backend.get_effect [OF B b(1)] by simp
  qed
qed

lemma backend_exists_promise:
  assumes "env_ok E view"
  shows "promises (safe E C view base) (on_backend (be_exists (bk_backend E) key))
    (\<lambda>found cs. safe E C view base cs \<and> (found \<longleftrightarrow> view (cs_backend cs) key \<noteq> None)) (safe E C view base)"
proof -
  have B: "durable_backend (bk_backend E) view" using assms by (simp add: env_ok_def)
  show ?thesis
  proof (rule promisesI)
    fix cs found cs' assume s: "safe E C view base cs" and "on_backend (be_exists (bk_backend E) key) cs = (Inr found, cs')"
    then obtain b where b: "be_exists (bk_backend E) key (cs_backend cs) = (Inr found, b)" "cs' = cs\<lparr>cs_backend := b\<rparr>"
      by (auto simp: on_backend_run)
    then show "safe E C view base cs' \<and> (found \<longleftrightarrow> view (cs_backend cs') key \<noteq> None)"
      using safe_view [OF s, of cs'] durable_backend.exists_effect [OF B b(1)] durable_backend.exists_found [OF B b(1)] by simp
  next
    fix cs e cs' assume s: "safe E C view base cs" and "on_backend (be_exists (bk_backend E) key) cs = (Inl e, cs')"
    then obtain b where b: "be_exists (bk_backend E) key (cs_backend cs) = (Inl e, b)" "cs' = cs\<lparr>cs_backend := b\<rparr>"
      by (auto simp: on_backend_run)
    then show "safe E C view base cs'" using safe_view [OF s, of cs'] durable_backend.exists_effect [OF B b(1)] by simp
  qed
qed

lemma safe_put_chunk:
  assumes env: "env_ok E view" and s: "safe E C view base cs"
    and v: "view b = view (cs_backend cs) \<or> view b = (view (cs_backend cs))(chunk_object_key (bk_deps E) h \<mapsto> C h)"
  shows "safe E C view base (cs\<lparr>cs_backend := b\<rparr>)"
  using v
proof
  assume "view b = view (cs_backend cs)"
  then show ?thesis by (intro safe_view [OF s]) auto
next
  assume v: "view b = (view (cs_backend cs))(chunk_object_key (bk_deps E) h \<mapsto> C h)"
  have "hex_ok (bk_deps E)" using env by (simp add: env_ok_def)
  then have r: "remote_body E view (cs\<lparr>cs_backend := b\<rparr>) g = (if g = h then Some (C h) else remote_body E view cs g)" for g
    by (auto simp: remote_body_def v chunk_key_inj)
  have l: "local_body E (cs\<lparr>cs_backend := b\<rparr>) g = local_body E cs g" for g by (simp add: local_body_def)
  have "\<not> chunk_key E key \<Longrightarrow> view b key = view (cs_backend cs) key" for key
    by (auto simp: v chunk_key_def)
  then show ?thesis using s by (auto simp: safe_def store_ok_def grows_def held_def r l)
qed

lemma backend_put_promise:
  assumes env: "env_ok E view"
  shows "promises (safe E C view base) (on_backend (be_put (bk_backend E) (chunk_object_key (bk_deps E) h) (C h)))
    (\<lambda>_ cs. safe E C view base cs \<and> remote_body E view cs h \<noteq> None) (safe E C view base)"
proof -
  have B: "durable_backend (bk_backend E) view" using env by (simp add: env_ok_def)
  show ?thesis
  proof (rule promisesI)
    fix cs u cs' assume s: "safe E C view base cs"
      and "on_backend (be_put (bk_backend E) (chunk_object_key (bk_deps E) h) (C h)) cs = (Inr u, cs')"
    then obtain b where b: "be_put (bk_backend E) (chunk_object_key (bk_deps E) h) (C h) (cs_backend cs) = (Inr u, b)" "cs' = cs\<lparr>cs_backend := b\<rparr>"
      by (auto simp: on_backend_run)
    then show "safe E C view base cs' \<and> remote_body E view cs' h \<noteq> None"
      using safe_put_chunk [OF env s, of b h] durable_backend.put_durable [OF B b(1)] by (simp add: remote_body_def)
  next
    fix cs e cs' assume s: "safe E C view base cs"
      and "on_backend (be_put (bk_backend E) (chunk_object_key (bk_deps E) h) (C h)) cs = (Inl e, cs')"
    then obtain b where b: "be_put (bk_backend E) (chunk_object_key (bk_deps E) h) (C h) (cs_backend cs) = (Inl e, b)" "cs' = cs\<lparr>cs_backend := b\<rparr>"
      by (auto simp: on_backend_run)
    then show "safe E C view base cs'"
      using safe_put_chunk [OF env s, of b h] durable_backend.put_effect [OF B b(1)] by simp
  qed
qed

subsection \<open>The operations of the chunk store\<close>

lemma safe_remote: "safe E C view base cs \<Longrightarrow> remote_body E view cs h = Some data \<Longrightarrow> data = C h"
  by (simp add: safe_def store_ok_def)

lemma safe_local: "safe E C view base cs \<Longrightarrow> local_body E cs h = Some data \<Longrightarrow> data = C h"
  by (simp add: safe_def store_ok_def)

lemma write_renamed_safe:
  assumes "hex_ok (bk_deps E)" "safe E C view base cs" "C h = data"
  shows "safe E C view base (snd (write_renamed E h data cs))"
    and "remote_body E view (snd (write_renamed E h data cs)) = remote_body E view cs"
proof -
  obtain r cs' where run: "write_renamed E h data cs = (r, cs')" by fastforce
  show "safe E C view base (snd (write_renamed E h data cs))"
    using promisesD [OF write_renamed_promise [of E C h data view base, OF assms(1,3)] assms(2)]
      promises_failD [OF write_renamed_promise [of E C h data view base, OF assms(1,3)] assms(2)] run
    by (cases r) auto
  show "remote_body E view (snd (write_renamed E h data cs)) = remote_body E view cs"
    by (auto simp: write_renamed_def await_def on_nvme_def remote_body_def fun_eq_iff split: prod.splits sum.splits)
qed

lemma fill_promise:
  assumes env: "env_ok E view"
  shows "promises (safe E C view base) (fill_from_backend E h) (\<lambda>data cs. safe E C view base cs \<and> data = C h) (safe E C view base)"
  unfolding fill_from_backend_def
proof (rule promises_await, rule promises_wrap_error, rule backend_get_promise [OF env])
  have hex: "hex_ok (bk_deps E)" using env by (simp add: env_ok_def)
  fix found
  show "promises (\<lambda>cs. safe E C view base cs \<and> found = view (cs_backend cs) (chunk_object_key (bk_deps E) h))
     (\<lambda>cs. case found of None \<Rightarrow> (Inl (MissingChunk (hex_encode (bk_deps E) h)), cs)
        | Some data \<Rightarrow> (Inr data, mark_durable h (snd (write_renamed E h data cs))))
     (\<lambda>data cs. safe E C view base cs \<and> data = C h) (safe E C view base)"
  proof (cases found)
    case (Some data)
    have "safe E C view base (mark_durable h (snd (write_renamed E h data cs))) \<and> data = C h"
      if s: "safe E C view base cs" "Some data = view (cs_backend cs) (chunk_object_key (bk_deps E) h)" for cs
    proof -
      have r: "remote_body E view cs h = Some data" using s(2) by (simp add: remote_body_def)
      then have d: "C h = data" using safe_remote [OF s(1)] by simp
      show ?thesis
        using safe_mark [OF write_renamed_safe(1) [OF hex s(1) d], of h] write_renamed_safe(2) [OF hex s(1) d] r d by simp
    qed
    then show ?thesis unfolding Some option.case by (intro promisesI) auto
  qed (auto intro: promisesI)
qed

lemma nvme_read:
  assumes "on_nvme (fs_read (local_path E h)) cs = (r, cs1)" "safe E C view base cs"
  shows "safe E C view base cs1" and "r = Inr data \<Longrightarrow> data = C h"
  using assms safe_same [OF assms(2), of cs1] safe_local [OF assms(2), of h]
  by (auto simp: on_nvme_def fs_read_def local_body_def split: if_splits)

lemma read_chunk_promise [promise_intros]:
  assumes env: "env_ok E view"
  shows "promises (safe E C view base) (read_chunk E h) (\<lambda>data cs. safe E C view base cs \<and> data = C h) (safe E C view base)"
proof -
  note fill = fill_promise [OF env, of C base h]
  have "case r of Inl _ \<Rightarrow> safe E C view base cs' | Inr data \<Rightarrow> safe E C view base cs' \<and> data = C h"
    if s: "safe E C view base cs" and run: "read_chunk E h cs = (r, cs')" for cs r cs'
  proof (cases "on_nvme (fs_read (local_path E h)) cs")
    case (Pair found cs1)
    note disk = nvme_read [OF Pair s]
    show ?thesis
    proof (cases "found = Inl IoNotFound")
      case True
      then have "fill_from_backend E h cs1 = (r, cs')" using run Pair by (simp add: read_chunk_def)
      then show ?thesis using promisesD [OF fill disk(1)] promises_failD [OF fill disk(1)] by (cases r) auto
    next
      case False
      then show ?thesis
        using run Pair disk by (cases found) (auto simp: read_chunk_def split: io_error.splits)
    qed
  qed
  then show ?thesis unfolding promises_def by blast
qed

lemma read_local_promise: "promises (safe E C view base) (read_local E h) (\<lambda>data cs. safe E C view base cs \<and> data = C h) (safe E C view base)"
  unfolding read_local_def by (rule promises_wrap_error, rule promisesI) (metis nvme_read)+

lemma upload_promise:
  assumes env: "env_ok E view"
  shows "promises (safe E C view base) (upload_chunk E h) (\<lambda>_ cs. safe E C view base cs \<and> remote_body E view cs h \<noteq> None) (safe E C view base)"
  unfolding upload_chunk_def
proof (rule promises_await [OF read_local_promise])
  fix data
  show "promises (\<lambda>cs. safe E C view base cs \<and> data = C h)
     (await (wrap_error StoreBackend (on_backend (be_put (bk_backend E) (chunk_object_key (bk_deps E) h) data))) (\<lambda>_ cs. (Inr (), mark_durable h cs)))
     (\<lambda>_ cs. safe E C view base cs \<and> remote_body E view cs h \<noteq> None) (safe E C view base)"
  proof (cases "data = C h")
    case True
    note put = promises_wrap_error [OF backend_put_promise [OF env, of C base h]]
    show ?thesis
      unfolding True by (rule promises_await [OF promises_pre [OF put]]) (simp, rule promises_done, simp add: safe_mark)
  qed (simp add: promises_def)
qed

lemma ensure_chunk_promise:
  assumes env: "env_ok E view"
  shows "promises (safe E C view base) (ensure_chunk E h) (\<lambda>_ cs. safe E C view base cs \<and> remote_body E view cs h \<noteq> None) (safe E C view base)"
proof -
  have known: "safe E C view base cs \<Longrightarrow> is_known_durable h cs \<Longrightarrow> remote_body E view cs h \<noteq> None" for cs
    by (simp add: safe_def store_ok_def is_known_durable_def)
  have ask: "promises (safe E C view base)
      (await (wrap_error StoreBackend (on_backend (be_exists (bk_backend E) (chunk_object_key (bk_deps E) h))))
        (\<lambda>found cs. if found then (Inr (), mark_durable h cs) else upload_chunk E h cs))
      (\<lambda>_ cs. safe E C view base cs \<and> remote_body E view cs h \<noteq> None) (safe E C view base)"
  proof (rule promises_await, rule promises_wrap_error, rule backend_exists_promise [OF env])
    fix found
    show "promises (\<lambda>cs. safe E C view base cs \<and> (found \<longleftrightarrow> view (cs_backend cs) (chunk_object_key (bk_deps E) h) \<noteq> None))
      (\<lambda>cs. if found then (Inr (), mark_durable h cs) else upload_chunk E h cs)
      (\<lambda>_ cs. safe E C view base cs \<and> remote_body E view cs h \<noteq> None) (safe E C view base)"
    proof (rule promises_if)
      assume found
      then show "promises (\<lambda>cs. safe E C view base cs \<and> (found \<longleftrightarrow> view (cs_backend cs) (chunk_object_key (bk_deps E) h) \<noteq> None))
        (\<lambda>cs. (Inr (), mark_durable h cs)) (\<lambda>_ cs. safe E C view base cs \<and> remote_body E view cs h \<noteq> None) (safe E C view base)"
        by (intro promises_done) (simp add: safe_mark remote_body_def)
    qed (rule promises_weaken [OF upload_promise [OF env, of C base h]], auto)
  qed
  show ?thesis
  proof (rule promisesI)
    fix cs u cs' assume "safe E C view base cs" "ensure_chunk E h cs = (Inr u, cs')"
    then show "safe E C view base cs' \<and> remote_body E view cs' h \<noteq> None"
      using known [of cs] promisesD [OF ask] unfolding ensure_chunk_def by (simp split: if_splits)
  next
    fix cs e cs' assume "safe E C view base cs" "ensure_chunk E h cs = (Inl e, cs')"
    then show "safe E C view base cs'"
      using promises_failD [OF ask] unfolding ensure_chunk_def by (simp split: if_splits)
  qed
qed

lemma safe_cong_base: "safe E C view base cs \<Longrightarrow> safe E C view cs cs"
  by (simp add: safe_def)

lemma safe_trans: "safe E C view base mid \<Longrightarrow> safe E C view mid cs \<Longrightarrow> safe E C view base cs"
  using grows_trans by (auto simp: safe_def)

lemma ensure_durable_promise [promise_intros]:
  assumes env: "env_ok E view"
  shows "promises (safe E C view base) (ensure_durable E hs)
    (\<lambda>_ cs. safe E C view base cs \<and> (\<forall>h \<in> set hs. remote_body E view cs h \<noteq> None)) (safe E C view base)"
proof (induction hs arbitrary: base)
  case Nil
  show ?case by (auto intro: promises_return)
next
  case (Cons h hs)
  show ?case
    unfolding ensure_durable.simps
  proof (rule promises_await [OF ensure_chunk_promise [OF env]], rule promisesI)
    fix cs u cs' assume s: "safe E C view base cs \<and> remote_body E view cs h \<noteq> None" and run: "ensure_durable E hs cs = (Inr u, cs')"
    have "grows E view cs cs'" using promisesD [OF Cons.IH [of cs] safe_cong_base run] s by (auto simp: safe_def)
    then show "safe E C view base cs' \<and> (\<forall>h \<in> set (h # hs). remote_body E view cs' h \<noteq> None)"
      using promisesD [OF Cons.IH _ run] s by (auto simp: grows_def)
  next
    fix cs e cs' assume s: "safe E C view base cs \<and> remote_body E view cs h \<noteq> None" and run: "ensure_durable E hs cs = (Inl e, cs')"
    then show "safe E C view base cs'" using promises_failD [OF Cons.IH] by blast
  qed
qed

lemma undurable_promise [promise_intros]:
  "promises (safe E C view base) (undurable_from E seen hs)
    (\<lambda>chunks cs. safe E C view base cs \<and> (\<forall>(h, data) \<in> set chunks. data = C h) \<and>
      (\<forall>h \<in> set hs. h \<in> seen \<or> h \<in> fst ` set chunks \<or> remote_body E view cs h \<noteq> None)) (safe E C view base)"
proof (induction hs arbitrary: seen base)
  case Nil
  show ?case by (rule promisesI) auto
next
  case (Cons h hs)
  let ?Q = "\<lambda>base seen hs chunks cs. safe E C view base cs \<and> (\<forall>(h, data) \<in> set chunks. data = C h) \<and>
      (\<forall>h \<in> set hs. h \<in> seen \<or> h \<in> fst ` set chunks \<or> remote_body E view cs h \<noteq> None)"
  have rest: "promises (\<lambda>cs. safe E C view base cs \<and> data = C h)
      (await (undurable_from E (insert h seen) hs) (\<lambda>rest. return (Inr ((h, data) # rest)))) (?Q base seen (h # hs)) (safe E C view base)" for data
  proof (rule promises_await [OF promises_pre [OF promises_conj [OF Cons.IH [of base "insert h seen"], of "\<lambda>_. data = C h"]]])
    show "promises (\<lambda>cs. ?Q base (insert h seen) hs chunks cs \<and> data = C h) (return (Inr ((h, data) # chunks))) (?Q base seen (h # hs)) (safe E C view base)" for chunks
      by (rule promises_return) auto
  qed auto
  have fetch: "promises (safe E C view base)
      (await (read_local E h) (\<lambda>data. await (undurable_from E (insert h seen) hs) (\<lambda>rest. return (Inr ((h, data) # rest)))))
      (?Q base seen (h # hs)) (safe E C view base)"
    by (rule promises_await [OF read_local_promise rest])
  show ?case
  proof (rule promisesI)
    fix cs chunks cs' assume s: "safe E C view base cs" and run: "undurable_from E seen (h # hs) cs = (Inr chunks, cs')"
    show "?Q base seen (h # hs) chunks cs'"
    proof (cases "is_known_durable h cs \<or> h \<in> seen")
      case True
      then have run': "undurable_from E seen hs cs = (Inr chunks, cs')" using run by (auto split: if_splits)
      have "grows E view cs cs'" using promisesD [OF Cons.IH [of cs seen] safe_cong_base [OF s] run'] by (simp add: safe_def)
      moreover have "is_known_durable h cs \<Longrightarrow> remote_body E view cs h \<noteq> None"
        using s by (simp add: safe_def store_ok_def is_known_durable_def)
      ultimately show ?thesis
        using True promisesD [OF Cons.IH [of base seen] s run'] unfolding grows_def by auto
    next
      case False
      then show ?thesis using promisesD [OF fetch s] run by simp
    qed
  next
    fix cs e cs' assume s: "safe E C view base cs" and run: "undurable_from E seen (h # hs) cs = (Inl e, cs')"
    then show "safe E C view base cs'"
      using promises_failD [OF fetch s] promises_failD [OF Cons.IH [of base seen] s] by (simp split: if_splits)
  qed
qed

subsection \<open>Commits and loads of a manifest\<close>

text \<open>The manifest that a reader of the objects finds.\<close>

definition latest_of :: "'b block_env \<Rightarrow> string \<Rightarrow> (string \<Rightarrow> bytes option) \<Rightarrow> manifest_error + manifest option" where
  "latest_of E device_id objects =
     (case objects (latest_key device_id) of
        None \<Rightarrow> Inr None
      | Some pointer \<Rightarrow>
          (case parse_version pointer of
             None \<Rightarrow> Inl (MissingVersion device_id 0)
           | Some version \<Rightarrow>
               (case objects (version_key device_id version) of
                  None \<Rightarrow> Inl (MissingVersion device_id version)
                | Some body \<Rightarrow> map_err (ManifestDecode (version_key device_id version)) (map_sum (\<lambda>e. e) Some (bk_from_json E body)))))"

lemma load_latest_run:
  assumes env: "env_ok E view" and run: "load_latest E device_id b = (r, b')"
  shows "view b' = view b" and "r = Inr found \<Longrightarrow> latest_of E device_id (view b) = Inr found"
proof -
  have B: "durable_backend (bk_backend E) view" using env by (simp add: env_ok_def)
  have g: "be_get (bk_backend E) key b = (r, b') \<Longrightarrow> view b' = view b" for key b r b'
    by (rule durable_backend.get_effect [OF B])
  show "view b' = view b"
    using run g
    by (auto simp: load_latest_def await_def wrap_error_def return_def split: prod.splits sum.splits option.splits)
  assume "r = Inr found"
  with run obtain pointer b1 where p: "be_get (bk_backend E) (latest_key device_id) b = (Inr pointer, b1)"
    and rest: "(case pointer of None \<Rightarrow> return (Inr None) | Some bs \<Rightarrow>
        (case parse_version bs of None \<Rightarrow> return (Inl (MissingVersion device_id 0))
         | Some version \<Rightarrow> await (wrap_error ManifestBackend (be_get (bk_backend E) (version_key device_id version)))
             (\<lambda>body. case body of None \<Rightarrow> return (Inl (MissingVersion device_id version))
              | Some bs \<Rightarrow> return (map_err (ManifestDecode (version_key device_id version)) (map_sum (\<lambda>e. e) Some (bk_from_json E bs)))))) b1 = (Inr found, b')"
    unfolding load_latest_def by auto
  note at = durable_backend.get_found [OF B p] g [OF p]
  show "latest_of E device_id (view b) = Inr found"
  proof (cases pointer)
    case None
    then show ?thesis using rest at by (simp add: latest_of_def)
  next
    case (Some bs)
    then obtain version where version: "parse_version bs = Some version" using rest by (cases "parse_version bs") auto
    with Some rest obtain body where "be_get (bk_backend E) (version_key device_id version) b1 = (Inr (Some body), b')"
        "map_sum (\<lambda>e. e) Some (bk_from_json E body) = Inr found"
      by (auto split: option.splits)
    moreover from this have "view b (version_key device_id version) = Some body"
      using durable_backend.get_found [OF B] at by metis
    ultimately show ?thesis using Some version at by (auto simp: latest_of_def)
  qed
qed

text \<open>The pointer text parses back to its version.\<close>

definition digit_bytes :: "byte list" where
  "digit_bytes = [48, 49, 50, 51, 52, 53, 54, 55, 56, 57]"

definition never_digit :: "bytes list \<Rightarrow> bool" where
  "never_digit ws = list_all (\<lambda>w. w \<noteq> [] \<and> hd w \<notin> set digit_bytes) ws"

lemma white_never_digit: "never_digit white_space" "never_digit (map rev white_space)"
  by code_simp+

lemma strip_digits:
  assumes "never_digit ws" "set bs \<subseteq> set digit_bytes"
  shows "strip_leading n ws bs = bs"
proof -
  have "take (length w) bs \<noteq> w" if "w \<in> set ws" for w
    using assms that by (cases w; cases bs) (auto simp: never_digit_def list_all_iff)
  then have "find (\<lambda>w. take (length w) bs = w) ws = None" by (simp add: find_None_iff)
  then show ?thesis by (cases n) simp_all
qed

lemma dec_string_digits: "set (as_bytes (dec_string n)) \<subseteq> set digit_bytes"
proof (induction n rule: dec_string.induct)
  case (1 n)
  have "word_of_nat (of_char (hex_digit d)) \<in> set digit_bytes" if "d < 10" for d
  proof -
    have "d \<in> {0, 1, 2, 3, 4, 5, 6, 7, 8, 9}" using that by auto
    then show ?thesis by (auto simp: hex_digit_def digit_bytes_def)
  qed
  then show ?case using 1 dec_string.simps [of n] by (auto simp: as_bytes_def split: if_splits)
qed

lemma parse_version_dec: "n < u64_bound \<Longrightarrow> parse_version (as_bytes (dec_string n)) = Some n"
proof -
  assume n: "n < u64_bound"
  have "\<forall>b \<in> set (as_bytes (dec_string n)). b < 0x80"
    using dec_string_digits [of n] by (auto simp: digit_bytes_def)
  then have "is_str (dec_string n)" by (simp add: is_str_def ascii_is_str)
  moreover have "trim_bytes (as_bytes (dec_string n)) = as_bytes (dec_string n)"
    using strip_digits [OF white_never_digit(1)] strip_digits [OF white_never_digit(2)] dec_string_digits [of n]
    by (simp add: trim_bytes_def Let_def)
  moreover have "from_str_usize (dec_string n) = Some n"
    using parse_decimal_dec_string [OF n] dec_string_plain [of "hd (dec_string n)" n] dec_string_nonempty [of n]
    by (cases "dec_string n") (auto simp: from_str_usize_def)
  ultimately show ?thesis by (simp add: parse_version_def)
qed

lemma parse_decimal_bound: "parse_decimal a s = Some n \<Longrightarrow> a < u64_bound \<Longrightarrow> n < u64_bound"
  by (induction a s rule: parse_decimal.induct) (auto split: option.splits if_splits)

lemma from_str_usize_bound: "from_str_usize s = Some n \<Longrightarrow> n < u64_bound"
  using parse_decimal_bound [of 0] by (auto simp: from_str_usize_def simp del: parse_decimal.simps split: list.splits if_splits)

lemma parse_version_bound:
  assumes "parse_version p = Some n"
  shows "n < u64_bound"
proof -
  obtain s where "from_str_usize s = Some n" using assms unfolding parse_version_def bind_eq_Some_conv by blast
  then show ?thesis by (rule from_str_usize_bound)
qed

lemma version_key_inj: "a < u64_bound \<Longrightarrow> b < u64_bound \<Longrightarrow> version_key dev a = version_key dev b \<longleftrightarrow> a = b"
proof -
  assume a: "a < u64_bound" and b: "b < u64_bound"
  have "parse_decimal 0 (dec_padded 20 a) = Some a" "parse_decimal 0 (dec_padded 20 b) = Some b"
    using a b by (simp_all add: dec_padded_def parse_decimal_zeros parse_decimal_dec_string)
  moreover have "version_key dev a = version_key dev b \<Longrightarrow> dec_padded 20 a = dec_padded 20 b"
    by (simp only: version_key_def append_same_eq same_append_eq)
  ultimately show ?thesis by (metis option.inject)
qed

lemma version_key_not_latest: "version_key dev v \<noteq> latest_key dev"
proof
  have ends: "last (version_key dev v) = CHR ''n''" "last (latest_key dev) = CHR ''t''"
    by (simp_all add: version_key_def latest_key_def)
  assume "version_key dev v = latest_key dev"
  with ends have "CHR ''n'' = CHR ''t''" by simp
  then show False by simp
qed

lemma manifest_keys_not_chunks: "\<not> chunk_key E (version_key dev v)" "\<not> chunk_key E (latest_key dev)"
  by (auto simp: chunk_key_def chunk_object_key_def version_key_def latest_key_def)

lemma latest_put_version:
  assumes "bk_from_json E body = Inr m" "mf_version m < u64_bound"
  shows "latest_of E dev (objects(version_key dev (mf_version m) \<mapsto> body)) = latest_of E dev objects \<or>
    latest_of E dev (objects(version_key dev (mf_version m) \<mapsto> body)) = Inr (Some m)"
proof (cases "Option.bind (objects (latest_key dev)) parse_version = Some (mf_version m)")
  case True
  then show ?thesis
    using assms version_key_not_latest [of dev "mf_version m"] by (auto simp: latest_of_def bind_eq_Some_conv)
next
  case False
  then have "parse_version p = Some v \<Longrightarrow> objects (latest_key dev) = Some p \<Longrightarrow> version_key dev v \<noteq> version_key dev (mf_version m)" for p v
    using parse_version_bound version_key_inj assms(2) by auto
  then have "latest_of E dev (objects(version_key dev (mf_version m) \<mapsto> body)) = latest_of E dev objects"
    using version_key_not_latest [of dev "mf_version m"] by (auto simp: latest_of_def split: option.splits)
  then show ?thesis by blast
qed

lemma latest_put_pointer:
  assumes "bk_from_json E body = Inr m" "mf_version m < u64_bound" "objects (version_key dev (mf_version m)) = Some body"
  shows "latest_of E dev (objects(latest_key dev \<mapsto> as_bytes (dec_string (mf_version m)))) = Inr (Some m)"
  using assms version_key_not_latest by (simp add: latest_of_def parse_version_dec)

text \<open>A commit is atomic: a reader finds what it found before or the new manifest, and the new one after a success.\<close>

lemma manifest_commit_cases:
  assumes run: "manifest_commit E m b = (r, b')"
  obtains (json) e where "b' = b" "r = Inl e"
    | (version) e body where "bk_to_json E m = Inr body"
        "be_put (bk_backend E) (version_key (mf_device_id m) (mf_version m)) body b = (Inl e, b')" "r = Inl (ManifestBackend e)"
    | (pointer) body u b1 y where "bk_to_json E m = Inr body"
        "be_put (bk_backend E) (version_key (mf_device_id m) (mf_version m)) body b = (Inr u, b1)"
        "be_put (bk_backend E) (latest_key (mf_device_id m)) (as_bytes (dec_string (mf_version m))) b1 = (y, b')" "r = map_err ManifestBackend y"
proof (cases "bk_to_json E m")
  case (Inl e)
  then show ?thesis using run that(1) by (auto simp: manifest_commit_def)
next
  case (Inr body)
  obtain y b1 where put: "be_put (bk_backend E) (version_key (mf_device_id m) (mf_version m)) body b = (y, b1)" by fastforce
  show ?thesis
  proof (cases y)
    case (Inl e)
    then show ?thesis
      using run \<open>bk_to_json E m = Inr body\<close> put by (intro that(2)) (auto simp: manifest_commit_def await_def wrap_error_def)
  next
    case (Inr u)
    then show ?thesis
      using run \<open>bk_to_json E m = Inr body\<close> put that(3) [OF _ put [unfolded Inr]]
      by (auto simp: manifest_commit_def await_def wrap_error_def split: prod.splits)
  qed
qed

lemma manifest_commit_run:
  assumes env: "env_ok E view" and run: "manifest_commit E m b = (r, b')" and v: "mf_version m < u64_bound" and dev: "mf_device_id m = dev"
  shows "(\<forall>key. chunk_key E key \<longrightarrow> view b' key = view b key) \<and>
    (latest_of E dev (view b') = latest_of E dev (view b) \<or> latest_of E dev (view b') = Inr (Some m)) \<and>
    (r = Inr () \<longrightarrow> latest_of E dev (view b') = Inr (Some m))"
proof -
  have B: "durable_backend (bk_backend E) view" and J: "bk_to_json E m = Inr body \<Longrightarrow> bk_from_json E body = Inr m" for body
    using env by (auto simp: env_ok_def)
  have other: "chunk_key E key \<Longrightarrow> key \<noteq> version_key dev n \<and> key \<noteq> latest_key dev" for key n
    using manifest_keys_not_chunks [of E dev] by blast
  from run show ?thesis
  proof (cases rule: manifest_commit_cases)
    case (version e body)
    then show ?thesis
      using durable_backend.put_effect [OF B version(2)] latest_put_version [OF J [OF version(1)] v, of dev "view b"] other dev by auto
  next
    case (pointer body u b1 y)
    have b1: "view b1 = (view b)(version_key dev (mf_version m) \<mapsto> body)"
      using durable_backend.put_durable [OF B pointer(2)] dev by simp
    have old: "latest_of E dev (view b1) = latest_of E dev (view b) \<or> latest_of E dev (view b1) = Inr (Some m)"
      using latest_put_version [OF J [OF pointer(1)] v, of dev "view b"] by (simp add: b1)
    have new: "latest_of E dev ((view b1)(latest_key dev \<mapsto> as_bytes (dec_string (mf_version m)))) = Inr (Some m)"
      by (rule latest_put_pointer [OF J [OF pointer(1)] v]) (simp add: b1)
    have put: "view b' = view b1 \<or> view b' = (view b1)(latest_key dev \<mapsto> as_bytes (dec_string (mf_version m)))"
      using durable_backend.put_effect [OF B pointer(3)] dev by simp
    have "r = Inr () \<Longrightarrow> view b' = (view b1)(latest_key dev \<mapsto> as_bytes (dec_string (mf_version m)))"
      using durable_backend.put_durable [OF B, of _ _ b1 "()" b'] pointer(3,4) dev by (cases y) auto
    then show ?thesis using put old new other b1 by auto
  qed auto
qed

end
