(* ===== verification/Block_Device.thy ===== *)
theory Block_Device
  imports Block_Store
begin

section \<open>The block device\<close>

text \<open>
  \<open>crates/verglas-block/src/device.rs\<close>: a flat byte range over content-addressed chunks, with its reads,
  writes, trims and the flush that commits a manifest. One client serves a device, so the operations run one
  after the other. A slice out of range is the error \<open>DevicePanic\<close>. The flush plane of a ring is a field of the
  device: a function from the manifest and the chunks that are not yet durable.

  The lemmas show that a device refines a byte array (\<open>dev_image\<close>): a read is a slice of it and a write
  overwrites it, nothing panics, and a failed write has applied a prefix of its data. A flush is atomic, and
  what it committed is what any other host finds when it opens the device.
\<close>

subsection \<open>The device\<close>

datatype ring_error =
    RingStore store_error
  | RingBackend backend_error
  | RingManifest manifest_error
  | RingCodec string
  | RingBundle string
  | RingDrain string

datatype device_error =
    DeviceStore store_error
  | DeviceManifest manifest_error
  | DeviceRing ring_error
  | DeviceNotFound string
  | SizeMismatch string nat nat
  | DevicePanic

record 'b block_device =
  dv_device_id :: string
  dv_size_bytes :: nat
  dv_store :: "'b chunk_store"
  dv_ring :: "(string \<Rightarrow> manifest \<Rightarrow> (hash \<times> bytes) list \<Rightarrow> 'b chunk_store \<Rightarrow> (ring_error + unit) \<times> 'b chunk_store) option"
  dv_chunks :: "hash option list"
  dv_version :: nat
  dv_dirty :: bool

type_synonym 'b ring_plane = "string \<Rightarrow> manifest \<Rightarrow> (hash \<times> bytes) list \<Rightarrow> 'b chunk_store \<Rightarrow> (ring_error + unit) \<times> 'b chunk_store"

definition on_store :: "('b chunk_store \<Rightarrow> 'r \<times> 'b chunk_store) \<Rightarrow> 'b block_device \<Rightarrow> 'r \<times> 'b block_device" where
  "on_store m dev = (case m (dv_store dev) of (r, cs) \<Rightarrow> (r, dev\<lparr>dv_store := cs\<rparr>))"

definition from_manifest :: "'b block_env \<Rightarrow> 'b chunk_store \<Rightarrow> manifest \<Rightarrow> 'b ring_plane option \<Rightarrow> 'b block_device" where
  "from_manifest E cs m ring =
     \<lparr> dv_device_id = mf_device_id m, dv_size_bytes = mf_size_bytes m, dv_store = cs, dv_ring = ring,
       dv_chunks = map (\<lambda>slot. Option.bind slot (chunk_from_hex (bk_deps E))) (mf_chunks m), dv_version = mf_version m, dv_dirty = False \<rparr>"

definition ensure_inner :: "'b block_env \<Rightarrow> string \<Rightarrow> nat \<Rightarrow> 'b ring_plane option \<Rightarrow> 'b chunk_store \<Rightarrow> (device_error + 'b block_device) \<times> 'b chunk_store" where
  "ensure_inner E device_id size_bytes ring =
     await (wrap_error DeviceManifest (on_backend (load_latest E device_id)))
       (\<lambda>found. case found of
          Some m \<Rightarrow>
            if mf_size_bytes m \<noteq> size_bytes then return (Inl (SizeMismatch device_id (mf_size_bytes m) size_bytes))
            else (\<lambda>cs. (Inr (from_manifest E cs m ring), cs))
        | None \<Rightarrow>
            (let m = manifest_blank device_id size_bytes
             in await (wrap_error DeviceManifest (on_backend (manifest_commit E m))) (\<lambda>_ cs. (Inr (from_manifest E cs m ring), cs))))"

definition open_device :: "'b block_env \<Rightarrow> string \<Rightarrow> 'b ring_plane option \<Rightarrow> 'b chunk_store \<Rightarrow> (device_error + 'b block_device) \<times> 'b chunk_store" where
  "open_device E device_id ring =
     await (wrap_error DeviceManifest (on_backend (load_latest E device_id)))
       (\<lambda>found. case found of
          Some m \<Rightarrow> (\<lambda>cs. (Inr (from_manifest E cs m ring), cs))
        | None \<Rightarrow> return (Inl (DeviceNotFound device_id)))"

subsection \<open>Reads and writes\<close>

definition slot_at :: "nat \<Rightarrow> 'b block_device \<Rightarrow> hash option" where
  "slot_at index dev = (if index < length (dv_chunks dev) then dv_chunks dev ! index else None)"

definition in_range :: "chunk_span \<Rightarrow> bytes \<Rightarrow> bool" where
  "in_range span body \<longleftrightarrow> sp_start span \<le> sp_end span \<and> sp_end span \<le> length body"

fun read_spans :: "'b block_env \<Rightarrow> chunk_span list \<Rightarrow> bytes \<Rightarrow> 'b block_device \<Rightarrow> (device_error + bytes) \<times> 'b block_device" where
  "read_spans E [] out dev = (Inr out, dev)"
| "read_spans E (span # spans) out dev =
     (case slot_at (sp_index span) dev of
        Some h \<Rightarrow>
          await (wrap_error DeviceStore (on_store (read_chunk E h)))
            (\<lambda>body. if in_range span body then read_spans E spans (out @ slice (sp_start span) (sp_end span) body)
                     else return (Inl DevicePanic)) dev
      | None \<Rightarrow> read_spans E spans (out @ replicate (span_len span) 0) dev)"

text \<open>An overflow of \<open>offset + len\<close> panics: at the addition, or with the capacity that the wrapped length asks for.\<close>

definition read_at :: "'b block_env \<Rightarrow> nat \<Rightarrow> nat \<Rightarrow> 'b block_device \<Rightarrow> (device_error + bytes) \<times> 'b block_device" where
  "read_at E offset len dev =
     (if dv_size_bytes dev \<le> offset \<or> len = 0 then (Inr [], dev)
      else if u64_bound \<le> offset + len then (Inl DevicePanic, dev)
      else
        (let read_end = min (offset + len) (dv_size_bytes dev)
         in read_spans E (covering_spans offset (read_end - offset)) [] dev))"

definition chunk_buffer :: "'b block_env \<Rightarrow> chunk_span \<Rightarrow> 'b block_device \<Rightarrow> (device_error + bytes) \<times> 'b block_device" where
  "chunk_buffer E span dev =
     (case slot_at (sp_index span) dev of
        Some h \<Rightarrow> wrap_error DeviceStore (on_store (read_chunk E h)) dev
      | None \<Rightarrow> (Inr (replicate (chunk_len (sp_index span) (dv_size_bytes dev)) 0), dev))"

definition copy_into :: "chunk_span \<Rightarrow> bytes \<Rightarrow> bytes \<Rightarrow> bytes" where
  "copy_into span src buf = take (sp_start span) buf @ src @ drop (sp_end span) buf"

definition store_buffer :: "'b block_env \<Rightarrow> bytes \<Rightarrow> 'b block_device \<Rightarrow> (device_error + hash option) \<times> 'b block_device" where
  "store_buffer E buf =
     (if is_zero buf then return (Inr None)
      else await (wrap_error DeviceStore (on_store (stage_chunk E buf))) (\<lambda>h. return (Inr (Some h))))"

fun write_spans :: "'b block_env \<Rightarrow> bytes \<Rightarrow> nat \<Rightarrow> chunk_span list \<Rightarrow> 'b block_device \<Rightarrow> (device_error + unit) \<times> 'b block_device" where
  "write_spans E data cursor [] dev = (Inr (), dev)"
| "write_spans E data cursor (span # spans) dev =
     await (chunk_buffer E span)
       (\<lambda>buf. let n = span_len span
               in if in_range span buf \<and> cursor + n \<le> length data
                  then await (store_buffer E (copy_into span (slice cursor (cursor + n) data) buf))
                         (\<lambda>slot dev. write_spans E data (cursor + n) spans (dev\<lparr>dv_chunks := (dv_chunks dev)[sp_index span := slot]\<rparr>))
                  else return (Inl DevicePanic)) dev"

definition write_at :: "'b block_env \<Rightarrow> nat \<Rightarrow> bytes \<Rightarrow> 'b block_device \<Rightarrow> (device_error + unit) \<times> 'b block_device" where
  "write_at E offset data dev =
     (if dv_size_bytes dev \<le> offset \<or> data = [] then (Inr (), dev)
      else
        (let write_len = min (length data) (dv_size_bytes dev - offset)
         in await (write_spans E data 0 (covering_spans offset write_len)) (\<lambda>_ dev. (Inr (), dev\<lparr>dv_dirty := True\<rparr>)) dev))"

definition trim_at :: "'b block_env \<Rightarrow> nat \<Rightarrow> nat \<Rightarrow> 'b block_device \<Rightarrow> (device_error + unit) \<times> 'b block_device" where
  "trim_at E offset len dev =
     (if dv_size_bytes dev \<le> offset \<or> len = 0 then (Inr (), dev)
      else write_at E offset (replicate (min len (dv_size_bytes dev - offset)) 0) dev)"

subsection \<open>The flush\<close>

definition next_manifest :: "'b block_env \<Rightarrow> 'b block_device \<Rightarrow> manifest" where
  "next_manifest E dev =
     \<lparr> mf_device_id = dv_device_id dev, mf_version = dv_version dev + 1, mf_size_bytes = dv_size_bytes dev,
       mf_chunk_size_bytes = chunk_size_bytes, mf_chunks = map (map_option (hex_encode (bk_deps E))) (dv_chunks dev) \<rparr>"

text \<open>Every referenced chunk durable, then the manifest.\<close>

definition inline_barrier :: "'b block_env \<Rightarrow> hash list \<Rightarrow> manifest \<Rightarrow> 'b chunk_store \<Rightarrow> (device_error + unit) \<times> 'b chunk_store" where
  "inline_barrier E referenced m =
     await (wrap_error DeviceStore (ensure_durable E referenced)) (\<lambda>_. wrap_error DeviceManifest (on_backend (manifest_commit E m)))"

definition flush_device :: "'b block_env \<Rightarrow> 'b block_device \<Rightarrow> (device_error + nat) \<times> 'b block_device" where
  "flush_device E dev =
     (if \<not> dv_dirty dev then (Inr (dv_version dev), dev)
      else
        (let next_version = dv_version dev + 1; m = next_manifest E dev; referenced = filter_map (\<lambda>slot. slot) (dv_chunks dev)
         in await
              (on_store
                (case dv_ring dev of
                   None \<Rightarrow> inline_barrier E referenced m
                 | Some ring \<Rightarrow>
                     await (wrap_error DeviceStore (undurable_chunks E referenced))
                       (\<lambda>dirty. wrap_error DeviceRing (ring (dv_device_id dev) m dirty))))
              (\<lambda>_ dev. (Inr next_version, dev\<lparr>dv_version := next_version, dv_dirty := False\<rparr>)) dev))"

subsection \<open>Tilings\<close>

text \<open>A byte array cut into chunks.\<close>

definition tiled :: "nat \<Rightarrow> bytes list \<Rightarrow> bool" where
  "tiled sz blocks \<longleftrightarrow> length blocks = chunk_count sz \<and> (\<forall>i < length blocks. length (blocks ! i) = chunk_len i sz)"

definition overwrite :: "nat \<Rightarrow> bytes \<Rightarrow> bytes \<Rightarrow> bytes" where
  "overwrite offset data bs = take offset bs @ data @ drop (offset + length data) bs"

lemma chunk_size_pos [simp]: "0 < chunk_size_bytes"
  by (simp add: chunk_size_bytes_def)

lemma chunk_count_less: "i < chunk_count sz \<longleftrightarrow> i * chunk_size_bytes < sz"
proof -
  have "i < (sz + c - 1) div c \<longleftrightarrow> i * c < sz" if "0 < c" for c
    using that less_eq_div_iff_mult_less_eq [of c "Suc i" "sz + c - 1"] by (auto simp: Suc_le_eq)
  then show ?thesis by (simp add: chunk_count_def)
qed

lemma chunk_len_eq: "sz < u64_bound \<Longrightarrow> chunk_len i sz = min (sz - i * chunk_size_bytes) chunk_size_bytes"
  by (auto simp: chunk_len_def saturating_mul_def Let_def min_def)

lemma tiled_prefix:
  assumes "tiled sz blocks" "sz < u64_bound" "j \<le> length blocks"
  shows "length (concat (take j blocks)) = min sz (j * chunk_size_bytes)"
  using assms(3)
proof (induction j)
  case (Suc j)
  then have "j * chunk_size_bytes < sz" using assms(1) chunk_count_less [of j sz] by (simp add: tiled_def)
  moreover have "length (blocks ! j) = min (sz - j * chunk_size_bytes) chunk_size_bytes"
    using assms Suc.prems by (simp add: tiled_def chunk_len_eq)
  ultimately show ?case using Suc by (simp add: take_Suc_conv_app_nth)
qed simp

lemma tiled_length: "tiled sz blocks \<Longrightarrow> sz < u64_bound \<Longrightarrow> length (concat blocks) = sz"
proof -
  assume t: "tiled sz blocks" "sz < u64_bound"
  have "sz \<le> length blocks * chunk_size_bytes"
    using t(1) chunk_count_less [of "length blocks" sz] by (simp add: tiled_def)
  then show ?thesis using tiled_prefix [OF t, of "length blocks"] by simp
qed

lemma tiled_split:
  assumes "tiled sz blocks" "sz < u64_bound" "j < length blocks"
  obtains pre post where "concat blocks = pre @ blocks ! j @ post" "length pre = j * chunk_size_bytes"
    "\<And>x. concat (blocks[j := x]) = pre @ x @ post"
proof
  show "concat blocks = concat (take j blocks) @ blocks ! j @ concat (drop (Suc j) blocks)"
    using id_take_nth_drop [OF assms(3)] by (metis concat.simps(2) concat_append)
  have "j * chunk_size_bytes < sz" using assms(1,3) chunk_count_less [of j sz] by (simp add: tiled_def)
  then show "length (concat (take j blocks)) = j * chunk_size_bytes"
    using tiled_prefix [OF assms(1,2)] assms(3) by simp
  show "concat (blocks[j := x]) = concat (take j blocks) @ x @ concat (drop (Suc j) blocks)" for x
    using assms(3) by (simp add: upd_conv_take_nth_drop)
qed

lemma tiled_slice:
  assumes "tiled sz blocks" "sz < u64_bound" "j < length blocks" "b \<le> length (blocks ! j)"
  shows "slice (j * chunk_size_bytes + a) (j * chunk_size_bytes + b) (concat blocks) = slice a b (blocks ! j)"
proof -
  obtain pre post where split: "concat blocks = pre @ blocks ! j @ post" "length pre = j * chunk_size_bytes"
    using tiled_split [OF assms(1-3)] by blast
  show ?thesis
    unfolding split slice_shift using assms(4) by (simp add: split(2) [symmetric]) (simp add: slice_def)
qed

lemma tiled_overwrite:
  assumes "tiled sz blocks" "sz < u64_bound" "j < length blocks" "a + length d \<le> length (blocks ! j)"
  shows "overwrite (j * chunk_size_bytes + a) d (concat blocks) = concat (blocks[j := overwrite a d (blocks ! j)])"
proof -
  obtain pre post where split: "concat blocks = pre @ blocks ! j @ post" "length pre = j * chunk_size_bytes"
      "\<And>x. concat (blocks[j := x]) = pre @ x @ post"
    using tiled_split [OF assms(1-3)] by blast
  show ?thesis
    unfolding split overwrite_def using assms(4) by (simp add: split(2) [symmetric])
qed

lemma tiled_update:
  assumes "tiled sz blocks" "length x = chunk_len j sz"
  shows "tiled sz (blocks[j := x])"
proof -
  have "length (blocks[j := x] ! i) = chunk_len i sz" if "i < length blocks" for i
    using assms that by (cases "i = j") (simp_all add: tiled_def)
  then show ?thesis using assms(1) by (simp add: tiled_def)
qed

lemma length_overwrite [simp]: "offset + length d \<le> length bs \<Longrightarrow> length (overwrite offset d bs) = length bs"
  by (simp add: overwrite_def)

lemma overwrite_Nil [simp]: "overwrite offset [] bs = bs"
  by (simp add: overwrite_def)

lemma overwrite_append:
  assumes "offset + length d \<le> length bs"
  shows "overwrite (offset + length d) e (overwrite offset d bs) = overwrite offset (d @ e) bs"
proof -
  have "take (offset + length d) (take offset bs @ d @ drop (offset + length d) bs) = take offset bs @ d"
    "drop (offset + length d + length e) (take offset bs @ d @ drop (offset + length d) bs) = drop (offset + length d + length e) bs"
    using assms by (simp_all add: add.commute)
  then show ?thesis by (simp add: overwrite_def add.assoc)
qed

lemma slice_overwrite: "offset + length d \<le> length bs \<Longrightarrow> slice offset (offset + length d) (overwrite offset d bs) = d"
  by (simp add: slice_def overwrite_def)

lemma slice_before_overwrite: "b \<le> offset \<Longrightarrow> offset \<le> length bs \<Longrightarrow> slice a b (overwrite offset d bs) = slice a b bs"
  by (simp add: slice_def overwrite_def drop_take)

lemma slice_append: "a \<le> b \<Longrightarrow> b \<le> c \<Longrightarrow> slice a b bs @ slice b c bs = slice a c bs"
proof -
  assume "a \<le> b" "b \<le> c"
  then have "c - a = (b - a) + (c - b)" "drop (b - a) (drop a bs) = drop b bs" by simp_all
  then show ?thesis by (simp only: slice_def take_add)
qed

lemma slice_replicate: "b \<le> n \<Longrightarrow> slice a b (replicate n x) = replicate (b - a) x"
  by (simp add: slice_def min_def)

lemma length_slice: "b \<le> length bs \<Longrightarrow> length (slice a b bs) = b - a"
  by (simp add: slice_def)

subsection \<open>The byte array of a device\<close>

definition slot_body :: "(hash \<Rightarrow> bytes) \<Rightarrow> nat \<Rightarrow> hash option \<Rightarrow> nat \<Rightarrow> bytes" where
  "slot_body C sz slot i = (case slot of None \<Rightarrow> replicate (chunk_len i sz) 0 | Some h \<Rightarrow> C h)"

definition blocks_of :: "(hash \<Rightarrow> bytes) \<Rightarrow> nat \<Rightarrow> hash option list \<Rightarrow> bytes list" where
  "blocks_of C sz chunks = map (\<lambda>i. slot_body C sz (chunks ! i) i) [0..<length chunks]"

definition dev_image :: "(hash \<Rightarrow> bytes) \<Rightarrow> 'b block_device \<Rightarrow> bytes" where
  "dev_image C dev = concat (blocks_of C (dv_size_bytes dev) (dv_chunks dev))"

definition slots_ok :: "(hash \<Rightarrow> bytes) \<Rightarrow> nat \<Rightarrow> hash option list \<Rightarrow> (hash \<Rightarrow> bool) \<Rightarrow> bool" where
  "slots_ok C sz chunks stored \<longleftrightarrow>
     sz < u64_bound \<and> length chunks = chunk_count sz \<and>
     (\<forall>i h. i < length chunks \<longrightarrow> chunks ! i = Some h \<longrightarrow> stored h \<and> length (C h) = chunk_len i sz \<and> length h = 32)"

text \<open>Every chunk of the device is in its store, with the length of its place.\<close>

definition dev_ok :: "'b block_env \<Rightarrow> (hash \<Rightarrow> bytes) \<Rightarrow> ('b \<Rightarrow> string \<Rightarrow> bytes option) \<Rightarrow> 'b block_device \<Rightarrow> bool" where
  "dev_ok E C view dev \<longleftrightarrow>
     store_ok E C view (dv_store dev) \<and> slots_ok C (dv_size_bytes dev) (dv_chunks dev) (held E view (dv_store dev))"

lemma blocks_tiled:
  assumes "slots_ok C sz chunks stored"
  shows "tiled sz (blocks_of C sz chunks)"
proof -
  have "length (slot_body C sz (chunks ! i) i) = chunk_len i sz" if "i < length chunks" for i
    using assms that by (cases "chunks ! i") (auto simp: slots_ok_def slot_body_def)
  then show ?thesis using assms by (simp add: tiled_def blocks_of_def slots_ok_def)
qed

lemma slots_bound: "slots_ok C sz chunks stored \<Longrightarrow> sz < u64_bound"
  by (simp add: slots_ok_def)

lemma image_length: "dev_ok E C view dev \<Longrightarrow> length (dev_image C dev) = dv_size_bytes dev"
  unfolding dev_image_def dev_ok_def using tiled_length [OF blocks_tiled slots_bound] by blast

lemma slots_mono: "slots_ok C sz chunks stored \<Longrightarrow> (\<And>h. stored h \<Longrightarrow> stored' h) \<Longrightarrow> slots_ok C sz chunks stored'"
  by (auto simp: slots_ok_def)

lemma blocks_nth: "i < length chunks \<Longrightarrow> blocks_of C sz chunks ! i = slot_body C sz (chunks ! i) i"
  by (simp add: blocks_of_def)

lemma blocks_update:
  "blocks_of C sz (chunks[i := slot]) = (if i < length chunks then (blocks_of C sz chunks)[i := slot_body C sz slot i] else blocks_of C sz chunks)"
  by (cases "i < length chunks") (auto simp: blocks_of_def nth_list_update intro!: nth_equalityI)

text \<open>Swapping the store for one that grew.\<close>

lemma dev_ok_store:
  assumes "dev_ok E C view dev" "safe E C view (dv_store dev) cs"
  shows "dev_ok E C view (dev\<lparr>dv_store := cs\<rparr>)" and "dev_image C (dev\<lparr>dv_store := cs\<rparr>) = dev_image C dev"
proof -
  have "slots_ok C (dv_size_bytes dev) (dv_chunks dev) (held E view cs)"
    using assms(1) slots_mono [of C _ _ "held E view (dv_store dev)" "held E view cs"] safe_held [OF assms(2)] by (simp add: dev_ok_def)
  then show "dev_ok E C view (dev\<lparr>dv_store := cs\<rparr>)" using assms(2) by (simp add: dev_ok_def safe_def)
  show "dev_image C (dev\<lparr>dv_store := cs\<rparr>) = dev_image C dev" by (simp add: dev_image_def)
qed

lemma dev_safe: "dev_ok E C view dev \<Longrightarrow> safe E C view (dv_store dev) (dv_store dev)"
  by (simp add: dev_ok_def safe_def)

lemma on_store_run: "on_store m dev = (r, dev') \<longleftrightarrow> (\<exists>cs. m (dv_store dev) = (r, cs) \<and> dev' = dev\<lparr>dv_store := cs\<rparr>)"
  by (auto simp: on_store_def split: prod.splits)

lemma device_read_chunk:
  assumes "env_ok E view" "dev_ok E C view dev" "wrap_error DeviceStore (on_store (read_chunk E h)) dev = (r, dev')"
  shows "\<exists>cs. dev' = dev\<lparr>dv_store := cs\<rparr> \<and> safe E C view (dv_store dev) cs" "r = Inr body \<Longrightarrow> body = C h" "r \<noteq> Inl DevicePanic"
proof -
  from assms(3) obtain x cs where cs: "read_chunk E h (dv_store dev) = (x, cs)" "dev' = dev\<lparr>dv_store := cs\<rparr>" "r = map_err DeviceStore x"
    by (auto simp: wrap_error_def on_store_def split: prod.splits)
  note contract = read_chunk_promise [OF assms(1), of C "dv_store dev" h]
  have "safe E C view (dv_store dev) cs \<and> (\<forall>body. x = Inr body \<longrightarrow> body = C h)"
    using promisesD [OF contract dev_safe [OF assms(2)]] promises_failD [OF contract dev_safe [OF assms(2)]] cs(1) by (cases x) auto
  then show "\<exists>cs. dev' = dev\<lparr>dv_store := cs\<rparr> \<and> safe E C view (dv_store dev) cs" "r = Inr body \<Longrightarrow> body = C h" "r \<noteq> Inl DevicePanic"
    using cs by (cases x; auto)+
qed

subsection \<open>Reads\<close>

lemma span_at_simps [simp]: "sp_index (span_at offset fin i) = i"
  "sp_start (span_at offset fin i) = max offset (i * chunk_size_bytes) - i * chunk_size_bytes"
  "sp_end (span_at offset fin i) = min fin (Suc i * chunk_size_bytes) - i * chunk_size_bytes"
  by (simp_all add: span_at_def Let_def add.commute)

text \<open>The part of a request that lies in one chunk.\<close>

lemma span_facts:
  assumes "offset div chunk_size_bytes \<le> i" "i \<le> (fin - 1) div chunk_size_bytes" "offset < fin" "fin \<le> sz" "sz < u64_bound"
  defines "from_byte \<equiv> max offset (i * chunk_size_bytes)" and "to_byte \<equiv> min fin (Suc i * chunk_size_bytes)"
  shows "i < chunk_count sz" "from_byte \<le> to_byte" "i * chunk_size_bytes \<le> from_byte" "to_byte - i * chunk_size_bytes \<le> chunk_len i sz"
    "to_byte = fin \<or> to_byte = max offset (Suc i * chunk_size_bytes)" "fin \<le> Suc i * chunk_size_bytes \<longleftrightarrow> i = (fin - 1) div chunk_size_bytes"
proof -
  let ?c = chunk_size_bytes
  have o: "offset < Suc i * ?c"
    using assms(1) div_less_iff_less_mult [of ?c offset "Suc i"] by simp
  have i: "i * ?c \<le> fin - 1" using assms(2) less_eq_div_iff_mult_less_eq [of ?c i "fin - 1"] by simp
  show "i < chunk_count sz" using i assms(3,4) by (simp add: chunk_count_less)
  show "from_byte \<le> to_byte" "i * ?c \<le> from_byte" "to_byte - i * ?c \<le> chunk_len i sz" "to_byte = fin \<or> to_byte = max offset (Suc i * ?c)"
    using o i assms(3-5) by (auto simp: from_byte_def to_byte_def chunk_len_eq)
  have "fin \<le> Suc i * ?c \<longleftrightarrow> (fin - 1) div ?c < Suc i"
    using assms(3) div_less_iff_less_mult [of ?c "fin - 1" "Suc i"] by auto
  then show "fin \<le> Suc i * ?c \<longleftrightarrow> i = (fin - 1) div ?c" using assms(2) by linarith
qed

lemma slot_block:
  assumes "dev_ok E C view dev" "i < chunk_count (dv_size_bytes dev)"
  shows "slot_body C (dv_size_bytes dev) (slot_at i dev) i = blocks_of C (dv_size_bytes dev) (dv_chunks dev) ! i"
    and "length (slot_body C (dv_size_bytes dev) (slot_at i dev) i) = chunk_len i (dv_size_bytes dev)"
proof -
  have i: "i < length (dv_chunks dev)" using assms by (simp add: dev_ok_def slots_ok_def)
  then show "slot_body C (dv_size_bytes dev) (slot_at i dev) i = blocks_of C (dv_size_bytes dev) (dv_chunks dev) ! i"
    by (simp add: slot_at_def blocks_nth)
  show "length (slot_body C (dv_size_bytes dev) (slot_at i dev) i) = chunk_len i (dv_size_bytes dev)"
    using assms(1) i by (cases "dv_chunks dev ! i") (auto simp: slot_at_def slot_body_def dev_ok_def slots_ok_def)
qed

lemma span_slice:
  assumes ok: "dev_ok E C view dev" and i: "i < chunk_count (dv_size_bytes dev)" and ab: "i * chunk_size_bytes \<le> a" "a \<le> b"
    and b: "b - i * chunk_size_bytes \<le> chunk_len i (dv_size_bytes dev)"
  shows "slice (a - i * chunk_size_bytes) (b - i * chunk_size_bytes) (slot_body C (dv_size_bytes dev) (slot_at i dev) i) = slice a b (dev_image C dev)"
proof -
  have slots: "slots_ok C (dv_size_bytes dev) (dv_chunks dev) (held E view (dv_store dev))" using ok by (simp add: dev_ok_def)
  have "i < length (blocks_of C (dv_size_bytes dev) (dv_chunks dev))" using i slots by (simp add: blocks_of_def slots_ok_def)
  from tiled_slice [OF blocks_tiled [OF slots] slots_bound [OF slots] this, of "b - i * chunk_size_bytes" "a - i * chunk_size_bytes"]
  show ?thesis using ab b slot_block [OF ok i] by (simp add: dev_image_def)
qed

lemma slice_advance:
  assumes "a \<le> b" "b = fin \<or> b = max offset c" "b \<le> fin" "b \<le> max offset c"
  shows "slice a b bs @ slice (max offset c) fin bs = slice a fin bs"
proof (cases "b = max offset c")
  case True
  then show ?thesis using slice_append [of a b fin bs] assms by simp
next
  case False
  then have "b = fin" "fin \<le> max offset c" using assms by auto
  then show ?thesis by (simp add: slice_def)
qed

lemma slot_at_store [simp]: "slot_at i (dev\<lparr>dv_store := cs\<rparr>) = slot_at i dev"
  by (simp add: slot_at_def)

definition read_done :: "'b block_env \<Rightarrow> (hash \<Rightarrow> bytes) \<Rightarrow> ('b \<Rightarrow> string \<Rightarrow> bytes option) \<Rightarrow> 'b block_device \<Rightarrow> bytes \<Rightarrow> device_error + bytes \<Rightarrow> 'b block_device \<Rightarrow> bool" where
  "read_done E C view dev bs r dev' \<longleftrightarrow>
     (\<exists>cs. dev' = dev\<lparr>dv_store := cs\<rparr> \<and> safe E C view (dv_store dev) cs) \<and> r \<noteq> Inl DevicePanic \<and> (\<forall>found. r = Inr found \<longrightarrow> found = bs)"

lemma read_done_step:
  assumes "safe E C view (dv_store dev) cs" "read_done E C view (dev\<lparr>dv_store := cs\<rparr>) bs r dev'"
  shows "read_done E C view dev bs r dev'"
proof -
  from assms(2) obtain cs' where cs': "dev' = dev\<lparr>dv_store := cs, dv_store := cs'\<rparr>" "safe E C view cs cs'"
    by (auto simp: read_done_def)
  have "safe E C view (dv_store dev) cs'" by (rule safe_trans [OF assms(1) cs'(2)])
  then show ?thesis using assms(2) cs'(1) by (auto simp: read_done_def)
qed

lemma read_spans_run:
  assumes env: "env_ok E view" and fin: "offset < fin"
  shows "\<lbrakk> dev_ok E C view dev; fin \<le> dv_size_bytes dev; offset div chunk_size_bytes \<le> i; i \<le> Suc ((fin - 1) div chunk_size_bytes);
      read_spans E (map (span_at offset fin) [i..<Suc ((fin - 1) div chunk_size_bytes)]) out dev = (r, dev') \<rbrakk> \<Longrightarrow>
    read_done E C view dev (out @ slice (max offset (i * chunk_size_bytes)) fin (dev_image C dev)) r dev'"
proof (induction "Suc ((fin - 1) div chunk_size_bytes) - i" arbitrary: i out dev)
  case 0
  then have i: "i = Suc ((fin - 1) div chunk_size_bytes)" by simp
  then have "fin - 1 < i * chunk_size_bytes" using div_less_iff_less_mult [of chunk_size_bytes "fin - 1" i] by simp
  then have "slice (max offset (i * chunk_size_bytes)) fin (dev_image C dev) = []" by (simp add: slice_def)
  then show ?case using 0 i by (auto simp: read_done_def dev_safe intro!: exI [of _ "dv_store dev"])
next
  case (Suc n)
  let ?c = chunk_size_bytes and ?sz = "dv_size_bytes dev" and ?span = "span_at offset fin i"
  have sz: "?sz < u64_bound" using Suc.prems(1) by (simp add: dev_ok_def slots_ok_def)
  have i: "i \<le> (fin - 1) div ?c" using Suc.hyps(2) by simp
  note span = span_facts [OF Suc.prems(3) i fin Suc.prems(2) sz]
  let ?a = "max offset (i * ?c)" and ?b = "min fin (Suc i * ?c)" and ?body = "slot_body C ?sz (slot_at i dev) i"
  have body: "slice (sp_start ?span) (sp_end ?span) ?body = slice ?a ?b (dev_image C dev)"
    using span_slice [OF Suc.prems(1) span(1) span(3) span(2) span(4)] by (simp only: span_at_simps)
  have range: "in_range ?span ?body"
    unfolding in_range_def span_at_simps slot_block(2) [OF Suc.prems(1) span(1)] using span(2,4) diff_le_mono by blast
  have rest: "slice ?a ?b (dev_image C dev) @ slice (max offset (Suc i * ?c)) fin (dev_image C dev) = slice ?a fin (dev_image C dev)"
    by (rule slice_advance [OF span(2,5)]) simp_all
  have upt: "[i..<Suc ((fin - 1) div ?c)] = i # [Suc i..<Suc ((fin - 1) div ?c)]" using i by (simp add: upt_conv_Cons)
  have IH: "dev_ok E C view d \<Longrightarrow> dv_size_bytes d = ?sz \<Longrightarrow> dev_image C d = dev_image C dev \<Longrightarrow>
      read_spans E (map (span_at offset fin) [Suc i..<Suc ((fin - 1) div ?c)]) (out @ slice ?a ?b (dev_image C dev)) d = (r, dev') \<Longrightarrow>
      read_done E C view d (out @ slice ?a fin (dev_image C dev)) r dev'" for d
    using Suc.hyps(1) [of "Suc i" d "out @ slice ?a ?b (dev_image C dev)"] Suc.hyps(2) Suc.prems(2,3) i rest by simp
  have run: "read_spans E (?span # map (span_at offset fin) [Suc i..<Suc ((fin - 1) div ?c)]) out dev = (r, dev')"
    using Suc.prems(5) unfolding upt list.map .
  show ?case
  proof (cases "slot_at i dev")
    case None
    have "replicate (span_len ?span) 0 = slice (sp_start ?span) (sp_end ?span) ?body"
      using range by (simp add: None slot_body_def span_len_def in_range_def slice_replicate del: span_at_simps)
    with body have "replicate (span_len ?span) 0 = slice ?a ?b (dev_image C dev)" by (rule trans [rotated])
    then show ?thesis using IH [OF Suc.prems(1) refl refl] run by (simp add: None del: upt_Suc)
  next
    case (Some h)
    obtain x d where x: "wrap_error DeviceStore (on_store (read_chunk E h)) dev = (x, d)" by fastforce
    from device_read_chunk [OF env Suc.prems(1) x] obtain cs
      where cs: "d = dev\<lparr>dv_store := cs\<rparr>" "safe E C view (dv_store dev) cs" and found: "\<And>bs. x = Inr bs \<Longrightarrow> bs = C h" "x \<noteq> Inl DevicePanic" by blast
    show ?thesis
    proof (cases x)
      case (Inl e)
      then have "r = x" "dev' = d" using run x by (simp_all add: Some await_def del: upt_Suc)
      then show ?thesis using Inl found(2) cs by (auto simp: read_done_def)
    next
      case (Inr bs)
      then have "bs = ?body" using found(1) by (simp add: Some slot_body_def)
      then have "read_spans E (map (span_at offset fin) [Suc i..<Suc ((fin - 1) div ?c)]) (out @ slice ?a ?b (dev_image C dev)) d = (r, dev')"
        using run x body range Inr by (simp add: Some await_def del: upt_Suc)
      from IH [OF _ _ _ this] have "read_done E C view d (out @ slice ?a fin (dev_image C dev)) r dev'"
        using dev_ok_store [OF Suc.prems(1) cs(2)] cs(1) by simp
      then show ?thesis using read_done_step [OF cs(2)] cs(1) by simp
    qed
  qed
qed

lemma covering_spans_eq:
  "offset < fin \<Longrightarrow>
   covering_spans offset (fin - offset) = map (span_at offset fin) [offset div chunk_size_bytes..<Suc ((fin - 1) div chunk_size_bytes)]"
  by (simp add: covering_spans_def Let_def del: upt_Suc)

lemma first_le_last: "offset < fin \<Longrightarrow> offset div chunk_size_bytes \<le> Suc ((fin - 1) div chunk_size_bytes)"
  using div_le_mono [of offset "fin - 1" chunk_size_bytes] by (simp add: le_Suc_eq less_eq_Suc_le)

lemma read_at_run:
  assumes env: "env_ok E view" and ok: "dev_ok E C view dev" and len: "offset + len < u64_bound" and run: "read_at E offset len dev = (r, dev')"
  shows "read_done E C view dev (slice offset (offset + len) (dev_image C dev)) r dev'"
proof (cases "dv_size_bytes dev \<le> offset \<or> len = 0")
  case True
  then show ?thesis
    using run image_length [OF ok] dev_safe [OF ok] by (auto simp: read_at_def read_done_def slice_def intro!: exI [of _ "dv_store dev"])
next
  case False
  let ?fin = "min (offset + len) (dv_size_bytes dev)"
  have "offset < ?fin" using False by auto
  moreover have "read_spans E (map (span_at offset ?fin) [offset div chunk_size_bytes..<Suc ((?fin - 1) div chunk_size_bytes)]) [] dev = (r, dev')"
    using run False len covering_spans_eq [OF \<open>offset < ?fin\<close>] by (simp add: read_at_def Let_def del: upt_Suc)
  moreover note first_le_last [OF \<open>offset < ?fin\<close>]
  ultimately have "read_done E C view dev ([] @ slice (max offset (offset div chunk_size_bytes * chunk_size_bytes)) ?fin (dev_image C dev)) r dev'"
    by (intro read_spans_run [OF env]) (use ok in auto)
  moreover have "slice offset (offset + len) (dev_image C dev) = slice offset ?fin (dev_image C dev)"
    using image_length [OF ok] by (simp add: slice_def min_def)
  moreover have "max offset (offset div chunk_size_bytes * chunk_size_bytes) = offset" by (rule max_absorb1) simp
  ultimately show ?thesis by simp
qed

subsection \<open>Writes\<close>

definition chunk_of :: "nat \<Rightarrow> nat \<Rightarrow> bytes \<Rightarrow> bytes" where
  "chunk_of sz i bs = slice (i * chunk_size_bytes) (i * chunk_size_bytes + chunk_len i sz) bs"

text \<open>A slot that stands for a body.\<close>

definition stands_for :: "'b block_env \<Rightarrow> (hash \<Rightarrow> bytes) \<Rightarrow> ('b \<Rightarrow> string \<Rightarrow> bytes option) \<Rightarrow> 'b chunk_store \<Rightarrow> hash option \<Rightarrow> bytes \<Rightarrow> bool" where
  "stands_for E C view cs slot buf \<longleftrightarrow>
     (case slot of None \<Rightarrow> is_zero buf | Some h \<Rightarrow> held E view cs h \<and> C h = buf \<and> length h = 32)"

lemma zero_buffer: "is_zero buf \<Longrightarrow> buf = replicate (length buf) 0"
  by (induction buf) (auto simp: is_zero_def)

lemma set_slot:
  assumes ok: "dev_ok E C view dev" and i: "i < chunk_count (dv_size_bytes dev)" and buf: "length buf = chunk_len i (dv_size_bytes dev)"
    and slot: "stands_for E C view (dv_store dev) slot buf"
  shows "dev_ok E C view (dev\<lparr>dv_chunks := (dv_chunks dev)[i := slot]\<rparr>)"
    and "dev_image C (dev\<lparr>dv_chunks := (dv_chunks dev)[i := slot]\<rparr>) = concat ((blocks_of C (dv_size_bytes dev) (dv_chunks dev))[i := buf])"
proof -
  have l: "i < length (dv_chunks dev)" using ok i by (simp add: dev_ok_def slots_ok_def)
  have body: "slot_body C (dv_size_bytes dev) slot i = buf"
    using slot buf zero_buffer [of buf] by (auto simp: slot_body_def stands_for_def split: option.splits)
  then show "dev_image C (dev\<lparr>dv_chunks := (dv_chunks dev)[i := slot]\<rparr>) = concat ((blocks_of C (dv_size_bytes dev) (dv_chunks dev))[i := buf])"
    using l by (simp add: dev_image_def blocks_update)
  have "held E view (dv_store dev) h \<and> length (C h) = chunk_len j (dv_size_bytes dev) \<and> length h = 32"
    if "j < length (dv_chunks dev)" "(dv_chunks dev)[i := slot] ! j = Some h" for j h
  proof (cases "j = i")
    case True
    then show ?thesis using that slot buf by (simp add: stands_for_def)
  next
    case False
    then show ?thesis using that ok by (simp add: dev_ok_def slots_ok_def)
  qed
  then show "dev_ok E C view (dev\<lparr>dv_chunks := (dv_chunks dev)[i := slot]\<rparr>)"
    using ok by (simp add: dev_ok_def slots_ok_def)
qed

lemma store_buffer_run:
  assumes env: "env_ok E view" and ok: "dev_ok E C view dev" and buf: "named E C buf" and run: "store_buffer E buf dev = (x, d)"
  shows "\<exists>cs. d = dev\<lparr>dv_store := cs\<rparr> \<and> safe E C view (dv_store dev) cs \<and> x \<noteq> Inl DevicePanic \<and>
    (\<forall>slot. x = Inr slot \<longrightarrow> stands_for E C view cs slot buf)"
proof (cases "is_zero buf")
  case True
  then have "x = Inr None" "d = dev" using run by (simp_all add: store_buffer_def)
  then show ?thesis using True dev_safe [OF ok] by (auto simp: stands_for_def intro!: exI [of _ "dv_store dev"])
next
  case False
  note contract = stage_promise [OF env buf, of "dv_store dev"]
  obtain y cs where y: "stage_chunk E buf (dv_store dev) = (y, cs)" by fastforce
  have d: "d = dev\<lparr>dv_store := cs\<rparr>" "x = map_err DeviceStore (map_sum (\<lambda>e. e) Some y)"
    using run False y by (cases y; simp add: store_buffer_def await_def wrap_error_def on_store_def return_def)+
  show ?thesis
  proof (cases y)
    case (Inl e)
    then show ?thesis using d y promises_failD [OF contract dev_safe [OF ok]] by auto
  next
    case (Inr h)
    then have "safe E C view (dv_store dev) cs \<and> h = sha256 (bk_deps E) buf \<and> held E view cs h"
      using y promisesD [OF contract dev_safe [OF ok]] by blast
    moreover have "length (sha256 (bk_deps E) buf) = 32" using env by (simp add: env_ok_def digest_ok_def)
    ultimately show ?thesis using d Inr buf by (auto simp: stands_for_def named_def)
  qed
qed

lemma chunk_buffer_run:
  assumes env: "env_ok E view" and ok: "dev_ok E C view dev" and run: "chunk_buffer E span dev = (x, d)"
  shows "\<exists>cs. d = dev\<lparr>dv_store := cs\<rparr> \<and> safe E C view (dv_store dev) cs \<and> x \<noteq> Inl DevicePanic \<and>
    (\<forall>buf. x = Inr buf \<longrightarrow> buf = slot_body C (dv_size_bytes dev) (slot_at (sp_index span) dev) (sp_index span))"
proof (cases "slot_at (sp_index span) dev")
  case None
  then show ?thesis using run dev_safe [OF ok] by (auto simp: chunk_buffer_def slot_body_def intro!: exI [of _ "dv_store dev"])
next
  case (Some h)
  then have "wrap_error DeviceStore (on_store (read_chunk E h)) dev = (x, d)" using run by (simp add: chunk_buffer_def)
  from device_read_chunk [OF env ok this] show ?thesis using Some by (auto simp: slot_body_def)
qed

text \<open>What a write leaves behind: a prefix of the data is in place, all of it after a success.\<close>

definition write_done :: "'b block_env \<Rightarrow> (hash \<Rightarrow> bytes) \<Rightarrow> ('b \<Rightarrow> string \<Rightarrow> bytes option) \<Rightarrow> nat \<Rightarrow> bytes \<Rightarrow> 'b block_device \<Rightarrow> device_error + unit \<Rightarrow> 'b block_device \<Rightarrow> bool" where
  "write_done E C view offset d dev r dev' \<longleftrightarrow>
     dev_ok E C view dev' \<and> dev' = dev\<lparr>dv_store := dv_store dev', dv_chunks := dv_chunks dev'\<rparr> \<and> grows E view (dv_store dev) (dv_store dev') \<and>
     r \<noteq> Inl DevicePanic \<and>
     (\<exists>m \<le> length d. dev_image C dev' = overwrite offset (take m d) (dev_image C dev) \<and> (r = Inr () \<longrightarrow> m = length d))"

lemma write_done_fail:
  assumes "dev_ok E C view dev" "safe E C view (dv_store dev) cs" "e \<noteq> DevicePanic"
  shows "write_done E C view offset d dev (Inl e) (dev\<lparr>dv_store := cs\<rparr>)"
  using assms dev_ok_store [OF assms(1,2)] by (auto simp: write_done_def safe_def intro!: exI [of _ 0])

lemma write_done_step:
  assumes rest: "write_done E C view (offset + length d) e mid r dev'"
    and mid: "mid = dev\<lparr>dv_store := dv_store mid, dv_chunks := dv_chunks mid\<rparr>" "grows E view (dv_store dev) (dv_store mid)"
      "dev_image C mid = overwrite offset d (dev_image C dev)" "offset + length d \<le> length (dev_image C dev)"
  shows "write_done E C view offset (d @ e) dev r dev'"
proof -
  from rest obtain m where m: "m \<le> length e" "dev_image C dev' = overwrite (offset + length d) (take m e) (dev_image C mid)" "r = Inr () \<longrightarrow> m = length e"
    by (auto simp: write_done_def)
  have "dev_image C dev' = overwrite offset (take (length d + m) (d @ e)) (dev_image C dev)"
    using m(2) overwrite_append [OF mid(4)] by (simp add: mid(3))
  moreover have "dev' = mid\<lparr>dv_store := dv_store dev', dv_chunks := dv_chunks dev'\<rparr>" using rest by (simp add: write_done_def)
  then have "dev' = dev\<lparr>dv_store := dv_store dev', dv_chunks := dv_chunks dev'\<rparr>"
    using mid(1) by (metis (no_types, lifting) block_device.surjective block_device.update_convs(3,5))
  ultimately show ?thesis
    using rest m(1,3) grows_trans [OF mid(2)] unfolding write_done_def by (auto intro!: exI [of _ "length d + m"])
qed

text \<open>Storing the new body of one chunk.\<close>

lemma write_chunk:
  assumes env: "env_ok E view" and ok: "dev_ok E C view dev" and i: "i < chunk_count (dv_size_bytes dev)"
    and d: "start + length d \<le> chunk_len i (dv_size_bytes dev)"
    and buf: "buf = overwrite start d (slot_body C (dv_size_bytes dev) (slot_at i dev) i)" "named E C buf"
    and run: "store_buffer E buf dev = (x, mid)"
  shows "\<exists>cs. mid = dev\<lparr>dv_store := cs\<rparr> \<and> safe E C view (dv_store dev) cs \<and> x \<noteq> Inl DevicePanic \<and>
    (\<forall>slot. x = Inr slot \<longrightarrow> dev_ok E C view (mid\<lparr>dv_chunks := (dv_chunks mid)[i := slot]\<rparr>) \<and>
      dev_image C (mid\<lparr>dv_chunks := (dv_chunks mid)[i := slot]\<rparr>) = overwrite (i * chunk_size_bytes + start) d (dev_image C dev))"
proof -
  have slots: "slots_ok C (dv_size_bytes dev) (dv_chunks dev) (held E view (dv_store dev))" using ok by (simp add: dev_ok_def)
  have l: "i < length (blocks_of C (dv_size_bytes dev) (dv_chunks dev))" using i slots by (simp add: blocks_of_def slots_ok_def)
  have len: "length buf = chunk_len i (dv_size_bytes dev)" using d slot_block(2) [OF ok i] by (simp add: buf(1))
  have img: "concat ((blocks_of C (dv_size_bytes dev) (dv_chunks dev))[i := buf]) = overwrite (i * chunk_size_bytes + start) d (dev_image C dev)"
    using tiled_overwrite [OF blocks_tiled [OF slots] slots_bound [OF slots] l, of start d] d slot_block [OF ok i] by (simp add: dev_image_def buf(1))
  from store_buffer_run [OF env ok buf(2) run] obtain cs where cs: "mid = dev\<lparr>dv_store := cs\<rparr>" "safe E C view (dv_store dev) cs" "x \<noteq> Inl DevicePanic"
      and slot: "\<And>slot. x = Inr slot \<Longrightarrow> stands_for E C view cs slot buf" by blast
  have "dev_ok E C view (mid\<lparr>dv_chunks := (dv_chunks mid)[i := slot]\<rparr>) \<and>
      dev_image C (mid\<lparr>dv_chunks := (dv_chunks mid)[i := slot]\<rparr>) = overwrite (i * chunk_size_bytes + start) d (dev_image C dev)" if "x = Inr slot" for slot
    using set_slot [OF dev_ok_store(1) [OF ok cs(2)], of i buf slot] i len slot [OF that] img by (simp add: cs(1))
  with cs show ?thesis by blast
qed

lemma chunk_after:
  assumes "dev_ok E C view dev" "i < chunk_count (dv_size_bytes dev)" "start + length d \<le> chunk_len i (dv_size_bytes dev)"
    and next_byte: "e = [] \<or> (i * chunk_size_bytes + start + length d = Suc i * chunk_size_bytes \<and> Suc i * chunk_size_bytes \<le> dv_size_bytes dev)"
  shows "chunk_of (dv_size_bytes dev) i (overwrite (i * chunk_size_bytes + start) (d @ e) (dev_image C dev)) =
    overwrite start d (slot_body C (dv_size_bytes dev) (slot_at i dev) i)" (is "_ = ?buf")
proof -
  let ?c = chunk_size_bytes and ?sz = "dv_size_bytes dev"
  let ?blocks = "blocks_of C ?sz (dv_chunks dev)"
  have slots: "slots_ok C ?sz (dv_chunks dev) (held E view (dv_store dev))" using assms(1) by (simp add: dev_ok_def)
  have l: "i < length ?blocks" using assms(2) slots by (simp add: blocks_of_def slots_ok_def)
  have len: "length ?buf = chunk_len i ?sz" using assms(3) slot_block(2) [OF assms(1,2)] by simp
  have mid: "overwrite (i * ?c + start) d (dev_image C dev) = concat (?blocks[i := ?buf])"
    using tiled_overwrite [OF blocks_tiled [OF slots] slots_bound [OF slots] l, of start d] assms(3) slot_block [OF assms(1,2)]
    by (simp add: dev_image_def)
  have tiled: "tiled ?sz (?blocks[i := ?buf])" by (rule tiled_update [OF blocks_tiled [OF slots] len])
  have "chunk_of ?sz i (concat (?blocks[i := ?buf])) = ?buf"
    using tiled_slice [OF tiled slots_bound [OF slots], of i "chunk_len i ?sz" 0] l len by (simp add: chunk_of_def slice_def)
  moreover have "chunk_of ?sz i (overwrite (i * ?c + start) (d @ e) (dev_image C dev)) = chunk_of ?sz i (overwrite (i * ?c + start) d (dev_image C dev))"
    using next_byte
  proof
    assume n: "i * ?c + start + length d = Suc i * ?c \<and> Suc i * ?c \<le> ?sz"
    have le: "i * ?c + start + length d \<le> length (dev_image C dev)" using n image_length [OF assms(1)] by simp
    have "overwrite (i * ?c + start) (d @ e) (dev_image C dev) = overwrite (Suc i * ?c) e (overwrite (i * ?c + start) d (dev_image C dev))"
      using overwrite_append [OF le, of e] by (simp only: n)
    moreover have "length (overwrite (i * ?c + start) d (dev_image C dev)) = ?sz" using n image_length [OF assms(1)] by simp
    moreover have "i * ?c + chunk_len i ?sz \<le> Suc i * ?c" using slots_bound [OF slots] by (simp add: chunk_len_eq)
    ultimately show ?thesis using n by (simp add: chunk_of_def slice_before_overwrite)
  qed simp
  ultimately show ?thesis by (simp only: mid)
qed

definition progress_at :: "nat \<Rightarrow> nat \<Rightarrow> nat \<Rightarrow> nat" where
  "progress_at offset fin i = min fin (max offset (i * chunk_size_bytes))"

lemma progress_facts:
  assumes "offset div chunk_size_bytes \<le> i" "i \<le> (fin - 1) div chunk_size_bytes" "offset < fin" "fin \<le> sz" "sz < u64_bound"
  defines "p \<equiv> progress_at offset fin i" and "q \<equiv> progress_at offset fin (Suc i)" and "span \<equiv> span_at offset fin i"
  shows "i < chunk_count sz" "offset \<le> p" "p \<le> q" "q \<le> fin" "i * chunk_size_bytes \<le> p" "sp_start span = p - i * chunk_size_bytes"
    "sp_end span = q - i * chunk_size_bytes" "q - i * chunk_size_bytes \<le> chunk_len i sz" "q = fin \<or> q = Suc i * chunk_size_bytes"
proof -
  note span = span_facts [OF assms(1-5)]
  have o: "offset < Suc i * chunk_size_bytes"
    using assms(1) div_less_iff_less_mult [of chunk_size_bytes offset "Suc i"] by simp
  have "i * chunk_size_bytes \<le> fin - 1" using assms(2) less_eq_div_iff_mult_less_eq [of chunk_size_bytes i "fin - 1"] by simp
  with assms(3) have "max offset (i * chunk_size_bytes) \<le> fin" by simp
  then have p: "p = max offset (i * chunk_size_bytes)" unfolding p_def progress_at_def by (rule min_absorb2)
  have q: "q = min fin (Suc i * chunk_size_bytes)" using o by (simp add: q_def progress_at_def min_def max_def)
  show "i < chunk_count sz" "offset \<le> p" "p \<le> q" "i * chunk_size_bytes \<le> p" "sp_start span = p - i * chunk_size_bytes"
    "sp_end span = q - i * chunk_size_bytes" "q - i * chunk_size_bytes \<le> chunk_len i sz"
    using span by (simp_all only: p q span_def span_at_simps max.cobounded1)
  show "q \<le> fin" "q = fin \<or> q = Suc i * chunk_size_bytes" unfolding q by (simp_all add: min_def)
qed

lemma write_span_step:
  assumes env: "env_ok E view" and ok: "dev_ok E C view dev" and i: "i < chunk_count (dv_size_bytes dev)" "sp_index span = i"
    and span: "sp_start span \<le> sp_end span" "sp_end span \<le> chunk_len i (dv_size_bytes dev)" "cursor + span_len span \<le> length data"
    and buf: "named E C (overwrite (sp_start span) (slice cursor (cursor + span_len span) data) (slot_body C (dv_size_bytes dev) (slot_at i dev) i))"
    and run: "write_spans E data cursor (span # spans) dev = (r, dev')"
  shows "(\<exists>e cs. e \<noteq> DevicePanic \<and> r = Inl e \<and> dev' = dev\<lparr>dv_store := cs\<rparr> \<and> safe E C view (dv_store dev) cs) \<or>
    (\<exists>mid. write_spans E data (cursor + span_len span) spans mid = (r, dev') \<and> dev_ok E C view mid \<and>
      mid = dev\<lparr>dv_store := dv_store mid, dv_chunks := dv_chunks mid\<rparr> \<and> grows E view (dv_store dev) (dv_store mid) \<and>
      dev_image C mid = overwrite (i * chunk_size_bytes + sp_start span) (slice cursor (cursor + span_len span) data) (dev_image C dev))"
proof -
  let ?d = "slice cursor (cursor + span_len span) data" and ?body = "slot_body C (dv_size_bytes dev) (slot_at i dev) i"
  let ?buf = "overwrite (sp_start span) ?d ?body"
  have d: "sp_start span + length ?d = sp_end span" using span by (simp add: length_slice span_len_def)
  obtain x d1 where x: "chunk_buffer E span dev = (x, d1)" by fastforce
  from chunk_buffer_run [OF env ok x] obtain cs where cs: "d1 = dev\<lparr>dv_store := cs\<rparr>" "safe E C view (dv_store dev) cs" "x \<noteq> Inl DevicePanic"
      and found: "\<And>b. x = Inr b \<Longrightarrow> b = ?body" using i(2) by auto
  note ok1 = dev_ok_store [OF ok cs(2), folded cs(1)]
  show ?thesis
  proof (cases x)
    case (Inl e)
    then have "r = Inl e" "dev' = d1" using run x by (auto simp: await_def)
    then show ?thesis using cs Inl by blast
  next
    case (Inr b)
    obtain y d2 where y: "store_buffer E ?buf d1 = (y, d2)" by fastforce
    have "in_range span ?body" using span slot_block(2) [OF ok i(1)] by (simp add: in_range_def)
    moreover have "copy_into span ?d ?body = ?buf" using d by (simp add: copy_into_def overwrite_def)
    ultimately have rest: "(case y of Inl e \<Rightarrow> (Inl e, d2) | Inr slot \<Rightarrow>
        write_spans E data (cursor + span_len span) spans (d2\<lparr>dv_chunks := (dv_chunks d2)[i := slot]\<rparr>)) = (r, dev')"
      using run x y Inr found [OF Inr] span(3) i(2) by (simp add: await_def Let_def split: sum.splits)
    have "dv_size_bytes d1 = dv_size_bytes dev" "slot_at i d1 = slot_at i dev" using cs(1) by simp_all
    with write_chunk [OF env ok1(1), of i "sp_start span" ?d ?buf y d2] i(1) d span(2) buf y ok1(2) obtain cs2
      where c: "d2 = d1\<lparr>dv_store := cs2\<rparr>" "safe E C view (dv_store d1) cs2" "y \<noteq> Inl DevicePanic"
        and put: "\<And>slot. y = Inr slot \<Longrightarrow> dev_ok E C view (d2\<lparr>dv_chunks := (dv_chunks d2)[i := slot]\<rparr>) \<and>
          dev_image C (d2\<lparr>dv_chunks := (dv_chunks d2)[i := slot]\<rparr>) = overwrite (i * chunk_size_bytes + sp_start span) ?d (dev_image C dev)"
      by auto
    have s: "safe E C view (dv_store dev) cs2" using safe_trans [OF cs(2)] c(2) cs(1) by simp
    show ?thesis
    proof (cases y)
      case (Inl e)
      then show ?thesis using rest c s cs(1) by auto
    next
      case (Inr slot)
      let ?mid = "d2\<lparr>dv_chunks := (dv_chunks d2)[i := slot]\<rparr>"
      have "write_spans E data (cursor + span_len span) spans ?mid = (r, dev')" using rest Inr by simp
      moreover have "?mid = dev\<lparr>dv_store := dv_store ?mid, dv_chunks := dv_chunks ?mid\<rparr>" "grows E view (dv_store dev) (dv_store ?mid)"
        using c(1) cs(1) s by (simp_all add: safe_def)
      ultimately show ?thesis using put [OF Inr] by blast
    qed
  qed
qed

lemma write_spans_run:
  assumes env: "env_ok E view" and fin: "offset < fin" "fin - offset \<le> length data"
  shows "\<lbrakk> dev_ok E C view dev; fin \<le> dv_size_bytes dev; offset div chunk_size_bytes \<le> i; i \<le> Suc ((fin - 1) div chunk_size_bytes);
      p = progress_at offset fin i; d = slice (p - offset) (fin - offset) data;
      \<forall>j < chunk_count (dv_size_bytes dev). named E C (chunk_of (dv_size_bytes dev) j (overwrite p d (dev_image C dev)));
      write_spans E data (p - offset) (map (span_at offset fin) [i..<Suc ((fin - 1) div chunk_size_bytes)]) dev = (r, dev') \<rbrakk> \<Longrightarrow>
    write_done E C view p d dev r dev'"
proof (induction "Suc ((fin - 1) div chunk_size_bytes) - i" arbitrary: i p d dev)
  case 0
  then have i: "i = Suc ((fin - 1) div chunk_size_bytes)" by simp
  then have "fin - 1 < i * chunk_size_bytes" using div_less_iff_less_mult [of chunk_size_bytes "fin - 1" i] by simp
  then have "d = []" using 0 by (simp add: slice_def progress_at_def)
  then show ?case using 0 i by (auto simp: write_done_def)
next
  case (Suc n)
  let ?c = chunk_size_bytes and ?sz = "dv_size_bytes dev" and ?span = "span_at offset fin i"
  let ?spans = "map (span_at offset fin) [Suc i..<Suc ((fin - 1) div ?c)]" and ?q = "progress_at offset fin (Suc i)"
  let ?d = "slice (p - offset) (?q - offset) data" and ?e = "slice (?q - offset) (fin - offset) data"
  let ?body = "slot_body C ?sz (slot_at i dev) i"
  let ?buf = "overwrite (p - i * ?c) ?d ?body"
  have i: "i \<le> (fin - 1) div ?c" using Suc.hyps(2) by simp
  have sz: "?sz < u64_bound" using Suc.prems(1) by (simp add: dev_ok_def slots_ok_def)
  note at = progress_facts [OF Suc.prems(3) i fin(1) Suc.prems(2) sz, folded Suc.prems(5)]
  have upt: "[i..<Suc ((fin - 1) div ?c)] = i # [Suc i..<Suc ((fin - 1) div ?c)]" using i by (simp add: upt_conv_Cons)
  have run: "write_spans E data (p - offset) (?span # ?spans) dev = (r, dev')" using Suc.prems(8) unfolding upt list.map .
  have len: "length ?d = ?q - p" using at fin(2) by (simp add: length_slice)
  have de: "d = ?d @ ?e" using at by (simp add: Suc.prems(6) slice_append)
  have pos: "i * ?c + (p - i * ?c) = p" "p + length ?d = ?q" "p - i * ?c + length ?d \<le> chunk_len i ?sz" using at len by simp_all
  have "?e = [] \<or> (i * ?c + (p - i * ?c) + length ?d = Suc i * ?c \<and> Suc i * ?c \<le> ?sz)"
    using at(4,9) pos(1,2) Suc.prems(2) by (auto simp: slice_def)
  from chunk_after [OF Suc.prems(1) at(1) pos(3) this] have buf: "chunk_of ?sz i (overwrite p d (dev_image C dev)) = ?buf"
    by (simp only: pos(1) de [symmetric])
  then have named: "named E C ?buf" using Suc.prems(7) at(1) by metis
  have n: "p - offset + span_len ?span = ?q - offset" "?q - offset \<le> length data"
    using at fin(2) by (simp_all add: span_len_def del: span_at_simps)
  have "named E C (overwrite (sp_start ?span) (slice (p - offset) (p - offset + span_len ?span) data) ?body)"
    using named by (simp only: at(6) n(1))
  from write_span_step [OF env Suc.prems(1) at(1) _ _ _ _ this run] at n
  have "(\<exists>e cs. e \<noteq> DevicePanic \<and> r = Inl e \<and> dev' = dev\<lparr>dv_store := cs\<rparr> \<and> safe E C view (dv_store dev) cs) \<or>
    (\<exists>mid. write_spans E data (?q - offset) ?spans mid = (r, dev') \<and> dev_ok E C view mid \<and>
      mid = dev\<lparr>dv_store := dv_store mid, dv_chunks := dv_chunks mid\<rparr> \<and> grows E view (dv_store dev) (dv_store mid) \<and>
      dev_image C mid = overwrite p ?d (dev_image C dev))"
    by (simp only: span_at_simps(1) pos(1) diff_le_mono simp_thms)
  then show ?case
  proof (elim disjE exE conjE)
    fix e cs assume "e \<noteq> DevicePanic" "r = Inl e" "dev' = dev\<lparr>dv_store := cs\<rparr>" "safe E C view (dv_store dev) cs"
    then show ?thesis using write_done_fail [OF Suc.prems(1)] by simp
  next
    fix mid assume mid: "write_spans E data (?q - offset) ?spans mid = (r, dev')" "dev_ok E C view mid"
      "mid = dev\<lparr>dv_store := dv_store mid, dv_chunks := dv_chunks mid\<rparr>" "grows E view (dv_store dev) (dv_store mid)"
      "dev_image C mid = overwrite p ?d (dev_image C dev)"
    have size: "dv_size_bytes mid = ?sz" by (subst mid(3)) simp
    have fits: "p + length ?d \<le> length (dev_image C dev)" using pos(2) at(4) Suc.prems(2) image_length [OF Suc.prems(1)] by simp
    have "overwrite ?q ?e (dev_image C mid) = overwrite p d (dev_image C dev)"
      using overwrite_append [OF fits, of ?e] by (simp only: mid(5) pos(2) de [symmetric])
    with Suc.prems(7) have "\<forall>j < chunk_count (dv_size_bytes mid). named E C (chunk_of (dv_size_bytes mid) j (overwrite ?q ?e (dev_image C mid)))"
      by (simp only: size)
    then have "write_done E C view ?q ?e mid r dev'"
      using Suc.hyps(2) Suc.prems(2,3) i by (intro Suc.hyps(1) [of "Suc i", OF _ mid(2) _ _ _ refl refl _ mid(1)]) (simp_all add: size)
    then have "write_done E C view p (?d @ ?e) dev r dev'"
      by (intro write_done_step [OF _ mid(3-5) fits]) (simp only: pos(2))
    then show ?thesis using de by simp
  qed
qed

end
