(* ===== verification/Spec2Isabelle.thy ===== *)
theory Spec2Isabelle
  imports Simulated State_Properties Log_Store Durable_Properties Wal_Wire Ingress_Examples Object_Batch Block_Device
begin

text \<open>
  Verification development for the replicated core of verglas.
\<close>

end
